(* ===== verification/Prelude.thy ===== *)
theory Prelude
  imports Main "HOL-Library.Word"
begin

unbundle bit_operations_syntax

text \<open>
  Shared ground of the development: the machine integer types of the target, the
  result types that stand for Rust's \<open>Result\<close> and for panics, and the lemmas on words, lists
  and options that the component theories use again and again.

  The kernel is built for 64-bit targets in release mode (\<open>MODE ?= release\<close> in
  src/Makefile), so \<open>usize\<close> is a 64-bit word and \<open>+\<close>, \<open>-\<close>, \<open>*\<close> on it wrap around.
\<close>

section \<open>Types\<close>

type_synonym u8 = "8 word"
type_synonym u16 = "16 word"
type_synonym u32 = "32 word"
type_synonym u64 = "64 word"
type_synonym usize = "64 word"

text \<open>\<open>Result<T, E>\<close>: \<open>Inl\<close> is \<open>Err\<close> and \<open>Inr\<close> is \<open>Ok\<close>.\<close>

type_synonym ('e, 'a) result = "'e + 'a"

abbreviation Err :: "'e \<Rightarrow> ('e, 'a) result" where "Err \<equiv> Inl"
abbreviation Ok :: "'a \<Rightarrow> ('e, 'a) result" where "Ok \<equiv> Inr"

text \<open>
  A call that may panic (a failed \<open>assert!\<close>, an \<open>unwrap\<close> of nothing, an index out of
  bounds, \<open>unreachable!\<close>) returns \<open>Panic\<close>; every other call returns \<open>Ret\<close> of what the Rust
  function returns.
\<close>

datatype 'a outcome = Ret 'a | Panic

fun out_then :: "'a outcome \<Rightarrow> ('a \<Rightarrow> 'b outcome) \<Rightarrow> 'b outcome" where
  "out_then (Ret x) f = f x"
| "out_then Panic f = Panic"

text \<open>
  The operator \<open>?\<close>: go on with the value of \<open>Ok\<close>, return \<open>Err\<close> at once. \<open>try_in\<close> is the same in code
  that changes a state, which an error keeps as it is at that point.
\<close>

fun try_then :: "('e, 'a) result \<Rightarrow> ('a \<Rightarrow> ('e, 'b) result) \<Rightarrow> ('e, 'b) result" where
  "try_then (Inl e) f = Inl e"
| "try_then (Inr x) f = f x"

fun try_in :: "('e, 'a) result \<times> 's \<Rightarrow> ('a \<Rightarrow> 's \<Rightarrow> ('e, 'b) result \<times> 's) \<Rightarrow> ('e, 'b) result \<times> 's" where
  "try_in (Inl e, s) f = (Inl e, s)"
| "try_in (Inr x, s) f = f x s"

text \<open>
  Rust's \<open>is_power_of_two\<close> of an unsigned integer: exactly one bit is set.
\<close>

definition is_power_of_two :: "'a::len word \<Rightarrow> bool" where
  "is_power_of_two w = list_ex (\<lambda>n. w = 2 ^ n) [0..<LENGTH('a)]"

text \<open>
  Wrap-around of a signed 64-bit integer kept as an \<open>int\<close>: the two's complement value of
  the low 64 bits.
\<close>

definition wrap_isize :: "int \<Rightarrow> int" where
  "wrap_isize x = (x + 2 ^ 63) mod 2 ^ 64 - 2 ^ 63"

text \<open>Rust's signed division rounds towards zero.\<close>

definition quot_isize :: "int \<Rightarrow> int \<Rightarrow> int" where
  "quot_isize a b = sgn a * sgn b * (\<bar>a\<bar> div \<bar>b\<bar>)"

text \<open>
  \<open>Iterator::position\<close>: the index of the first element that satisfies the predicate. \<open>VecDeque::remove\<close> and
  \<open>Vec::remove\<close> at an index in range.
\<close>

fun position :: "('a \<Rightarrow> bool) \<Rightarrow> 'a list \<Rightarrow> nat option" where
  "position p [] = None"
| "position p (x # xs) = (if p x then Some 0 else map_option Suc (position p xs))"

definition vec_remove :: "nat \<Rightarrow> 'a list \<Rightarrow> 'a option \<times> 'a list" where
  "vec_remove i xs = (if i < length xs then (Some (xs ! i), take i xs @ drop (Suc i) xs) else (None, xs))"

named_theorems align_simps \<open>alignment arithmetic in terms of unat, div and mod\<close>
named_theorems flag_simps \<open>evaluation of flag constants and flag operations\<close>

section \<open>Words\<close>

lemma is_power_of_two_iff: "is_power_of_two (w::'a::len word) \<longleftrightarrow> (\<exists>n<LENGTH('a). w = 2 ^ n)"
  by (auto simp: is_power_of_two_def list_ex_iff)

lemma is_power_of_two_numeral_exp: "n < LENGTH('a) \<Longrightarrow> is_power_of_two (2 ^ n :: 'a::len word)"
  by (auto simp: is_power_of_two_iff)

lemma mask_exp [align_simps]: "(2 ^ n - 1 :: 'a::len word) = mask n"
  by (simp add: mask_eq_exp_minus_1)

lemma unat_and_mask [align_simps]: "unat (x AND mask n :: 'a::len word) = unat x mod 2 ^ n"
proof -
  have "x AND mask n = take_bit n x" by (simp add: take_bit_eq_mask)
  moreover have "unat (take_bit n x) = take_bit n (unat x)" by (rule unsigned_take_bit_eq)
  ultimately show ?thesis by (simp add: take_bit_nat_def)
qed

lemma and_not_mask_add: "(x AND NOT (mask n)) + (x AND mask n) = (x :: 'a::len word)"
  by (subst disjunctive_add) (auto simp: bit_simps intro!: bit_word_eqI)

lemma unat_and_not_mask [align_simps]:
  "unat (x AND NOT (mask n) :: 'a::len word) = unat x - unat x mod 2 ^ n"
proof -
  have "x AND NOT (mask n) = x - (x AND mask n)"
    by (metis and_not_mask_add add_diff_cancel_right')
  moreover have "x AND mask n \<le> x" by (rule word_and_le2)
  ultimately show ?thesis by (simp add: unat_sub unat_and_mask)
qed

lemma and_mask_eq_0_iff [align_simps]: "x AND mask n = (0 :: 'a::len word) \<longleftrightarrow> 2 ^ n dvd unat x"
  by (simp add: and_mask_dvd_nat)

lemma unat_exp: "n < LENGTH('a) \<Longrightarrow> unat (2 ^ n :: 'a::len word) = 2 ^ n"
proof (induction n)
  case (Suc n)
  have "(2::nat) ^ Suc n < 2 ^ LENGTH('a)" using Suc.prems by (rule power_strict_increasing) simp
  moreover have "unat (2 :: 'a word) = 2" using Suc.prems by (simp add: unat_numeral)
  ultimately show ?case using Suc by (simp add: unat_word_ariths)
qed simp

lemma unat_mask: "n < LENGTH('a) \<Longrightarrow> unat (mask n :: 'a::len word) = 2 ^ n - 1"
  by (simp add: mask_eq_exp_minus_1 unat_minus_one unat_exp)

lemma dvd_sub_mod: "(d::nat) dvd x - x mod d"
  by (simp add: minus_mod_eq_mult_div)

lemma greatest_multiple:
  assumes "(d::nat) dvd y" and "y \<le> x"
  shows "y \<le> x - x mod d"
proof -
  obtain k where k: "y = d * k" using assms(1) by (rule dvdE)
  have "d = 0 \<or> k \<le> x div d"
    by (metis assms(2) div_le_mono k nonzero_mult_div_cancel_left)
  then show ?thesis by (auto simp: k minus_mod_eq_mult_div)
qed

text \<open>Addition of words that does not overflow.\<close>

lemma unat_add_nowrap: "unat x + unat y < 2 ^ LENGTH('a) \<Longrightarrow> unat (x + y :: 'a::len word) = unat x + unat y"
  by (simp add: unat_add_lem [symmetric])

lemma unat_lt: "unat (w :: usize) < 2 ^ 64"
proof -
  have "unat w < 2 ^ LENGTH(64)" by (rule unsigned_less)
  then show ?thesis by simp
qed

lemma unat_of_nat_usize: "n < 2 ^ 64 \<Longrightarrow> unat (of_nat n :: usize) = n"
  by (simp add: unsigned_of_nat take_bit_nat_eq_self)

section \<open>Lists\<close>

lemma position_remove:
  "(case position (\<lambda>y. y = x) xs of None \<Rightarrow> (None, xs) | Some i \<Rightarrow> vec_remove i xs)
   = (if x \<in> set xs then (Some x, remove1 x xs) else (None, xs))"
proof (induction xs)
  case (Cons y xs)
  then show ?case
    by (cases "position (\<lambda>y. y = x) xs") (auto simp: vec_remove_def split: if_splits)
qed simp

end
