(* ===== verification/MemoryAddr.thy ===== *)
theory MemoryAddr
  imports Prelude
begin

text \<open>
  Model of the crate \<open>memory_addr\<close> (src/crates/memory_addr/src/lib.rs): the alignment
  helpers on \<open>usize\<close> and the two address newtypes \<open>PhysAddr\<close> and \<open>VirtAddr\<close> with their
  methods and operators.
\<close>

section \<open>Alignment helpers\<close>

definition PAGE_SIZE_4K :: usize where
  "PAGE_SIZE_4K = 0x1000"

definition align_down :: "usize \<Rightarrow> usize \<Rightarrow> usize" where
  "align_down addr align = addr AND NOT (align - 1)"

definition align_up :: "usize \<Rightarrow> usize \<Rightarrow> usize" where
  "align_up addr align = (addr + align - 1) AND NOT (align - 1)"

definition align_offset :: "usize \<Rightarrow> usize \<Rightarrow> usize" where
  "align_offset addr align = addr AND (align - 1)"

definition is_aligned :: "usize \<Rightarrow> usize \<Rightarrow> bool" where
  "is_aligned addr align = (align_offset addr align = 0)"

definition align_down_4k :: "usize \<Rightarrow> usize" where
  "align_down_4k addr = align_down addr PAGE_SIZE_4K"

definition align_up_4k :: "usize \<Rightarrow> usize" where
  "align_up_4k addr = align_up addr PAGE_SIZE_4K"

definition align_offset_4k :: "usize \<Rightarrow> usize" where
  "align_offset_4k addr = align_offset addr PAGE_SIZE_4K"

definition is_aligned_4k :: "usize \<Rightarrow> bool" where
  "is_aligned_4k addr = is_aligned addr PAGE_SIZE_4K"

section \<open>Address newtypes\<close>

datatype PhysAddr = PhysAddr (phys_as_usize: usize)

datatype VirtAddr = VirtAddr (virt_as_usize: usize)

definition phys_align_down :: "PhysAddr \<Rightarrow> usize \<Rightarrow> PhysAddr" where
  "phys_align_down self align = PhysAddr (align_down (phys_as_usize self) align)"

definition phys_align_up :: "PhysAddr \<Rightarrow> usize \<Rightarrow> PhysAddr" where
  "phys_align_up self align = PhysAddr (align_up (phys_as_usize self) align)"

definition phys_align_offset :: "PhysAddr \<Rightarrow> usize \<Rightarrow> usize" where
  "phys_align_offset self align = align_offset (phys_as_usize self) align"

definition phys_is_aligned :: "PhysAddr \<Rightarrow> usize \<Rightarrow> bool" where
  "phys_is_aligned self align = is_aligned (phys_as_usize self) align"

definition phys_align_down_4k :: "PhysAddr \<Rightarrow> PhysAddr" where
  "phys_align_down_4k self = phys_align_down self PAGE_SIZE_4K"

definition phys_align_up_4k :: "PhysAddr \<Rightarrow> PhysAddr" where
  "phys_align_up_4k self = phys_align_up self PAGE_SIZE_4K"

definition phys_align_offset_4k :: "PhysAddr \<Rightarrow> usize" where
  "phys_align_offset_4k self = phys_align_offset self PAGE_SIZE_4K"

definition phys_is_aligned_4k :: "PhysAddr \<Rightarrow> bool" where
  "phys_is_aligned_4k self = phys_is_aligned self PAGE_SIZE_4K"

definition virt_align_down :: "VirtAddr \<Rightarrow> usize \<Rightarrow> VirtAddr" where
  "virt_align_down self align = VirtAddr (align_down (virt_as_usize self) align)"

definition virt_align_up :: "VirtAddr \<Rightarrow> usize \<Rightarrow> VirtAddr" where
  "virt_align_up self align = VirtAddr (align_up (virt_as_usize self) align)"

definition virt_align_offset :: "VirtAddr \<Rightarrow> usize \<Rightarrow> usize" where
  "virt_align_offset self align = align_offset (virt_as_usize self) align"

definition virt_is_aligned :: "VirtAddr \<Rightarrow> usize \<Rightarrow> bool" where
  "virt_is_aligned self align = is_aligned (virt_as_usize self) align"

definition virt_align_down_4k :: "VirtAddr \<Rightarrow> VirtAddr" where
  "virt_align_down_4k self = virt_align_down self PAGE_SIZE_4K"

definition virt_align_up_4k :: "VirtAddr \<Rightarrow> VirtAddr" where
  "virt_align_up_4k self = virt_align_up self PAGE_SIZE_4K"

definition virt_align_offset_4k :: "VirtAddr \<Rightarrow> usize" where
  "virt_align_offset_4k self = virt_align_offset self PAGE_SIZE_4K"

definition virt_is_aligned_4k :: "VirtAddr \<Rightarrow> bool" where
  "virt_is_aligned_4k self = virt_is_aligned self PAGE_SIZE_4K"

text \<open>The operators \<open>+\<close>, \<open>+=\<close>, \<open>-\<close> and \<open>-=\<close> with a \<open>usize\<close> on the right.\<close>

definition phys_add :: "PhysAddr \<Rightarrow> usize \<Rightarrow> PhysAddr" where
  "phys_add self rhs = PhysAddr (phys_as_usize self + rhs)"

definition phys_sub :: "PhysAddr \<Rightarrow> usize \<Rightarrow> PhysAddr" where
  "phys_sub self rhs = PhysAddr (phys_as_usize self - rhs)"

definition virt_add :: "VirtAddr \<Rightarrow> usize \<Rightarrow> VirtAddr" where
  "virt_add self rhs = VirtAddr (virt_as_usize self + rhs)"

definition virt_sub :: "VirtAddr \<Rightarrow> usize \<Rightarrow> VirtAddr" where
  "virt_sub self rhs = VirtAddr (virt_as_usize self - rhs)"

section \<open>Alignment as arithmetic\<close>

lemma unat_align_down [align_simps]:
  "n < 64 \<Longrightarrow> unat (align_down addr (2 ^ n)) = unat addr - unat addr mod 2 ^ n"
  by (simp add: align_down_def align_simps)

lemma unat_align_offset [align_simps]:
  "n < 64 \<Longrightarrow> unat (align_offset addr (2 ^ n)) = unat addr mod 2 ^ n"
  by (simp add: align_offset_def align_simps)

lemma is_aligned_iff [align_simps]:
  "n < 64 \<Longrightarrow> is_aligned addr (2 ^ n) \<longleftrightarrow> 2 ^ n dvd unat addr"
  by (simp add: is_aligned_def align_offset_def align_simps)

lemma align_down_add_offset: "align_down addr align + align_offset addr align = addr"
proof -
  have "align_down addr align + align_offset addr align
      = (addr AND NOT (align - 1)) OR (addr AND (align - 1))"
    unfolding align_down_def align_offset_def
    by (rule disjunctive_add) (auto simp: bit_simps)
  also have "\<dots> = addr" by (auto simp: bit_simps intro!: bit_word_eqI)
  finally show ?thesis .
qed

lemma unat_align_up [align_simps]:
  assumes n: "n < 64" and fits: "unat addr + (2 ^ n - 1) < 2 ^ 64"
  shows "unat (align_up addr (2 ^ n))
    = unat addr + (2 ^ n - 1) - (unat addr + (2 ^ n - 1)) mod 2 ^ n"
proof -
  have sum: "unat (addr + mask n) = unat addr + (2 ^ n - 1)"
    using fits n by (simp add: unat_add_nowrap unat_mask)
  have eq: "addr + 2 ^ n - 1 = addr + mask n"
    by (simp add: mask_eq_exp_minus_1 algebra_simps)
  show ?thesis unfolding align_up_def eq mask_exp unat_and_not_mask sum ..
qed

text \<open>
  For a power-of-two alignment, \<open>align_down\<close> returns an aligned address not above its
  argument, no aligned address lies strictly between, and the argument is that address plus
  \<open>align_offset\<close>, which is the remainder modulo the alignment.
\<close>

lemma align_down_greatest:
  assumes "is_power_of_two align"
  shows "is_aligned (align_down addr align) align \<and> align_down addr align \<le> addr
    \<and> (is_aligned y align \<longrightarrow> y \<le> addr \<longrightarrow> y \<le> align_down addr align)
    \<and> addr = align_down addr align + align_offset addr align
    \<and> align_offset addr align = addr mod align"
proof -
  from assms obtain n where n: "n < 64" "align = 2 ^ n" by (auto simp: is_power_of_two_iff)
  have "align_offset addr align = addr mod align"
    by (rule word_unat_eq_iff [THEN iffD2]) (simp add: n align_simps unat_mod unat_exp)
  moreover have "is_aligned (align_down addr align) align" "align_down addr align \<le> addr"
    by (simp_all add: n align_simps word_le_nat_alt dvd_sub_mod)
  moreover have "is_aligned y align \<longrightarrow> y \<le> addr \<longrightarrow> y \<le> align_down addr align"
    by (simp add: n align_simps word_le_nat_alt greatest_multiple)
  moreover have "addr = align_down addr align + align_offset addr align"
    by (simp only: align_down_add_offset)
  ultimately show ?thesis by blast
qed

text \<open>
  For a power-of-two alignment and an address whose rounding does not pass the end of the
  address space, \<open>align_up\<close> returns an aligned address not below its argument, and no aligned
  address lies strictly between.
\<close>

lemma align_up_least:
  assumes "is_power_of_two align" and "unat addr + unat (align - 1) < 2 ^ 64"
  shows "is_aligned (align_up addr align) align \<and> addr \<le> align_up addr align
    \<and> (is_aligned y align \<longrightarrow> addr \<le> y \<longrightarrow> align_up addr align \<le> y)"
proof -
  from assms(1) obtain n where n: "n < 64" "align = 2 ^ n" by (auto simp: is_power_of_two_iff)
  let ?m = "(2::nat) ^ n"
  have fits: "unat addr + (?m - 1) < 2 ^ 64"
    using assms(2) n by (simp add: mask_exp unat_mask)
  have up: "unat (align_up addr align) = unat addr + (?m - 1) - (unat addr + (?m - 1)) mod ?m"
    using n fits by (simp add: unat_align_up)
  have mod_bound: "(unat addr + (?m - 1)) mod ?m \<le> ?m - 1"
  proof -
    have "0 < ?m" by simp
    from mod_less_divisor [OF this] show ?thesis by (metis Suc_pred' \<open>0 < ?m\<close> less_Suc_eq_le)
  qed
  have ge: "unat addr \<le> unat (align_up addr align)"
    unfolding up using mod_bound by linarith
  have al: "?m dvd unat (align_up addr align)" unfolding up by (rule dvd_sub_mod)
  have least: "unat (align_up addr align) \<le> unat y" if "?m dvd unat y" "unat addr \<le> unat y"
  proof (rule ccontr)
    assume "\<not> unat (align_up addr align) \<le> unat y"
    then have lt: "unat y < unat (align_up addr align)" by simp
    have "?m dvd unat (align_up addr align) - unat y" using al that(1) by (simp add: dvd_diff_nat)
    then have "?m \<le> unat (align_up addr align) - unat y" using lt by (simp add: dvd_imp_le)
    moreover have "?m > 0" by simp
    ultimately show False using that(2) lt up mod_bound by linarith
  qed
  show ?thesis using n ge least al by (auto simp: is_aligned_iff word_le_nat_alt)
qed

text \<open>
  C14: Rounding to a power of two stays in bounds. \<open>align_down\<close> gives the greatest aligned address that is not above its argument, and the
  argument is that address plus \<open>align_offset\<close>, the remainder. \<open>align_up\<close> gives the least aligned address that is not below its argument,
  unless the rounding passes the end of the address space; then it wraps around to 0.
\<close>

theorem align_bounds:
  assumes "is_power_of_two align"
  shows "is_aligned (align_down addr align) align \<and> align_down addr align \<le> addr \<and>
    (is_aligned y align \<longrightarrow> y \<le> addr \<longrightarrow> y \<le> align_down addr align) \<and>
    addr = align_down addr align + align_offset addr align \<and> align_offset addr align = addr mod align \<and>
    (if unat addr + unat (align - 1) < 2 ^ 64
     then is_aligned (align_up addr align) align \<and> addr \<le> align_up addr align \<and> (is_aligned y align \<longrightarrow> addr \<le> y \<longrightarrow> align_up addr align \<le> y)
     else align_up addr align = 0)"
proof -
  have "align_up addr align = 0" if over: "\<not> unat addr + unat (align - 1) < 2 ^ 64"
  proof -
    from assms obtain n where n: "n < 64" "align = 2 ^ n" by (auto simp: is_power_of_two_iff)
    let ?m = "unat (align - 1)"
    have m: "?m = 2 ^ n - 1" using n by (simp add: mask_exp unat_mask)
    have a: "unat addr < 2 ^ 64" "?m < 2 ^ 64" "2 ^ 64 \<le> unat addr + ?m" using unsigned_less [of addr] unsigned_less [of "align - 1"] over by simp_all
    have "unat (addr + (align - 1)) = (unat addr + ?m) mod 2 ^ 64" by (simp add: unat_word_ariths)
    also have "\<dots> = (unat addr + ?m - 2 ^ 64) mod 2 ^ 64" by (rule le_mod_geq [OF a(3)])
    also have "\<dots> \<le> unat addr + ?m - 2 ^ 64" by simp
    also have "\<dots> < 2 ^ n" using a m by linarith
    finally have "unat (addr + (align - 1)) < 2 ^ n" .
    then have "unat (align_down (addr + (align - 1)) align) = 0" unfolding n(2) by (simp only: unat_align_down [OF n(1)] mod_less diff_self_eq_0)
    then have "align_down (addr + (align - 1)) align = 0" by (simp only: unat_eq_zero)
    then show ?thesis by (simp add: align_up_def align_down_def algebra_simps)
  qed
  then have "if unat addr + unat (align - 1) < 2 ^ 64
      then is_aligned (align_up addr align) align \<and> addr \<le> align_up addr align \<and> (is_aligned y align \<longrightarrow> addr \<le> y \<longrightarrow> align_up addr align \<le> y)
      else align_up addr align = 0"
    using align_up_least [OF assms, of addr y] by (simp only: split: if_split) blast
  then show ?thesis using align_down_greatest [OF assms, of addr y] by blast
qed

theorem align_bounds_witness:
  "is_aligned (align_down 0x12345 0x1000) 0x1000 \<and> align_down 0x12345 0x1000 \<le> 0x12345 \<and> align_offset 0x12345 0x1000 = 0x12345 mod 0x1000 \<and>
    is_aligned (align_up 0x12345 0x1000) 0x1000 \<and> 0x12345 \<le> align_up 0x12345 0x1000"
proof -
  have "(0x1000 :: usize) = 2 ^ 12" by simp
  then have p: "is_power_of_two (0x1000 :: usize)" by (auto simp: is_power_of_two_iff intro!: exI [of _ 12])
  have f: "unat (0x12345 :: usize) + unat (0x1000 - 1 :: usize) < 2 ^ 64" by simp
  show ?thesis using align_bounds [OF p, of "0x12345"] f by (simp only: if_True)
qed

end
