(* ===== verification/Bitflags.thy ===== *)
theory Bitflags
  imports Prelude
begin

text \<open>
  Flag sets generated by the third-party \<open>bitflags\<close> macro. A flag set is kept as its bits; the
  operations the macro generates for one flag type are the fields of a \<open>bitflags\<close> record, which
  every definition that uses that flag type takes as an argument. What the callers rely on is
  \<open>bitflags_ok\<close>: the operations work bit by bit, and truncation keeps the declared bits.
\<close>

record 'f bitflags =
  bf_contains :: "'f \<Rightarrow> 'f \<Rightarrow> bool"
  bf_intersects :: "'f \<Rightarrow> 'f \<Rightarrow> bool"
  bf_union :: "'f \<Rightarrow> 'f \<Rightarrow> 'f"
  bf_from_bits_truncate :: "'f \<Rightarrow> 'f"
  bf_is_empty :: "'f \<Rightarrow> bool"

definition bitflags_ok :: "'w::len word \<Rightarrow> 'w word bitflags \<Rightarrow> bool" where
  "bitflags_ok all B \<longleftrightarrow>
     (\<forall>a b. bf_contains B a b = (a AND b = b)) \<and>
     (\<forall>a b. bf_intersects B a b = (a AND b \<noteq> 0)) \<and>
     (\<forall>a b. bf_union B a b = a OR b) \<and>
     (\<forall>a. bf_from_bits_truncate B a = a AND all) \<and>
     (\<forall>a. bf_is_empty B a = (a = 0))"

text \<open>The instance that computes these operations on words, for declared bits \<open>all\<close>.\<close>

definition word_bitflags :: "'w::len word \<Rightarrow> 'w word bitflags" where
  "word_bitflags all =
     \<lparr>bf_contains = (\<lambda>a b. a AND b = b),
      bf_intersects = (\<lambda>a b. a AND b \<noteq> 0),
      bf_union = (\<lambda>a b. a OR b),
      bf_from_bits_truncate = (\<lambda>a. a AND all),
      bf_is_empty = (\<lambda>a. a = 0)\<rparr>"

lemma word_bitflags_ok: "bitflags_ok all (word_bitflags all)"
  by (simp add: bitflags_ok_def word_bitflags_def)

text \<open>The laws determine the operations, so this instance stands for every lawful one.\<close>

lemma bitflags_ok_iff: "bitflags_ok all B \<longleftrightarrow> B = word_bitflags all"
proof
  assume "bitflags_ok all B"
  then show "B = word_bitflags all"
    by (cases B) (simp add: bitflags_ok_def word_bitflags_def fun_eq_iff)
qed (simp add: word_bitflags_ok)

lemma word_bitflags_simps [flag_simps]:
  "bf_contains (word_bitflags all) a b = (a AND b = b)"
  "bf_intersects (word_bitflags all) a b = (a AND b \<noteq> 0)"
  "bf_union (word_bitflags all) a b = a OR b"
  "bf_from_bits_truncate (word_bitflags all) a = a AND all"
  "bf_is_empty (word_bitflags all) a = (a = 0)"
  by (simp_all add: word_bitflags_def)

text \<open>Small flag words can be enumerated.\<close>

lemma word_less_enum:
  assumes "unat (f :: 'w::len word) < n"
  shows "f \<in> set (map word_of_nat [0..<n])"
proof -
  have "unat f \<in> set [0..<n]" using assms by simp
  then have "word_of_nat (unat f) \<in> set (map word_of_nat [0..<n] :: 'w word list)"
    unfolding set_map by (rule imageI)
  then show ?thesis by simp
qed

lemma and_mask_id_less:
  assumes "f AND mask n = (f :: 'w::len word)"
  shows "unat f < 2 ^ n"
proof -
  have "unat f = unat f mod 2 ^ n" using unat_and_mask [of f n] by (simp only: assms)
  then show ?thesis by (metis mod_less_divisor zero_less_numeral zero_less_power)
qed

text \<open>An entry packs attribute bits and an address into one word; masks separate them again.\<close>

lemma packed_and_disjoint:
  "m AND k = 0 \<Longrightarrow> (a OR (p AND m)) AND k = a AND (k :: 'w::len word)"
  by (simp add: bit.conj_disj_distrib2 and.assoc)

lemma packed_and_same:
  "a AND m = 0 \<Longrightarrow> (a OR (p AND m)) AND m = p AND (m :: 'w::len word)"
  by (simp add: bit.conj_disj_distrib2 and.assoc)

lemma packed_eq_0: "a \<noteq> 0 \<Longrightarrow> (a :: 'w::len word) OR b \<noteq> 0"
  by (simp add: or_eq_0_iff)

end
