(* ===== verification/PageTableEntry.thy ===== *)
theory PageTableEntry
  imports MemoryAddr Bitflags
begin

text \<open>
  Model of the crate \<open>page_table_entry\<close> (src/crates/page_table_entry/src): the generic flags and
  the \<open>GenericPTE\<close> trait, and the entries of AArch64 (\<open>A64PTE\<close>), RISC-V (\<open>Rv64PTE\<close>) and x86-64
  (\<open>X64PTE\<close>). A trait is a record of its functions, an implementation is a value of it.
\<close>

section \<open>Generic flags and the trait\<close>

type_synonym MappingFlags = usize

definition MF_READ :: MappingFlags where "MF_READ = push_bit 0 1"
definition MF_WRITE :: MappingFlags where "MF_WRITE = push_bit 1 1"
definition MF_EXECUTE :: MappingFlags where "MF_EXECUTE = push_bit 2 1"
definition MF_USER :: MappingFlags where "MF_USER = push_bit 3 1"
definition MF_DEVICE :: MappingFlags where "MF_DEVICE = push_bit 4 1"

definition MF_ALL :: MappingFlags where
  "MF_ALL = MF_READ OR MF_WRITE OR MF_EXECUTE OR MF_USER OR MF_DEVICE"

lemmas MF_defs [flag_simps] = MF_READ_def MF_WRITE_def MF_EXECUTE_def MF_USER_def MF_DEVICE_def

text \<open>
  \<open>pte_zero\<close> is the entry read back from memory filled with zero bytes. \<open>pte_flags\<close> may panic:
  the AArch64 entry panics on an unknown memory attribute index.
\<close>

record 'pte GenericPTE =
  new_page :: "PhysAddr \<Rightarrow> MappingFlags \<Rightarrow> bool \<Rightarrow> 'pte"
  new_table :: "PhysAddr \<Rightarrow> 'pte"
  pte_paddr :: "'pte \<Rightarrow> PhysAddr"
  pte_flags :: "'pte \<Rightarrow> MappingFlags outcome"
  is_unused :: "'pte \<Rightarrow> bool"
  is_present :: "'pte \<Rightarrow> bool"
  is_huge :: "'pte \<Rightarrow> bool"
  pte_clear :: "'pte \<Rightarrow> 'pte"
  pte_zero :: 'pte

section \<open>AArch64\<close>

type_synonym DescriptorAttr = u64

definition DA_VALID :: DescriptorAttr where "DA_VALID = push_bit 0 1"
definition DA_NON_BLOCK :: DescriptorAttr where "DA_NON_BLOCK = push_bit 1 1"
definition DA_ATTR_INDX :: DescriptorAttr where "DA_ATTR_INDX = push_bit 2 7"
definition DA_NS :: DescriptorAttr where "DA_NS = push_bit 5 1"
definition DA_AP_EL0 :: DescriptorAttr where "DA_AP_EL0 = push_bit 6 1"
definition DA_AP_RO :: DescriptorAttr where "DA_AP_RO = push_bit 7 1"
definition DA_INNER :: DescriptorAttr where "DA_INNER = push_bit 8 1"
definition DA_SHAREABLE :: DescriptorAttr where "DA_SHAREABLE = push_bit 9 1"
definition DA_AF :: DescriptorAttr where "DA_AF = push_bit 10 1"
definition DA_NG :: DescriptorAttr where "DA_NG = push_bit 11 1"
definition DA_CONTIGUOUS :: DescriptorAttr where "DA_CONTIGUOUS = push_bit 52 1"
definition DA_PXN :: DescriptorAttr where "DA_PXN = push_bit 53 1"
definition DA_UXN :: DescriptorAttr where "DA_UXN = push_bit 54 1"
definition DA_PXN_TABLE :: DescriptorAttr where "DA_PXN_TABLE = push_bit 59 1"
definition DA_XN_TABLE :: DescriptorAttr where "DA_XN_TABLE = push_bit 60 1"
definition DA_AP_NO_EL0_TABLE :: DescriptorAttr where "DA_AP_NO_EL0_TABLE = push_bit 61 1"
definition DA_AP_NO_WRITE_TABLE :: DescriptorAttr where "DA_AP_NO_WRITE_TABLE = push_bit 62 1"
definition DA_NS_TABLE :: DescriptorAttr where "DA_NS_TABLE = push_bit 63 1"

lemmas DA_defs [flag_simps] = DA_VALID_def DA_NON_BLOCK_def DA_ATTR_INDX_def DA_NS_def DA_AP_EL0_def
  DA_AP_RO_def DA_INNER_def DA_SHAREABLE_def DA_AF_def DA_NG_def DA_CONTIGUOUS_def DA_PXN_def
  DA_UXN_def DA_PXN_TABLE_def DA_XN_TABLE_def DA_AP_NO_EL0_TABLE_def DA_AP_NO_WRITE_TABLE_def
  DA_NS_TABLE_def

definition DA_ALL :: DescriptorAttr where
  "DA_ALL = DA_VALID OR DA_NON_BLOCK OR DA_ATTR_INDX OR DA_NS OR DA_AP_EL0 OR DA_AP_RO OR DA_INNER
     OR DA_SHAREABLE OR DA_AF OR DA_NG OR DA_CONTIGUOUS OR DA_PXN OR DA_UXN OR DA_PXN_TABLE
     OR DA_XN_TABLE OR DA_AP_NO_EL0_TABLE OR DA_AP_NO_WRITE_TABLE OR DA_NS_TABLE"

datatype MemType = Device | Normal

fun mem_type_u64 :: "MemType \<Rightarrow> u64" where
  "mem_type_u64 Device = 0"
| "mem_type_u64 Normal = 1"

definition DA_ATTR_INDEX_MASK :: u64 where
  "DA_ATTR_INDEX_MASK = 0x1C"

definition from_mem_type :: "MemType \<Rightarrow> DescriptorAttr" where
  "from_mem_type mem_type =
     (let bits = push_bit 2 (mem_type_u64 mem_type)
      in if mem_type = Normal then bits OR (DA_INNER OR DA_SHAREABLE) else bits)"

definition attr_mem_type :: "DescriptorAttr \<Rightarrow> MemType outcome" where
  "attr_mem_type self =
     (let idx = drop_bit 2 (self AND DA_ATTR_INDEX_MASK)
      in if idx = 0 then Ret Device else if idx = 1 then Ret Normal else Panic)"

text \<open>\<open>impl From<DescriptorAttr> for MappingFlags\<close>\<close>

definition mapping_from_attr ::
  "u64 bitflags \<Rightarrow> u64 bitflags \<Rightarrow> DescriptorAttr \<Rightarrow> MappingFlags outcome" where
  "mapping_from_attr M D attr =
     (let flags = 0;
          flags = (if bf_contains D attr DA_VALID then bf_union M flags MF_READ else flags);
          flags = (if \<not> bf_contains D attr DA_AP_RO then bf_union M flags MF_WRITE else flags);
          flags = (if bf_contains D attr DA_AP_EL0
                   then (let flags = bf_union M flags MF_USER
                         in if \<not> bf_contains D attr DA_UXN then bf_union M flags MF_EXECUTE else flags)
                   else if \<not> bf_intersects D attr DA_PXN then bf_union M flags MF_EXECUTE else flags)
      in case attr_mem_type attr of
           Panic \<Rightarrow> Panic
         | Ret t \<Rightarrow> Ret (if t = Device then bf_union M flags MF_DEVICE else flags))"

text \<open>
  \<open>impl From<MappingFlags> for DescriptorAttr\<close>; \<open>hv\<close> is the build feature of that name.
\<close>

definition attr_from_mapping ::
  "u64 bitflags \<Rightarrow> u64 bitflags \<Rightarrow> bool \<Rightarrow> MappingFlags \<Rightarrow> DescriptorAttr" where
  "attr_from_mapping M D hv flags =
     (let attr = (if bf_contains M flags MF_DEVICE then from_mem_type Device else from_mem_type Normal);
          attr = (if bf_contains M flags MF_READ then bf_union D attr DA_VALID else attr);
          attr = (if \<not> bf_contains M flags MF_WRITE then bf_union D attr DA_AP_RO else attr)
      in if bf_contains M flags MF_USER
         then if \<not> hv
              then (let attr = bf_union D attr (bf_union D DA_AP_EL0 DA_PXN)
                    in if \<not> bf_contains M flags MF_EXECUTE then bf_union D attr DA_UXN else attr)
              else bf_union D attr (bf_union D (bf_union D DA_AP_RO DA_AP_EL0) DA_PXN)
         else if \<not> hv
              then (let attr = bf_union D attr DA_UXN
                    in if \<not> bf_contains M flags MF_EXECUTE then bf_union D attr DA_PXN else attr)
              else attr)"

datatype A64PTE = A64PTE (a64_bits: u64)

definition A64_PHYS_ADDR_MASK :: usize where
  "A64_PHYS_ADDR_MASK = 0x0000FFFFFFFFF000"

definition a64_new_page ::
  "u64 bitflags \<Rightarrow> u64 bitflags \<Rightarrow> bool \<Rightarrow> PhysAddr \<Rightarrow> MappingFlags \<Rightarrow> bool \<Rightarrow> A64PTE" where
  "a64_new_page M D hv paddr flags huge =
     (let attr = bf_union D (attr_from_mapping M D hv flags) DA_AF;
          attr = (if \<not> huge then bf_union D attr DA_NON_BLOCK else attr)
      in A64PTE (attr OR (phys_as_usize paddr AND A64_PHYS_ADDR_MASK)))"

definition a64_new_table :: "u64 bitflags \<Rightarrow> PhysAddr \<Rightarrow> A64PTE" where
  "a64_new_table D paddr =
     (let attr = bf_union D DA_NON_BLOCK DA_VALID
      in A64PTE (attr OR (phys_as_usize paddr AND A64_PHYS_ADDR_MASK)))"

definition a64_paddr :: "A64PTE \<Rightarrow> PhysAddr" where
  "a64_paddr self = PhysAddr (a64_bits self AND A64_PHYS_ADDR_MASK)"

definition a64_flags :: "u64 bitflags \<Rightarrow> u64 bitflags \<Rightarrow> A64PTE \<Rightarrow> MappingFlags outcome" where
  "a64_flags M D self = mapping_from_attr M D (bf_from_bits_truncate D (a64_bits self))"

definition a64_is_unused :: "A64PTE \<Rightarrow> bool" where
  "a64_is_unused self = (a64_bits self = 0)"

definition a64_is_present :: "u64 bitflags \<Rightarrow> A64PTE \<Rightarrow> bool" where
  "a64_is_present D self = bf_contains D (bf_from_bits_truncate D (a64_bits self)) DA_VALID"

definition a64_is_huge :: "u64 bitflags \<Rightarrow> A64PTE \<Rightarrow> bool" where
  "a64_is_huge D self = (\<not> bf_contains D (bf_from_bits_truncate D (a64_bits self)) DA_NON_BLOCK)"

definition a64_clear :: "A64PTE \<Rightarrow> A64PTE" where
  "a64_clear self = A64PTE 0"

definition a64_empty :: A64PTE where
  "a64_empty = A64PTE 0"

definition A64 :: "u64 bitflags \<Rightarrow> u64 bitflags \<Rightarrow> bool \<Rightarrow> A64PTE GenericPTE" where
  "A64 M D hv =
     \<lparr>new_page = a64_new_page M D hv, new_table = a64_new_table D, pte_paddr = a64_paddr,
      pte_flags = a64_flags M D, is_unused = a64_is_unused, is_present = a64_is_present D,
      is_huge = a64_is_huge D, pte_clear = a64_clear, pte_zero = A64PTE 0\<rparr>"

section \<open>RISC-V\<close>

type_synonym PTEFlags = usize

definition RV_V :: PTEFlags where "RV_V = push_bit 0 1"
definition RV_R :: PTEFlags where "RV_R = push_bit 1 1"
definition RV_W :: PTEFlags where "RV_W = push_bit 2 1"
definition RV_X :: PTEFlags where "RV_X = push_bit 3 1"
definition RV_U :: PTEFlags where "RV_U = push_bit 4 1"
definition RV_G :: PTEFlags where "RV_G = push_bit 5 1"
definition RV_A :: PTEFlags where "RV_A = push_bit 6 1"
definition RV_D :: PTEFlags where "RV_D = push_bit 7 1"

lemmas RV_defs [flag_simps] = RV_V_def RV_R_def RV_W_def RV_X_def RV_U_def RV_G_def RV_A_def RV_D_def

definition RV_ALL :: PTEFlags where
  "RV_ALL = RV_V OR RV_R OR RV_W OR RV_X OR RV_U OR RV_G OR RV_A OR RV_D"

text \<open>\<open>impl From<PTEFlags> for MappingFlags\<close>\<close>

definition mapping_from_rv :: "usize bitflags \<Rightarrow> usize bitflags \<Rightarrow> PTEFlags \<Rightarrow> MappingFlags" where
  "mapping_from_rv M R f =
     (let ret = 0;
          ret = (if bf_contains R f RV_R then bf_union M ret MF_READ else ret);
          ret = (if bf_contains R f RV_W then bf_union M ret MF_WRITE else ret);
          ret = (if bf_contains R f RV_X then bf_union M ret MF_EXECUTE else ret);
          ret = (if bf_contains R f RV_U then bf_union M ret MF_USER else ret)
      in ret)"

text \<open>\<open>impl From<MappingFlags> for PTEFlags\<close>\<close>

definition rv_from_mapping :: "usize bitflags \<Rightarrow> usize bitflags \<Rightarrow> MappingFlags \<Rightarrow> PTEFlags" where
  "rv_from_mapping M R f =
     (if bf_is_empty M f then 0
      else
        (let ret = RV_V;
             ret = (if bf_contains M f MF_READ then bf_union R ret RV_R else ret);
             ret = (if bf_contains M f MF_WRITE then bf_union R ret RV_W else ret);
             ret = (if bf_contains M f MF_EXECUTE then bf_union R ret RV_X else ret);
             ret = (if bf_contains M f MF_USER then bf_union R ret RV_U else ret)
         in ret))"

datatype Rv64PTE = Rv64PTE (rv_bits: u64)

definition RV_PHYS_ADDR_MASK :: u64 where
  "RV_PHYS_ADDR_MASK = push_bit 54 1 - push_bit 10 1"

definition rv_new_page ::
  "usize bitflags \<Rightarrow> usize bitflags \<Rightarrow> PhysAddr \<Rightarrow> MappingFlags \<Rightarrow> bool \<Rightarrow> Rv64PTE" where
  "rv_new_page M R paddr flags huge =
     (let flags = bf_union R (bf_union R (rv_from_mapping M R flags) RV_A) RV_D
      in Rv64PTE (flags OR (drop_bit 2 (phys_as_usize paddr) AND RV_PHYS_ADDR_MASK)))"

definition rv_new_table :: "PhysAddr \<Rightarrow> Rv64PTE" where
  "rv_new_table paddr = Rv64PTE (RV_V OR (drop_bit 2 (phys_as_usize paddr) AND RV_PHYS_ADDR_MASK))"

definition rv_paddr :: "Rv64PTE \<Rightarrow> PhysAddr" where
  "rv_paddr self = PhysAddr (push_bit 2 (rv_bits self AND RV_PHYS_ADDR_MASK))"

definition rv_flags :: "usize bitflags \<Rightarrow> usize bitflags \<Rightarrow> Rv64PTE \<Rightarrow> MappingFlags" where
  "rv_flags M R self = mapping_from_rv M R (bf_from_bits_truncate R (rv_bits self))"

definition rv_is_unused :: "Rv64PTE \<Rightarrow> bool" where
  "rv_is_unused self = (rv_bits self = 0)"

definition rv_is_present :: "usize bitflags \<Rightarrow> Rv64PTE \<Rightarrow> bool" where
  "rv_is_present R self = bf_contains R (bf_from_bits_truncate R (rv_bits self)) RV_V"

definition rv_is_huge :: "usize bitflags \<Rightarrow> Rv64PTE \<Rightarrow> bool" where
  "rv_is_huge R self = bf_intersects R (bf_from_bits_truncate R (rv_bits self)) (bf_union R RV_R RV_X)"

definition rv_clear :: "Rv64PTE \<Rightarrow> Rv64PTE" where
  "rv_clear self = Rv64PTE 0"

definition Rv64 :: "usize bitflags \<Rightarrow> usize bitflags \<Rightarrow> Rv64PTE GenericPTE" where
  "Rv64 M R =
     \<lparr>new_page = rv_new_page M R, new_table = rv_new_table, pte_paddr = rv_paddr,
      pte_flags = (\<lambda>e. Ret (rv_flags M R e)), is_unused = rv_is_unused, is_present = rv_is_present R,
      is_huge = rv_is_huge R, pte_clear = rv_clear, pte_zero = Rv64PTE 0\<rparr>"

section \<open>x86-64\<close>

text \<open>
  The flags are \<open>PageTableFlags\<close> of the third-party crate \<open>x86_64\<close> (imported as \<open>PTF\<close>): its flag
  constants and its operations are the fields of a \<open>PTF\<close> record. \<open>PTF_ok\<close> states the documented
  bit of each constant; the type declares every bit outside the address field.
\<close>

record PTF =
  ptf_ops :: "u64 bitflags"
  PTF_PRESENT :: u64
  PTF_WRITABLE :: u64
  PTF_USER_ACCESSIBLE :: u64
  PTF_WRITE_THROUGH :: u64
  PTF_NO_CACHE :: u64
  PTF_HUGE_PAGE :: u64
  PTF_NO_EXECUTE :: u64

definition PTF_ok :: "PTF \<Rightarrow> bool" where
  "PTF_ok X \<longleftrightarrow> bitflags_ok 0xFFF0000000000FFF (ptf_ops X) \<and>
     PTF_PRESENT X = push_bit 0 1 \<and> PTF_WRITABLE X = push_bit 1 1 \<and>
     PTF_USER_ACCESSIBLE X = push_bit 2 1 \<and> PTF_WRITE_THROUGH X = push_bit 3 1 \<and>
     PTF_NO_CACHE X = push_bit 4 1 \<and> PTF_HUGE_PAGE X = push_bit 7 1 \<and>
     PTF_NO_EXECUTE X = push_bit 63 1"

definition ptf_word :: PTF where
  "ptf_word =
     \<lparr>ptf_ops = word_bitflags 0xFFF0000000000FFF, PTF_PRESENT = push_bit 0 1,
      PTF_WRITABLE = push_bit 1 1, PTF_USER_ACCESSIBLE = push_bit 2 1,
      PTF_WRITE_THROUGH = push_bit 3 1, PTF_NO_CACHE = push_bit 4 1,
      PTF_HUGE_PAGE = push_bit 7 1, PTF_NO_EXECUTE = push_bit 63 1\<rparr>"

lemma PTF_ok_iff: "PTF_ok X \<longleftrightarrow> X = ptf_word"
  by (cases X) (auto simp: PTF_ok_def ptf_word_def bitflags_ok_iff)

text \<open>\<open>impl From<PTF> for MappingFlags\<close>\<close>

definition mapping_from_ptf :: "u64 bitflags \<Rightarrow> PTF \<Rightarrow> u64 \<Rightarrow> MappingFlags" where
  "mapping_from_ptf M X f =
     (if bf_is_empty (ptf_ops X) f then 0
      else
        (let ret = MF_READ;
             ret = (if bf_contains (ptf_ops X) f (PTF_WRITABLE X) then bf_union M ret MF_WRITE else ret);
             ret = (if \<not> bf_contains (ptf_ops X) f (PTF_NO_EXECUTE X) then bf_union M ret MF_EXECUTE else ret);
             ret = (if bf_contains (ptf_ops X) f (PTF_USER_ACCESSIBLE X) then bf_union M ret MF_USER else ret);
             ret = (if bf_contains (ptf_ops X) f (PTF_NO_CACHE X) then bf_union M ret MF_DEVICE else ret)
         in ret))"

text \<open>\<open>impl From<MappingFlags> for PTF\<close>\<close>

definition ptf_from_mapping :: "u64 bitflags \<Rightarrow> PTF \<Rightarrow> MappingFlags \<Rightarrow> u64" where
  "ptf_from_mapping M X f =
     (if bf_is_empty M f then 0
      else
        (let ret = PTF_PRESENT X;
             ret = (if bf_contains M f MF_WRITE then bf_union (ptf_ops X) ret (PTF_WRITABLE X) else ret);
             ret = (if \<not> bf_contains M f MF_EXECUTE then bf_union (ptf_ops X) ret (PTF_NO_EXECUTE X) else ret);
             ret = (if bf_contains M f MF_USER then bf_union (ptf_ops X) ret (PTF_USER_ACCESSIBLE X) else ret);
             ret = (if bf_contains M f MF_DEVICE
                    then bf_union (ptf_ops X) ret (bf_union (ptf_ops X) (PTF_NO_CACHE X) (PTF_WRITE_THROUGH X))
                    else ret)
         in ret))"

datatype X64PTE = X64PTE (x64_bits: u64)

definition X64_PHYS_ADDR_MASK :: u64 where
  "X64_PHYS_ADDR_MASK = 0x000FFFFFFFFFF000"

definition x64_new_page :: "u64 bitflags \<Rightarrow> PTF \<Rightarrow> PhysAddr \<Rightarrow> MappingFlags \<Rightarrow> bool \<Rightarrow> X64PTE" where
  "x64_new_page M X paddr flags huge =
     (let flags = ptf_from_mapping M X flags;
          flags = (if huge then bf_union (ptf_ops X) flags (PTF_HUGE_PAGE X) else flags)
      in X64PTE (flags OR (phys_as_usize paddr AND X64_PHYS_ADDR_MASK)))"

definition x64_new_table :: "PTF \<Rightarrow> PhysAddr \<Rightarrow> X64PTE" where
  "x64_new_table X paddr =
     (let flags = bf_union (ptf_ops X) (bf_union (ptf_ops X) (PTF_PRESENT X) (PTF_WRITABLE X)) (PTF_USER_ACCESSIBLE X)
      in X64PTE (flags OR (phys_as_usize paddr AND X64_PHYS_ADDR_MASK)))"

definition x64_paddr :: "X64PTE \<Rightarrow> PhysAddr" where
  "x64_paddr self = PhysAddr (x64_bits self AND X64_PHYS_ADDR_MASK)"

definition x64_flags :: "u64 bitflags \<Rightarrow> PTF \<Rightarrow> X64PTE \<Rightarrow> MappingFlags" where
  "x64_flags M X self = mapping_from_ptf M X (bf_from_bits_truncate (ptf_ops X) (x64_bits self))"

definition x64_is_unused :: "X64PTE \<Rightarrow> bool" where
  "x64_is_unused self = (x64_bits self = 0)"

definition x64_is_present :: "PTF \<Rightarrow> X64PTE \<Rightarrow> bool" where
  "x64_is_present X self =
     bf_contains (ptf_ops X) (bf_from_bits_truncate (ptf_ops X) (x64_bits self)) (PTF_PRESENT X)"

definition x64_is_huge :: "PTF \<Rightarrow> X64PTE \<Rightarrow> bool" where
  "x64_is_huge X self =
     bf_contains (ptf_ops X) (bf_from_bits_truncate (ptf_ops X) (x64_bits self)) (PTF_HUGE_PAGE X)"

definition x64_clear :: "X64PTE \<Rightarrow> X64PTE" where
  "x64_clear self = X64PTE 0"

definition X64 :: "u64 bitflags \<Rightarrow> PTF \<Rightarrow> X64PTE GenericPTE" where
  "X64 M X =
     \<lparr>new_page = x64_new_page M X, new_table = x64_new_table X, pte_paddr = x64_paddr,
      pte_flags = (\<lambda>e. Ret (x64_flags M X e)), is_unused = x64_is_unused, is_present = x64_is_present X,
      is_huge = x64_is_huge X, pte_clear = x64_clear, pte_zero = X64PTE 0\<rparr>"

section \<open>The contract of a page table entry\<close>

text \<open>
  What the page table relies on: \<open>frame_ok\<close> are the addresses an entry can hold, \<open>flags_ok\<close> the
  flags a mapping may be asked for, and \<open>norm f\<close> what is read back for \<open>f\<close>.
\<close>

locale generic_pte =
  fixes P :: "'pte GenericPTE"
    and frame_ok :: "PhysAddr \<Rightarrow> bool"
    and flags_ok :: "MappingFlags \<Rightarrow> bool"
    and norm :: "MappingFlags \<Rightarrow> MappingFlags"
  assumes zero_unused: "is_unused P (pte_zero P)"
    and clear_unused: "is_unused P (pte_clear P e)"
    and unused_absent: "is_unused P e \<Longrightarrow> \<not> is_present P e"
    and table_present: "is_present P (new_table P pa)"
    and table_not_huge: "\<not> is_huge P (new_table P pa)"
    and table_paddr: "frame_ok pa \<Longrightarrow> pte_paddr P (new_table P pa) = pa"
    and page_used: "flags_ok f \<Longrightarrow> \<not> is_unused P (new_page P pa f h)"
    and page_huge: "flags_ok f \<Longrightarrow> is_huge P (new_page P pa f True)"
    and page_paddr: "frame_ok pa \<Longrightarrow> flags_ok f \<Longrightarrow> pte_paddr P (new_page P pa f h) = pa"
    and page_flags: "flags_ok f \<Longrightarrow> pte_flags P (new_page P pa f h) = Ret (norm f)"
begin

lemma table_used: "\<not> is_unused P (new_table P pa)"
  using table_present unused_absent by blast

end

section \<open>The three entry types meet the contract\<close>

abbreviation MFW :: "usize bitflags" where "MFW \<equiv> word_bitflags MF_ALL"
abbreviation DAW :: "u64 bitflags" where "DAW \<equiv> word_bitflags DA_ALL"
abbreviation RVW :: "usize bitflags" where "RVW \<equiv> word_bitflags RV_ALL"

lemma DA_ALL_eq [flag_simps]: "DA_ALL = 0xF870000000000FFF" by (simp add: DA_ALL_def DA_defs)

lemma MF_ALL_eq [flag_simps]: "MF_ALL = 0x1F" by (simp add: MF_ALL_def MF_defs)

lemma RV_ALL_eq [flag_simps]: "RV_ALL = 0xFF" by (simp add: RV_ALL_def RV_defs)

lemma mapping_flags_enum: "f AND MF_ALL = f \<Longrightarrow> f \<in> set (map word_of_nat [0..<32])"
  using and_mask_id_less [of f 5] word_less_enum [of f 32] by (simp add: MF_ALL_eq mask_eq_exp_minus_1)

subsection \<open>AArch64, without the hypervisor feature\<close>

definition a64_frame_ok :: "PhysAddr \<Rightarrow> bool" where
  "a64_frame_ok pa \<longleftrightarrow> phys_as_usize pa AND A64_PHYS_ADDR_MASK = phys_as_usize pa"

definition a64_flags_ok :: "MappingFlags \<Rightarrow> bool" where
  "a64_flags_ok f \<longleftrightarrow> f AND MF_ALL = f"

lemma a64_page_at:
  "a64_bits (a64_new_page M D hv pa f h)
   = a64_bits (a64_new_page M D hv (PhysAddr 0) f h) OR (phys_as_usize pa AND A64_PHYS_ADDR_MASK)"
  by (simp add: a64_new_page_def Let_def)

lemma a64_page_enum:
  "\<forall>f \<in> set (map word_of_nat [0..<32]).
     (let e = a64_new_page MFW DAW False (PhysAddr 0) f h
      in a64_bits e AND A64_PHYS_ADDR_MASK = 0 \<and> a64_bits e \<noteq> 0
         \<and> a64_is_huge DAW e = h \<and> a64_flags MFW DAW e = Ret f)"
  by (cases h; simp add: upt_rec flag_simps a64_new_page_def attr_from_mapping_def mapping_from_attr_def
      from_mem_type_def attr_mem_type_def DA_ATTR_INDEX_MASK_def A64_PHYS_ADDR_MASK_def
      a64_is_huge_def a64_flags_def)

lemma a64_trunc: "(x OR (pa AND A64_PHYS_ADDR_MASK)) AND DA_ALL = x AND DA_ALL"
  by (rule packed_and_disjoint) (simp add: A64_PHYS_ADDR_MASK_def DA_ALL_eq)

lemma a64_page:
  assumes "a64_flags_ok f"
  defines "e \<equiv> \<lambda>pa h. a64_new_page MFW DAW False pa f h"
  shows "a64_frame_ok pa \<Longrightarrow> a64_paddr (e pa h) = pa" and "\<not> a64_is_unused (e pa h)"
    and "a64_is_huge DAW (e pa h) = h" and "a64_flags MFW DAW (e pa h) = Ret f"
proof -
  let ?e0 = "e (PhysAddr 0) h"
  have e0: "a64_bits ?e0 AND A64_PHYS_ADDR_MASK = 0" "a64_bits ?e0 \<noteq> 0"
    "a64_is_huge DAW ?e0 = h" "a64_flags MFW DAW ?e0 = Ret f"
    using a64_page_enum [THEN bspec, OF mapping_flags_enum, of f h] assms
    by (simp_all only: a64_flags_ok_def Let_def simp_thms)
  have bits: "a64_bits (e pa h) = a64_bits ?e0 OR (phys_as_usize pa AND A64_PHYS_ADDR_MASK)"
    unfolding e_def by (rule a64_page_at)
  show "a64_frame_ok pa \<Longrightarrow> a64_paddr (e pa h) = pa"
    unfolding a64_paddr_def a64_frame_ok_def bits packed_and_same [OF e0(1)] by simp
  show "\<not> a64_is_unused (e pa h)"
    unfolding a64_is_unused_def bits using e0(2) by (rule packed_eq_0)
  show "a64_is_huge DAW (e pa h) = h"
    using e0(3) by (simp add: a64_is_huge_def bits a64_trunc word_bitflags_simps)
  show "a64_flags MFW DAW (e pa h) = Ret f"
    using e0(4) by (simp add: a64_flags_def bits a64_trunc word_bitflags_simps)
qed

lemma a64_table_bits: "a64_bits (a64_new_table DAW pa) = 3 OR (phys_as_usize pa AND A64_PHYS_ADDR_MASK)"
  by (simp add: a64_new_table_def flag_simps)

lemma a64_table:
  "a64_is_present DAW (a64_new_table DAW pa)" "\<not> a64_is_huge DAW (a64_new_table DAW pa)"
  "a64_frame_ok pa \<Longrightarrow> a64_paddr (a64_new_table DAW pa) = pa"
proof -
  show "a64_is_present DAW (a64_new_table DAW pa)" "\<not> a64_is_huge DAW (a64_new_table DAW pa)"
    unfolding a64_is_present_def a64_is_huge_def a64_table_bits word_bitflags_simps a64_trunc
    by (simp_all add: DA_ALL_eq DA_defs)
  have addr: "(3 OR (p AND A64_PHYS_ADDR_MASK)) AND A64_PHYS_ADDR_MASK = p AND A64_PHYS_ADDR_MASK" for p
    by (rule packed_and_same) (simp add: A64_PHYS_ADDR_MASK_def)
  show "a64_frame_ok pa \<Longrightarrow> a64_paddr (a64_new_table DAW pa) = pa"
    unfolding a64_paddr_def a64_frame_ok_def a64_table_bits addr by simp
qed

lemma a64_absent: "a64_is_unused (a64_clear e)" "a64_is_unused e \<Longrightarrow> \<not> a64_is_present DAW e"
  by (simp_all add: a64_is_unused_def a64_clear_def a64_is_present_def word_bitflags_simps DA_defs)

interpretation a64: generic_pte "A64 MFW DAW False" a64_frame_ok a64_flags_ok "\<lambda>f. f"
  by unfold_locales (simp_all add: A64_def a64_page a64_table a64_absent a64_is_unused_def [of "A64PTE 0"])

subsection \<open>RISC-V\<close>

text \<open>
  A leaf needs READ or EXECUTE, since an entry with neither is a pointer to the next table. DEVICE has
  no bit in the entry and is not read back.
\<close>

definition rv_frame_ok :: "PhysAddr \<Rightarrow> bool" where
  "rv_frame_ok pa \<longleftrightarrow> phys_as_usize pa AND 0x00FFFFFFFFFFF000 = phys_as_usize pa"

definition rv_flags_ok :: "MappingFlags \<Rightarrow> bool" where
  "rv_flags_ok f \<longleftrightarrow> f AND MF_ALL = f \<and> f AND (MF_READ OR MF_EXECUTE) \<noteq> 0"

definition rv_norm :: "MappingFlags \<Rightarrow> MappingFlags" where
  "rv_norm f = f AND NOT MF_DEVICE"

lemma rv_page_at:
  "rv_bits (rv_new_page M R pa f h)
   = rv_bits (rv_new_page M R (PhysAddr 0) f h) OR (drop_bit 2 (phys_as_usize pa) AND RV_PHYS_ADDR_MASK)"
  by (simp add: rv_new_page_def Let_def)

lemma rv_page_enum:
  "\<forall>f \<in> set (map word_of_nat [0..<32]).
     (let e = rv_new_page MFW RVW (PhysAddr 0) f h
      in rv_bits e AND RV_PHYS_ADDR_MASK = 0 \<and> rv_bits e \<noteq> 0 \<and> rv_flags MFW RVW e = rv_norm f
         \<and> rv_is_huge RVW e = (f AND (MF_READ OR MF_EXECUTE) \<noteq> 0))"
  by (simp add: upt_rec flag_simps rv_new_page_def rv_from_mapping_def mapping_from_rv_def
      RV_PHYS_ADDR_MASK_def rv_is_huge_def rv_flags_def rv_norm_def)

lemma rv_trunc: "(x OR (p AND RV_PHYS_ADDR_MASK)) AND RV_ALL = x AND RV_ALL"
  by (rule packed_and_disjoint) (simp add: RV_PHYS_ADDR_MASK_def RV_ALL_eq)

lemma push_drop_bit: "push_bit n (drop_bit n x) = x AND NOT (mask n :: usize)"
  by (rule bit_word_eqI) (auto simp: bit_simps)

lemma rv_addr_bits: "push_bit 2 (drop_bit 2 pa AND RV_PHYS_ADDR_MASK) = pa AND 0x00FFFFFFFFFFF000"
proof -
  have "push_bit 2 (drop_bit 2 pa AND RV_PHYS_ADDR_MASK)
      = push_bit 2 (drop_bit 2 pa) AND push_bit 2 RV_PHYS_ADDR_MASK"
    by (simp only: push_bit_and)
  also have "\<dots> = (pa AND NOT (mask 2)) AND 0x00FFFFFFFFFFF000"
    by (simp add: RV_PHYS_ADDR_MASK_def push_drop_bit)
  also have "\<dots> = pa AND 0x00FFFFFFFFFFF000"
    by (simp only: and.assoc) (simp add: mask_eq_exp_minus_1)
  finally show ?thesis .
qed

lemma rv_page:
  assumes "rv_flags_ok f"
  defines "e \<equiv> \<lambda>pa h. rv_new_page MFW RVW pa f h"
  shows "rv_frame_ok pa \<Longrightarrow> rv_paddr (e pa h) = pa" and "\<not> rv_is_unused (e pa h)"
    and "rv_is_huge RVW (e pa h)" and "rv_flags MFW RVW (e pa h) = rv_norm f"
proof -
  let ?e0 = "e (PhysAddr 0) h"
  have e0: "rv_bits ?e0 AND RV_PHYS_ADDR_MASK = 0" "rv_bits ?e0 \<noteq> 0"
    "rv_is_huge RVW ?e0" "rv_flags MFW RVW ?e0 = rv_norm f"
    using rv_page_enum [THEN bspec, OF mapping_flags_enum, of f h] assms
    by (simp_all only: rv_flags_ok_def Let_def simp_thms)
  have bits: "rv_bits (e pa h) = rv_bits ?e0 OR (drop_bit 2 (phys_as_usize pa) AND RV_PHYS_ADDR_MASK)"
    unfolding e_def by (rule rv_page_at)
  show "rv_frame_ok pa \<Longrightarrow> rv_paddr (e pa h) = pa"
    unfolding rv_paddr_def rv_frame_ok_def bits packed_and_same [OF e0(1)] rv_addr_bits by simp
  show "\<not> rv_is_unused (e pa h)"
    unfolding rv_is_unused_def bits using e0(2) by (rule packed_eq_0)
  show "rv_is_huge RVW (e pa h)"
    using e0(3) by (simp add: rv_is_huge_def bits rv_trunc word_bitflags_simps)
  show "rv_flags MFW RVW (e pa h) = rv_norm f"
    using e0(4) by (simp add: rv_flags_def bits rv_trunc word_bitflags_simps)
qed

lemma rv_table_bits:
  "rv_bits (rv_new_table pa) = 1 OR (drop_bit 2 (phys_as_usize pa) AND RV_PHYS_ADDR_MASK)"
  by (simp add: rv_new_table_def RV_defs)

lemma rv_table:
  "rv_is_present RVW (rv_new_table pa)" "\<not> rv_is_huge RVW (rv_new_table pa)"
  "rv_frame_ok pa \<Longrightarrow> rv_paddr (rv_new_table pa) = pa"
proof -
  show "rv_is_present RVW (rv_new_table pa)" "\<not> rv_is_huge RVW (rv_new_table pa)"
    unfolding rv_is_present_def rv_is_huge_def rv_table_bits word_bitflags_simps rv_trunc
    by (simp_all add: RV_ALL_eq RV_defs)
  have addr: "(1 OR (p AND RV_PHYS_ADDR_MASK)) AND RV_PHYS_ADDR_MASK = p AND RV_PHYS_ADDR_MASK" for p
    by (rule packed_and_same) (simp add: RV_PHYS_ADDR_MASK_def)
  show "rv_frame_ok pa \<Longrightarrow> rv_paddr (rv_new_table pa) = pa"
    unfolding rv_paddr_def rv_frame_ok_def rv_table_bits addr rv_addr_bits by simp
qed

lemma rv_absent: "rv_is_unused (rv_clear e)" "rv_is_unused e \<Longrightarrow> \<not> rv_is_present RVW e"
  by (simp_all add: rv_is_unused_def rv_clear_def rv_is_present_def word_bitflags_simps RV_defs)

interpretation rv64: generic_pte "Rv64 MFW RVW" rv_frame_ok rv_flags_ok rv_norm
  by unfold_locales (simp_all add: Rv64_def rv_page rv_table rv_absent rv_is_unused_def [of "Rv64PTE 0"])

subsection \<open>x86-64\<close>

text \<open>
  Empty flags give an entry that is not present. A present entry is always readable, so READ is read
  back with any other flag.
\<close>

definition x64_frame_ok :: "PhysAddr \<Rightarrow> bool" where
  "x64_frame_ok pa \<longleftrightarrow> phys_as_usize pa AND X64_PHYS_ADDR_MASK = phys_as_usize pa"

definition x64_flags_ok :: "MappingFlags \<Rightarrow> bool" where
  "x64_flags_ok f \<longleftrightarrow> f AND MF_ALL = f \<and> f \<noteq> 0"

definition x64_norm :: "MappingFlags \<Rightarrow> MappingFlags" where
  "x64_norm f = f OR MF_READ"

lemma x64_page_at:
  "x64_bits (x64_new_page M X pa f h)
   = x64_bits (x64_new_page M X (PhysAddr 0) f h) OR (phys_as_usize pa AND X64_PHYS_ADDR_MASK)"
  by (simp add: x64_new_page_def Let_def)

lemma x64_page_enum:
  "\<forall>f \<in> set (map word_of_nat [0..<32]). f \<noteq> 0 \<longrightarrow>
     (let e = x64_new_page MFW ptf_word (PhysAddr 0) f h
      in x64_bits e AND X64_PHYS_ADDR_MASK = 0 \<and> x64_bits e \<noteq> 0 \<and> x64_is_huge ptf_word e = h
         \<and> x64_flags MFW ptf_word e = x64_norm f)"
  by (cases h; simp add: upt_rec flag_simps x64_new_page_def ptf_from_mapping_def mapping_from_ptf_def
      X64_PHYS_ADDR_MASK_def x64_is_huge_def x64_flags_def x64_norm_def ptf_word_def)

lemma x64_trunc: "(x OR (p AND X64_PHYS_ADDR_MASK)) AND 0xFFF0000000000FFF = x AND 0xFFF0000000000FFF"
  by (rule packed_and_disjoint) (simp add: X64_PHYS_ADDR_MASK_def)

lemma ptf_word_ops: "ptf_ops ptf_word = word_bitflags 0xFFF0000000000FFF" by (simp add: ptf_word_def)

lemma x64_page:
  assumes "x64_flags_ok f"
  defines "e \<equiv> \<lambda>pa h. x64_new_page MFW ptf_word pa f h"
  shows "x64_frame_ok pa \<Longrightarrow> x64_paddr (e pa h) = pa" and "\<not> x64_is_unused (e pa h)"
    and "x64_is_huge ptf_word (e pa h) = h" and "x64_flags MFW ptf_word (e pa h) = x64_norm f"
proof -
  let ?e0 = "e (PhysAddr 0) h"
  have e0: "x64_bits ?e0 AND X64_PHYS_ADDR_MASK = 0" "x64_bits ?e0 \<noteq> 0"
    "x64_is_huge ptf_word ?e0 = h" "x64_flags MFW ptf_word ?e0 = x64_norm f"
    using x64_page_enum [THEN bspec, OF mapping_flags_enum, of f h] assms
    by (simp_all only: x64_flags_ok_def Let_def simp_thms)
  have bits: "x64_bits (e pa h) = x64_bits ?e0 OR (phys_as_usize pa AND X64_PHYS_ADDR_MASK)"
    unfolding e_def by (rule x64_page_at)
  show "x64_frame_ok pa \<Longrightarrow> x64_paddr (e pa h) = pa"
    unfolding x64_paddr_def x64_frame_ok_def bits packed_and_same [OF e0(1)] by simp
  show "\<not> x64_is_unused (e pa h)"
    unfolding x64_is_unused_def bits using e0(2) by (rule packed_eq_0)
  show "x64_is_huge ptf_word (e pa h) = h"
    using e0(3) by (simp add: x64_is_huge_def bits x64_trunc word_bitflags_simps ptf_word_ops)
  show "x64_flags MFW ptf_word (e pa h) = x64_norm f"
    using e0(4) by (simp add: x64_flags_def bits x64_trunc word_bitflags_simps ptf_word_ops)
qed

lemma x64_table_bits:
  "x64_bits (x64_new_table ptf_word pa) = 7 OR (phys_as_usize pa AND X64_PHYS_ADDR_MASK)"
  by (simp add: x64_new_table_def ptf_word_def word_bitflags_simps)

lemma x64_table:
  "x64_is_present ptf_word (x64_new_table ptf_word pa)" "\<not> x64_is_huge ptf_word (x64_new_table ptf_word pa)"
  "x64_frame_ok pa \<Longrightarrow> x64_paddr (x64_new_table ptf_word pa) = pa"
proof -
  show "x64_is_present ptf_word (x64_new_table ptf_word pa)"
    "\<not> x64_is_huge ptf_word (x64_new_table ptf_word pa)"
    unfolding x64_is_present_def x64_is_huge_def x64_table_bits ptf_word_ops word_bitflags_simps x64_trunc
    by (simp_all add: ptf_word_def)
  have addr: "(7 OR (p AND X64_PHYS_ADDR_MASK)) AND X64_PHYS_ADDR_MASK = p AND X64_PHYS_ADDR_MASK" for p
    by (rule packed_and_same) (simp add: X64_PHYS_ADDR_MASK_def)
  show "x64_frame_ok pa \<Longrightarrow> x64_paddr (x64_new_table ptf_word pa) = pa"
    unfolding x64_paddr_def x64_frame_ok_def x64_table_bits addr by simp
qed

lemma x64_absent: "x64_is_unused (x64_clear e)" "x64_is_unused e \<Longrightarrow> \<not> x64_is_present ptf_word e"
  by (simp_all add: x64_is_unused_def x64_clear_def x64_is_present_def ptf_word_def word_bitflags_simps)

interpretation x64: generic_pte "X64 MFW ptf_word" x64_frame_ok x64_flags_ok x64_norm
  by unfold_locales (simp_all add: X64_def x64_page x64_table x64_absent x64_is_unused_def [of "X64PTE 0"])

section \<open>Round trips of the entries\<close>



text \<open>
  C16: On RISC-V an entry built by \<open>new_page\<close> gives back the frame address and the flags without DEVICE,
  which the entry cannot hold; it is in use, and is a leaf since READ or EXECUTE is set.
\<close>

theorem rv_entry_roundtrip:
  assumes "bitflags_ok MF_ALL M" "bitflags_ok RV_ALL R" "rv_frame_ok pa" "rv_flags_ok f"
  shows "rv_paddr (rv_new_page M R pa f huge) = pa
       \<and> rv_flags M R (rv_new_page M R pa f huge) = f AND NOT MF_DEVICE
       \<and> rv_is_huge R (rv_new_page M R pa f huge)
       \<and> \<not> rv_is_unused (rv_new_page M R pa f huge)"
  using assms by (simp add: bitflags_ok_iff rv_page rv_norm_def [symmetric])

theorem rv_entry_roundtrip_witness:
  "let M = word_bitflags MF_ALL; R = word_bitflags RV_ALL; e = rv_new_page M R (PhysAddr 0x80201000) 0x17 False
   in rv_paddr e = PhysAddr 0x80201000 \<and> rv_flags M R e = 7 \<and> rv_is_huge R e"
  using rv_entry_roundtrip [OF word_bitflags_ok word_bitflags_ok, of "PhysAddr 0x80201000" "0x17" False]
  by (simp add: rv_frame_ok_def rv_flags_ok_def MF_ALL_eq MF_defs Let_def)

text \<open>
  C17: On x86-64 an entry built by \<open>new_page\<close> from nonempty flags gives back the frame address, the flags
  with READ added (a present page is readable) and the huge bit, and is in use.
\<close>

theorem x64_entry_roundtrip:
  assumes "bitflags_ok MF_ALL M" "PTF_ok X" "x64_frame_ok pa" "x64_flags_ok f"
  shows "x64_paddr (x64_new_page M X pa f huge) = pa
       \<and> x64_flags M X (x64_new_page M X pa f huge) = f OR MF_READ
       \<and> x64_is_huge X (x64_new_page M X pa f huge) = huge
       \<and> \<not> x64_is_unused (x64_new_page M X pa f huge)"
  using assms by (simp add: bitflags_ok_iff PTF_ok_iff x64_page x64_norm_def [symmetric])

theorem x64_entry_roundtrip_witness:
  "let M = word_bitflags MF_ALL; e = x64_new_page M ptf_word (PhysAddr 0x100000) 6 True
   in x64_paddr e = PhysAddr 0x100000 \<and> x64_flags M ptf_word e = 7 \<and> x64_is_huge ptf_word e"
proof -
  have "PTF_ok ptf_word" by (simp add: PTF_ok_iff)
  from x64_entry_roundtrip [OF word_bitflags_ok this, of "PhysAddr 0x100000" 6 True]
  show ?thesis
    by (simp add: x64_frame_ok_def X64_PHYS_ADDR_MASK_def x64_flags_ok_def MF_ALL_eq MF_READ_def Let_def)
qed

end
