(* ===== verification/PageTable64.thy ===== *)
theory PageTable64
  imports PageTableEntry
begin

unbundle bit_operations_syntax

text \<open>
  Model of the crate \<open>page_table\<close> (src/crates/page_table/src): the multi-level page table
  \<open>PageTable64\<close> over any entry type (\<open>GenericPTE\<close>), any architecture metadata (\<open>PagingMetaData\<close>) and
  any operating system interface (\<open>PagingIf\<close>), which are arguments of every operation.

  The memory the tables live in is \<open>tables\<close>: the page at a virtual address, as its 512 entries. The
  code reaches a table at a physical address through \<open>phys_to_virt\<close>. A reference to an entry is the
  address of its table and its index. \<open>os\<close> is the state behind the operating system interface.
\<close>

section \<open>Interfaces\<close>

datatype PagingError = NoMemory | NotAligned | NotMapped | AlreadyMapped | MappedToHugePage

type_synonym 'a PagingResult = "(PagingError, 'a) result"

record PagingMetaData =
  LEVELS :: nat
  PA_MAX_BITS :: nat
  VA_MAX_BITS :: nat
  vaddr_is_valid :: "usize \<Rightarrow> bool"

definition PA_MAX_ADDR :: "PagingMetaData \<Rightarrow> usize" where
  "PA_MAX_ADDR M = push_bit (PA_MAX_BITS M) 1 - 1"

definition paddr_is_valid :: "PagingMetaData \<Rightarrow> usize \<Rightarrow> bool" where
  "paddr_is_valid M paddr = (paddr \<le> PA_MAX_ADDR M)"

text \<open>The default of \<open>vaddr_is_valid\<close>, for a number of address bits.\<close>

definition default_vaddr_is_valid :: "nat \<Rightarrow> usize \<Rightarrow> bool" where
  "default_vaddr_is_valid va_max_bits vaddr =
     (let top_mask = push_bit (va_max_bits - 1) (- 1)
      in vaddr AND top_mask = 0 \<or> vaddr AND top_mask = top_mask)"

definition A64PagingMetaData :: PagingMetaData where
  "A64PagingMetaData =
     \<lparr>LEVELS = 4, PA_MAX_BITS = 48, VA_MAX_BITS = 48,
      vaddr_is_valid = (\<lambda>vaddr. let top_bits = drop_bit 48 vaddr in top_bits = 0 \<or> top_bits = 0xffff)\<rparr>"

definition Sv39MetaData :: PagingMetaData where
  "Sv39MetaData = \<lparr>LEVELS = 3, PA_MAX_BITS = 56, VA_MAX_BITS = 39, vaddr_is_valid = default_vaddr_is_valid 39\<rparr>"

definition Sv48MetaData :: PagingMetaData where
  "Sv48MetaData = \<lparr>LEVELS = 4, PA_MAX_BITS = 56, VA_MAX_BITS = 48, vaddr_is_valid = default_vaddr_is_valid 48\<rparr>"

definition X64PagingMetaData :: PagingMetaData where
  "X64PagingMetaData = \<lparr>LEVELS = 4, PA_MAX_BITS = 52, VA_MAX_BITS = 48, vaddr_is_valid = default_vaddr_is_valid 48\<rparr>"

record 'os PagingIf =
  alloc_frame :: "'os \<Rightarrow> PhysAddr option \<times> 'os"
  alloc_frames :: "usize \<Rightarrow> 'os \<Rightarrow> PhysAddr option \<times> 'os"
  dealloc_frame :: "PhysAddr \<Rightarrow> 'os \<Rightarrow> 'os"
  dealloc_frames :: "PhysAddr \<Rightarrow> usize \<Rightarrow> 'os \<Rightarrow> 'os"
  phys_to_virt :: "PhysAddr \<Rightarrow> VirtAddr"

datatype PageSize = Size4K | Size2M | Size1G

fun page_size_is_huge :: "PageSize \<Rightarrow> bool" where
  "page_size_is_huge Size4K = False"
| "page_size_is_huge Size2M = True"
| "page_size_is_huge Size1G = True"

fun page_size_usize :: "PageSize \<Rightarrow> usize" where
  "page_size_usize Size4K = 0x1000"
| "page_size_usize Size2M = 0x200000"
| "page_size_usize Size1G = 0x40000000"

section \<open>The page table\<close>

definition ENTRY_COUNT :: usize where
  "ENTRY_COUNT = 512"

definition p4_index :: "VirtAddr \<Rightarrow> usize" where
  "p4_index vaddr = drop_bit (12 + 27) (virt_as_usize vaddr) AND (ENTRY_COUNT - 1)"

definition p3_index :: "VirtAddr \<Rightarrow> usize" where
  "p3_index vaddr = drop_bit (12 + 18) (virt_as_usize vaddr) AND (ENTRY_COUNT - 1)"

definition p2_index :: "VirtAddr \<Rightarrow> usize" where
  "p2_index vaddr = drop_bit (12 + 9) (virt_as_usize vaddr) AND (ENTRY_COUNT - 1)"

definition p1_index :: "VirtAddr \<Rightarrow> usize" where
  "p1_index vaddr = drop_bit 12 (virt_as_usize vaddr) AND (ENTRY_COUNT - 1)"

record ('pte, 'os) world =
  tables :: "VirtAddr \<Rightarrow> usize \<Rightarrow> 'pte"
  os :: 'os

record ('pte, 'os) PageTable64 = "('pte, 'os) world" +
  root_paddr :: PhysAddr
  intrm_tables :: "PhysAddr list"

type_synonym EntryRef = "VirtAddr \<times> usize"

definition read_entry :: "('pte, 'os, 'z) world_scheme \<Rightarrow> EntryRef \<Rightarrow> 'pte" where
  "read_entry w r = tables w (fst r) (snd r)"

definition write_entry :: "EntryRef \<Rightarrow> 'pte \<Rightarrow> ('pte, 'os, 'z) world_scheme \<Rightarrow> ('pte, 'os, 'z) world_scheme" where
  "write_entry r e w = w\<lparr>tables := (tables w)(fst r := (tables w (fst r))(snd r := e))\<rparr>"

definition alloc_table ::
  "'pte GenericPTE \<Rightarrow> 'os PagingIf \<Rightarrow> ('pte, 'os, 'z) world_scheme
    \<Rightarrow> PhysAddr PagingResult \<times> ('pte, 'os, 'z) world_scheme" where
  "alloc_table P I w =
     (case alloc_frame I (os w) of
        (Some paddr, os') \<Rightarrow>
          (let ptr = phys_to_virt I paddr
           in (Ok paddr, w\<lparr>tables := (tables w)(ptr := (\<lambda>_. pte_zero P)), os := os'\<rparr>))
      | (None, os') \<Rightarrow> (Err NoMemory, w\<lparr>os := os'\<rparr>))"

text \<open>Zeroing 4 pages zeroes the entries of the 4 consecutive tables.\<close>

definition alloc_guest_page_table ::
  "'pte GenericPTE \<Rightarrow> 'os PagingIf \<Rightarrow> ('pte, 'os, 'z) world_scheme
    \<Rightarrow> PhysAddr PagingResult \<times> ('pte, 'os, 'z) world_scheme" where
  "alloc_guest_page_table P I w =
     (case alloc_frames I 4 (os w) of
        (Some paddr, os') \<Rightarrow>
          (let ptr = phys_to_virt I paddr;
               zeroed = (\<lambda>t. t = ptr \<or> t = virt_add ptr PAGE_SIZE_4K \<or> t = virt_add ptr (PAGE_SIZE_4K * 2)
                             \<or> t = virt_add ptr (PAGE_SIZE_4K * 3))
           in (Ok paddr, w\<lparr>tables := (\<lambda>t. if zeroed t then (\<lambda>_. pte_zero P) else tables w t), os := os'\<rparr>))
      | (None, os') \<Rightarrow> (Err NoMemory, w\<lparr>os := os'\<rparr>))"

definition try_new ::
  "'pte GenericPTE \<Rightarrow> 'os PagingIf \<Rightarrow> ('pte, 'os) world
    \<Rightarrow> ('pte, 'os) PageTable64 PagingResult \<times> ('pte, 'os) world" where
  "try_new P I w =
     try_in (alloc_table P I w)
       (\<lambda>root w. (Ok (world.extend w \<lparr>root_paddr = root, intrm_tables = [root]\<rparr>), w))"

definition try_new_gpt ::
  "'pte GenericPTE \<Rightarrow> 'os PagingIf \<Rightarrow> ('pte, 'os) world
    \<Rightarrow> ('pte, 'os) PageTable64 PagingResult \<times> ('pte, 'os) world" where
  "try_new_gpt P I w =
     try_in (alloc_guest_page_table P I w)
       (\<lambda>root w. (Ok (world.extend w
          \<lparr>root_paddr = root,
           intrm_tables = [root, phys_add root 0x1000, phys_add root 0x2000, phys_add root 0x3000]\<rparr>), w))"

definition table_of :: "'os PagingIf \<Rightarrow> PhysAddr \<Rightarrow> VirtAddr" where
  "table_of I paddr = phys_to_virt I paddr"

definition table_of_mut :: "'os PagingIf \<Rightarrow> PhysAddr \<Rightarrow> VirtAddr" where
  "table_of_mut I paddr = phys_to_virt I paddr"

definition next_table_mut :: "'pte GenericPTE \<Rightarrow> 'os PagingIf \<Rightarrow> 'pte \<Rightarrow> VirtAddr PagingResult" where
  "next_table_mut P I entry =
     (if \<not> is_present P entry then Err NotMapped
      else if is_huge P entry then Err MappedToHugePage
      else Ok (table_of_mut I (pte_paddr P entry)))"

definition next_table_mut_or_create ::
  "'pte GenericPTE \<Rightarrow> 'os PagingIf \<Rightarrow> EntryRef \<Rightarrow> ('pte, 'os) PageTable64
    \<Rightarrow> VirtAddr PagingResult \<times> ('pte, 'os) PageTable64" where
  "next_table_mut_or_create P I entry self =
     (if is_unused P (read_entry self entry)
      then try_in (alloc_table P I self)
        (\<lambda>paddr self.
          (let self = self\<lparr>intrm_tables := intrm_tables self @ [paddr]\<rparr>;
               self = write_entry entry (new_table P paddr) self
           in (Ok (table_of_mut I paddr), self)))
      else (next_table_mut P I (read_entry self entry), self))"

definition get_entry_mut ::
  "'pte GenericPTE \<Rightarrow> 'os PagingIf \<Rightarrow> PagingMetaData \<Rightarrow> VirtAddr \<Rightarrow> ('pte, 'os) PageTable64
    \<Rightarrow> (EntryRef \<times> PageSize) PagingResult outcome" where
  "get_entry_mut P I M vaddr self =
     (let from_p3 = (\<lambda>p3.
        let p3e = (p3, p3_index vaddr)
        in if is_huge P (read_entry self p3e) then Ok (p3e, Size1G)
           else try_then (next_table_mut P I (read_entry self p3e)) (\<lambda>p2.
             let p2e = (p2, p2_index vaddr)
             in if is_huge P (read_entry self p2e) then Ok (p2e, Size2M)
                else try_then (next_table_mut P I (read_entry self p2e)) (\<lambda>p1.
                  let p1e = (p1, p1_index vaddr) in Ok (p1e, Size4K))))
      in if LEVELS M = 3 then Ret (from_p3 (table_of_mut I (root_paddr self)))
         else if LEVELS M = 4
         then (let p4 = table_of_mut I (root_paddr self);
                   p4e = (p4, p4_index vaddr)
               in Ret (try_then (next_table_mut P I (read_entry self p4e)) from_p3))
         else Panic)"

definition get_entry_mut_or_create ::
  "'pte GenericPTE \<Rightarrow> 'os PagingIf \<Rightarrow> PagingMetaData \<Rightarrow> VirtAddr \<Rightarrow> PageSize \<Rightarrow> ('pte, 'os) PageTable64
    \<Rightarrow> (EntryRef PagingResult \<times> ('pte, 'os) PageTable64) outcome" where
  "get_entry_mut_or_create P I M vaddr page_size self =
     (let from_p3 = (\<lambda>p3 self.
        let p3e = (p3, p3_index vaddr)
        in if page_size = Size1G then (Ok p3e, self)
           else try_in (next_table_mut_or_create P I p3e self) (\<lambda>p2 self.
             let p2e = (p2, p2_index vaddr)
             in if page_size = Size2M then (Ok p2e, self)
                else try_in (next_table_mut_or_create P I p2e self) (\<lambda>p1 self.
                  let p1e = (p1, p1_index vaddr) in (Ok p1e, self))))
      in if LEVELS M = 3 then Ret (from_p3 (table_of_mut I (root_paddr self)) self)
         else if LEVELS M = 4
         then (let p4 = table_of_mut I (root_paddr self);
                   p4e = (p4, p4_index vaddr)
               in Ret (try_in (next_table_mut_or_create P I p4e self) from_p3))
         else Panic)"

definition map_page ::
  "'pte GenericPTE \<Rightarrow> 'os PagingIf \<Rightarrow> PagingMetaData \<Rightarrow> VirtAddr \<Rightarrow> PhysAddr \<Rightarrow> PageSize \<Rightarrow> MappingFlags
    \<Rightarrow> ('pte, 'os) PageTable64 \<Rightarrow> (unit PagingResult \<times> ('pte, 'os) PageTable64) outcome" where
  "map_page P I M vaddr target page_size flags self =
     (case get_entry_mut_or_create P I M vaddr page_size self of
        Panic \<Rightarrow> Panic
      | Ret r \<Rightarrow> Ret (try_in r (\<lambda>entry self.
          if \<not> is_unused P (read_entry self entry) then (Err AlreadyMapped, self)
          else (Ok (), write_entry entry
                  (new_page P (phys_align_down target (page_size_usize page_size)) flags (page_size_is_huge page_size))
                  self))))"

definition unmap ::
  "'pte GenericPTE \<Rightarrow> 'os PagingIf \<Rightarrow> PagingMetaData \<Rightarrow> VirtAddr \<Rightarrow> ('pte, 'os) PageTable64
    \<Rightarrow> ((PhysAddr \<times> PageSize) PagingResult \<times> ('pte, 'os) PageTable64) outcome" where
  "unmap P I M vaddr self =
     (case get_entry_mut P I M vaddr self of
        Panic \<Rightarrow> Panic
      | Ret r \<Rightarrow> Ret (try_in (r, self) (\<lambda>(entry, sz) self.
          if is_unused P (read_entry self entry) then (Err NotMapped, self)
          else (let paddr = pte_paddr P (read_entry self entry);
                    self = write_entry entry (pte_clear P (read_entry self entry)) self
                in (Ok (paddr, sz), self)))))"

definition query ::
  "'pte GenericPTE \<Rightarrow> 'os PagingIf \<Rightarrow> PagingMetaData \<Rightarrow> VirtAddr \<Rightarrow> ('pte, 'os) PageTable64
    \<Rightarrow> (PhysAddr \<times> MappingFlags \<times> PageSize) PagingResult outcome" where
  "query P I M vaddr self =
     (case get_entry_mut P I M vaddr self of
        Panic \<Rightarrow> Panic
      | Ret (Inl e) \<Rightarrow> Ret (Err e)
      | Ret (Inr (entry, sz)) \<Rightarrow>
          if is_unused P (read_entry self entry) then Ret (Err NotMapped)
          else (let off = virt_align_offset vaddr (page_size_usize sz)
                in case pte_flags P (read_entry self entry) of
                     Panic \<Rightarrow> Panic
                   | Ret flags \<Rightarrow> Ret (Ok (phys_add (pte_paddr P (read_entry self entry)) off, flags, sz))))"

text \<open>The loops end only if the remaining size reaches 0, so they are partial.\<close>

definition region_page_size :: "VirtAddr \<Rightarrow> PhysAddr \<Rightarrow> usize \<Rightarrow> bool \<Rightarrow> PageSize" where
  "region_page_size vaddr paddr sz allow_huge =
     (if allow_huge
      then if virt_is_aligned vaddr (page_size_usize Size1G) \<and> phys_is_aligned paddr (page_size_usize Size1G)
              \<and> sz \<ge> page_size_usize Size1G
           then Size1G
           else if virt_is_aligned vaddr (page_size_usize Size2M) \<and> phys_is_aligned paddr (page_size_usize Size2M)
              \<and> sz \<ge> page_size_usize Size2M
           then Size2M
           else Size4K
      else Size4K)"

partial_function (option) map_region_loop ::
  "'pte GenericPTE \<Rightarrow> 'os PagingIf \<Rightarrow> PagingMetaData \<Rightarrow> MappingFlags \<Rightarrow> bool \<Rightarrow> VirtAddr \<Rightarrow> PhysAddr \<Rightarrow> usize
    \<Rightarrow> ('pte, 'os) PageTable64 \<Rightarrow> (unit PagingResult \<times> ('pte, 'os) PageTable64) outcome option" where
  "map_region_loop P I M flags allow_huge vaddr paddr sz self =
     (if sz > 0
      then (let page_size = region_page_size vaddr paddr sz allow_huge
            in case map_page P I M vaddr paddr page_size flags self of
                 Panic \<Rightarrow> Some Panic
               | Ret (Inl e, self) \<Rightarrow> Some (Ret (Err e, self))
               | Ret (Inr _, self) \<Rightarrow>
                   map_region_loop P I M flags allow_huge (virt_add vaddr (page_size_usize page_size))
                     (phys_add paddr (page_size_usize page_size)) (sz - page_size_usize page_size) self)
      else Some (Ret (Ok (), self)))"

definition map_region ::
  "'pte GenericPTE \<Rightarrow> 'os PagingIf \<Rightarrow> PagingMetaData \<Rightarrow> VirtAddr \<Rightarrow> PhysAddr \<Rightarrow> usize \<Rightarrow> MappingFlags \<Rightarrow> bool
    \<Rightarrow> ('pte, 'os) PageTable64 \<Rightarrow> (unit PagingResult \<times> ('pte, 'os) PageTable64) outcome option" where
  "map_region P I M vaddr paddr sz flags allow_huge self =
     (if \<not> virt_is_aligned vaddr (page_size_usize Size4K) \<or> \<not> phys_is_aligned paddr (page_size_usize Size4K)
         \<or> \<not> is_aligned sz (page_size_usize Size4K)
      then Some (Ret (Err NotAligned, self))
      else map_region_loop P I M flags allow_huge vaddr paddr sz self)"

partial_function (option) unmap_region ::
  "'pte GenericPTE \<Rightarrow> 'os PagingIf \<Rightarrow> PagingMetaData \<Rightarrow> VirtAddr \<Rightarrow> usize
    \<Rightarrow> ('pte, 'os) PageTable64 \<Rightarrow> (unit PagingResult \<times> ('pte, 'os) PageTable64) outcome option" where
  "unmap_region P I M vaddr sz self =
     (if sz > 0
      then (case unmap P I M vaddr self of
              Panic \<Rightarrow> Some Panic
            | Ret (Inl e, self) \<Rightarrow> Some (Ret (Err e, self))
            | Ret (Inr (_, page_size), self) \<Rightarrow>
                if \<not> virt_is_aligned vaddr (page_size_usize page_size) then Some Panic
                else if \<not> page_size_usize page_size \<le> sz then Some Panic
                else unmap_region P I M (virt_add vaddr (page_size_usize page_size))
                       (sz - page_size_usize page_size) self)
      else Some (Ret (Ok (), self)))"

text \<open>
  \<open>walk\<close> calls \<open>func\<close>, which may only observe: the model collects the arguments of its calls, in order.
  \<open>walk_entries\<close> is the rest of the loop in \<open>walk_recursive\<close> over the entries still to come, \<open>n\<close> of
  which were present so far.
\<close>

type_synonym 'pte visit = "nat \<times> usize \<times> VirtAddr \<times> 'pte"

function walk_entries ::
  "'pte GenericPTE \<Rightarrow> 'os PagingIf \<Rightarrow> PagingMetaData \<Rightarrow> ('pte, 'os) PageTable64 \<Rightarrow> VirtAddr \<Rightarrow> usize list \<Rightarrow> nat
    \<Rightarrow> VirtAddr \<Rightarrow> usize \<Rightarrow> usize \<Rightarrow> unit PagingResult \<times> 'pte visit list" where
  "walk_entries P I M self table [] level start_vaddr limit n = (Ok (), [])"
| "walk_entries P I M self table (i # is) level start_vaddr limit n =
     (let entry = read_entry self (table, i);
          vaddr = virt_add start_vaddr (push_bit (12 + (LEVELS M - 1 - level) * 9) i)
      in if is_present P entry
         then (let (r, below) =
                 (if level < LEVELS M - 1 \<and> \<not> is_huge P entry
                  then (case next_table_mut P I entry of
                          Inl e \<Rightarrow> (Err e, [])
                        | Inr table_entry \<Rightarrow>
                            walk_entries P I M self table_entry (map word_of_nat [0..<512]) (level + 1) vaddr limit 0)
                  else (Ok (), []))
               in case r of
                    Inl e \<Rightarrow> (Err e, (level, i, vaddr, entry) # below)
                  | Inr _ \<Rightarrow>
                      if n + 1 \<ge> limit then (Ok (), (level, i, vaddr, entry) # below)
                      else (let (r, rest) = walk_entries P I M self table is level start_vaddr limit (n + 1)
                            in (r, (level, i, vaddr, entry) # below @ rest)))
         else walk_entries P I M self table is level start_vaddr limit n)"
  by pat_completeness auto
termination
  by (relation "measures [\<lambda>(P, I, M, self, table, is, level, start, limit, n). LEVELS M - level,
                          \<lambda>(P, I, M, self, table, is, level, start, limit, n). length is]") auto

definition walk ::
  "'pte GenericPTE \<Rightarrow> 'os PagingIf \<Rightarrow> PagingMetaData \<Rightarrow> usize \<Rightarrow> ('pte, 'os) PageTable64
    \<Rightarrow> unit PagingResult \<times> 'pte visit list" where
  "walk P I M limit self =
     walk_entries P I M self (table_of I (root_paddr self)) (map word_of_nat [0..<512]) 0 (VirtAddr 0) limit 0"

definition drop_table :: "'os PagingIf \<Rightarrow> ('pte, 'os) PageTable64 \<Rightarrow> 'os" where
  "drop_table I self = fold (dealloc_frame I) (intrm_tables self) (os self)"

section \<open>What the page table relies on\<close>

text \<open>
  The contract of \<open>PagingIf\<close>, for states \<open>os_ok\<close> and a view \<open>allocated\<close> of the frames handed out: a new frame was free and
  fits an entry, a freed frame is no longer handed out, and the direct map of physical memory is injective.
\<close>

locale paging_if =
  fixes I :: "'os PagingIf" and frame_ok :: "PhysAddr \<Rightarrow> bool" and os_ok :: "'os \<Rightarrow> bool"
    and allocated :: "'os \<Rightarrow> PhysAddr set"
  assumes alloc_some: "os_ok w \<Longrightarrow> alloc_frame I w = (Some p, w') \<Longrightarrow>
      p \<notin> allocated w \<and> allocated w' = insert p (allocated w) \<and> frame_ok p \<and> os_ok w'"
    and alloc_none: "os_ok w \<Longrightarrow> alloc_frame I w = (None, w') \<Longrightarrow> allocated w' = allocated w \<and> os_ok w'"
    and dealloc: "os_ok w \<Longrightarrow> p \<in> allocated w \<Longrightarrow>
      allocated (dealloc_frame I p w) = allocated w - {p} \<and> os_ok (dealloc_frame I p w)"
    and ptv_inj: "inj (phys_to_virt I)"

section \<open>Tables as a tree\<close>

text \<open>
  Level 1 is the last level, \<open>LEVELS\<close> the root. \<open>slot\<close> follows the tables from table \<open>p\<close> of level \<open>l\<close> to
  the entry where the walk for an address ends: the table, the index and the level of that entry.
  \<open>mapping\<close> is that entry and its level, if it is in use.
\<close>

definition pidx :: "nat \<Rightarrow> VirtAddr \<Rightarrow> usize" where
  "pidx l va = drop_bit (12 + 9 * (l - 1)) (virt_as_usize va) AND 511"

definition is_table :: "'pte GenericPTE \<Rightarrow> 'pte \<Rightarrow> bool" where
  "is_table P e \<longleftrightarrow> is_present P e \<and> \<not> is_huge P e"

definition ent :: "'os PagingIf \<Rightarrow> ('pte, 'os) PageTable64 \<Rightarrow> PhysAddr \<Rightarrow> usize \<Rightarrow> 'pte" where
  "ent I s p i = tables s (phys_to_virt I p) i"

fun slot ::
  "'pte GenericPTE \<Rightarrow> 'os PagingIf \<Rightarrow> ('pte, 'os) PageTable64 \<Rightarrow> nat \<Rightarrow> PhysAddr \<Rightarrow> VirtAddr
    \<Rightarrow> PhysAddr \<times> usize \<times> nat" where
  "slot P I s 0 p va = (p, 0, 0)"
| "slot P I s (Suc l) p va =
     (if l \<noteq> 0 \<and> is_table P (ent I s p (pidx (Suc l) va))
      then slot P I s l (pte_paddr P (ent I s p (pidx (Suc l) va))) va
      else (p, pidx (Suc l) va, Suc l))"

definition mapping ::
  "'pte GenericPTE \<Rightarrow> 'os PagingIf \<Rightarrow> PagingMetaData \<Rightarrow> ('pte, 'os) PageTable64 \<Rightarrow> VirtAddr \<Rightarrow> ('pte \<times> nat) option" where
  "mapping P I M s va =
     (case slot P I s (LEVELS M) (root_paddr s) va of
        (p, i, l) \<Rightarrow> if is_unused P (ent I s p i) then None else Some (ent I s p i, l))"

text \<open>
  The invariant, for a level \<open>G p\<close> of each table: an entry is unused, points to a table of the next level
  that no other entry points to, or is a leaf at a level that allows it.
\<close>

definition entry_ok ::
  "'pte GenericPTE \<Rightarrow> (PhysAddr \<Rightarrow> nat) \<Rightarrow> PhysAddr set \<Rightarrow> nat \<Rightarrow> 'pte \<Rightarrow> bool" where
  "entry_ok P G T n e \<longleftrightarrow>
     is_unused P e \<or> (n > 1 \<and> is_table P e \<and> pte_paddr P e \<in> T \<and> Suc (G (pte_paddr P e)) = n)
     \<or> n = 1 \<or> (n \<le> 3 \<and> is_huge P e)"

definition pt_wf ::
  "'pte GenericPTE \<Rightarrow> 'os PagingIf \<Rightarrow> PagingMetaData \<Rightarrow> (PhysAddr \<Rightarrow> nat) \<Rightarrow> ('pte, 'os) PageTable64 \<Rightarrow> bool" where
  "pt_wf P I M G s \<longleftrightarrow>
     distinct (intrm_tables s) \<and> root_paddr s \<in> set (intrm_tables s) \<and> G (root_paddr s) = LEVELS M
     \<and> (\<forall>p \<in> set (intrm_tables s). 1 \<le> G p \<and> (\<forall>i. entry_ok P G (set (intrm_tables s)) (G p) (ent I s p i)))
     \<and> (\<forall>p \<in> set (intrm_tables s). \<forall>q \<in> set (intrm_tables s). \<forall>i j. 1 < G p \<longrightarrow> 1 < G q
          \<longrightarrow> is_table P (ent I s p i) \<longrightarrow> is_table P (ent I s q j)
          \<longrightarrow> pte_paddr P (ent I s p i) = pte_paddr P (ent I s q j) \<longrightarrow> p = q \<and> i = j)"

definition pt_inv ::
  "'pte GenericPTE \<Rightarrow> 'os PagingIf \<Rightarrow> PagingMetaData \<Rightarrow> ('os \<Rightarrow> bool) \<Rightarrow> ('os \<Rightarrow> PhysAddr set) \<Rightarrow> ('pte, 'os) PageTable64 \<Rightarrow> bool" where
  "pt_inv P I M os_ok allocated s \<longleftrightarrow>
     os_ok (os s) \<and> set (intrm_tables s) \<subseteq> allocated (os s) \<and> (\<exists>G. pt_wf P I M G s)"

locale page_table = generic_pte P frame_ok flags_ok norm + paging_if I frame_ok os_ok allocated
  for P :: "'pte GenericPTE" and frame_ok :: "PhysAddr \<Rightarrow> bool" and flags_ok :: "MappingFlags \<Rightarrow> bool"
    and norm :: "MappingFlags \<Rightarrow> MappingFlags" and I :: "'os PagingIf" and os_ok :: "'os \<Rightarrow> bool" and allocated :: "'os \<Rightarrow> PhysAddr set" +
  fixes M :: PagingMetaData
  assumes levels: "LEVELS M = 3 \<or> LEVELS M = 4"
begin

lemma unused_not_table: "is_unused P e \<Longrightarrow> \<not> is_table P e"
  by (simp add: is_table_def unused_absent)

lemma wf_child:
  assumes "pt_wf P I M G s" "p \<in> set (intrm_tables s)" "1 < G p" "is_table P (ent I s p i)"
  shows "pte_paddr P (ent I s p i) \<in> set (intrm_tables s)" "Suc (G (pte_paddr P (ent I s p i))) = G p"
proof -
  have "entry_ok P G (set (intrm_tables s)) (G p) (ent I s p i)" using assms by (simp add: pt_wf_def)
  then show "pte_paddr P (ent I s p i) \<in> set (intrm_tables s)" "Suc (G (pte_paddr P (ent I s p i))) = G p"
    using assms(3,4) by (auto simp: entry_ok_def is_table_def unused_absent)
qed

lemma wf_unique:
  "pt_wf P I M G s \<Longrightarrow> p \<in> set (intrm_tables s) \<Longrightarrow> q \<in> set (intrm_tables s) \<Longrightarrow> 1 < G p \<Longrightarrow> 1 < G q
   \<Longrightarrow> is_table P (ent I s p i) \<Longrightarrow> is_table P (ent I s q j)
   \<Longrightarrow> pte_paddr P (ent I s p i) = pte_paddr P (ent I s q j) \<Longrightarrow> p = q \<and> i = j"
  unfolding pt_wf_def by blast

lemma slot_end:
  assumes wf: "pt_wf P I M G s"
  shows "p \<in> set (intrm_tables s) \<Longrightarrow> G p = n \<Longrightarrow> 1 \<le> n \<Longrightarrow> slot P I s n p va = (q, j, l) \<Longrightarrow>
    q \<in> set (intrm_tables s) \<and> G q = l \<and> 1 \<le> l \<and> l \<le> n \<and> j = pidx l va
    \<and> (l = 1 \<or> \<not> is_table P (ent I s q j))"
proof (induction n arbitrary: p)
  case (Suc m)
  show ?case
  proof (cases "m \<noteq> 0 \<and> is_table P (ent I s p (pidx (Suc m) va))")
    case True
    let ?c = "pte_paddr P (ent I s p (pidx (Suc m) va))"
    have "?c \<in> set (intrm_tables s)" "Suc (G ?c) = G p"
      using wf_child [OF wf Suc.prems(1)] True Suc.prems(2) by auto
    with Suc.IH [of ?c] Suc.prems True show ?thesis by auto
  next
    case False
    with Suc.prems show ?thesis by auto
  qed
qed simp

lemma slot_le: "slot P I s n p va = (q, j, l) \<Longrightarrow> l \<le> n"
  by (induction n arbitrary: p) (auto split: if_splits intro: le_SucI)

lemma slot_top: "slot P I s (Suc m) p va = (q, j, Suc m) \<Longrightarrow> q = p \<and> j = pidx (Suc m) va"
  using slot_le [of s m "pte_paddr P (ent I s p (pidx (Suc m) va))" va q j "Suc m"]
  by (auto split: if_splits)

text \<open>Two addresses whose walks end at the same entry have the same indices down to its level.\<close>

lemma slot_inj:
  assumes wf: "pt_wf P I M G s"
  shows "p \<in> set (intrm_tables s) \<Longrightarrow> p' \<in> set (intrm_tables s) \<Longrightarrow> G p = n \<Longrightarrow> G p' = n \<Longrightarrow> 1 \<le> n
    \<Longrightarrow> slot P I s n p va = (q, j, l) \<Longrightarrow> slot P I s n p' va' = (q, j, l)
    \<Longrightarrow> p = p' \<and> (\<forall>k. l \<le> k \<longrightarrow> k \<le> n \<longrightarrow> pidx k va = pidx k va')"
proof (induction n arbitrary: p p')
  case (Suc m)
  let ?i = "pidx (Suc m) va" and ?i' = "pidx (Suc m) va'"
  note end1 = slot_end [OF wf Suc.prems(1,3,5,6)] and end2 = slot_end [OF wf Suc.prems(2,4,5,7)]
  show ?case
  proof (cases "l = Suc m")
    case True
    have "p = q" "p' = q" "?i = j" "?i' = j"
      using slot_top [of s m p va q j] slot_top [of s m p' va' q j] Suc.prems(6,7) True by simp_all
    then show ?thesis using True le_antisym by metis
  next
    case False
    have "l \<le> m" using end1 False by simp
    have t: "m \<noteq> 0 \<and> is_table P (ent I s p ?i)" "m \<noteq> 0 \<and> is_table P (ent I s p' ?i')"
      using Suc.prems(6,7) False by (auto split: if_splits)
    let ?c = "pte_paddr P (ent I s p ?i)" and ?c' = "pte_paddr P (ent I s p' ?i')"
    have G1: "1 < G p" "1 < G p'" using Suc.prems(3,4) t by simp_all
    have c: "?c \<in> set (intrm_tables s)" "?c' \<in> set (intrm_tables s)" "G ?c = m" "G ?c' = m"
      using wf_child [OF wf Suc.prems(1) G1(1)] wf_child [OF wf Suc.prems(2) G1(2)] t Suc.prems(3,4) by simp_all
    have "slot P I s m ?c va = (q, j, l)" "slot P I s m ?c' va' = (q, j, l)"
      using Suc.prems(6,7) t by simp_all
    with Suc.IH [OF c(1,2,3,4)] t
    have eq: "?c = ?c'" "\<forall>k. l \<le> k \<longrightarrow> k \<le> m \<longrightarrow> pidx k va = pidx k va'" by simp_all
    have "p = p' \<and> ?i = ?i'"
      by (rule wf_unique [OF wf Suc.prems(1,2) G1 _ _ eq(1)]) (use t in simp_all)
    with eq show ?thesis by (auto simp: le_Suc_eq)
  qed
qed simp

lemma slot_cong:
  "slot P I s n p va = (q, j, l) \<Longrightarrow> (\<And>k. l \<le> k \<Longrightarrow> k \<le> n \<Longrightarrow> pidx k va = pidx k va')
   \<Longrightarrow> slot P I s n p va' = (q, j, l)"
proof (induction n arbitrary: p)
  case (Suc m)
  have i: "pidx (Suc m) va = pidx (Suc m) va'"
    using Suc.prems(2) [of "Suc m"] slot_le [OF Suc.prems(1)] by simp
  show ?case
  proof (cases "m \<noteq> 0 \<and> is_table P (ent I s p (pidx (Suc m) va))")
    case True
    then have "slot P I s m (pte_paddr P (ent I s p (pidx (Suc m) va))) va' = (q, j, l)"
      using Suc.IH Suc.prems by simp
    then show ?thesis using True i by simp
  qed (use Suc.prems i in auto)
qed simp

text \<open>
  A change of the entry \<open>(q, j)\<close>, which is not a table, matters only for addresses whose walk ends there.
\<close>

lemma slot_update:
  assumes wf: "pt_wf P I M G s" and q: "q \<in> set (intrm_tables s)"
    and stop: "G q = 1 \<or> \<not> is_table P (ent I s q j)"
    and same: "\<And>p i. p \<in> set (intrm_tables s) \<Longrightarrow> (p, i) \<noteq> (q, j) \<Longrightarrow> ent I s' p i = ent I s p i"
  shows "p \<in> set (intrm_tables s) \<Longrightarrow> G p = n \<Longrightarrow> 1 \<le> n \<Longrightarrow>
    slot P I s' n p va = (if slot P I s n p va = (q, j, G q) then slot P I s' (G q) q va else slot P I s n p va)"
proof (induction n arbitrary: p)
  case (Suc m)
  let ?i = "pidx (Suc m) va"
  show ?case
  proof (cases "(p, ?i) = (q, j)")
    case True
    then show ?thesis using stop Suc.prems by auto
  next
    case False
    then have e: "ent I s' p ?i = ent I s p ?i" using same Suc.prems(1) by blast
    show ?thesis
    proof (cases "m \<noteq> 0 \<and> is_table P (ent I s p ?i)")
      case True
      then have "pte_paddr P (ent I s p ?i) \<in> set (intrm_tables s)" "G (pte_paddr P (ent I s p ?i)) = m"
        using wf_child [OF wf Suc.prems(1)] Suc.prems(2) by auto
      with Suc.IH [OF this] True e show ?thesis by simp
    next
      case stops: False
      with False e show ?thesis by auto
    qed
  qed
qed simp

end

context page_table
begin

lemma write_entry_simps [simp]:
  "root_paddr (write_entry r e s) = root_paddr s" "intrm_tables (write_entry r e s) = intrm_tables s"
  "os (write_entry r e s) = os s"
  by (simp_all add: write_entry_def)

lemma ent_write:
  "ent I (write_entry (phys_to_virt I q, j) e s) p i = (if p = q \<and> i = j then e else ent I s p i)"
  using ptv_inj by (auto simp: ent_def write_entry_def inj_eq)

lemma read_ent: "read_entry s (phys_to_virt I p, i) = ent I s p i"
  by (simp add: read_entry_def ent_def)

text \<open>Writing an entry that is no table over one that is no table.\<close>

lemma leaf_write:
  assumes s'_def: "s' = write_entry (phys_to_virt I q, j) e s"
    and wf: "pt_wf P I M G s" and q: "q \<in> set (intrm_tables s)"
    and stop: "G q = 1 \<or> \<not> is_table P (ent I s q j)" and stop': "G q = 1 \<or> \<not> is_table P e"
    and ok: "entry_ok P G (set (intrm_tables s)) (G q) e"
  shows "pt_wf P I M G s'"
    and "mapping P I M s' va = (if slot P I s (LEVELS M) (root_paddr s) va = (q, j, G q)
           then if is_unused P e then None else Some (e, G q) else mapping P I M s va)"
proof -
  have [simp]: "root_paddr s' = root_paddr s" "intrm_tables s' = intrm_tables s" by (simp_all add: s'_def)
  have ent': "ent I s' p i = (if p = q \<and> i = j then e else ent I s p i)" for p i
    unfolding s'_def by (rule ent_write)
  have same: "ent I s' p i = ent I s p i" if "p \<in> set (intrm_tables s)" "(p, i) \<noteq> (q, j)" for p i
    using that ent' by auto
  show "pt_wf P I M G s'"
    using wf stop' ok unfolding pt_wf_def ent' by auto
  have root: "root_paddr s \<in> set (intrm_tables s)" "G (root_paddr s) = LEVELS M" "1 \<le> LEVELS M"
    using wf levels by (auto simp: pt_wf_def)
  obtain p i l where sl: "slot P I s (LEVELS M) (root_paddr s) va = (p, i, l)" by (metis surj_pair)
  note en = slot_end [OF wf root sl]
  have upd: "slot P I s' (LEVELS M) (root_paddr s) va =
      (if (p, i, l) = (q, j, G q) then slot P I s' (G q) q va else (p, i, l))"
    unfolding sl [symmetric] by (rule slot_update [OF wf q stop _ root]) (rule same)
  show "mapping P I M s' va = (if slot P I s (LEVELS M) (root_paddr s) va = (q, j, G q)
           then if is_unused P e then None else Some (e, G q) else mapping P I M s va)"
  proof (cases "(p, i, l) = (q, j, G q)")
    case True
    obtain m where m: "G q = Suc m" using en True by (cases "G q") auto
    have "slot P I s' (G q) q va = (q, j, G q)"
      using en True stop' ent' m by auto
    then show ?thesis using True sl upd ent' by (simp add: mapping_def)
  next
    case False
    then have "(p, i) \<noteq> (q, j)" using en by auto
    then have "ent I s' p i = ent I s p i" using ent' by auto
    then show ?thesis using False sl upd by (auto simp: mapping_def)
  qed
qed

text \<open>Hanging a new empty table into an unused entry.\<close>

lemma table_create:
  assumes wf: "pt_wf P I M G s" and q: "q \<in> set (intrm_tables s)" "1 < G q"
    and unused: "is_unused P (ent I s q j)" and fresh: "c \<notin> set (intrm_tables s)" "frame_ok c"
    and s': "root_paddr s' = root_paddr s" "intrm_tables s' = intrm_tables s @ [c]"
    and ent': "\<And>p i. ent I s' p i = (if p = c then pte_zero P else if p = q \<and> i = j then new_table P c
                 else ent I s p i)"
  shows "pt_wf P I M (G(c := G q - 1)) s'"
    and "mapping P I M s' va = mapping P I M s va"
    and "slot P I s (LEVELS M) (root_paddr s) va = slot P I s (G q) q va \<Longrightarrow> j = pidx (G q) va
         \<Longrightarrow> slot P I s' (LEVELS M) (root_paddr s) va = slot P I s' (G q - 1) c va"
proof -
  have cq: "c \<noteq> q" using q fresh by blast
  have nt: "\<not> is_table P (ent I s q j)" "\<not> is_table P (pte_zero P)"
    using unused zero_unused unused_not_table by blast+
  have tb: "is_table P (new_table P c)" "pte_paddr P (new_table P c) = c"
    using table_present table_not_huge table_paddr fresh by (auto simp: is_table_def)
  obtain m where m: "G q = Suc (Suc m)" using q(2) less_iff_Suc_add [of 1 "G q"] by auto
  have old: "entry_ok P (G(c := G q - 1)) (set (intrm_tables s')) (G p) (ent I s p i)"
    if "p \<in> set (intrm_tables s)" for p i
  proof -
    have "entry_ok P G (set (intrm_tables s)) (G p) (ent I s p i)" using wf that by (simp add: pt_wf_def)
    then show ?thesis using fresh(1) by (auto simp: entry_ok_def s')
  qed
  have noparent: "pte_paddr P (ent I s p i) \<noteq> c"
    if "p \<in> set (intrm_tables s)" "1 < G p" "is_table P (ent I s p i)" for p i
    using wf_child [OF wf that] fresh by blast
  show "pt_wf P I M (G(c := G q - 1)) s'"
    unfolding pt_wf_def s'
  proof (intro conjI ballI allI impI)
    show "distinct (intrm_tables s @ [c])" "root_paddr s \<in> set (intrm_tables s @ [c])"
      "(G(c := G q - 1)) (root_paddr s) = LEVELS M"
      using wf fresh by (auto simp: pt_wf_def)
    fix p i assume p: "p \<in> set (intrm_tables s @ [c])"
    show "1 \<le> (G(c := G q - 1)) p" using wf p q by (auto simp: pt_wf_def)
    show "entry_ok P (G(c := G q - 1)) (set (intrm_tables s @ [c])) ((G(c := G q - 1)) p) (ent I s' p i)"
      using p old [of p i] zero_unused tb q cq by (auto simp: ent' entry_ok_def s')
    fix k j'
    assume k: "k \<in> set (intrm_tables s @ [c])" and "1 < (G(c := G q - 1)) p" "1 < (G(c := G q - 1)) k"
      "is_table P (ent I s' p i)" "is_table P (ent I s' k j')"
      "pte_paddr P (ent I s' p i) = pte_paddr P (ent I s' k j')"
    then show "p = k" "i = j'"
      using p nt noparent [of p i] noparent [of k j'] tb wf_unique [OF wf, of p k i j']
      by (auto simp: ent' split: if_splits)
  qed
  have root: "root_paddr s \<in> set (intrm_tables s)" "G (root_paddr s) = LEVELS M" "1 \<le> LEVELS M"
    using wf levels by (auto simp: pt_wf_def)
  have same: "ent I s' p i = ent I s p i" if "p \<in> set (intrm_tables s)" "(p, i) \<noteq> (q, j)" for p i
    using that ent' fresh by auto
  have upd: "slot P I s' (LEVELS M) (root_paddr s) va =
      (if slot P I s (LEVELS M) (root_paddr s) va = (q, j, G q) then slot P I s' (G q) q va
       else slot P I s (LEVELS M) (root_paddr s) va)" for va
    by (rule slot_update [OF wf q(1) disjI2 [OF nt(1)] _ root]) (rule same)
  have down: "slot P I s' (G q) q va = slot P I s' (G q - 1) c va" if "j = pidx (G q) va" for va
    using that m cq tb by (simp add: ent')
  have down0: "slot P I s' (G q - 1) c va = (c, pidx (G q - 1) va, G q - 1)" for va
    using m nt by (simp add: ent')
  obtain p i l where sl: "slot P I s (LEVELS M) (root_paddr s) va = (p, i, l)" by (metis surj_pair)
  note en = slot_end [OF wf root sl]
  show "mapping P I M s' va = mapping P I M s va"
  proof (cases "(p, i, l) = (q, j, G q)")
    case True
    then show ?thesis using sl upd [of va] down [of va] down0 [of va] en unused zero_unused s'
      by (auto simp: mapping_def ent')
  next
    case False
    then have "(p, i) \<noteq> (q, j)" "p \<noteq> c" using en fresh by auto
    then have "ent I s' p i = ent I s p i" using ent' by auto
    then show ?thesis using False sl upd s' by (auto simp: mapping_def)
  qed
  show "slot P I s' (LEVELS M) (root_paddr s) va = slot P I s' (G q - 1) c va"
    if "slot P I s (LEVELS M) (root_paddr s) va = slot P I s (G q) q va" "j = pidx (G q) va"
  proof -
    have "slot P I s (G q) q va = (q, j, G q)" using that(2) nt m by simp
    then show ?thesis using upd [of va] down [OF that(2)] that(1) by simp
  qed
qed

end

section \<open>The operations on the tree\<close>

text \<open>
  Steps that leave every translation as it is, and how far a descent for an address has come: \<open>reaches\<close>
  says that \<open>t\<close> is the table of level \<open>l\<close> on the walk for \<open>va\<close>.
\<close>

definition kept ::
  "'pte GenericPTE \<Rightarrow> 'os PagingIf \<Rightarrow> PagingMetaData \<Rightarrow> ('os \<Rightarrow> bool) \<Rightarrow> ('os \<Rightarrow> PhysAddr set)
    \<Rightarrow> ('pte, 'os) PageTable64 \<Rightarrow> (PhysAddr \<Rightarrow> nat) \<Rightarrow> ('pte, 'os) PageTable64 \<Rightarrow> bool" where
  "kept P I M os_ok allocated s G s' \<longleftrightarrow>
     pt_wf P I M G s' \<and> os_ok (os s') \<and> set (intrm_tables s') \<subseteq> allocated (os s')
     \<and> allocated (os s') - set (intrm_tables s') = allocated (os s) - set (intrm_tables s)
     \<and> mapping P I M s' = mapping P I M s"

definition reaches ::
  "'pte GenericPTE \<Rightarrow> 'os PagingIf \<Rightarrow> PagingMetaData \<Rightarrow> ('os \<Rightarrow> bool) \<Rightarrow> ('os \<Rightarrow> PhysAddr set)
    \<Rightarrow> ('pte, 'os) PageTable64 \<Rightarrow> VirtAddr \<Rightarrow> nat \<Rightarrow> VirtAddr \<Rightarrow> ('pte, 'os) PageTable64 \<Rightarrow> bool" where
  "reaches P I M os_ok allocated s va l t s' \<longleftrightarrow>
     (\<exists>G. kept P I M os_ok allocated s G s' \<and> (\<exists>q \<in> set (intrm_tables s'). t = phys_to_virt I q \<and> G q = l
        \<and> slot P I s' (LEVELS M) (root_paddr s') va = slot P I s' l q va))"

definition descended ::
  "'pte GenericPTE \<Rightarrow> 'os PagingIf \<Rightarrow> PagingMetaData \<Rightarrow> ('os \<Rightarrow> bool) \<Rightarrow> ('os \<Rightarrow> PhysAddr set)
    \<Rightarrow> ('pte, 'os) PageTable64 \<Rightarrow> VirtAddr \<Rightarrow> nat \<Rightarrow> EntryRef PagingResult \<times> ('pte, 'os) PageTable64 \<Rightarrow> bool" where
  "descended P I M os_ok allocated s va l x =
     (case x of
        (Inl e, s') \<Rightarrow> (\<exists>G. kept P I M os_ok allocated s G s') \<and> (e = NoMemory \<or> mapping P I M s va \<noteq> None)
      | (Inr (t, i), s') \<Rightarrow> i = pidx l va \<and> reaches P I M os_ok allocated s va l t s')"

fun size_level :: "PageSize \<Rightarrow> nat" where
  "size_level Size4K = 1"
| "size_level Size2M = 2"
| "size_level Size1G = 3"

lemma pidx_index: "p4_index va = pidx 4 va" "p3_index va = pidx 3 va" "p2_index va = pidx 2 va" "p1_index va = pidx 1 va"
  by (simp_all add: p4_index_def p3_index_def p2_index_def p1_index_def pidx_def ENTRY_COUNT_def)

context page_table
begin

lemma alloc_table_cases:
  assumes "os_ok (os s)" "alloc_table P I (s :: ('pte, 'os) PageTable64) = (r, s')"
  obtains (ok) c where "r = Ok c" "c \<notin> allocated (os s)" "allocated (os s') = insert c (allocated (os s))"
      "frame_ok c" "root_paddr s' = root_paddr s" "intrm_tables s' = intrm_tables s"
      "tables s' = (tables s)(phys_to_virt I c := \<lambda>_. pte_zero P)" "os_ok (os s')"
  | (none) "r = Err NoMemory" "allocated (os s') = allocated (os s)" "root_paddr s' = root_paddr s"
      "intrm_tables s' = intrm_tables s" "tables s' = tables s" "os_ok (os s')"
proof (cases "alloc_frame I (os s)")
  case (Pair f w)
  show thesis
  proof (cases f)
    case None
    then show thesis using assms Pair alloc_none none by (auto simp: alloc_table_def)
  next
    case (Some c)
    then show thesis using assms Pair alloc_some ok by (auto simp: alloc_table_def Let_def)
  qed
qed

lemma kept_tables:
  assumes "pt_wf P I M G s" "set (intrm_tables s) \<subseteq> allocated (os s)" "kept P I M os_ok allocated s0 G s"
    and "allocated (os s') = allocated (os s)" "root_paddr s' = root_paddr s"
    and "intrm_tables s' = intrm_tables s" "tables s' = tables s" "os_ok (os s')"
  shows "kept P I M os_ok allocated s0 G s'"
proof -
  have e: "ent I s' = ent I s" using assms by (simp add: ent_def fun_eq_iff)
  have "slot P I s' n p va = slot P I s n p va" for n p va
    by (induction n arbitrary: p) (simp_all add: e)
  then have "mapping P I M s' = mapping P I M s"
    by (intro ext) (simp add: mapping_def e assms(5) split: prod.split)
  then show ?thesis using assms e by (simp add: kept_def pt_wf_def)
qed

lemma next_step:
  assumes re: "reaches P I M os_ok allocated s0 va (Suc l) t s" and l: "1 \<le> l"
    and nx: "next_table_mut_or_create P I (t, pidx (Suc l) va) s = (r, s')"
  shows "case r of Inr t' \<Rightarrow> reaches P I M os_ok allocated s0 va l t' s'
     | Inl e \<Rightarrow> (\<exists>G. kept P I M os_ok allocated s0 G s') \<and> (e = NoMemory \<or> mapping P I M s0 va \<noteq> None)"
proof -
  from re obtain G q where k: "kept P I M os_ok allocated s0 G s" and q: "q \<in> set (intrm_tables s)" "t = phys_to_virt I q"
    "G q = Suc l" and path: "slot P I s (LEVELS M) (root_paddr s) va = slot P I s (Suc l) q va"
    by (auto simp: reaches_def)
  have wf: "pt_wf P I M G s" and sub: "set (intrm_tables s) \<subseteq> allocated (os s)" using k by (simp_all add: kept_def)
  let ?j = "pidx (Suc l) va" and ?e = "ent I s q (pidx (Suc l) va)"
  have G1: "1 < G q" using q l by simp
  show ?thesis
  proof (cases "is_unused P ?e")
    case unused: True
    obtain r1 s1 where al: "alloc_table P I s = (r1, s1)" by (metis surj_pair)
    have "os_ok (os s)" using k by (simp add: kept_def)
    from this al show ?thesis
    proof (cases rule: alloc_table_cases)
      case (ok c)
      define s2 where "s2 = write_entry (phys_to_virt I q, ?j) (new_table P c) (s1\<lparr>intrm_tables := intrm_tables s1 @ [c]\<rparr>)"
      have r: "r = Ok (phys_to_virt I c)" "s' = s2"
        using nx al ok(1) unused q(2) by (simp_all add: next_table_mut_or_create_def read_ent table_of_mut_def s2_def Let_def)
      have cT: "c \<notin> set (intrm_tables s)" using ok(2) sub by blast
      have st: "root_paddr s2 = root_paddr s" "intrm_tables s2 = intrm_tables s @ [c]" "os s2 = os s1"
        using ok by (simp_all add: s2_def)
      have en: "ent I s2 p i = (if p = c then pte_zero P else if p = q \<and> i = ?j then new_table P c else ent I s p i)" for p i
        using ok(7) cT q(1) ptv_inj unfolding s2_def ent_write by (auto simp: ent_def inj_eq)
      note cr = table_create [OF wf q(1) G1 unused cT ok(4) st(1,2) en]
      have "kept P I M os_ok allocated s0 (G(c := G q - 1)) s2"
        using k cr(1,2) ok(2,3,8) sub cT by (auto simp: kept_def st fun_eq_iff)
      moreover have "slot P I s2 (LEVELS M) (root_paddr s) va = slot P I s2 (G q - 1) c va"
        using cr(3) path q(3) by simp
      ultimately show ?thesis unfolding r reaches_def using q(3) st
        by (auto intro!: exI [of _ "G(c := G q - 1)"] bexI [of _ c])
    next
      case none
      have "r = Err NoMemory" "s' = s1"
        using nx al none(1) unused q(2) by (simp_all add: next_table_mut_or_create_def read_ent)
      then show ?thesis using kept_tables [OF wf sub k none(2-6)] by auto
    qed
  next
    case False
    have s': "s' = s" and r: "r = next_table_mut P I ?e"
      using nx False q(2) by (auto simp: next_table_mut_or_create_def read_ent)
    show ?thesis
    proof (cases "is_table P ?e")
      case True
      let ?c = "pte_paddr P ?e"
      have "r = Ok (phys_to_virt I ?c)" using r True by (simp add: next_table_mut_def is_table_def table_of_mut_def)
      moreover have "reaches P I M os_ok allocated s0 va l (phys_to_virt I ?c) s"
        unfolding reaches_def using k wf_child [OF wf q(1) G1 True] q(3) path True l
        by (intro exI [of _ G] conjI bexI [of _ ?c]) simp_all
      ultimately show ?thesis by (simp add: s')
    next
      case nt: False
      then have "slot P I s (LEVELS M) (root_paddr s) va = (q, ?j, Suc l)" using path by simp
      then have "mapping P I M s va \<noteq> None" using False by (simp add: mapping_def)
      moreover have "\<exists>e. r = Err e" using r nt by (auto simp: next_table_mut_def is_table_def)
      ultimately show ?thesis using k by (auto simp: s' kept_def)
    qed
  qed
qed

lemma reaches_root:
  "pt_inv P I M os_ok allocated s \<Longrightarrow> reaches P I M os_ok allocated s va (LEVELS M) (table_of_mut I (root_paddr s)) s"
  by (auto simp: reaches_def kept_def pt_inv_def pt_wf_def table_of_mut_def)

lemma try_in_descended:
  assumes "reaches P I M os_ok allocated s0 va (Suc l) t s" "1 \<le> l"
    and go: "\<And>t' s1. reaches P I M os_ok allocated s0 va l t' s1 \<Longrightarrow> descended P I M os_ok allocated s0 va k (f t' s1)"
  shows "descended P I M os_ok allocated s0 va k (try_in (next_table_mut_or_create P I (t, pidx (Suc l) va) s) f)"
proof -
  obtain r1 s1 where nx: "next_table_mut_or_create P I (t, pidx (Suc l) va) s = (r1, s1)" by (metis surj_pair)
  from next_step [OF assms(1,2) nx] go show ?thesis
    by (cases r1) (auto simp: nx descended_def)
qed

lemma descend_numeral:
  assumes "reaches P I M os_ok allocated s0 va (numeral n) t s" "numeral n = Suc l" "1 \<le> l"
    and "\<And>t' s1. reaches P I M os_ok allocated s0 va l t' s1 \<Longrightarrow> descended P I M os_ok allocated s0 va k (f t' s1)"
  shows "descended P I M os_ok allocated s0 va k (try_in (next_table_mut_or_create P I (t, pidx (numeral n) va) s) f)"
  unfolding assms(2) by (rule try_in_descended [OF assms(1) [unfolded assms(2)] assms(3)]) (rule assms(4))

lemmas descend_4 = descend_numeral [where n = "num.Bit0 (num.Bit0 num.One)" and l = 3]
lemmas descend_3 = descend_numeral [where n = "num.Bit1 num.One" and l = 2]
lemmas descend_2 = descend_numeral [where n = "num.Bit0 num.One" and l = 1]

text \<open>\<open>get_entry_mut_or_create\<close> leaves every translation and stops at the table for the page size.\<close>

lemma get_create:
  assumes inv: "pt_inv P I M os_ok allocated s"
  shows "\<exists>x. get_entry_mut_or_create P I M va sz s = Ret x \<and> descended P I M os_ok allocated s va (size_level sz) x"
proof -
  have here: "descended P I M os_ok allocated s va l (Ok (t, pidx l va), s')" if "reaches P I M os_ok allocated s va l t s'" for l t s'
    using that by (simp add: descended_def)
  note root = reaches_root [OF inv, of va]
  note D = get_entry_mut_or_create_def pidx_index Let_def
  show ?thesis
  proof (cases "LEVELS M = 3")
    case True
    with root show ?thesis
      by (cases sz; simp add: D del: One_nat_def; intro here descend_3 descend_2; simp)
  next
    case False
    then have "LEVELS M = 4" using levels by simp
    with root show ?thesis
      by (cases sz; simp add: D del: One_nat_def; intro here descend_4 descend_3 descend_2; simp)
  qed
qed

end

definition idx_agree :: "PagingMetaData \<Rightarrow> nat \<Rightarrow> VirtAddr \<Rightarrow> VirtAddr \<Rightarrow> bool" where
  "idx_agree M l va va' \<longleftrightarrow> (\<forall>k. l \<le> k \<longrightarrow> k \<le> LEVELS M \<longrightarrow> pidx k va = pidx k va')"

definition level_size :: "nat \<Rightarrow> PageSize" where
  "level_size l = (if l = 1 then Size4K else if l = 2 then Size2M else Size1G)"

text \<open>What a call of \<open>map\<close> that would write the entry \<open>e\<close> does to the translations.\<close>

definition map_post ::
  "'pte GenericPTE \<Rightarrow> 'os PagingIf \<Rightarrow> PagingMetaData \<Rightarrow> ('os \<Rightarrow> bool) \<Rightarrow> ('os \<Rightarrow> PhysAddr set)
    \<Rightarrow> VirtAddr \<Rightarrow> PageSize \<Rightarrow> 'pte \<Rightarrow> ('pte, 'os) PageTable64 \<Rightarrow> unit PagingResult \<Rightarrow> ('pte, 'os) PageTable64 \<Rightarrow> bool" where
  "map_post P I M os_ok allocated va sz e s r s' \<longleftrightarrow>
     pt_inv P I M os_ok allocated s' \<and>
     allocated (os s') - set (intrm_tables s') = allocated (os s) - set (intrm_tables s) \<and>
     (case r of
        Inl err \<Rightarrow> mapping P I M s' = mapping P I M s \<and>
          (err = NoMemory \<or> mapping P I M s va \<noteq> None \<or> (sz \<noteq> Size4K \<and> err = AlreadyMapped))
      | Inr _ \<Rightarrow> (\<forall>va'. idx_agree M (size_level sz) va va' \<longrightarrow> mapping P I M s va' = None) \<and>
          (\<forall>va'. mapping P I M s' va' =
             (if idx_agree M (size_level sz) va va' then Some (e, size_level sz) else mapping P I M s va')))"

lemma level_size_level [simp]: "level_size (size_level sz) = sz" by (cases sz) (simp_all add: level_size_def)

lemma size_level_bounds: "1 \<le> size_level sz" "size_level sz \<le> 3" by (cases sz; simp)+

lemma size_level_huge: "page_size_is_huge sz \<longleftrightarrow> size_level sz \<noteq> 1" by (cases sz) simp_all

context page_table
begin

lemma wf_root: "pt_wf P I M G s \<Longrightarrow> root_paddr s \<in> set (intrm_tables s) \<and> G (root_paddr s) = LEVELS M \<and> 1 \<le> LEVELS M"
  using levels by (auto simp: pt_wf_def)

lemma slot_agree:
  assumes wf: "pt_wf P I M G s" and sl: "slot P I s (LEVELS M) (root_paddr s) va = (q, j, l)"
  shows "slot P I s (LEVELS M) (root_paddr s) va' = (q, j, l) \<longleftrightarrow> idx_agree M l va va'"
proof
  assume "slot P I s (LEVELS M) (root_paddr s) va' = (q, j, l)"
  then show "idx_agree M l va va'"
    using slot_inj [OF wf _ _ _ _ _ sl, of "root_paddr s" va'] wf_root [OF wf] by (simp add: idx_agree_def)
next
  assume "idx_agree M l va va'"
  then show "slot P I s (LEVELS M) (root_paddr s) va' = (q, j, l)"
    using slot_cong [OF sl] by (simp add: idx_agree_def)
qed

lemma page_not_table: "flags_ok f \<Longrightarrow> size_level sz \<noteq> 1 \<Longrightarrow> \<not> is_table P (new_page P pa f (page_size_is_huge sz))"
  using page_huge by (simp add: size_level_huge is_table_def)

lemma map_page_post:
  assumes inv: "pt_inv P I M os_ok allocated s" and fl: "flags_ok flags"
  shows "\<exists>r s'. map_page P I M va target sz flags s = Ret (r, s') \<and>
     map_post P I M os_ok allocated va sz (new_page P (phys_align_down target (page_size_usize sz)) flags (page_size_is_huge sz)) s r s'"
proof -
  let ?e = "new_page P (phys_align_down target (page_size_usize sz)) flags (page_size_is_huge sz)"
  let ?l = "size_level sz"
  obtain r1 s1 where g: "get_entry_mut_or_create P I M va sz s = Ret (r1, s1)"
    and d: "descended P I M os_ok allocated s va ?l (r1, s1)"
    using get_create [OF inv] by (metis surj_pair)
  show ?thesis
  proof (cases r1)
    case (Inl e)
    then have "map_page P I M va target sz flags s = Ret (Err e, s1)" by (simp add: map_page_def g)
    moreover have "map_post P I M os_ok allocated va sz ?e s (Err e) s1"
      using d Inl by (auto simp: descended_def map_post_def kept_def pt_inv_def)
    ultimately show ?thesis by blast
  next
    case (Inr ref)
    then obtain t where ref: "ref = (t, pidx ?l va)" and re: "reaches P I M os_ok allocated s va ?l t s1"
      using d by (cases ref) (simp add: descended_def)
    from re obtain G q where k: "kept P I M os_ok allocated s G s1" and q: "q \<in> set (intrm_tables s1)"
      "t = phys_to_virt I q" "G q = ?l" and path: "slot P I s1 (LEVELS M) (root_paddr s1) va = slot P I s1 ?l q va"
      by (auto simp: reaches_def)
    have wf: "pt_wf P I M G s1" using k by (simp add: kept_def)
    obtain m where m: "?l = Suc m" by (cases sz) auto
    let ?old = "ent I s1 q (pidx ?l va)"
    show ?thesis
    proof (cases "is_unused P ?old")
      case False
      then have "map_page P I M va target sz flags s = Ret (Err AlreadyMapped, s1)"
        by (simp add: map_page_def g Inr ref q(2) read_ent)
      moreover have "sz = Size4K \<Longrightarrow> mapping P I M s1 va \<noteq> None"
        using False path by (simp add: mapping_def)
      then have "map_post P I M os_ok allocated va sz ?e s (Err AlreadyMapped) s1"
        using k by (auto simp: map_post_def kept_def pt_inv_def)
      ultimately show ?thesis by blast
    next
      case True
      define s2 where "s2 = write_entry (phys_to_virt I q, pidx ?l va) ?e s1"
      have res: "map_page P I M va target sz flags s = Ret (Ok (), s2)"
        using True by (simp add: map_page_def g Inr ref q(2) read_ent s2_def)
      have sl: "slot P I s1 (LEVELS M) (root_paddr s1) va = (q, pidx ?l va, ?l)"
        using path True unused_not_table [OF True] by (simp add: m)
      have stop: "G q = 1 \<or> \<not> is_table P ?old" "G q = 1 \<or> \<not> is_table P ?e"
        using unused_not_table [OF True] page_not_table [OF fl] q(3) by auto
      have ok: "entry_ok P G (set (intrm_tables s1)) (G q) ?e"
        using page_huge [OF fl] size_level_huge size_level_bounds(2) q(3) by (auto simp: entry_ok_def)
      note lw = leaf_write [OF s2_def wf q(1) stop ok]
      have "mapping P I M s2 va' = (if idx_agree M ?l va va' then Some (?e, ?l) else mapping P I M s va')" for va'
        using lw(2) [of va'] slot_agree [OF wf sl, of va'] page_used [OF fl] k q(3) by (simp add: kept_def)
      moreover have "idx_agree M ?l va va' \<Longrightarrow> mapping P I M s va' = None" for va'
      proof -
        assume "idx_agree M ?l va va'"
        then have "mapping P I M s1 va' = None"
          using slot_agree [OF wf sl, of va'] True by (simp add: mapping_def)
        then show ?thesis using k by (simp add: kept_def)
      qed
      ultimately have "map_post P I M os_ok allocated va sz ?e s (Ok ()) s2"
        using lw(1) k unfolding map_post_def kept_def pt_inv_def by (auto simp: s2_def)
      then show ?thesis using res by blast
    qed
  qed
qed

end

lemma slot_steps:
  "slot P I s 4 p va = (if is_table P (ent I s p (pidx 4 va)) then slot P I s 3 (pte_paddr P (ent I s p (pidx 4 va))) va
     else (p, pidx 4 va, 4))"
  "slot P I s 3 p va = (if is_table P (ent I s p (pidx 3 va)) then slot P I s 2 (pte_paddr P (ent I s p (pidx 3 va))) va
     else (p, pidx 3 va, 3))"
  "slot P I s 2 p va = (if is_table P (ent I s p (pidx 2 va)) then slot P I s 1 (pte_paddr P (ent I s p (pidx 2 va))) va
     else (p, pidx 2 va, 2))"
  "slot P I s 1 p va = (p, pidx 1 va, 1)"
  by (simp_all add: numeral_eq_Suc)

text \<open>What \<open>query\<close> answers for the entry the walk ends at.\<close>

definition query_entry :: "'pte GenericPTE \<Rightarrow> VirtAddr \<Rightarrow> ('pte \<times> nat) option
    \<Rightarrow> (PhysAddr \<times> MappingFlags \<times> PageSize) PagingResult outcome" where
  "query_entry P va m =
     (case m of
        None \<Rightarrow> Ret (Err NotMapped)
      | Some (e, l) \<Rightarrow>
          (case pte_flags P e of
             Panic \<Rightarrow> Panic
           | Ret flags \<Rightarrow>
               Ret (Ok (phys_add (pte_paddr P e) (virt_align_offset va (page_size_usize (level_size l))), flags, level_size l))))"

context page_table
begin

lemma next_table_eq:
  "next_table_mut P I e = (if is_table P e then Ok (phys_to_virt I (pte_paddr P e))
     else if is_present P e then Err MappedToHugePage else Err NotMapped)"
  by (simp add: next_table_mut_def is_table_def table_of_mut_def)

lemma stop_entry:
  assumes "pt_wf P I M G s" "p \<in> set (intrm_tables s)" "G p = l" "l \<noteq> 1" "\<not> is_table P (ent I s p i)"
  shows "is_unused P (ent I s p i) \<or> l \<le> 3 \<and> is_huge P (ent I s p i)"
proof -
  have "entry_ok P G (set (intrm_tables s)) (G p) (ent I s p i)" using assms(1,2) unfolding pt_wf_def by blast
  then show ?thesis using assms(3-5) by (auto simp: entry_ok_def)
qed

lemma unused_next: "is_unused P e \<Longrightarrow> next_table_mut P I e = Err NotMapped"
  by (simp add: next_table_mut_def unused_absent)

lemma get_entry_slot:
  assumes wf: "pt_wf P I M G s" and sl: "slot P I s (LEVELS M) (root_paddr s) va = (p, i, l)"
  shows "\<exists>x. get_entry_mut P I M va s = Ret x \<and>
    (if is_unused P (ent I s p i) then x = Err NotMapped \<or> (\<exists>sz. x = Ok ((phys_to_virt I p, i), sz))
     else x = Ok ((phys_to_virt I p, i), level_size l))"
proof -
  define from_p2 where "from_p2 = (\<lambda>p2.
        if is_huge P (read_entry s (p2, pidx 2 va)) then Ok ((p2, pidx 2 va), Size2M)
        else try_then (next_table_mut P I (read_entry s (p2, pidx 2 va))) (\<lambda>p1. Ok ((p1, pidx 1 va), Size4K)))"
  define from_p3 where "from_p3 = (\<lambda>p3.
        if is_huge P (read_entry s (p3, pidx 3 va)) then Ok ((p3, pidx 3 va), Size1G)
        else try_then (next_table_mut P I (read_entry s (p3, pidx 3 va))) from_p2)"
  let ?good = "\<lambda>x. if is_unused P (ent I s p i) then x = Err NotMapped \<or> (\<exists>sz. x = Ok ((phys_to_virt I p, i), sz))
     else x = Ok ((phys_to_virt I p, i), level_size l)"
  have child: "pte_paddr P (ent I s q j) \<in> set (intrm_tables s) \<and> G (pte_paddr P (ent I s q j)) = k"
    if "q \<in> set (intrm_tables s)" "G q = Suc k" "0 < k" "is_table P (ent I s q j)" for q j k
    using wf_child [OF wf that(1) _ that(4)] that by simp
  have p2: "?good (from_p2 (phys_to_virt I q))"
    if "q \<in> set (intrm_tables s)" "G q = 2" "slot P I s 2 q va = (p, i, l)" for q
    using that stop_entry [OF wf that(1,2), of "pidx 2 va"] unused_next
    by (auto simp: from_p2_def read_ent slot_steps next_table_eq is_table_def unused_absent level_size_def split: if_splits)
  have p3: "?good (from_p3 (phys_to_virt I q))"
    if q: "q \<in> set (intrm_tables s)" "G q = 3" "slot P I s 3 q va = (p, i, l)" for q
  proof (cases "is_table P (ent I s q (pidx 3 va))")
    case True
    then have "slot P I s 2 (pte_paddr P (ent I s q (pidx 3 va))) va = (p, i, l)" using q(3) by (simp add: slot_steps)
    moreover have "from_p3 (phys_to_virt I q) = from_p2 (phys_to_virt I (pte_paddr P (ent I s q (pidx 3 va))))"
      using True by (simp add: from_p3_def read_ent next_table_eq) (simp add: is_table_def)
    ultimately show ?thesis using p2 child [OF q(1) _ _ True, of 2] q(2) by simp
  next
    case False
    then have "p = q" "i = pidx 3 va" "l = 3" using q(3) by (simp_all add: slot_steps)
    then show ?thesis using stop_entry [OF wf q(1,2) _ False] unused_next
      by (auto simp: from_p3_def read_ent level_size_def)
  qed
  have root: "root_paddr s \<in> set (intrm_tables s)" "G (root_paddr s) = LEVELS M" using wf_root [OF wf] by auto
  show ?thesis
  proof (cases "LEVELS M = 3")
    case True
    then have "get_entry_mut P I M va s = Ret (from_p3 (phys_to_virt I (root_paddr s)))"
      unfolding get_entry_mut_def pidx_index from_p3_def from_p2_def Let_def table_of_mut_def by simp
    then show ?thesis using p3 [of "root_paddr s"] root sl True by auto
  next
    case False
    then have L: "LEVELS M = 4" using levels by simp
    have g: "get_entry_mut P I M va s =
        Ret (try_then (next_table_mut P I (ent I s (root_paddr s) (pidx 4 va))) from_p3)"
      using L unfolding get_entry_mut_def pidx_index from_p3_def from_p2_def Let_def table_of_mut_def read_ent by simp
    show ?thesis
    proof (cases "is_table P (ent I s (root_paddr s) (pidx 4 va))")
      case True
      then have "slot P I s 3 (pte_paddr P (ent I s (root_paddr s) (pidx 4 va))) va = (p, i, l)"
        using sl L by (simp add: slot_steps)
      with p3 [OF _ _ this] child [OF root(1) _ _ True, of 3] root(2) L True g show ?thesis
        by (simp add: next_table_eq)
    next
      case False
      then have "p = root_paddr s" "i = pidx 4 va" "l = 4" using sl L by (simp_all add: slot_steps)
      then show ?thesis using stop_entry [OF wf root(1) _ _ False] root(2) L g unused_next by auto
    qed
  qed
qed

lemma query_mapping:
  assumes "pt_inv P I M os_ok allocated s"
  shows "query P I M va s = query_entry P va (mapping P I M s va)"
proof -
  obtain G where wf: "pt_wf P I M G s" using assms by (auto simp: pt_inv_def)
  obtain p i l where sl: "slot P I s (LEVELS M) (root_paddr s) va = (p, i, l)" by (metis surj_pair)
  from get_entry_slot [OF wf sl] sl show ?thesis
    by (auto simp: query_def query_entry_def mapping_def read_ent Let_def split: if_splits outcome.splits)
qed

lemma unmap_post:
  assumes inv: "pt_inv P I M os_ok allocated s"
  shows "\<exists>r s'. unmap P I M va s = Ret (r, s') \<and> pt_inv P I M os_ok allocated s'
    \<and> os s' = os s \<and> intrm_tables s' = intrm_tables s
    \<and> (case mapping P I M s va of
         None \<Rightarrow> r = Err NotMapped \<and> s' = s
       | Some (e, l) \<Rightarrow> r = Ok (pte_paddr P e, level_size l) \<and> 1 \<le> l \<and> l \<le> 3 \<and>
           mapping P I M s' = (\<lambda>va'. if idx_agree M l va va' then None else mapping P I M s va'))"
proof -
  obtain G where wf: "pt_wf P I M G s" using inv by (auto simp: pt_inv_def)
  obtain p i l where sl: "slot P I s (LEVELS M) (root_paddr s) va = (p, i, l)" by (metis surj_pair)
  obtain x where x: "get_entry_mut P I M va s = Ret x" and good:
    "if is_unused P (ent I s p i) then x = Err NotMapped \<or> (\<exists>sz. x = Ok ((phys_to_virt I p, i), sz))
     else x = Ok ((phys_to_virt I p, i), level_size l)"
    using get_entry_slot [OF wf sl] by blast
  have en: "p \<in> set (intrm_tables s)" "G p = l" "1 \<le> l" "l = 1 \<or> \<not> is_table P (ent I s p i)"
    using slot_end [OF wf _ _ _ sl] wf_root [OF wf] by auto
  show ?thesis
  proof (cases "is_unused P (ent I s p i)")
    case True
    then have "unmap P I M va s = Ret (Err NotMapped, s)" using good x by (auto simp: unmap_def read_ent)
    moreover have "mapping P I M s va = None" using True sl by (simp add: mapping_def)
    ultimately show ?thesis using inv by auto
  next
    case False
    define s' where "s' = write_entry (phys_to_virt I p, i) (pte_clear P (ent I s p i)) s"
    have res: "unmap P I M va s = Ret (Ok (pte_paddr P (ent I s p i), level_size l), s')"
      using False good x by (simp add: unmap_def read_ent s'_def Let_def)
    have m: "mapping P I M s va = Some (ent I s p i, l)" using False sl by (simp add: mapping_def)
    have l3: "l \<le> 3" using stop_entry [OF wf en(1,2)] en(4) False by fastforce
    have stop: "G p = 1 \<or> \<not> is_table P (ent I s p i)" "G p = 1 \<or> \<not> is_table P (pte_clear P (ent I s p i))"
      using en unused_not_table clear_unused by auto
    have ok: "entry_ok P G (set (intrm_tables s)) (G p) (pte_clear P (ent I s p i))"
      using clear_unused by (simp add: entry_ok_def)
    note lw = leaf_write [OF s'_def wf en(1) stop ok]
    have "mapping P I M s' = (\<lambda>va'. if idx_agree M l va va' then None else mapping P I M s va')"
      using lw(2) slot_agree [OF wf sl] en(2) clear_unused by (auto simp: fun_eq_iff)
    moreover have "pt_inv P I M os_ok allocated s'" using lw(1) inv by (auto simp: pt_inv_def s'_def)
    ultimately show ?thesis using res m l3 en(3) by (auto simp: s'_def)
  qed
qed

end

end
