(* ===== verification/PageTableRegion.thy ===== *)
theory PageTableRegion
  imports PageTable64
begin

unbundle bit_operations_syntax

text \<open>
  The operations of \<open>PageTable64\<close> seen from outside: which addresses share a page, what \<open>map\<close>, \<open>unmap\<close>,
  \<open>map_region\<close> and \<open>unmap_region\<close> do to the answers of \<open>query\<close>, and what becomes of the frames over the life of
  a page table. Everything is proved for every entry type and operating system interface that meet their contracts.
\<close>

section \<open>Pages and distances in the address space\<close>

text \<open>
  The walk looks at the low \<open>va_bits\<close> bits of an address, so addresses are taken modulo that width.
  \<open>va_dist\<close> is how far an address lies above another one, modulo that width.
\<close>

definition va_bits :: "PagingMetaData \<Rightarrow> nat" where
  "va_bits M = 12 + 9 * LEVELS M"

definition va_dist :: "PagingMetaData \<Rightarrow> VirtAddr \<Rightarrow> VirtAddr \<Rightarrow> nat" where
  "va_dist M va va' = unat (take_bit (va_bits M) (virt_as_usize va' - virt_as_usize va))"

definition same_page :: "PagingMetaData \<Rightarrow> PageSize \<Rightarrow> VirtAddr \<Rightarrow> VirtAddr \<Rightarrow> bool" where
  "same_page M sz va va' \<longleftrightarrow>
     align_down (take_bit (va_bits M) (virt_as_usize va)) (page_size_usize sz)
     = align_down (take_bit (va_bits M) (virt_as_usize va')) (page_size_usize sz)"

definition page_shift :: "PageSize \<Rightarrow> nat" where
  "page_shift sz = 12 + 9 * (size_level sz - 1)"

lemma page_size_exp: "page_size_usize sz = 2 ^ page_shift sz"
  by (cases sz) (simp_all add: page_shift_def)

lemma and_eq_iff_bits:
  "x AND m = y AND (m :: usize) \<longleftrightarrow> (\<forall>n. bit m n \<longrightarrow> bit x n = bit y n)"
proof
  assume eq: "x AND m = y AND m"
  show "\<forall>n. bit m n \<longrightarrow> bit x n = bit y n"
  proof (intro allI impI)
    fix n assume "bit m n"
    then show "bit x n = bit y n" using arg_cong [OF eq, of "\<lambda>w. bit w n"] by (simp add: bit_and_iff)
  qed
qed (auto intro!: bit_word_eqI simp: bit_and_iff)

lemma pidx_eq_iff:
  "pidx k va = pidx k va' \<longleftrightarrow>
   (\<forall>n<9. bit (virt_as_usize va) (12 + 9 * (k - 1) + n) = bit (virt_as_usize va') (12 + 9 * (k - 1) + n))"
proof -
  have m: "(511 :: usize) = mask 9" by (simp add: mask_eq_exp_minus_1)
  show ?thesis unfolding pidx_def m and_eq_iff_bits by (auto simp: bit_mask_iff bit_drop_bit_eq)
qed

lemma idx_agree_bits:
  assumes "1 \<le> l"
  shows "idx_agree M l va va' \<longleftrightarrow>
    (\<forall>n. 12 + 9 * (l - 1) \<le> n \<longrightarrow> n < va_bits M \<longrightarrow> bit (virt_as_usize va) n = bit (virt_as_usize va') n)"
    (is "?L \<longleftrightarrow> ?R")
proof
  assume L: ?L
  show ?R
  proof (intro allI impI)
    fix n assume n: "12 + 9 * (l - 1) \<le> n" "n < va_bits M"
    define k where "k = (n - 12) div 9 + 1"
    define b where "b = (n - 12) mod 9"
    have nb: "n = 12 + 9 * (k - 1) + b" "b < 9" using n by (auto simp: k_def b_def)
    have "l \<le> k" "k \<le> LEVELS M" using n assms unfolding k_def va_bits_def by linarith+
    then have "pidx k va = pidx k va'" using L by (simp add: idx_agree_def)
    then show "bit (virt_as_usize va) n = bit (virt_as_usize va') n" using nb by (auto simp: pidx_eq_iff)
  qed
next
  assume R: ?R
  show ?L unfolding idx_agree_def pidx_eq_iff
  proof (intro allI impI)
    fix k n :: nat assume "l \<le> k" "k \<le> LEVELS M" "n < 9"
    then have "12 + 9 * (l - 1) \<le> 12 + 9 * (k - 1) + n" "12 + 9 * (k - 1) + n < va_bits M"
      using assms by (auto simp: va_bits_def)
    then show "bit (virt_as_usize va) (12 + 9 * (k - 1) + n) = bit (virt_as_usize va') (12 + 9 * (k - 1) + n)"
      using R by blast
  qed
qed

lemma idx_agree_same_page: "idx_agree M (size_level sz) va va' \<longleftrightarrow> same_page M sz va va'"
proof -
  have "same_page M sz va va' \<longleftrightarrow>
    (\<forall>n. page_shift sz \<le> n \<longrightarrow> n < va_bits M \<longrightarrow> bit (virt_as_usize va) n = bit (virt_as_usize va') n)"
    unfolding same_page_def align_down_def page_size_exp mask_exp and_eq_iff_bits
    using bit_imp_le_length [of "virt_as_usize va"] bit_imp_le_length [of "virt_as_usize va'"]
    by (auto simp: bit_not_iff bit_mask_iff bit_take_bit_iff not_less)
  then show ?thesis using idx_agree_bits [OF size_level_bounds(1)] by (simp add: page_shift_def)
qed

lemma uint_align_down: "n < 64 \<Longrightarrow> uint (align_down a (2 ^ n)) = uint a - uint a mod 2 ^ n"
proof -
  assume n: "n < 64"
  have "int (unat (align_down a (2 ^ n))) = int (unat a) - int (unat a mod 2 ^ n)"
    unfolding unat_align_down [OF n] by (rule of_nat_diff) simp
  then show ?thesis by (simp add: zmod_int)
qed

lemma uint_take_bit: "uint (take_bit n (w :: usize)) = uint w mod 2 ^ n"
  unfolding unsigned_take_bit_eq by (rule take_bit_eq_mod)

lemma page_dist_int:
  fixes B S X Y :: int
  assumes S: "0 < S" "S dvd B" "0 < B" "S dvd Y"
  shows "(Y mod B - Y mod B mod S = X mod B - X mod B mod S) \<longleftrightarrow> (X - Y) mod B < S"
proof -
  define x where "x = X mod B"
  define y where "y = Y mod B"
  have b: "0 \<le> x" "x < B" "0 \<le> y" "y < B" using S by (simp_all add: x_def y_def)
  have "S dvd y" using S unfolding y_def by (simp add: dvd_mod)
  then have y0: "y mod S = 0" by simp
  have yB: "y + S \<le> B"
  proof -
    have "S dvd B - y" using S(2) \<open>S dvd y\<close> by (rule dvd_diff)
    then have "S \<le> B - y" using b by (intro zdvd_imp_le) simp_all
    then show ?thesis by simp
  qed
  have d: "(X - Y) mod B = (x - y) mod B" by (simp add: x_def y_def mod_diff_eq)
  have "y = x - x mod S \<longleftrightarrow> (x - y) mod B < S"
  proof
    assume e: "y = x - x mod S"
    then have "x - y = x mod S" by simp
    moreover have "x mod S < S" "0 \<le> x mod S" using S(1) by simp_all
    moreover from this have "x mod S < B" using b yB by linarith
    ultimately show "(x - y) mod B < S" by (simp add: mod_pos_pos_trivial)
  next
    assume lt: "(x - y) mod B < S"
    show "y = x - x mod S"
    proof (cases "y \<le> x")
      case True
      then have "(x - y) mod B = x - y" using b by (intro mod_pos_pos_trivial) simp_all
      moreover have "(y + (x - y)) mod S = (x - y) mod S" using y0 by (metis mod_add_left_eq add_0)
      ultimately show ?thesis using lt True by (simp add: mod_pos_pos_trivial)
    next
      case False
      then have "(x - y + B) mod B = x - y + B" using b by (intro mod_pos_pos_trivial) simp_all
      then have "(x - y) mod B = x - y + B" by simp
      then show ?thesis using lt yB b by linarith
    qed
  qed
  then show ?thesis unfolding d x_def [symmetric] y_def [symmetric] y0 by simp
qed

lemma dist_shift_int:
  fixes B X Y p :: int
  assumes "0 < B" "0 \<le> p" "p \<le> B"
  shows "(X - (Y + p)) mod B = (if p \<le> (X - Y) mod B then (X - Y) mod B - p else (X - Y) mod B - p + B)"
proof -
  define d where "d = (X - Y) mod B"
  have d: "0 \<le> d" "d < B" using assms by (simp_all add: d_def)
  have e: "(X - (Y + p)) mod B = (d - p) mod B"
    unfolding d_def by (metis diff_diff_eq mod_diff_left_eq)
  show ?thesis
  proof (cases "p \<le> d")
    case True
    then have "(d - p) mod B = d - p" using d assms by (intro mod_pos_pos_trivial) simp_all
    then show ?thesis using True e by (simp add: d_def)
  next
    case False
    then have "(d - p + B) mod B = d - p + B" using d assms by (intro mod_pos_pos_trivial) simp_all
    then show ?thesis using False e by (simp add: d_def)
  qed
qed

lemma int_va_dist:
  assumes "va_bits M \<le> 64"
  shows "int (va_dist M va va') = (uint (virt_as_usize va') - uint (virt_as_usize va)) mod 2 ^ va_bits M"
proof -
  have "(2::int) ^ va_bits M dvd 2 ^ 64" using assms by (rule le_imp_power_dvd)
  then show ?thesis
    unfolding va_dist_def uint_nat [symmetric] uint_take_bit uint_word_ariths by (simp add: mod_mod_cancel)
qed

lemma va_dist_less: "va_bits M \<le> 64 \<Longrightarrow> va_dist M va va' < 2 ^ va_bits M"
proof -
  assume "va_bits M \<le> 64"
  from int_va_dist [OF this, of va va'] have "int (va_dist M va va') < 2 ^ va_bits M" by simp
  then have "int (va_dist M va va') < int (2 ^ va_bits M)" by simp
  then show ?thesis by (simp only: of_nat_less_iff)
qed

lemma va_dist_add:
  assumes "va_bits M \<le> 64" "unat p \<le> 2 ^ va_bits M"
  shows "va_dist M (virt_add va p) va' =
    (if unat p \<le> va_dist M va va' then va_dist M va va' - unat p else va_dist M va va' + 2 ^ va_bits M - unat p)"
proof -
  let ?B = "(2::int) ^ va_bits M" and ?X = "uint (virt_as_usize va')" and ?Y = "uint (virt_as_usize va)"
  have dv: "?B dvd 2 ^ 64" using assms(1) by (rule le_imp_power_dvd)
  have "int (unat p) \<le> int (2 ^ va_bits M)" using assms(2) by (simp only: of_nat_le_iff)
  then have p: "0 \<le> uint p" "uint p \<le> ?B" by simp_all
  have u: "uint (virt_as_usize (virt_add va p)) = (?Y + uint p) mod 2 ^ 64"
    by (simp add: virt_add_def uint_word_ariths)
  have "int (va_dist M (virt_add va p) va') = (?X - (?Y + uint p) mod 2 ^ 64) mod ?B"
    unfolding int_va_dist [OF assms(1)] u ..
  also have "\<dots> = (?X - (?Y + uint p)) mod ?B"
    by (subst (1) mod_diff_right_eq [symmetric]) (simp only: mod_mod_cancel [OF dv] mod_diff_right_eq)
  also have "\<dots> = (if uint p \<le> int (va_dist M va va') then int (va_dist M va va') - uint p
      else int (va_dist M va va') - uint p + ?B)"
    unfolding int_va_dist [OF assms(1)] by (rule dist_shift_int) (use p in simp_all)
  finally have "int (va_dist M (virt_add va p) va') = (if int (unat p) \<le> int (va_dist M va va')
      then int (va_dist M va va') - int (unat p) else int (va_dist M va va') - int (unat p) + int (2 ^ va_bits M))"
    by simp
  then show ?thesis using assms(2) 
    by (cases "unat p \<le> va_dist M va va'"; simp only: of_nat_le_iff if_True if_False; linarith)
qed

lemma same_page_dist:
  assumes "va_bits M \<le> 64" "page_shift sz \<le> va_bits M" "virt_is_aligned va (page_size_usize sz)"
  shows "same_page M sz va va' \<longleftrightarrow> va_dist M va va' < 2 ^ page_shift sz"
    and "va_dist M va va' < 2 ^ page_shift sz \<Longrightarrow>
      virt_align_offset va' (page_size_usize sz) = word_of_nat (va_dist M va va')"
proof -
  let ?B = "(2::int) ^ va_bits M" and ?S = "(2::int) ^ page_shift sz"
  let ?X = "uint (virt_as_usize va')" and ?Y = "uint (virt_as_usize va)"
  have sh: "page_shift sz < 64" by (cases sz) (simp_all add: page_shift_def)
  have SB: "?S dvd ?B" using assms(2) by (rule le_imp_power_dvd)
  have SY: "?S dvd ?Y"
  proof -
    have "2 ^ page_shift sz dvd unat (virt_as_usize va)"
      using assms(3) sh by (simp add: virt_is_aligned_def page_size_exp is_aligned_iff)
    then have "int (2 ^ page_shift sz) dvd int (unat (virt_as_usize va))" by (simp only: of_nat_dvd_iff)
    then show ?thesis by simp
  qed
  have "same_page M sz va va' \<longleftrightarrow> (?Y mod ?B - ?Y mod ?B mod ?S = ?X mod ?B - ?X mod ?B mod ?S)"
    unfolding same_page_def page_size_exp word_uint_eq_iff uint_align_down [OF sh] uint_take_bit ..
  also have "\<dots> \<longleftrightarrow> (?X - ?Y) mod ?B < ?S" by (rule page_dist_int) (use SB SY in simp_all)
  also have "\<dots> \<longleftrightarrow> int (va_dist M va va') < int (2 ^ page_shift sz)" using int_va_dist [OF assms(1)] by simp
  finally show "same_page M sz va va' \<longleftrightarrow> va_dist M va va' < 2 ^ page_shift sz" by simp
  assume lt: "va_dist M va va' < 2 ^ page_shift sz"
  have "int (unat (virt_as_usize va') mod 2 ^ page_shift sz) = int (va_dist M va va')"
  proof -
    have "int (va_dist M va va') = int (va_dist M va va') mod ?S" using lt by (simp add: mod_pos_pos_trivial)
    also have "\<dots> = (?X - ?Y) mod ?S" using SB by (simp add: int_va_dist [OF assms(1)] mod_mod_cancel)
    also have "\<dots> = ?X mod ?S" using SY by (metis diff_zero dvd_imp_mod_0 mod_diff_right_eq)
    finally show ?thesis by (simp add: zmod_int)
  qed
  then have "unat (align_offset (virt_as_usize va') (2 ^ page_shift sz)) = va_dist M va va'"
    unfolding unat_align_offset [OF sh] by (simp only: of_nat_eq_iff)
  moreover have "word_of_nat (unat x) = x" for x :: usize by simp
  ultimately show "virt_align_offset va' (page_size_usize sz) = word_of_nat (va_dist M va va')"
    unfolding virt_align_offset_def page_size_exp by metis
qed

section \<open>Regions\<close>

lemma is_aligned_add: "n < 64 \<Longrightarrow> is_aligned a (2 ^ n) \<Longrightarrow> is_aligned b (2 ^ n) \<Longrightarrow> is_aligned (a + b) (2 ^ n)"
proof -
  assume n: "n < 64" and "is_aligned a (2 ^ n)" "is_aligned b (2 ^ n)"
  then have "2 ^ n dvd unat a + unat b" by (simp add: is_aligned_iff)
  moreover have "(2::nat) ^ n dvd 2 ^ 64" using n by (intro le_imp_power_dvd) simp
  ultimately show ?thesis using n by (simp add: is_aligned_iff unat_word_ariths dvd_mod)
qed

lemma is_aligned_mono: "m \<le> n \<Longrightarrow> n < 64 \<Longrightarrow> is_aligned a (2 ^ n) \<Longrightarrow> is_aligned a (2 ^ m)"
  by (simp add: is_aligned_iff) (meson dvd_trans le_imp_power_dvd)

lemma unat_page_size: "unat (page_size_usize sz) = 2 ^ page_shift sz"
  by (cases sz) (simp_all add: page_shift_def)

lemma page_shift_bounds: "12 \<le> page_shift sz" "page_shift sz \<le> 30"
  by (cases sz; simp add: page_shift_def)+

lemma page_size_aligned: "is_aligned (page_size_usize sz) (2 ^ 12)"
  by (cases sz) (simp_all add: is_aligned_def align_offset_def)

text \<open>A region that consists of pages mapped in \<open>m\<close>, one after the other.\<close>

inductive tiled :: "(VirtAddr \<Rightarrow> ('pte \<times> nat) option) \<Rightarrow> VirtAddr \<Rightarrow> usize \<Rightarrow> bool" for m where
  tiled_nil: "tiled m va 0"
| tiled_page: "\<lbrakk>0 < sz; m va = Some (e, l); virt_is_aligned va (page_size_usize (level_size l));
     page_size_usize (level_size l) \<le> sz;
     tiled m (virt_add va (page_size_usize (level_size l))) (sz - page_size_usize (level_size l))\<rbrakk> \<Longrightarrow> tiled m va sz"

definition frames_ok :: "(PhysAddr \<Rightarrow> bool) \<Rightarrow> PhysAddr \<Rightarrow> usize \<Rightarrow> bool" where
  "frames_ok frame_ok pa sz \<longleftrightarrow> (\<forall>k. k * 4096 < unat sz \<longrightarrow> frame_ok (phys_add pa (word_of_nat (k * 4096))))"

lemma region_page_size_ok:
  assumes "virt_is_aligned va 0x1000" "phys_is_aligned pa 0x1000" "is_aligned sz 0x1000" "0 < sz"
    and p_def: "p = page_size_usize (region_page_size va pa sz huge)"
  shows "virt_is_aligned va p" "phys_is_aligned pa p" "p \<le> sz"
proof -
  have "unat sz \<noteq> 0" using assms(4) by (simp add: word_less_nat_alt)
  moreover have "2 ^ 12 dvd unat sz" using assms(3) is_aligned_iff [of 12 sz] by simp
  ultimately have "2 ^ 12 \<le> unat sz" by (simp add: dvd_imp_le)
  then have "0x1000 \<le> sz" by (simp add: word_le_nat_alt)
  then show "virt_is_aligned va p" "phys_is_aligned pa p" "p \<le> sz"
    using assms(1,2) by (auto simp: p_def region_page_size_def)
qed

text \<open>The region splits into its first page and the rest.\<close>

lemma region_split:
  assumes "va_bits M \<le> 64" "unat sz \<le> 2 ^ va_bits M" "p \<le> sz"
  shows "va_dist M va va' < unat sz \<longleftrightarrow>
      va_dist M va va' < unat p \<or> va_dist M (virt_add va p) va' < unat (sz - p)"
    and "va_dist M va va' < unat p \<Longrightarrow> unat (sz - p) \<le> va_dist M (virt_add va p) va'"
    and "va_dist M (virt_add va p) va' < unat (sz - p) \<Longrightarrow>
      va_dist M va va' = unat p + va_dist M (virt_add va p) va'"
proof -
  have u: "unat (sz - p) = unat sz - unat p" "unat p \<le> unat sz"
    using assms(3) by (simp_all add: unat_sub word_le_nat_alt)
  then have "unat p \<le> 2 ^ va_bits M" using assms(2) by linarith
  from va_dist_add [OF assms(1) this, of va va']
  have d: "unat p \<le> va_dist M va va' \<and> va_dist M (virt_add va p) va' = va_dist M va va' - unat p
    \<or> va_dist M va va' < unat p \<and> va_dist M (virt_add va p) va' = va_dist M va va' + 2 ^ va_bits M - unat p"
    by auto
  show "va_dist M va va' < unat sz \<longleftrightarrow>
      va_dist M va va' < unat p \<or> va_dist M (virt_add va p) va' < unat (sz - p)"
    using d u assms(2) by (elim disjE conjE; linarith)
  show "va_dist M va va' < unat p \<Longrightarrow> unat (sz - p) \<le> va_dist M (virt_add va p) va'"
    using d u assms(2) by (elim disjE conjE; linarith)
  show "va_dist M (virt_add va p) va' < unat (sz - p) \<Longrightarrow> va_dist M va va' = unat p + va_dist M (virt_add va p) va'"
    using d u assms(2) by (elim disjE conjE; linarith)
qed

definition page_hit ::
  "'pte GenericPTE \<Rightarrow> (MappingFlags \<Rightarrow> MappingFlags) \<Rightarrow> MappingFlags \<Rightarrow> PhysAddr \<Rightarrow> VirtAddr \<Rightarrow> nat
    \<Rightarrow> ('pte \<times> nat) option \<Rightarrow> bool" where
  "page_hit P norm flags pa va' d m \<longleftrightarrow>
     (\<exists>e l. m = Some (e, l) \<and>
        query_entry P va' m = Ret (Ok (phys_add pa (word_of_nat d), norm flags, level_size l)))"

definition region_post ::
  "'pte GenericPTE \<Rightarrow> 'os PagingIf \<Rightarrow> PagingMetaData \<Rightarrow> ('os \<Rightarrow> bool) \<Rightarrow> ('os \<Rightarrow> PhysAddr set) \<Rightarrow> (MappingFlags \<Rightarrow> MappingFlags)
    \<Rightarrow> MappingFlags \<Rightarrow> VirtAddr \<Rightarrow> PhysAddr \<Rightarrow> usize \<Rightarrow> ('pte, 'os) PageTable64 \<Rightarrow> unit PagingResult
    \<Rightarrow> ('pte, 'os) PageTable64 \<Rightarrow> bool" where
  "region_post P I M os_ok allocated norm flags va pa sz s r s' \<longleftrightarrow>
     pt_inv P I M os_ok allocated s' \<and>
     allocated (os s') - set (intrm_tables s') = allocated (os s) - set (intrm_tables s) \<and>
     (\<forall>va'. unat sz \<le> va_dist M va va' \<longrightarrow> mapping P I M s' va' = mapping P I M s va') \<and>
     (r = Ok () \<longrightarrow> tiled (mapping P I M s') va sz \<and>
        (\<forall>va'. va_dist M va va' < unat sz \<longrightarrow> mapping P I M s va' = None \<and>
           page_hit P norm flags pa va' (va_dist M va va') (mapping P I M s' va')))"

context page_table
begin

lemma bits: "va_bits M \<le> 64" "page_shift sz \<le> va_bits M"
  using levels by (cases sz; auto simp: va_bits_def page_shift_def)+

lemma agree_dist:
  "virt_is_aligned va (page_size_usize sz) \<Longrightarrow>
   idx_agree M (size_level sz) va va' \<longleftrightarrow> va_dist M va va' < unat (page_size_usize sz)"
  using same_page_dist(1) [OF bits] by (simp add: idx_agree_same_page unat_page_size)

lemma page_hit_first:
  assumes "flags_ok flags" "frame_ok pa" "virt_is_aligned va (page_size_usize sz)" "phys_is_aligned pa (page_size_usize sz)"
    and "va_dist M va va' < unat (page_size_usize sz)"
  shows "page_hit P norm flags pa va' (va_dist M va va')
    (Some (new_page P (phys_align_down pa (page_size_usize sz)) flags (page_size_is_huge sz), size_level sz))"
proof -
  have "align_down (phys_as_usize pa) (page_size_usize sz) = phys_as_usize pa"
    using align_down_add_offset [of "phys_as_usize pa" "page_size_usize sz"] assms(4)
    by (simp add: phys_is_aligned_def is_aligned_def)
  then have pa: "phys_align_down pa (page_size_usize sz) = pa" by (simp add: phys_align_down_def)
  have off: "virt_align_offset va' (page_size_usize sz) = word_of_nat (va_dist M va va')"
    using same_page_dist(2) [OF bits assms(3), of va'] assms(5) by (simp add: unat_page_size)
  show ?thesis unfolding page_hit_def pa
    by (intro exI conjI, rule refl)
       (simp add: query_entry_def page_flags [OF assms(1)] page_paddr [OF assms(2,1)] off)
qed

lemma frames_ok_rest:
  assumes "frames_ok frame_ok pa sz" "p \<le> sz" "is_aligned p (2 ^ 12)"
  shows "frames_ok frame_ok (phys_add pa p) (sz - p)"
  unfolding frames_ok_def
proof (intro allI impI)
  fix k assume k: "k * 4096 < unat (sz - p)"
  have "2 ^ 12 dvd unat p" using assms(3) is_aligned_iff [of 12 p] by simp
  then obtain j where j: "unat p = 4096 * j" by (auto elim: dvdE)
  have "unat (sz - p) = unat sz - unat p" "unat p \<le> unat sz"
    using assms(2) by (simp_all add: unat_sub word_le_nat_alt)
  then have "(j + k) * 4096 < unat sz" using k j by simp
  then have "frame_ok (phys_add pa (word_of_nat ((j + k) * 4096)))" using assms(1) unfolding frames_ok_def by blast
  moreover have "word_of_nat ((j + k) * 4096) = p + word_of_nat (k * 4096)"
  proof -
    have "word_of_nat ((j + k) * 4096) = (word_of_nat (unat p) :: usize) + word_of_nat (k * 4096)"
      unfolding j by (simp add: algebra_simps)
    then show ?thesis by simp
  qed
  ultimately show "frame_ok (phys_add (phys_add pa p) (word_of_nat (k * 4096)))"
    by (simp add: phys_add_def add.assoc)
qed

lemma region_post_cons:
  assumes sz: "0 < sz" "unat sz \<le> 2 ^ va_bits M" and p: "p = page_size_usize psz" "p \<le> sz"
    and al: "virt_is_aligned va p" "phys_is_aligned pa p" and ok: "flags_ok flags" "frame_ok pa"
    and first: "map_post P I M os_ok allocated va psz (new_page P (phys_align_down pa p) flags (page_size_is_huge psz)) s (Ok ()) s1"
    and rest: "region_post P I M os_ok allocated norm flags (virt_add va p) (phys_add pa p) (sz - p) s1 r s2"
  shows "region_post P I M os_ok allocated norm flags va pa sz s r s2"
proof -
  note split = region_split [OF bits(1) sz(2) p(2)]
  note agree = agree_dist [OF al(1) [unfolded p(1)], folded p(1)]
  let ?e = "new_page P (phys_align_down pa p) flags (page_size_is_huge psz)"
  have m1: "mapping P I M s1 va' = (if va_dist M va va' < unat p then Some (?e, size_level psz) else mapping P I M s va')"
    and m0: "va_dist M va va' < unat p \<Longrightarrow> mapping P I M s va' = None" for va'
    using first by (simp_all add: map_post_def agree)
  have m2: "unat (sz - p) \<le> va_dist M (virt_add va p) va' \<Longrightarrow> mapping P I M s2 va' = mapping P I M s1 va'" for va'
    using rest by (simp add: region_post_def)
  have u: "unat (sz - p) = unat sz - unat p" "unat p \<le> unat sz"
    using p(2) by (simp_all add: unat_sub word_le_nat_alt)
  have out: "mapping P I M s2 va' = mapping P I M s va'" if "unat sz \<le> va_dist M va va'" for va'
    using that split(1) [of va va'] m1 [of va'] m2 [of va'] by (auto simp: not_less)
  have hit: "mapping P I M s va' = None \<and> page_hit P norm flags pa va' (va_dist M va va') (mapping P I M s2 va')"
    if r: "r = Ok ()" and d: "va_dist M va va' < unat sz" for va'
  proof (cases "va_dist M va va' < unat p")
    case True
    have "mapping P I M s2 va' = Some (?e, size_level psz)"
      using m2 [OF split(2) [OF True]] m1 [of va'] True by simp
    then show ?thesis
      using m0 [OF True] page_hit_first [OF ok al [unfolded p(1)], of va'] True p(1) by simp
  next
    case False
    with d split(1) have d2: "va_dist M (virt_add va p) va' < unat (sz - p)" by blast
    then have "mapping P I M s1 va' = None"
      "page_hit P norm flags (phys_add pa p) va' (va_dist M (virt_add va p) va') (mapping P I M s2 va')"
      using rest r by (simp_all add: region_post_def)
    moreover have "phys_add (phys_add pa p) (word_of_nat (va_dist M (virt_add va p) va'))
        = phys_add pa (word_of_nat (va_dist M va va'))"
      using split(3) [OF d2] by (simp add: phys_add_def add.assoc)
    ultimately show ?thesis using m1 [of va'] False by (simp add: page_hit_def)
  qed
  have "tiled (mapping P I M s2) va sz" if "r = Ok ()"
  proof -
    have "va_dist M va va < unat p" by (simp add: va_dist_def p(1) unat_page_size)
    then have "mapping P I M s2 va = Some (?e, size_level psz)" using m2 [OF split(2)] m1 [of va] by simp
    moreover have "tiled (mapping P I M s2) (virt_add va p) (sz - p)" using rest that by (simp add: region_post_def)
    ultimately show ?thesis
      using tiled_page [OF sz(1), of "mapping P I M s2" va ?e "size_level psz"] al(1) p by (simp)
  qed
  then show ?thesis using first rest out hit by (auto simp: region_post_def map_post_def)
qed

end

context page_table
begin

text \<open>\<open>map_region\<close> always returns; it maps the whole region or reports an error, and touches nothing else.\<close>

lemma map_region_loop_post:
  assumes "flags_ok flags"
  shows "pt_inv P I M os_ok allocated s \<Longrightarrow> virt_is_aligned va 0x1000 \<Longrightarrow> phys_is_aligned pa 0x1000 \<Longrightarrow> is_aligned sz 0x1000
    \<Longrightarrow> unat sz \<le> 2 ^ va_bits M \<Longrightarrow> frames_ok frame_ok pa sz
    \<Longrightarrow> \<exists>r s'. map_region_loop P I M flags huge va pa sz s = Some (Ret (r, s'))
        \<and> region_post P I M os_ok allocated norm flags va pa sz s r s'"
proof (induction "unat sz" arbitrary: va pa sz s rule: less_induct)
  case less
  show ?case
  proof (cases "0 < sz")
    case False
    then have "sz = 0" by (metis word_gt_0)
    then show ?thesis
      using less.prems(1) by (auto simp: map_region_loop.simps [of P I M] region_post_def tiled_nil)
  next
    case True
    define psz where "psz = region_page_size va pa sz huge"
    define p where "p = page_size_usize psz"
    have al: "virt_is_aligned va p" "phys_is_aligned pa p" "p \<le> sz"
      using region_page_size_ok [OF less.prems(2-4) True, of p huge] by (simp_all add: p_def psz_def)
    have fr: "frame_ok pa"
      using less.prems(6) True unfolding frames_ok_def by (auto simp: phys_add_def word_less_nat_alt dest!: spec [of _ 0])
    obtain r1 s1 where mp: "map_page P I M va pa psz flags s = Ret (r1, s1)"
      and post: "map_post P I M os_ok allocated va psz (new_page P (phys_align_down pa p) flags (page_size_is_huge psz)) s r1 s1"
      using map_page_post [OF less.prems(1) assms, of va pa psz] by (auto simp: p_def)
    show ?thesis
    proof (cases r1)
      case (Inl e)
      then have "map_region_loop P I M flags huge va pa sz s = Some (Ret (Err e, s1))"
        using True mp by (simp add: map_region_loop.simps [of P I M] psz_def Let_def)
      moreover have "region_post P I M os_ok allocated norm flags va pa sz s (Err e) s1"
        using post Inl by (simp add: region_post_def map_post_def)
      ultimately show ?thesis by blast
    next
      case (Inr u)
      then have u: "r1 = Ok ()" by simp
      have p12: "is_aligned p (2 ^ 12)" unfolding p_def by (rule page_size_aligned)
      have sub: "unat (sz - p) = unat sz - unat p" "unat p \<le> unat sz"
        using al(3) by (simp_all add: unat_sub word_le_nat_alt)
      have "0 < unat p" by (simp add: p_def unat_page_size)
    then have lt: "unat (sz - p) < unat sz" using sub by linarith
      have inv1: "pt_inv P I M os_ok allocated s1" using post by (simp add: map_post_def)
      have a1: "virt_is_aligned (virt_add va p) 0x1000" "phys_is_aligned (phys_add pa p) 0x1000" "is_aligned (sz - p) 0x1000"
      proof -
        show "virt_is_aligned (virt_add va p) 0x1000" "phys_is_aligned (phys_add pa p) 0x1000"
          using less.prems(2,3) p12 is_aligned_add [of 12 _ p]
          by (simp_all add: virt_is_aligned_def phys_is_aligned_def virt_add_def phys_add_def)
        have "2 ^ 12 dvd unat sz" "2 ^ 12 dvd unat p"
          using less.prems(4) p12 is_aligned_iff [of 12 sz] is_aligned_iff [of 12 p] by simp_all
        then have "2 ^ 12 dvd unat (sz - p)" unfolding sub(1) by (rule dvd_diff_nat)
        then show "is_aligned (sz - p) 0x1000" using is_aligned_iff [of 12 "sz - p"] by simp
      qed
      have B: "unat (sz - p) \<le> 2 ^ va_bits M" using less.prems(5) lt by linarith
      from less.hyps [OF lt inv1 a1 B frames_ok_rest [OF less.prems(6) al(3) p12]]
      obtain r s2 where loop: "map_region_loop P I M flags huge (virt_add va p) (phys_add pa p) (sz - p) s1 = Some (Ret (r, s2))"
        and rest: "region_post P I M os_ok allocated norm flags (virt_add va p) (phys_add pa p) (sz - p) s1 r s2" by blast
      have "map_region_loop P I M flags huge va pa sz s = Some (Ret (r, s2))"
        using True mp loop by (simp add: map_region_loop.simps [of P I M flags huge va] u p_def psz_def Let_def)
      moreover have "region_post P I M os_ok allocated norm flags va pa sz s r s2"
        by (rule region_post_cons [OF True less.prems(5) p_def al(3,1,2) assms fr post [unfolded u] rest])
      ultimately show ?thesis by blast
    qed
  qed
qed

lemma tiled_cong:
  assumes "tiled m va sz" "unat sz \<le> 2 ^ va_bits M" "\<And>va'. va_dist M va va' < unat sz \<Longrightarrow> m' va' = m va'"
  shows "tiled m' va sz"
  using assms
proof (induction rule: tiled.induct)
  case (tiled_page sz va e l)
  let ?p = "page_size_usize (level_size l)"
  note split = region_split [OF bits(1) tiled_page.prems(1) tiled_page.hyps(4)]
  have le: "unat (sz - ?p) \<le> unat sz" using tiled_page.hyps(4) by (simp add: unat_sub word_le_nat_alt)
  have "tiled m' (virt_add va ?p) (sz - ?p)"
    by (rule tiled_page.IH) (use le tiled_page.prems split in auto)
  moreover have "va_dist M va va < unat sz" using tiled_page.hyps(1) by (simp add: va_dist_def word_less_nat_alt)
  ultimately show ?case using tiled.tiled_page [OF tiled_page.hyps(1)] tiled_page.hyps tiled_page.prems(2) by metis
qed (rule tiled_nil)

lemma unmap_region_post:
  assumes "unat sz \<le> 2 ^ va_bits M" "pt_inv P I M os_ok allocated s" "tiled (mapping P I M s) va sz"
  shows "\<exists>s'. unmap_region P I M va sz s = Some (Ret (Ok (), s')) \<and> pt_inv P I M os_ok allocated s'
    \<and> os s' = os s \<and> intrm_tables s' = intrm_tables s
    \<and> mapping P I M s' = (\<lambda>va'. if va_dist M va va' < unat sz then None else mapping P I M s va')"
  using assms
proof (induction "unat sz" arbitrary: va sz s rule: less_induct)
  case less
  show ?case
  proof (cases "sz = 0")
    case True
    then show ?thesis using less.prems by (auto simp: unmap_region.simps [of P I M])
  next
    case False
    with less.prems(3) obtain e l where t: "mapping P I M s va = Some (e, l)"
      "virt_is_aligned va (page_size_usize (level_size l))" "page_size_usize (level_size l) \<le> sz"
      "tiled (mapping P I M s) (virt_add va (page_size_usize (level_size l))) (sz - page_size_usize (level_size l))"
      by (auto elim: tiled.cases)
    define p where "p = page_size_usize (level_size l)"
    note t = t [folded p_def]
    obtain s1 where un: "unmap P I M va s = Ret (Ok (pte_paddr P e, level_size l), s1)"
      and s1: "pt_inv P I M os_ok allocated s1" "os s1 = os s" "intrm_tables s1 = intrm_tables s" "1 \<le> l" "l \<le> 3"
        "mapping P I M s1 = (\<lambda>va'. if idx_agree M l va va' then None else mapping P I M s va')"
      using unmap_post [OF less.prems(2), of va] t(1) by auto
    have l: "l = size_level (level_size l)" using s1(4,5) by (auto simp: level_size_def)
    have agree: "idx_agree M l va va' \<longleftrightarrow> va_dist M va va' < unat p" for va'
      using agree_dist [of va "level_size l" va'] t(2) l by (simp add: p_def)
    have sub: "unat (sz - p) = unat sz - unat p" "unat p \<le> unat sz"
      using t(3) by (simp_all add: unat_sub word_le_nat_alt)
    have "0 < unat p" by (simp add: p_def unat_page_size)
    then have lt: "unat (sz - p) < unat sz" using sub by linarith
    note split = region_split [OF bits(1) less.prems(1) t(3)]
    have "tiled (mapping P I M s1) (virt_add va p) (sz - p)"
    proof (rule tiled_cong [OF t(4)])
      show "unat (sz - p) \<le> 2 ^ va_bits M" using lt less.prems(1) by linarith
      fix va' assume "va_dist M (virt_add va p) va' < unat (sz - p)"
      from split(3) [OF this] show "mapping P I M s1 va' = mapping P I M s va'" by (simp add: s1(6) agree)
    qed
    moreover have "unat (sz - p) \<le> 2 ^ va_bits M" using lt less.prems(1) by linarith
    ultimately obtain s2 where s2: "unmap_region P I M (virt_add va p) (sz - p) s1 = Some (Ret (Ok (), s2))"
      "pt_inv P I M os_ok allocated s2" "os s2 = os s1" "intrm_tables s2 = intrm_tables s1"
      "mapping P I M s2 = (\<lambda>va'. if va_dist M (virt_add va p) va' < unat (sz - p) then None else mapping P I M s1 va')"
      using less.hyps [OF lt _ s1(1)] by blast
    have "unmap_region P I M va sz s = Some (Ret (Ok (), s2))"
      using False t(2,3) un s2(1) by (simp add: unmap_region.simps [of P I M va] p_def word_neq_0_conv)
    moreover have "mapping P I M s2 = (\<lambda>va'. if va_dist M va va' < unat sz then None else mapping P I M s va')"
      using split(1) by (auto simp: s2(5) s1(6) agree fun_eq_iff)
    ultimately show ?thesis using s2 s1 by auto
  qed
qed

end

section \<open>The life of a page table\<close>

context page_table
begin

lemma try_new_post:
  assumes "try_new P I w = (Ok s, w')" and ok: "os_ok (os w)"
  shows "pt_inv P I M os_ok allocated s" "mapping P I M s va = None"
    "allocated (os s) - set (intrm_tables s) = allocated (os w)"
proof -
  obtain root os' where al: "alloc_frame I (os w) = (Some root, os')"
    using assms by (auto simp: try_new_def alloc_table_def split: prod.splits option.splits)
  have s: "root_paddr s = root" "intrm_tables s = [root]" "os s = os'" "\<And>i. ent I s root i = pte_zero P"
    using assms al by (auto simp: try_new_def alloc_table_def Let_def ent_def world.defs)
  have a: "root \<notin> allocated (os w)" "allocated os' = insert root (allocated (os w))" "os_ok os'"
    using alloc_some [OF ok al] by auto
  have wf: "pt_wf P I M (\<lambda>_. LEVELS M) s"
    using zero_unused levels unused_not_table [OF zero_unused]
    by (auto simp: pt_wf_def s entry_ok_def)
  then show "pt_inv P I M os_ok allocated s" using s a by (auto simp: pt_inv_def)
  obtain n where n: "LEVELS M = Suc n" using levels by auto
  show "mapping P I M s va = None"
    using unused_not_table [OF zero_unused] zero_unused by (simp add: mapping_def n s)
  show "allocated (os s) - set (intrm_tables s) = allocated (os w)" using s a by auto
qed

lemma dealloc_all:
  "distinct ps \<Longrightarrow> set ps \<subseteq> allocated w \<Longrightarrow> os_ok w \<Longrightarrow>
   allocated (fold (dealloc_frame I) ps w) = allocated w - set ps \<and> os_ok (fold (dealloc_frame I) ps w)"
proof (induction ps arbitrary: w)
  case (Cons p ps)
  then have d: "allocated (dealloc_frame I p w) = allocated w - {p}" "os_ok (dealloc_frame I p w)"
    using dealloc by simp_all
  have "set ps \<subseteq> allocated (dealloc_frame I p w)" using Cons.prems d by auto
  then show ?case using Cons.IH [OF _ _ d(2)] Cons.prems d by auto
qed simp

lemma drop_frees:
  "pt_inv P I M os_ok allocated s \<Longrightarrow> allocated (drop_table I s) = allocated (os s) - set (intrm_tables s)"
  unfolding drop_table_def by (rule dealloc_all [THEN conjunct1]) (auto simp: pt_inv_def pt_wf_def)

lemma unmap_region_any:
  "pt_inv P I M os_ok allocated s \<Longrightarrow>
   \<exists>out. unmap_region P I M va sz s = Some out \<and> (\<forall>r s'. out = Ret (r, s') \<longrightarrow>
     pt_inv P I M os_ok allocated s' \<and> os s' = os s \<and> intrm_tables s' = intrm_tables s)"
proof (induction "unat sz" arbitrary: va sz s rule: less_induct)
  case less
  obtain r s1 where un: "unmap P I M va s = Ret (r, s1)"
    and s1: "pt_inv P I M os_ok allocated s1" "os s1 = os s" "intrm_tables s1 = intrm_tables s"
    using unmap_post [OF less.prems, of va] by blast
  show ?case
  proof (cases "0 < sz")
    case False
    then show ?thesis using less.prems by (simp add: unmap_region.simps [of P I M va])
  next
    case True
    show ?thesis
    proof (cases r)
      case (Inl e)
      then show ?thesis using True un s1 by (simp add: unmap_region.simps [of P I M va])
    next
      case (Inr x)
      obtain pa psz where x: "x = (pa, psz)" by (cases x)
      let ?p = "page_size_usize psz"
      show ?thesis
      proof (cases "virt_is_aligned va ?p \<and> ?p \<le> sz")
        case ok: True
        have "unat (sz - ?p) = unat sz - unat ?p" "unat ?p \<le> unat sz"
          using ok by (simp_all add: unat_sub word_le_nat_alt)
        moreover have "0 < unat ?p" by (simp add: unat_page_size)
        ultimately have "unat (sz - ?p) < unat sz" by linarith
        from less.hyps [OF this s1(1), of "virt_add va ?p"] show ?thesis
          using True un s1 Inr x ok by (simp add: unmap_region.simps [of P I M va])
      qed (use True un s1 Inr x in \<open>auto simp: unmap_region.simps [of P I M va]\<close>)
    qed
  qed
qed

end

text \<open>The calls that change a page table, whatever they return.\<close>

inductive pt_step ::
  "'pte GenericPTE \<Rightarrow> 'os PagingIf \<Rightarrow> PagingMetaData \<Rightarrow> (PhysAddr \<Rightarrow> bool) \<Rightarrow> (MappingFlags \<Rightarrow> bool)
    \<Rightarrow> ('pte, 'os) PageTable64 \<Rightarrow> ('pte, 'os) PageTable64 \<Rightarrow> bool" for P I M frame_ok flags_ok where
  step_map: "flags_ok flags \<Longrightarrow> map_page P I M va pa sz flags s = Ret (r, s') \<Longrightarrow> pt_step P I M frame_ok flags_ok s s'"
| step_unmap: "unmap P I M va s = Ret (r2, s') \<Longrightarrow> pt_step P I M frame_ok flags_ok s s'"
| step_map_region: "flags_ok flags \<Longrightarrow> frames_ok frame_ok pa sz \<Longrightarrow> unat sz \<le> 2 ^ va_bits M \<Longrightarrow>
    map_region P I M va pa sz flags huge s = Some (Ret (r, s')) \<Longrightarrow> pt_step P I M frame_ok flags_ok s s'"
| step_unmap_region: "unmap_region P I M va sz s = Some (Ret (r, s')) \<Longrightarrow> pt_step P I M frame_ok flags_ok s s'"

context page_table
begin

lemma pt_step_kept:
  assumes "pt_step P I M frame_ok flags_ok s s'" "pt_inv P I M os_ok allocated s"
  shows "pt_inv P I M os_ok allocated s'
    \<and> allocated (os s') - set (intrm_tables s') = allocated (os s) - set (intrm_tables s)"
  using assms
proof (cases rule: pt_step.cases)
  case (step_map flags va pa sz r)
  then show ?thesis using map_page_post [OF assms(2) step_map(1), of va pa sz] by (auto simp: map_post_def)
next
  case (step_unmap va r2)
  then show ?thesis using unmap_post [OF assms(2), of va] by auto
next
  case (step_map_region flags pa sz va huge r)
  show ?thesis
  proof (cases "virt_is_aligned va 0x1000 \<and> phys_is_aligned pa 0x1000 \<and> is_aligned sz 0x1000")
    case True
    then show ?thesis
      using map_region_loop_post [OF step_map_region(1) assms(2), of va pa sz huge] step_map_region
      by (auto simp: map_region_def region_post_def)
  next
    case False
    then have "s' = s" using step_map_region(4) by (auto simp: map_region_def)
    then show ?thesis using assms(2) by simp
  qed
next
  case (step_unmap_region va sz r)
  then show ?thesis using unmap_region_any [OF assms(2), of va sz] by auto
qed

lemma pt_steps_kept:
  assumes "(pt_step P I M frame_ok flags_ok)\<^sup>*\<^sup>* s s'" "pt_inv P I M os_ok allocated s"
  shows "pt_inv P I M os_ok allocated s'
    \<and> allocated (os s') - set (intrm_tables s') = allocated (os s) - set (intrm_tables s)"
  using assms
proof (induction rule: rtranclp_induct)
  case (step y z)
  then show ?case using pt_step_kept [OF step.hyps(2)] by auto
qed simp

end

section \<open>An instance to evaluate\<close>

lemma x64_frame_okI:
  assumes "unat (phys_as_usize pa) < 2 ^ 52" "2 ^ 12 dvd unat (phys_as_usize pa)"
  shows "x64_frame_ok pa"
proof -
  have m: "X64_PHYS_ADDR_MASK = mask 52 AND NOT (mask 12)"
    by (simp add: X64_PHYS_ADDR_MASK_def mask_eq_exp_minus_1)
  have a: "w AND mask 52 = w" if "unat w < 2 ^ 52" for w :: usize
    by (rule word_unat_eq_iff [THEN iffD2]) (simp only: unat_and_mask that mod_less)
  have b: "w AND NOT (mask 12) = w" if "2 ^ 12 dvd unat w" for w :: usize
    by (rule word_unat_eq_iff [THEN iffD2]) (simp only: unat_and_not_mask dvd_imp_mod_0 that diff_zero)
  show ?thesis unfolding x64_frame_ok_def m and.assoc [symmetric] a [OF assms(1)] b [OF assms(2)] ..
qed

text \<open>
  An operating system interface with a pool of eight frames, an identity direct map, and an empty x86-64
  page table over it.
\<close>

definition pool :: "PhysAddr list" where
  "pool = map PhysAddr [0x100000, 0x101000, 0x102000, 0x103000, 0x104000, 0x105000, 0x106000, 0x107000]"

definition pool_if :: "PhysAddr list PagingIf" where
  "pool_if =
     \<lparr>alloc_frame = (\<lambda>used. case filter (\<lambda>p. p \<notin> set used) pool of [] \<Rightarrow> (None, used) | p # _ \<Rightarrow> (Some p, p # used)),
      alloc_frames = (\<lambda>n used. (None, used)),
      dealloc_frame = (\<lambda>p used. filter (\<lambda>q. q \<noteq> p) used),
      dealloc_frames = (\<lambda>p n used. used),
      phys_to_virt = (\<lambda>p. VirtAddr (phys_as_usize p))\<rparr>"

definition demo_world :: "(X64PTE, PhysAddr list) world" where
  "demo_world = \<lparr>tables = (\<lambda>_ _. X64PTE 0), os = []\<rparr>"

definition demo_pt :: "(X64PTE, PhysAddr list) PageTable64" where
  "demo_pt = \<lparr>tables = (\<lambda>_. (\<lambda>_. X64PTE 0)), os = [PhysAddr 0x100000],
      root_paddr = PhysAddr 0x100000, intrm_tables = [PhysAddr 0x100000]\<rparr>"

abbreviation demo_pte :: "X64PTE GenericPTE" where "demo_pte \<equiv> X64 MFW ptf_word"

lemma demo_page_table: "page_table demo_pte x64_frame_ok x64_flags_ok x64_norm pool_if (\<lambda>_. True) set X64PagingMetaData"
proof (intro page_table.intro page_table_axioms.intro x64.generic_pte_axioms paging_if.intro)
  have ok: "list_all x64_frame_ok pool" by (simp add: pool_def x64_frame_ok_def X64_PHYS_ADDR_MASK_def)
  show "p \<notin> set w \<and> set w' = insert p (set w) \<and> x64_frame_ok p \<and> True"
    if al: "alloc_frame pool_if w = (Some p, w')" for w w' p
  proof -
    obtain ps where f: "filter (\<lambda>p. p \<notin> set w) pool = p # ps" and w': "w' = p # w"
      using al by (auto simp: pool_if_def split: list.splits)
    have "p \<in> set (filter (\<lambda>p. p \<notin> set w) pool)" by (simp add: f)
    then show ?thesis using ok w' by (auto simp: list_all_iff)
  qed
  show "inj (phys_to_virt pool_if)"
    by (rule injI) (simp add: pool_if_def PhysAddr.expand)
qed (auto simp: pool_if_def X64PagingMetaData_def split: list.splits)

lemma demo_pt_new: "try_new demo_pte pool_if demo_world = (Ok demo_pt, \<lparr>tables = (\<lambda>_ _. X64PTE 0), os = [PhysAddr 0x100000]\<rparr>)"
  by (simp add: try_new_def alloc_table_def pool_if_def pool_def demo_world_def demo_pt_def X64_def world.defs fun_eq_iff)

lemmas demo_inv = page_table.try_new_post(1) [OF demo_page_table demo_pt_new TrueI]

lemmas demo_eval = map_page_def get_entry_mut_or_create_def X64PagingMetaData_def next_table_mut_or_create_def
  alloc_table_def pool_if_def pool_def demo_pt_def X64_def x64_is_unused_def read_entry_def write_entry_def
  table_of_mut_def next_table_mut_def p4_index_def p3_index_def p2_index_def p1_index_def ENTRY_COUNT_def

lemma demo_map:
  "\<exists>s. map_page demo_pte pool_if X64PagingMetaData (VirtAddr 0x40201000) (PhysAddr 0x5000123) Size4K 3 demo_pt = Ret (Ok (), s)"
  by (simp add: demo_eval Let_def)

section \<open>Properties\<close>

text \<open>
  C4: After a successful \<open>map\<close>, \<open>query\<close> of any address in the page gives the frame plus the offset of the
  address in the page, the flags as the entry holds them and the page size; \<open>query\<close> of every other address
  gives what it gave before, and no address of the page was mapped before. The table stays well formed.
\<close>

theorem map_then_query:
  assumes "page_table P frame_ok flags_ok norm I os_ok allocated M" "pt_inv P I M os_ok allocated s"
    and "flags_ok flags" "frame_ok (phys_align_down target (page_size_usize sz))"
    and "map_page P I M va target sz flags s = Ret (Ok (), s')"
  shows "pt_inv P I M os_ok allocated s' \<and>
    query P I M va' s' =
      (if same_page M sz va va'
       then Ret (Ok (phys_add (phys_align_down target (page_size_usize sz)) (virt_align_offset va' (page_size_usize sz)),
                     norm flags, sz))
       else query P I M va' s) \<and>
    (same_page M sz va va' \<longrightarrow> query P I M va' s = Ret (Err NotMapped))"
proof -
  note L = page_table.query_mapping [OF assms(1)]
  have pte: "generic_pte P frame_ok flags_ok norm" using assms(1) by (simp add: page_table_def)
  from page_table.map_page_post [OF assms(1,2,3), of va target sz] assms(5)
  have post: "map_post P I M os_ok allocated va sz
      (new_page P (phys_align_down target (page_size_usize sz)) flags (page_size_is_huge sz)) s (Ok ()) s'" by simp
  then show ?thesis
    using L [OF assms(2)] L [of s'] generic_pte.page_flags [OF pte assms(3)] generic_pte.page_paddr [OF pte assms(4,3)]
    by (simp add: map_post_def idx_agree_same_page query_entry_def)
qed

theorem map_then_query_witness:
  "\<exists>s'. map_page demo_pte pool_if X64PagingMetaData (VirtAddr 0x40201000) (PhysAddr 0x5000123) Size4K 3 demo_pt = Ret (Ok (), s')
    \<and> query demo_pte pool_if X64PagingMetaData (VirtAddr 0x40201ABC) s' = Ret (Ok (PhysAddr 0x5000ABC, 3, Size4K))
    \<and> query demo_pte pool_if X64PagingMetaData (VirtAddr 0x40202000) s'
      = query demo_pte pool_if X64PagingMetaData (VirtAddr 0x40202000) demo_pt"
proof -
  obtain s' where m: "map_page demo_pte pool_if X64PagingMetaData (VirtAddr 0x40201000) (PhysAddr 0x5000123) Size4K 3 demo_pt
      = Ret (Ok (), s')" using demo_map by blast
  have ok: "x64_flags_ok 3" "x64_frame_ok (phys_align_down (PhysAddr 0x5000123) (page_size_usize Size4K))"
    by (simp_all add: x64_flags_ok_def MF_ALL_eq x64_frame_ok_def phys_align_down_def align_down_def X64_PHYS_ADDR_MASK_def)
  note th = map_then_query [OF demo_page_table demo_inv ok m]
  show ?thesis using m th [of "VirtAddr 0x40201ABC"] th [of "VirtAddr 0x40202000"]
    by (auto simp: same_page_def va_bits_def X64PagingMetaData_def align_down_def take_bit_eq_mask mask_eq_exp_minus_1
        phys_add_def phys_align_down_def virt_align_offset_def align_offset_def x64_norm_def MF_READ_def)
qed

text \<open>
  C12: A \<open>map\<close> that fails changes no translation, and for a 4K page it fails with anything but \<open>NoMemory\<close> only
  if the address is mapped already.
\<close>

theorem map_error_frame:
  assumes "page_table P frame_ok flags_ok norm I os_ok allocated M" "pt_inv P I M os_ok allocated s" "flags_ok flags"
    and "map_page P I M va target sz flags s = Ret (Err e, s')"
  shows "pt_inv P I M os_ok allocated s' \<and> query P I M va' s' = query P I M va' s
    \<and> (sz = Size4K \<and> e \<noteq> NoMemory \<longrightarrow> query P I M va s \<noteq> Ret (Err NotMapped))"
proof -
  note L = page_table.query_mapping [OF assms(1)]
  from page_table.map_page_post [OF assms(1,2,3), of va target sz] assms(4)
  have post: "map_post P I M os_ok allocated va sz
      (new_page P (phys_align_down target (page_size_usize sz)) flags (page_size_is_huge sz)) s (Err e) s'" by simp
  then show ?thesis
    using L [OF assms(2)] L [of s'] by (auto simp: map_post_def query_entry_def split: outcome.splits)
qed

lemma demo_flags: "x64_flags_ok 3" by (simp add: x64_flags_ok_def MF_ALL_eq)

lemmas demo_post = page_table.map_page_post [OF demo_page_table _ demo_flags]

lemma demo_same_page: "same_page X64PagingMetaData Size4K (VirtAddr 0x40201000) (VirtAddr 0x40201234)"
  by (simp add: same_page_def va_bits_def X64PagingMetaData_def align_down_def take_bit_eq_mask mask_eq_exp_minus_1)

lemma demo_mapped:
  assumes "map_page demo_pte pool_if X64PagingMetaData (VirtAddr 0x40201000) (PhysAddr 0x5000123) Size4K 3 demo_pt = Ret (Ok (), s)"
  shows "pt_inv demo_pte pool_if X64PagingMetaData (\<lambda>_. True) set s"
    "mapping demo_pte pool_if X64PagingMetaData s (VirtAddr 0x40201234) \<noteq> None"
  using demo_post [OF demo_inv, of "VirtAddr 0x40201000" "PhysAddr 0x5000123" Size4K] assms demo_same_page
    idx_agree_same_page [of X64PagingMetaData Size4K]
  by (auto simp: map_post_def)

lemma demo_map_twice:
  assumes "map_page demo_pte pool_if X64PagingMetaData (VirtAddr 0x40201000) (PhysAddr 0x5000123) Size4K 3 demo_pt = Ret (Ok (), s)"
  shows "\<exists>e s'. map_page demo_pte pool_if X64PagingMetaData (VirtAddr 0x40201234) (PhysAddr 0x6000000) Size4K 3 s = Ret (Err e, s')"
proof -
  obtain r s' where r: "map_page demo_pte pool_if X64PagingMetaData (VirtAddr 0x40201234) (PhysAddr 0x6000000) Size4K 3 s = Ret (r, s')"
    and post: "map_post demo_pte pool_if X64PagingMetaData (\<lambda>_. True) set (VirtAddr 0x40201234) Size4K
      (new_page demo_pte (phys_align_down (PhysAddr 0x6000000) (page_size_usize Size4K)) 3 (page_size_is_huge Size4K)) s r s'"
    using demo_post [OF demo_mapped(1) [OF assms], of "VirtAddr 0x40201234" "PhysAddr 0x6000000" Size4K] by blast
  have "idx_agree X64PagingMetaData (size_level Size4K) (VirtAddr 0x40201234) (VirtAddr 0x40201234)"
    by (simp add: idx_agree_def)
  then have "\<exists>e. r = Err e" using post demo_mapped(2) [OF assms] by (cases r) (auto simp: map_post_def)
  then show ?thesis using r by blast
qed

theorem map_error_frame_witness:
  "\<exists>s e s'. map_page demo_pte pool_if X64PagingMetaData (VirtAddr 0x40201000) (PhysAddr 0x5000123) Size4K 3 demo_pt = Ret (Ok (), s)
    \<and> map_page demo_pte pool_if X64PagingMetaData (VirtAddr 0x40201234) (PhysAddr 0x6000000) Size4K 3 s = Ret (Err e, s')
    \<and> query demo_pte pool_if X64PagingMetaData (VirtAddr 0x40201ABC) s' = query demo_pte pool_if X64PagingMetaData (VirtAddr 0x40201ABC) s"
proof -
  obtain s where m: "map_page demo_pte pool_if X64PagingMetaData (VirtAddr 0x40201000) (PhysAddr 0x5000123) Size4K 3 demo_pt
      = Ret (Ok (), s)" using demo_map by blast
  obtain e s' where m': "map_page demo_pte pool_if X64PagingMetaData (VirtAddr 0x40201234) (PhysAddr 0x6000000) Size4K 3 s
      = Ret (Err e, s')" using demo_map_twice [OF m] by blast
  show ?thesis
    using m m' map_error_frame [OF demo_page_table demo_mapped(1) [OF m] demo_flags m', of "VirtAddr 0x40201ABC"] by blast
qed

text \<open>
  C11: \<open>unmap\<close> always returns. On an address that is not mapped it reports \<open>NotMapped\<close> and changes nothing;
  otherwise it returns the frame and the size of the page, after which no address of that page is mapped and
  \<open>query\<close> of every other address gives what it gave before.
\<close>

theorem unmap_then_query:
  assumes "page_table P frame_ok flags_ok norm I os_ok allocated M" "pt_inv P I M os_ok allocated s"
  shows "\<exists>r s'. unmap P I M va s = Ret (r, s') \<and> pt_inv P I M os_ok allocated s' \<and>
    (case r of
       Inl e \<Rightarrow> e = NotMapped \<and> s' = s \<and> query P I M va s = Ret (Err NotMapped)
     | Inr (pa, sz) \<Rightarrow>
         (query P I M va s = Panic
          \<or> (\<exists>f. query P I M va s = Ret (Ok (phys_add pa (virt_align_offset va (page_size_usize sz)), f, sz)))) \<and>
         (\<forall>va'. query P I M va' s' = (if same_page M sz va va' then Ret (Err NotMapped) else query P I M va' s)))"
proof -
  note L = page_table.query_mapping [OF assms(1)]
  obtain r s' where u: "unmap P I M va s = Ret (r, s')" and inv: "pt_inv P I M os_ok allocated s'" and
    c: "case mapping P I M s va of
         None \<Rightarrow> r = Err NotMapped \<and> s' = s
       | Some (e, l) \<Rightarrow> r = Ok (pte_paddr P e, level_size l) \<and> 1 \<le> l \<and> l \<le> 3 \<and>
           mapping P I M s' = (\<lambda>va'. if idx_agree M l va va' then None else mapping P I M s va')"
    using page_table.unmap_post [OF assms, of va] by blast
  show ?thesis
  proof (cases "mapping P I M s va")
    case None
    then show ?thesis using u inv c L [OF assms(2)] by (simp add: query_entry_def)
  next
    case (Some el)
    obtain e l where el: "el = (e, l)" by (cases el)
    have "l = size_level (level_size l)" using c Some el by (auto simp: level_size_def)
    then have ag: "idx_agree M l va va' = same_page M (level_size l) va va'" for va'
      using idx_agree_same_page [of M "level_size l"] by simp
    show ?thesis using u inv c Some el L [OF assms(2)] L [OF inv]
      by (auto simp: ag query_entry_def split: outcome.splits)
  qed
qed

theorem unmap_then_query_witness:
  "\<exists>s pa sz s'. map_page demo_pte pool_if X64PagingMetaData (VirtAddr 0x40201000) (PhysAddr 0x5000123) Size4K 3 demo_pt = Ret (Ok (), s)
     \<and> unmap demo_pte pool_if X64PagingMetaData (VirtAddr 0x40201234) s = Ret (Ok (pa, sz), s')
     \<and> query demo_pte pool_if X64PagingMetaData (VirtAddr 0x40201234) s' = Ret (Err NotMapped)"
proof -
  obtain s where m: "map_page demo_pte pool_if X64PagingMetaData (VirtAddr 0x40201000) (PhysAddr 0x5000123) Size4K 3 demo_pt
      = Ret (Ok (), s)" using demo_map by blast
  have "query demo_pte pool_if X64PagingMetaData (VirtAddr 0x40201234) s \<noteq> Ret (Err NotMapped)"
    using page_table.query_mapping [OF demo_page_table demo_mapped(1) [OF m]] demo_mapped(2) [OF m]
    by (auto simp: query_entry_def split: outcome.splits)
  then show ?thesis
    using m unmap_then_query [OF demo_page_table demo_mapped(1) [OF m], of "VirtAddr 0x40201234"]
    by (fastforce simp: same_page_def split: sum.splits)
qed

text \<open>
  C8: \<open>map_region\<close> on 4K-aligned addresses and size (at most the address space) always returns. If it succeeds,
  \<open>query\<close> of every address of the region gives the physical address at the same distance from \<open>paddr\<close> and the
  flags, whatever page sizes were used; if it fails or succeeds, no address outside the region changes.
\<close>

theorem map_region_query:
  assumes "page_table P frame_ok flags_ok norm I os_ok allocated M" "pt_inv P I M os_ok allocated s" "flags_ok flags"
    and "virt_is_aligned va 0x1000" "phys_is_aligned pa 0x1000" "is_aligned sz 0x1000"
    and "unat sz \<le> 2 ^ va_bits M" "frames_ok frame_ok pa sz"
  shows "\<exists>r s'. map_region P I M va pa sz flags allow_huge s = Some (Ret (r, s')) \<and> pt_inv P I M os_ok allocated s' \<and>
    (\<forall>va'. unat sz \<le> va_dist M va va' \<longrightarrow> query P I M va' s' = query P I M va' s) \<and>
    (r = Ok () \<longrightarrow> (\<forall>va'. va_dist M va va' < unat sz \<longrightarrow> (\<exists>psz.
       query P I M va' s' = Ret (Ok (phys_add pa (word_of_nat (va_dist M va va')), norm flags, psz)))))"
proof -
  note L = page_table.query_mapping [OF assms(1)]
  obtain r s' where loop: "map_region_loop P I M flags allow_huge va pa sz s = Some (Ret (r, s'))"
    and post: "region_post P I M os_ok allocated norm flags va pa sz s r s'"
    using page_table.map_region_loop_post [OF assms(1,3,2,4-8)] by blast
  have "map_region P I M va pa sz flags allow_huge s = Some (Ret (r, s'))"
    using loop assms(4-6) by (simp add: map_region_def)
  moreover have "pt_inv P I M os_ok allocated s'" using post by (simp add: region_post_def)
  moreover note L [OF assms(2)] L [OF this]
  ultimately show ?thesis using post unfolding region_post_def page_hit_def by auto
qed

lemma demo_region:
  "\<exists>s'. map_region demo_pte pool_if X64PagingMetaData (VirtAddr 0x40200000) (PhysAddr 0x600000) 0x200000 3 True demo_pt
     = Some (Ret (Ok (), s'))"
  unfolding map_region_def
  by (subst map_region_loop.simps, subst map_region_loop.simps)
     (simp add: demo_eval Let_def region_page_size_def virt_is_aligned_def phys_is_aligned_def is_aligned_def
       align_offset_def phys_add_def virt_add_def)

lemma demo_region_args:
  "virt_is_aligned (VirtAddr 0x40200000) 0x1000" "phys_is_aligned (PhysAddr 0x600000) 0x1000"
  "is_aligned 0x200000 0x1000" "unat (0x200000 :: usize) \<le> 2 ^ va_bits X64PagingMetaData"
  "frames_ok x64_frame_ok (PhysAddr 0x600000) 0x200000"
proof -
  have "x64_frame_ok (phys_add (PhysAddr 0x600000) (word_of_nat (k * 4096)))" if k: "k * 4096 < unat (0x200000 :: usize)" for k
  proof -
    have u: "unat (word_of_nat (k * 4096) :: usize) = k * 4096"
      unfolding unat_of_nat by (rule mod_less) (use k in simp)
    then have "unat (0x600000 + word_of_nat (k * 4096) :: usize) = 0x600000 + k * 4096"
      using k by (subst unat_add_nowrap; simp only: u) simp_all
    then have "unat (0x600000 + word_of_nat (k * 4096) :: usize) = (1536 + k) * 4096" by simp
    then show ?thesis using k unfolding phys_add_def by (intro x64_frame_okI) simp_all
  qed
  then show "frames_ok x64_frame_ok (PhysAddr 0x600000) 0x200000" by (simp add: frames_ok_def)
qed (simp_all add: virt_is_aligned_def phys_is_aligned_def is_aligned_def align_offset_def va_bits_def X64PagingMetaData_def)

theorem map_region_query_witness:
  "\<exists>s'. map_region demo_pte pool_if X64PagingMetaData (VirtAddr 0x40200000) (PhysAddr 0x600000) 0x200000 3 True demo_pt
      = Some (Ret (Ok (), s'))
    \<and> (\<exists>psz. query demo_pte pool_if X64PagingMetaData (VirtAddr 0x40212345) s' = Ret (Ok (PhysAddr 0x612345, 3, psz)))"
proof -
  have d: "va_dist X64PagingMetaData (VirtAddr 0x40200000) (VirtAddr 0x40212345) = 0x12345"
    by (simp add: va_dist_def va_bits_def X64PagingMetaData_def take_bit_eq_mask mask_eq_exp_minus_1)
  obtain s' where s': "map_region demo_pte pool_if X64PagingMetaData (VirtAddr 0x40200000) (PhysAddr 0x600000) 0x200000 3 True demo_pt
     = Some (Ret (Ok (), s'))" using demo_region by blast
  obtain psz where "query demo_pte pool_if X64PagingMetaData (VirtAddr 0x40212345) s' = Ret (Ok (phys_add (PhysAddr 0x600000)
      (word_of_nat (va_dist X64PagingMetaData (VirtAddr 0x40200000) (VirtAddr 0x40212345))), x64_norm 3, psz))"
  proof -
    obtain r s1 where r: "map_region demo_pte pool_if X64PagingMetaData (VirtAddr 0x40200000) (PhysAddr 0x600000) 0x200000 3 True demo_pt
        = Some (Ret (r, s1))" and h: "r = Ok () \<longrightarrow> (\<forall>va'. va_dist X64PagingMetaData (VirtAddr 0x40200000) va' < unat (0x200000 :: usize)
        \<longrightarrow> (\<exists>psz. query demo_pte pool_if X64PagingMetaData va' s1 = Ret (Ok (phys_add (PhysAddr 0x600000)
          (word_of_nat (va_dist X64PagingMetaData (VirtAddr 0x40200000) va')), x64_norm 3, psz))))"
      using map_region_query [OF demo_page_table demo_inv demo_flags demo_region_args, of True] by blast
    have "r = Ok ()" "s1 = s'" using r s' by simp_all
    moreover have "va_dist X64PagingMetaData (VirtAddr 0x40200000) (VirtAddr 0x40212345) < unat (0x200000 :: usize)"
      by (simp add: d)
    ultimately show thesis using h that by blast
  qed
  then show ?thesis using s' unfolding d by (auto simp: phys_add_def x64_norm_def MF_READ_def)
qed

text \<open>
  C9: \<open>unmap_region\<close> of a region that \<open>map_region\<close> has just mapped succeeds without a panic and restores
  every translation.
\<close>

theorem map_unmap_region_roundtrip:
  assumes "page_table P frame_ok flags_ok norm I os_ok allocated M" "pt_inv P I M os_ok allocated s" "flags_ok flags"
    and "virt_is_aligned va 0x1000" "phys_is_aligned pa 0x1000" "is_aligned sz 0x1000"
    and "unat sz \<le> 2 ^ va_bits M" "frames_ok frame_ok pa sz"
    and "map_region P I M va pa sz flags allow_huge s = Some (Ret (Ok (), s'))"
  shows "\<exists>s''. unmap_region P I M va sz s' = Some (Ret (Ok (), s'')) \<and> pt_inv P I M os_ok allocated s''
    \<and> (\<forall>va'. query P I M va' s'' = query P I M va' s)"
proof -
  note L = page_table.query_mapping [OF assms(1)]
  have post: "region_post P I M os_ok allocated norm flags va pa sz s (Ok ()) s'"
    using page_table.map_region_loop_post [OF assms(1,3,2,4-8), of allow_huge] assms(4-6,9) by (auto simp: map_region_def)
  then have inv': "pt_inv P I M os_ok allocated s'" and til: "tiled (mapping P I M s') va sz" by (simp_all add: region_post_def)
  obtain s'' where s'': "unmap_region P I M va sz s' = Some (Ret (Ok (), s''))" "pt_inv P I M os_ok allocated s''"
    "mapping P I M s'' = (\<lambda>va'. if va_dist M va va' < unat sz then None else mapping P I M s' va')"
    using page_table.unmap_region_post [OF assms(1,7) inv' til] by blast
  have "mapping P I M s'' va' = mapping P I M s va'" for va'
    using post s''(3) by (simp add: region_post_def)
  then show ?thesis using s'' L [OF assms(2)] L [OF s''(2)] by simp
qed

theorem map_unmap_region_roundtrip_witness:
  "\<exists>s' s''. map_region demo_pte pool_if X64PagingMetaData (VirtAddr 0x40200000) (PhysAddr 0x600000) 0x200000 3 True demo_pt
      = Some (Ret (Ok (), s'))
    \<and> unmap_region demo_pte pool_if X64PagingMetaData (VirtAddr 0x40200000) 0x200000 s' = Some (Ret (Ok (), s''))
    \<and> (\<forall>va'. query demo_pte pool_if X64PagingMetaData va' s'' = query demo_pte pool_if X64PagingMetaData va' demo_pt)"
  using demo_region map_unmap_region_roundtrip [OF demo_page_table demo_inv demo_flags demo_region_args, of True] by blast

text \<open>
  C10: Over its whole life a page table neither leaks a frame nor frees one twice: whatever sequence of map and
  unmap calls follows \<open>try_new\<close>, dropping the table leaves exactly the frames allocated that were allocated
  before \<open>try_new\<close>, and the table stays well formed throughout.
\<close>

theorem page_table_no_leak:
  assumes "page_table P frame_ok flags_ok norm I os_ok allocated M" "try_new P I w = (Ok s0, w0)" "os_ok (os w)"
    and "(pt_step P I M frame_ok flags_ok)\<^sup>*\<^sup>* s0 s"
  shows "pt_inv P I M os_ok allocated s \<and> allocated (drop_table I s) = allocated (os w)"
proof -
  note new = page_table.try_new_post [OF assms(1-3)]
  note steps = page_table.pt_steps_kept [OF assms(1,4) new(1)]
  then have inv: "pt_inv P I M os_ok allocated s" by blast
  show ?thesis using inv page_table.drop_frees [OF assms(1) inv] steps new(3) by simp
qed

theorem page_table_no_leak_witness:
  "\<exists>s. map_page demo_pte pool_if X64PagingMetaData (VirtAddr 0x40201000) (PhysAddr 0x5000123) Size4K 3 demo_pt = Ret (Ok (), s)
    \<and> set (drop_table pool_if s) = {}"
proof -
  obtain s where m: "map_page demo_pte pool_if X64PagingMetaData (VirtAddr 0x40201000) (PhysAddr 0x5000123) Size4K 3 demo_pt
      = Ret (Ok (), s)" using demo_map by blast
  have "pt_step demo_pte pool_if X64PagingMetaData x64_frame_ok x64_flags_ok demo_pt s"
    using demo_flags m by (rule step_map)
  then show ?thesis
    using m page_table_no_leak [OF demo_page_table demo_pt_new TrueI r_into_rtranclp] by (auto simp: demo_world_def)
qed

end
