(* ===== verification/PageAlloc.thy ===== *)
theory PageAlloc
  imports MemoryAddr
begin

text \<open>
  Model of the traits of the crate \<open>allocator\<close> (src/crates/allocator/src/lib.rs) and of its page allocator
  \<open>BitmapPageAllocator\<close> (src/crates/allocator/src/bitmap.rs). The bitmap itself is the third-party crate
  \<open>bitmap_allocator\<close>: a record of its operations, with its documented behaviour as the locale \<open>bit_alloc\<close>.
  What the users of a page allocator rely on is the locale \<open>page_allocator\<close>, which the bitmap page allocator
  provides over every lawful bitmap.
\<close>

section \<open>Model\<close>

datatype AllocError = InvalidParam | MemoryOverlap | NoMemoryA | NotAllocated

text \<open>The traits \<open>BaseAllocator\<close> and \<open>PageAllocator\<close>, and \<open>BaseAllocator\<close> and \<open>ByteAllocator\<close>.\<close>

record 's BaseAllocator =
  init_alloc :: "usize \<Rightarrow> usize \<Rightarrow> 's \<Rightarrow> 's outcome"
  add_memory :: "usize \<Rightarrow> usize \<Rightarrow> 's \<Rightarrow> ((AllocError, unit) result \<times> 's) outcome"

record 's PageAllocator = "'s BaseAllocator" +
  PAGE_SIZE :: usize
  alloc_pages :: "usize \<Rightarrow> usize \<Rightarrow> 's \<Rightarrow> (AllocError, usize) result \<times> 's"
  dealloc_pages :: "usize \<Rightarrow> usize \<Rightarrow> 's \<Rightarrow> 's"
  total_pages :: "'s \<Rightarrow> usize"
  used_pages :: "'s \<Rightarrow> usize"
  available_pages :: "'s \<Rightarrow> usize"

definition alloc_align_down :: "usize \<Rightarrow> usize \<Rightarrow> usize" where
  "alloc_align_down pos align = pos AND NOT (align - 1)"

definition alloc_align_up :: "usize \<Rightarrow> usize \<Rightarrow> usize" where
  "alloc_align_up pos align = (pos + align - 1) AND NOT (align - 1)"

text \<open>The operations of the third-party trait \<open>BitAlloc\<close> that are used; \<open>insert\<close> takes the range \<open>lo..hi\<close>.\<close>

record 'b BitAlloc =
  ba_default :: 'b
  ba_insert :: "usize \<Rightarrow> usize \<Rightarrow> 'b \<Rightarrow> 'b"
  ba_alloc :: "'b \<Rightarrow> usize option \<times> 'b"
  ba_alloc_contiguous :: "usize \<Rightarrow> usize \<Rightarrow> 'b \<Rightarrow> usize option \<times> 'b"
  ba_dealloc :: "usize \<Rightarrow> 'b \<Rightarrow> 'b"

record 'b BitmapPageAllocator =
  bm_base :: usize
  bm_total_pages :: usize
  bm_used_pages :: usize
  bm_inner :: 'b

definition bitmap_new :: "'b BitAlloc \<Rightarrow> 'b BitmapPageAllocator" where
  "bitmap_new B = \<lparr>bm_base = 0, bm_total_pages = 0, bm_used_pages = 0, bm_inner = ba_default B\<rparr>"

definition bitmap_init :: "'b BitAlloc \<Rightarrow> usize \<Rightarrow> usize \<Rightarrow> usize \<Rightarrow> 'b BitmapPageAllocator
    \<Rightarrow> 'b BitmapPageAllocator outcome" where
  "bitmap_init B PS start sz s =
     (if \<not> is_power_of_two PS then Panic
      else
        let stop = alloc_align_down (start + sz) PS;
            start = alloc_align_up start PS;
            total = (stop - start) div PS
        in Ret (s\<lparr>bm_base := start, bm_total_pages := total, bm_inner := ba_insert B 0 total (bm_inner s)\<rparr>))"

definition bitmap_add_memory :: "usize \<Rightarrow> usize \<Rightarrow> 'b BitmapPageAllocator
    \<Rightarrow> ((AllocError, unit) result \<times> 'b BitmapPageAllocator) outcome" where
  "bitmap_add_memory start sz s = Ret (Err NoMemoryA, s)"

definition bitmap_alloc_pages :: "'b BitAlloc \<Rightarrow> usize \<Rightarrow> usize \<Rightarrow> usize \<Rightarrow> 'b BitmapPageAllocator
    \<Rightarrow> (AllocError, usize) result \<times> 'b BitmapPageAllocator" where
  "bitmap_alloc_pages B PS num_pages align_pow2 s =
     (if align_pow2 mod PS \<noteq> 0 \<or> \<not> is_power_of_two align_pow2 then (Err InvalidParam, s)
      else if num_pages = 0 then (Err InvalidParam, s)
      else
        let (r, b) = (if num_pages = 1 then ba_alloc B (bm_inner s)
                      else ba_alloc_contiguous B num_pages (align_pow2 div PS) (bm_inner s));
            s = s\<lparr>bm_inner := b\<rparr>
        in case r of
             None \<Rightarrow> (Err NoMemoryA, s)
           | Some idx \<Rightarrow> (Ok (idx * PS + bm_base s), s\<lparr>bm_used_pages := bm_used_pages s + num_pages\<rparr>))"

definition bitmap_dealloc_pages :: "'b BitAlloc \<Rightarrow> usize \<Rightarrow> usize \<Rightarrow> usize \<Rightarrow> 'b BitmapPageAllocator
    \<Rightarrow> 'b BitmapPageAllocator" where
  "bitmap_dealloc_pages B PS pos num_pages s =
     s\<lparr>bm_used_pages := bm_used_pages s - num_pages,
       bm_inner := ba_dealloc B ((pos - bm_base s) div PS) (bm_inner s)\<rparr>"

definition bitmap_available_pages :: "'b BitmapPageAllocator \<Rightarrow> usize" where
  "bitmap_available_pages s = bm_total_pages s - bm_used_pages s"

definition BitmapPA :: "'b BitAlloc \<Rightarrow> usize \<Rightarrow> 'b BitmapPageAllocator PageAllocator" where
  "BitmapPA B PS =
     \<lparr>init_alloc = bitmap_init B PS, add_memory = bitmap_add_memory, PAGE_SIZE = PS,
      alloc_pages = bitmap_alloc_pages B PS, dealloc_pages = bitmap_dealloc_pages B PS,
      total_pages = bm_total_pages, used_pages = bm_used_pages, available_pages = bitmap_available_pages\<rparr>"

section \<open>Contracts\<close>

text \<open>
  The documented behaviour of a bitmap of \<open>CAP\<close> bits: \<open>fbits\<close> is the set of the bits that are available.
  Freeing a bit is only specified for a bit that is not available.
\<close>

locale bit_alloc =
  fixes B :: "'b BitAlloc" and CAP :: nat and fbits :: "'b \<Rightarrow> nat set"
  assumes bit_default: "fbits (ba_default B) = {}"
    and bit_insert: "unat hi \<le> CAP \<Longrightarrow> fbits (ba_insert B lo hi b) = fbits b \<union> {unat lo..<unat hi}"
    and bit_alloc_some: "ba_alloc B b = (Some i, b') \<Longrightarrow> unat i \<in> fbits b \<and> fbits b' = fbits b - {unat i}"
    and bit_alloc_none: "ba_alloc B b = (None, b') \<Longrightarrow> fbits b = {} \<and> fbits b' = {}"
    and bit_contiguous_some: "ba_alloc_contiguous B n al b = (Some i, b') \<Longrightarrow>
      {unat i..<unat i + unat n} \<subseteq> fbits b \<and> fbits b' = fbits b - {unat i..<unat i + unat n}"
    and bit_contiguous_none: "ba_alloc_contiguous B n al b = (None, b') \<Longrightarrow> fbits b' = fbits b"
    and bit_dealloc: "unat i \<notin> fbits b \<Longrightarrow> unat i < CAP \<Longrightarrow> fbits (ba_dealloc B i b) = insert (unat i) (fbits b)"

text \<open>The start addresses of \<open>n\<close> pages from \<open>p\<close> on.\<close>

definition pages :: "usize \<Rightarrow> usize \<Rightarrow> nat \<Rightarrow> usize set" where
  "pages PS p n = (\<lambda>k. p + of_nat k * PS) ` {..<n}"

text \<open>
  What the users of a page allocator rely on: \<open>region\<close> are the pages it manages and \<open>free_pages\<close> those it may
  hand out. A block of pages that is handed out was free and no longer is; a single page can be given back.
\<close>

locale page_allocator =
  fixes A :: "('s, 'z) PageAllocator_scheme" and inv :: "'s \<Rightarrow> bool"
    and region :: "'s \<Rightarrow> usize set" and free_pages :: "'s \<Rightarrow> usize set"
  assumes free_region: "inv s \<Longrightarrow> free_pages s \<subseteq> region s \<and> finite (region s)"
    and alloc_ok: "inv s \<Longrightarrow> alloc_pages A n al s = (Ok p, s') \<Longrightarrow>
      inv s' \<and> region s' = region s \<and> 0 < n \<and> card (pages (PAGE_SIZE A) p (unat n)) = unat n \<and>
      pages (PAGE_SIZE A) p (unat n) \<subseteq> free_pages s \<and>
      free_pages s' = free_pages s - pages (PAGE_SIZE A) p (unat n)"
    and alloc_err: "inv s \<Longrightarrow> alloc_pages A n al s = (Err e, s') \<Longrightarrow>
      inv s' \<and> region s' = region s \<and> free_pages s' = free_pages s"
    and alloc_one: "inv s \<Longrightarrow> free_pages s \<noteq> {} \<Longrightarrow> \<exists>p s'. alloc_pages A 1 (PAGE_SIZE A) s = (Ok p, s')"
    and dealloc_one: "inv s \<Longrightarrow> p \<in> region s - free_pages s \<Longrightarrow>
      inv (dealloc_pages A p 1 s) \<and> region (dealloc_pages A p 1 s) = region s \<and>
      free_pages (dealloc_pages A p 1 s) = insert p (free_pages s)"
begin

text \<open>Every block that is handed out uses up free pages.\<close>

lemma alloc_fewer:
  assumes "inv s" "alloc_pages A n al s = (Ok p, s')"
  shows "card (free_pages s') < card (free_pages s)"
proof -
  note a = alloc_ok [OF assms]
  have fin: "finite (free_pages s)" using free_region [OF assms(1)] by (auto intro: finite_subset)
  have "card (free_pages s') = card (free_pages s) - unat n"
    using a fin by (simp add: card_Diff_subset finite_subset)
  moreover have "unat n \<le> card (free_pages s)" using a fin by (metis card_mono)
  moreover have "0 < unat n" using a by (simp add: word_less_nat_alt)
  ultimately show ?thesis by linarith
qed

text \<open>Allocating one page and giving it back restores the free pages.\<close>

lemma alloc_dealloc_one:
  assumes "inv s" "alloc_pages A 1 al s = (Ok p, s')"
  shows "free_pages (dealloc_pages A p 1 s') = free_pages s"
proof -
  note a = alloc_ok [OF assms]
  have p: "pages (PAGE_SIZE A) p (unat (1 :: usize)) = {p}" by (simp add: pages_def lessThan_Suc)
  then have "p \<in> region s' - free_pages s'" using a free_region [OF assms(1)] by auto
  then show ?thesis using a p dealloc_one by auto
qed

end

section \<open>The bitmap page allocator keeps the contract\<close>

definition page_addr :: "usize \<Rightarrow> 'b BitmapPageAllocator \<Rightarrow> nat \<Rightarrow> usize" where
  "page_addr PS s i = bm_base s + of_nat i * PS"

definition bitmap_region :: "usize \<Rightarrow> 'b BitmapPageAllocator \<Rightarrow> usize set" where
  "bitmap_region PS s = page_addr PS s ` {..<unat (bm_total_pages s)}"

definition bitmap_free :: "('b \<Rightarrow> nat set) \<Rightarrow> usize \<Rightarrow> 'b BitmapPageAllocator \<Rightarrow> usize set" where
  "bitmap_free fbits PS s = page_addr PS s ` fbits (bm_inner s)"

definition bitmap_inv :: "('b \<Rightarrow> nat set) \<Rightarrow> nat \<Rightarrow> usize \<Rightarrow> 'b BitmapPageAllocator \<Rightarrow> bool" where
  "bitmap_inv fbits CAP PS s \<longleftrightarrow>
     is_power_of_two PS \<and> unat PS dvd unat (bm_base s) \<and>
     unat (bm_base s) + unat (bm_total_pages s) * unat PS \<le> 2 ^ 64 \<and> unat (bm_total_pages s) \<le> CAP \<and>
     fbits (bm_inner s) \<subseteq> {..<unat (bm_total_pages s)} \<and>
     unat (bm_used_pages s) + card (fbits (bm_inner s)) = unat (bm_total_pages s)"

lemma power_of_two_pos: "is_power_of_two (PS :: usize) \<Longrightarrow> 0 < unat PS"
  by (auto simp: is_power_of_two_iff unat_exp)

lemma unat_page_addr:
  assumes "bitmap_inv fbits CAP PS s" "i < unat (bm_total_pages s)"
  shows "unat (page_addr PS s i) = unat (bm_base s) + i * unat PS" "i < 2 ^ 64"
    "unat (of_nat i * PS) = i * unat PS"
proof -
  have PS: "0 < unat PS" using assms(1) power_of_two_pos by (auto simp: bitmap_inv_def)
  show i: "i < 2 ^ 64" using assms(2) unat_lt [of "bm_total_pages s"] by linarith
  have "i * unat PS + unat PS \<le> unat (bm_total_pages s) * unat PS"
    using assms(2) by (metis add.commute mult_Suc mult_le_mono1 Suc_leI)
  then have lt: "unat (bm_base s) + i * unat PS < 2 ^ 64" using assms(1) PS unfolding bitmap_inv_def by linarith
  then show p: "unat (of_nat i * PS) = i * unat PS" using i by (simp add: unat_word_ariths unat_of_nat_usize)
  show "unat (page_addr PS s i) = unat (bm_base s) + i * unat PS"
    unfolding page_addr_def using lt p by (subst unat_add_nowrap) simp_all
qed

lemma page_addr_inj: "bitmap_inv fbits CAP PS s \<Longrightarrow> inj_on (page_addr PS s) {..<unat (bm_total_pages s)}"
proof (rule inj_onI)
  fix i j assume *: "bitmap_inv fbits CAP PS s" "i \<in> {..<unat (bm_total_pages s)}" "j \<in> {..<unat (bm_total_pages s)}"
    "page_addr PS s i = page_addr PS s j"
  then have "i * unat PS = j * unat PS" by (metis unat_page_addr(1) lessThan_iff add_left_cancel)
  moreover have "0 < unat PS" using power_of_two_pos *(1) by (simp add: bitmap_inv_def)
  ultimately show "i = j" by simp
qed

lemma page_addr_index:
  assumes "bitmap_inv fbits CAP PS s" "i < unat (bm_total_pages s)"
  shows "(page_addr PS s i - bm_base s) div PS = of_nat i"
proof -
  have "page_addr PS s i - bm_base s = of_nat i * PS" by (simp add: page_addr_def)
  then have "unat ((page_addr PS s i - bm_base s) div PS) = i"
    using unat_page_addr(3) [OF assms] power_of_two_pos assms(1) by (simp add: unat_div bitmap_inv_def)
  then show ?thesis using unat_page_addr(2) [OF assms] by (intro word_unat_eq_iff [THEN iffD2]) (simp add: unat_of_nat_usize)
qed

lemma pages_page_addr:
  "pages PS (of_nat i * PS + bm_base s) n = page_addr PS s ` {i..<i + n}"
proof -
  have "{i..<i + n} = (\<lambda>k. i + k) ` {..<n}"
    using image_add_atLeastLessThan [of i 0 n] by (simp add: lessThan_atLeast0 add.commute)
  then show ?thesis by (simp add: pages_def page_addr_def image_image algebra_simps)
qed

context bit_alloc
begin

lemma bitmap_alloc_some:
  assumes inv: "bitmap_inv fbits CAP PS s" and al: "bitmap_alloc_pages B PS n al s = (Ok p, s')"
  obtains i where "p = of_nat i * PS + bm_base s" "{i..<i + unat n} \<subseteq> fbits (bm_inner s)" "0 < unat n"
    "fbits (bm_inner s') = fbits (bm_inner s) - {i..<i + unat n}" "bm_base s' = bm_base s"
    "bm_total_pages s' = bm_total_pages s" "bm_used_pages s' = bm_used_pages s + n"
proof -
  obtain i b where c: "(if n = 1 then ba_alloc B (bm_inner s)
      else ba_alloc_contiguous B n (al div PS) (bm_inner s)) = (Some i, b)"
    and n: "n \<noteq> 0" and p: "p = i * PS + bm_base s" "s' = s\<lparr>bm_inner := b, bm_used_pages := bm_used_pages s + n\<rparr>"
    using al by (auto simp: bitmap_alloc_pages_def Let_def split: if_splits prod.splits option.splits)
  have "{unat i..<unat i + unat n} \<subseteq> fbits (bm_inner s) \<and> fbits b = fbits (bm_inner s) - {unat i..<unat i + unat n}"
  proof (cases "n = 1")
    case True
    have "{unat i..<unat i + unat n} = {unat i}" unfolding True by auto
    then show ?thesis using bit_alloc_some [of "bm_inner s" i b] c True by simp
  next
    case False
    then show ?thesis using bit_contiguous_some [of n "al div PS" "bm_inner s" i b] c by simp
  qed
  moreover have "0 < unat n" using n by (simp add: unat_gt_0)
  ultimately show thesis using p by (intro that [of "unat i"]) simp_all
qed

lemma bitmap_alloc_fails:
  assumes "bitmap_alloc_pages B PS n al s = (Err e, s')"
  shows "fbits (bm_inner s') = fbits (bm_inner s) \<and> bm_base s' = bm_base s \<and> bm_total_pages s' = bm_total_pages s
    \<and> bm_used_pages s' = bm_used_pages s"
  using assms bit_alloc_none [of "bm_inner s"] bit_contiguous_none [of n "al div PS" "bm_inner s"]
  by (auto simp: bitmap_alloc_pages_def Let_def split: if_splits prod.splits option.splits)

lemma bitmap_alloc_inv:
  assumes inv: "bitmap_inv fbits CAP PS s" and al: "bitmap_alloc_pages B PS n al s = (Ok p, s')"
  shows "bitmap_inv fbits CAP PS s'"
proof -
  obtain i where s': "{i..<i + unat n} \<subseteq> fbits (bm_inner s)"
    "fbits (bm_inner s') = fbits (bm_inner s) - {i..<i + unat n}" "bm_base s' = bm_base s"
    "bm_total_pages s' = bm_total_pages s" "bm_used_pages s' = bm_used_pages s + n"
    using bitmap_alloc_some [OF assms] by metis
  have fin: "finite (fbits (bm_inner s))" using inv by (auto simp: bitmap_inv_def intro: finite_subset)
  have "unat n \<le> card (fbits (bm_inner s))" using card_mono [OF fin s'(1)] by simp
  moreover have "card (fbits (bm_inner s')) = card (fbits (bm_inner s)) - unat n"
    unfolding s'(2) using card_Diff_subset [OF _ s'(1)] by simp
  moreover have "unat (bm_used_pages s') = unat (bm_used_pages s) + unat n"
    unfolding s'(5) using calculation(1) inv unat_lt [of "bm_total_pages s"]
    by (intro unat_add_nowrap) (simp add: bitmap_inv_def)
  ultimately show ?thesis using inv s' by (auto simp: bitmap_inv_def)
qed

lemma bitmap_dealloc_one:
  assumes inv: "bitmap_inv fbits CAP PS s" and i: "i < unat (bm_total_pages s)" "i \<notin> fbits (bm_inner s)"
  shows "bitmap_inv fbits CAP PS (bitmap_dealloc_pages B PS (page_addr PS s i) 1 s)"
    "fbits (bm_inner (bitmap_dealloc_pages B PS (page_addr PS s i) n s)) = insert i (fbits (bm_inner s))"
proof -
  have idx: "unat (of_nat i :: usize) = i" using unat_page_addr(2) [OF inv i(1)] by (rule unat_of_nat_usize)
  have fb: "fbits (ba_dealloc B (of_nat i) (bm_inner s)) = insert i (fbits (bm_inner s))"
    using bit_dealloc [of "of_nat i" "bm_inner s"] i inv idx by (simp add: bitmap_inv_def)
  then show "fbits (bm_inner (bitmap_dealloc_pages B PS (page_addr PS s i) n s)) = insert i (fbits (bm_inner s))"
    using page_addr_index [OF inv i(1)] by (simp add: bitmap_dealloc_pages_def)
  have sub: "fbits (bm_inner s) \<subseteq> {..<unat (bm_total_pages s)} - {i}" using inv i by (auto simp: bitmap_inv_def)
  then have fin: "finite (fbits (bm_inner s))" by (auto intro: finite_subset)
  have "card (fbits (bm_inner s)) < unat (bm_total_pages s)" using card_mono [OF _ sub] i(1) by simp
  then have "1 \<le> unat (bm_used_pages s)" using inv by (simp add: bitmap_inv_def)
  then have "unat (bm_used_pages s - 1) = unat (bm_used_pages s) - 1"
    using unat_sub [of 1 "bm_used_pages s"] by (simp add: word_le_nat_alt)
  then show "bitmap_inv fbits CAP PS (bitmap_dealloc_pages B PS (page_addr PS s i) 1 s)"
    using inv i fin \<open>1 \<le> unat (bm_used_pages s)\<close> page_addr_index [OF inv i(1)] fb
    by (auto simp: bitmap_inv_def bitmap_dealloc_pages_def)
qed

lemma bitmap_alloc_one:
  assumes inv: "bitmap_inv fbits CAP PS s" and "fbits (bm_inner s) \<noteq> {}"
  shows "\<exists>p s'. bitmap_alloc_pages B PS 1 PS s = (Ok p, s')"
proof -
  obtain i b where "ba_alloc B (bm_inner s) = (Some i, b)"
    using assms(2) bit_alloc_none [of "bm_inner s"] by (cases "ba_alloc B (bm_inner s)" ; cases "fst (ba_alloc B (bm_inner s))") auto
  then show ?thesis using inv by (simp add: bitmap_alloc_pages_def bitmap_inv_def)
qed

end

sublocale bit_alloc \<subseteq> bm: page_allocator "BitmapPA B PS" "bitmap_inv fbits CAP PS" "bitmap_region PS" "bitmap_free fbits PS" for PS
proof
  fix s :: "'b BitmapPageAllocator" and n al p s'
  assume inv: "bitmap_inv fbits CAP PS s"
  show "bitmap_free fbits PS s \<subseteq> bitmap_region PS s \<and> finite (bitmap_region PS s)"
    using inv by (auto simp: bitmap_free_def bitmap_region_def bitmap_inv_def)
  show "bitmap_inv fbits CAP PS s' \<and> bitmap_region PS s' = bitmap_region PS s \<and> 0 < n
      \<and> card (pages (PAGE_SIZE (BitmapPA B PS)) p (unat n)) = unat n
      \<and> pages (PAGE_SIZE (BitmapPA B PS)) p (unat n) \<subseteq> bitmap_free fbits PS s
      \<and> bitmap_free fbits PS s' = bitmap_free fbits PS s - pages (PAGE_SIZE (BitmapPA B PS)) p (unat n)"
    if "alloc_pages (BitmapPA B PS) n al s = (Ok p, s')"
  proof -
    have al: "bitmap_alloc_pages B PS n al s = (Ok p, s')" using that by (simp add: BitmapPA_def)
    obtain i where i: "p = of_nat i * PS + bm_base s" "{i..<i + unat n} \<subseteq> fbits (bm_inner s)" "0 < unat n"
      "fbits (bm_inner s') = fbits (bm_inner s) - {i..<i + unat n}" "bm_base s' = bm_base s"
      "bm_total_pages s' = bm_total_pages s"
      using bitmap_alloc_some [OF inv al] by metis
    have inj: "inj_on (page_addr PS s) (fbits (bm_inner s))"
      using page_addr_inj [OF inv] inv by (auto simp: bitmap_inv_def intro: inj_on_subset)
    have same: "page_addr PS s' = page_addr PS s" using i by (simp add: page_addr_def fun_eq_iff)
    have "card (page_addr PS s ` {i..<i + unat n}) = unat n"
      using inj_on_subset [OF inj i(2)] by (simp add: card_image)
    moreover have "bitmap_free fbits PS s' = bitmap_free fbits PS s - page_addr PS s ` {i..<i + unat n}"
      unfolding bitmap_free_def same i(4) using inj i(2) by (intro inj_on_image_set_diff) auto
    ultimately show ?thesis
      using bitmap_alloc_inv [OF inv al] i same
      by (auto simp: BitmapPA_def pages_page_addr bitmap_region_def bitmap_free_def word_less_nat_alt)
  qed
  show "bitmap_inv fbits CAP PS s' \<and> bitmap_region PS s' = bitmap_region PS s
      \<and> bitmap_free fbits PS s' = bitmap_free fbits PS s"
    if "alloc_pages (BitmapPA B PS) n al s = (Err e, s')" for e
    using that inv bitmap_alloc_fails [of PS n al s e s']
    by (auto simp: BitmapPA_def bitmap_inv_def bitmap_region_def bitmap_free_def page_addr_def)
  show "\<exists>p s'. alloc_pages (BitmapPA B PS) 1 (PAGE_SIZE (BitmapPA B PS)) s = (Ok p, s')"
    if "bitmap_free fbits PS s \<noteq> {}"
    using that bitmap_alloc_one [OF inv] by (simp add: BitmapPA_def bitmap_free_def)
  show "bitmap_inv fbits CAP PS (dealloc_pages (BitmapPA B PS) p 1 s)
      \<and> bitmap_region PS (dealloc_pages (BitmapPA B PS) p 1 s) = bitmap_region PS s
      \<and> bitmap_free fbits PS (dealloc_pages (BitmapPA B PS) p 1 s) = insert p (bitmap_free fbits PS s)"
    if p: "p \<in> bitmap_region PS s - bitmap_free fbits PS s"
  proof -
    obtain i where i: "i < unat (bm_total_pages s)" "p = page_addr PS s i" "i \<notin> fbits (bm_inner s)"
      using p by (auto simp: bitmap_region_def bitmap_free_def)
    have "page_addr PS (bitmap_dealloc_pages B PS p 1 s) = page_addr PS s"
      "bm_total_pages (bitmap_dealloc_pages B PS p 1 s) = bm_total_pages s"
      by (simp_all add: bitmap_dealloc_pages_def page_addr_def fun_eq_iff)
    then show ?thesis using bitmap_dealloc_one [OF inv i(1,3)] i(2)
      by (simp add: BitmapPA_def bitmap_region_def bitmap_free_def)
  qed
qed

lemma alloc_align_eq: "alloc_align_down = align_down" "alloc_align_up = align_up"
  by (simp_all add: fun_eq_iff alloc_align_down_def align_down_def alloc_align_up_def align_up_def)

text \<open>The first and the last page boundary of a region that is not smaller than a page.\<close>

lemma page_bounds:
  assumes k: "k < 64" and fits: "unat start + unat sz < 2 ^ 64" and sz: "2 ^ k \<le> unat sz"
  defines "lo \<equiv> align_up start (2 ^ k)" and "hi \<equiv> align_down (start + sz) (2 ^ k)"
  shows "2 ^ k dvd unat lo" "2 ^ k dvd unat hi" "unat start \<le> unat lo" "unat lo \<le> unat hi"
    "unat hi \<le> unat start + unat sz"
proof -
  have up: "unat start + (2 ^ k - 1) < 2 ^ 64" using fits sz by linarith
  have lo: "unat lo = unat start + (2 ^ k - 1) - (unat start + (2 ^ k - 1)) mod 2 ^ k"
    unfolding lo_def by (rule unat_align_up [OF k up])
  have sum: "unat (start + sz) = unat start + unat sz" using fits by (intro unat_add_nowrap) simp
  have hi: "unat hi = unat (start + sz) - unat (start + sz) mod 2 ^ k"
    unfolding hi_def by (rule unat_align_down [OF k])
  show "2 ^ k dvd unat lo" "2 ^ k dvd unat hi" unfolding lo hi by (simp_all only: dvd_sub_mod)
  have "(unat start + (2 ^ k - 1)) mod 2 ^ k \<le> 2 ^ k - 1"
    using pos_mod_bound [of "2 ^ k"] by (simp add: less_Suc_eq_le [symmetric])
  then show "unat start \<le> unat lo" unfolding lo by linarith
  show "unat hi \<le> unat start + unat sz" unfolding hi sum by simp
  have "unat lo \<le> unat start + unat sz" unfolding lo using sz by linarith
  then show "unat lo \<le> unat hi"
    unfolding hi sum using greatest_multiple [OF \<open>2 ^ k dvd unat lo\<close>] by blast
qed

context bit_alloc
begin

lemma bitmap_init_inv:
  assumes PS: "is_power_of_two PS" and fits: "unat start + unat sz < 2 ^ 64" and sz: "unat PS \<le> unat sz"
    and cap: "unat sz div unat PS \<le> CAP"
  shows "\<exists>s. bitmap_init B PS start sz (bitmap_new B) = Ret s \<and> bitmap_inv fbits CAP PS s
    \<and> bitmap_free fbits PS s = bitmap_region PS s
    \<and> unat start \<le> unat (bm_base s) \<and> unat (bm_base s) + unat (bm_total_pages s) * unat PS \<le> unat start + unat sz"
proof -
  obtain k where k: "k < 64" "PS = 2 ^ k" using PS by (auto simp: is_power_of_two_iff)
  have uPS: "unat PS = 2 ^ k" using k by (simp add: unat_exp)
  let ?lo = "align_up start PS" and ?hi = "align_down (start + sz) PS"
  let ?t = "(?hi - ?lo) div PS"
  note b = page_bounds [OF k(1) fits, folded k(2) uPS, OF sz]
  have ut: "unat ?t = (unat ?hi - unat ?lo) div unat PS"
    using b(4) by (simp add: unat_div unat_sub word_le_nat_alt)
  have tt: "unat ?t * unat PS = unat ?hi - unat ?lo"
    unfolding ut using b(1,2) by (simp add: dvd_div_mult_self dvd_diff_nat)
  have "unat ?hi - unat ?lo \<le> unat sz" using b(3,5) by linarith
  then have le: "unat ?t \<le> CAP" unfolding ut using cap div_le_mono le_trans by blast
  let ?s = "\<lparr>bm_base = ?lo, bm_total_pages = ?t, bm_used_pages = 0, bm_inner = ba_insert B 0 ?t (ba_default B)\<rparr>"
  have fb: "fbits (bm_inner ?s) = {..<unat ?t}"
    using bit_insert [OF le, of 0 "ba_default B"] by (simp add: bit_default lessThan_atLeast0)
  have init: "bitmap_init B PS start sz (bitmap_new B) = Ret ?s"
    using PS by (simp add: bitmap_init_def bitmap_new_def alloc_align_eq Let_def)
  have "unat ?lo + unat ?t * unat PS \<le> 2 ^ 64" unfolding tt using b(3,4,5) fits by linarith
  then have inv: "bitmap_inv fbits CAP PS ?s"
    unfolding bitmap_inv_def fb using PS b(1) le by simp
  have "unat ?lo + unat ?t * unat PS \<le> unat start + unat sz" unfolding tt using b(4,5) by linarith
  then show ?thesis using init inv fb b(3) by (auto simp: bitmap_free_def bitmap_region_def)
qed

text \<open>Giving back a block of \<open>n\<close> pages gives back its first page only.\<close>

lemma bitmap_dealloc_block:
  assumes inv: "bitmap_inv fbits CAP PS s" and al: "bitmap_alloc_pages B PS n al s = (Ok p, s1)"
  shows "bm_used_pages (bitmap_dealloc_pages B PS p n s1) = bm_used_pages s"
    "bitmap_free fbits PS (bitmap_dealloc_pages B PS p n s1)
      = bitmap_free fbits PS s - pages PS (p + PS) (unat n - 1)"
proof -
  obtain i where i: "p = of_nat i * PS + bm_base s" "{i..<i + unat n} \<subseteq> fbits (bm_inner s)" "0 < unat n"
    "fbits (bm_inner s1) = fbits (bm_inner s) - {i..<i + unat n}" "bm_base s1 = bm_base s"
    "bm_total_pages s1 = bm_total_pages s" "bm_used_pages s1 = bm_used_pages s + n"
    using bitmap_alloc_some [OF assms] by metis
  show "bm_used_pages (bitmap_dealloc_pages B PS p n s1) = bm_used_pages s"
    using i(7) by (simp add: bitmap_dealloc_pages_def)
  have inv1: "bitmap_inv fbits CAP PS s1" by (rule bitmap_alloc_inv [OF assms])
  have "i \<in> fbits (bm_inner s)" using i(2,3) by auto
  then have it: "i < unat (bm_total_pages s)" using inv by (auto simp: bitmap_inv_def)
  have same: "page_addr PS s1 = page_addr PS s" "page_addr PS (bitmap_dealloc_pages B PS p n s1) = page_addr PS s"
    using i(5) by (simp_all add: page_addr_def fun_eq_iff bitmap_dealloc_pages_def)
  have p: "p = page_addr PS s1 i" using i(1,5) by (simp add: page_addr_def algebra_simps)
  have "fbits (bm_inner (bitmap_dealloc_pages B PS p n s1)) = insert i (fbits (bm_inner s1))"
    unfolding p using it i(3,4,6) by (intro bitmap_dealloc_one(2) [OF inv1]) auto
  also have "\<dots> = fbits (bm_inner s) - {Suc i..<Suc i + (unat n - 1)}"
    using i(2,3) unfolding i(4) by auto
  finally have fb: "fbits (bm_inner (bitmap_dealloc_pages B PS p n s1)) = fbits (bm_inner s) - {Suc i..<Suc i + (unat n - 1)}" .
  have inj: "inj_on (page_addr PS s) (fbits (bm_inner s))"
    using page_addr_inj [OF inv] inv by (auto simp: bitmap_inv_def intro: inj_on_subset)
  have pg: "pages PS (p + PS) (unat n - 1) = page_addr PS s ` {Suc i..<Suc i + (unat n - 1)}"
    unfolding i(1) using pages_page_addr [of PS "Suc i" s "unat n - 1"] by (simp add: algebra_simps)
  show "bitmap_free fbits PS (bitmap_dealloc_pages B PS p n s1)
      = bitmap_free fbits PS s - pages PS (p + PS) (unat n - 1)"
    unfolding bitmap_free_def same fb pg using inj i(2,3) by (intro inj_on_image_set_diff) auto
qed

lemma bitmap_alloc_error:
  assumes "bitmap_alloc_pages B PS n al s = (Err e, s')"
  shows "e = InvalidParam \<and> (al mod PS \<noteq> 0 \<or> \<not> is_power_of_two al \<or> n = 0) \<or>
    e = NoMemoryA \<and> al mod PS = 0 \<and> is_power_of_two al \<and> n \<noteq> 0 \<and> (n = 1 \<longrightarrow> bitmap_free fbits PS s = {})"
  using assms bit_alloc_none [of "bm_inner s"]
  by (auto simp: bitmap_alloc_pages_def bitmap_free_def Let_def split: if_splits prod.splits option.splits)

end

context bit_alloc
begin

lemma unat_available:
  "bitmap_inv fbits CAP PS s \<Longrightarrow> unat (bitmap_available_pages s) = card (fbits (bm_inner s))"
  unfolding bitmap_available_pages_def bitmap_inv_def by (subst unat_sub) (auto simp: word_le_nat_alt)

lemma alloc_pages_result:
  assumes inv: "bitmap_inv fbits CAP PS s"
  shows "case bitmap_alloc_pages B PS n al s of (r, s') \<Rightarrow>
    bitmap_inv fbits CAP PS s' \<and> bitmap_region PS s' = bitmap_region PS s \<and>
    (case r of
       Ok p \<Rightarrow> unat PS dvd unat p \<and> card (pages PS p (unat n)) = unat n \<and> pages PS p (unat n) \<subseteq> bitmap_free fbits PS s \<and>
         bitmap_free fbits PS s' = bitmap_free fbits PS s - pages PS p (unat n) \<and>
         unat (bitmap_available_pages s) = unat (bitmap_available_pages s') + unat n
     | Err e \<Rightarrow> bitmap_free fbits PS s' = bitmap_free fbits PS s \<and>
         (e = InvalidParam \<and> (al mod PS \<noteq> 0 \<or> \<not> is_power_of_two al \<or> n = 0) \<or>
          e = NoMemoryA \<and> al mod PS = 0 \<and> is_power_of_two al \<and> n \<noteq> 0 \<and> (n = 1 \<longrightarrow> bitmap_free fbits PS s = {})))"
proof -
  obtain r s' where al: "bitmap_alloc_pages B PS n al s = (r, s')" by fastforce
  show ?thesis
  proof (cases r)
    case (Inl e)
    then show ?thesis
      using al bm.alloc_err [OF inv, of n al e s'] bitmap_alloc_error [of PS n al s e s'] by (simp add: BitmapPA_def)
  next
    case (Inr p)
    then have al: "bitmap_alloc_pages B PS n al s = (Ok p, s')" using al by simp
    note ok = bm.alloc_ok [OF inv, of n al p s']
    obtain i where i: "p = of_nat i * PS + bm_base s" "{i..<i + unat n} \<subseteq> fbits (bm_inner s)" "0 < unat n"
      "bm_total_pages s' = bm_total_pages s" "bm_used_pages s' = bm_used_pages s + n"
      "fbits (bm_inner s') = fbits (bm_inner s) - {i..<i + unat n}"
      using bitmap_alloc_some [OF inv al] by metis
    have "i \<in> fbits (bm_inner s)" using i(2,3) by auto
    then have it: "i < unat (bm_total_pages s)" using inv by (auto simp: bitmap_inv_def)
    have "p = page_addr PS s i" using i(1) by (simp add: page_addr_def algebra_simps)
    then have "unat PS dvd unat p" using unat_page_addr(1) [OF inv it] inv by (simp add: bitmap_inv_def)
    moreover have "unat (bitmap_available_pages s) = unat (bitmap_available_pages s') + unat n"
    proof -
      have fin: "finite (fbits (bm_inner s))" using inv by (auto simp: bitmap_inv_def intro: finite_subset)
      have "card (fbits (bm_inner s)) = card (fbits (bm_inner s')) + unat n"
        unfolding i(6) using card_mono [OF fin i(2)] card_Diff_subset [OF _ i(2)] by simp
      then show ?thesis using unat_available [OF inv] unat_available [OF bitmap_alloc_inv [OF inv al]] by simp
    qed
    ultimately show ?thesis using ok al by (simp add: BitmapPA_def)
  qed
qed

end

section \<open>A bitmap to evaluate\<close>

text \<open>
  The available bits of a bitmap of \<open>2\<^sup>2\<^sup>0\<close> bits as a list, the capacity of \<open>BitAlloc1M\<close>; the lowest position
  in the list that fits is taken.
\<close>

definition list_bits :: "usize list BitAlloc" where
  "list_bits =
     \<lparr>ba_default = [],
      ba_insert = (\<lambda>lo hi b. b @ map of_nat [unat lo..<unat hi]),
      ba_alloc = (\<lambda>b. case b of [] \<Rightarrow> (None, b) | i # _ \<Rightarrow> (Some i, removeAll i b)),
      ba_alloc_contiguous = (\<lambda>n al b.
        case filter (\<lambda>i. unat i + unat n \<le> 2 ^ 20 \<and> unat i mod 2 ^ unat al = 0
                         \<and> list_all (\<lambda>j. of_nat j \<in> set b) [unat i..<unat i + unat n]) b of
          [] \<Rightarrow> (None, b)
        | i # _ \<Rightarrow> (Some i, filter (\<lambda>j. unat j < unat i \<or> unat i + unat n \<le> unat j) b)),
      ba_dealloc = (\<lambda>i b. i # b)\<rparr>"

interpretation lb: bit_alloc list_bits "2 ^ 20" "\<lambda>b. unat ` set b"
proof
  fix lo hi i i' n al :: usize and b b' :: "usize list"
  show "unat ` set (ba_default list_bits) = {}" by (simp add: list_bits_def)
  have "(\<lambda>x. unat (of_nat x :: usize)) ` {unat lo..<unat hi} = {unat lo..<unat hi}"
    using unat_lt [of hi] by (force simp: unat_of_nat_usize)
  then show "unat ` set (ba_insert list_bits lo hi b) = unat ` set b \<union> {unat lo..<unat hi}"
    by (simp add: list_bits_def image_Un image_image)
  show "unat i \<in> unat ` set b \<and> unat ` set b' = unat ` set b - {unat i}" if "ba_alloc list_bits b = (Some i, b')"
    using that by (auto simp: list_bits_def word_unat_eq_iff split: list.splits)
  show "unat ` set b = {} \<and> unat ` set b' = {}" if "ba_alloc list_bits b = (None, b')"
    using that by (auto simp: list_bits_def split: list.splits)
  show "unat ` set b' = unat ` set b" if "ba_alloc_contiguous list_bits n al b = (None, b')"
    using that by (auto simp: list_bits_def split: list.splits)
  show "unat ` set (ba_dealloc list_bits i b) = insert (unat i) (unat ` set b)" by (simp add: list_bits_def)
  show "{unat i..<unat i + unat n} \<subseteq> unat ` set b \<and> unat ` set b' = unat ` set b - {unat i..<unat i + unat n}"
    if al: "ba_alloc_contiguous list_bits n al b = (Some i, b')"
  proof -
    obtain xs where f: "filter (\<lambda>i. unat i + unat n \<le> 2 ^ 20 \<and> unat i mod 2 ^ unat al = 0
        \<and> list_all (\<lambda>j. of_nat j \<in> set b) [unat i..<unat i + unat n]) b = i # xs"
      and b': "b' = filter (\<lambda>j. unat j < unat i \<or> unat i + unat n \<le> unat j) b"
      using al by (auto simp: list_bits_def split: list.splits)
    have le: "unat i + unat n \<le> 2 ^ 20" and all: "\<And>j. j \<in> {unat i..<unat i + unat n} \<Longrightarrow> of_nat j \<in> set b"
      using filter_eq_ConsD [OF f] by (auto simp: list_all_iff)
    have "j = unat (of_nat j :: usize)" if "j \<in> {unat i..<unat i + unat n}" for j
      using that le by (intro unat_of_nat_usize [symmetric]) auto
    then have "{unat i..<unat i + unat n} \<subseteq> unat ` set b" using all by blast
    then show ?thesis unfolding b' by auto
  qed
qed

section \<open>Properties\<close>


lemma power_of_two_page: "is_power_of_two (0x1000 :: usize)"
  using is_power_of_two_numeral_exp [of 12, where 'a = 64] by simp

text \<open>A region of four pages, all of them free.\<close>

definition demo_bitmap :: "usize list BitmapPageAllocator" where
  "demo_bitmap = \<lparr>bm_base = 0x80001000, bm_total_pages = 4, bm_used_pages = 0, bm_inner = [0, 1, 2, 3]\<rparr>"

lemma demo_bitmap_init: "bitmap_init list_bits 0x1000 0x80000ff0 0x5000 (bitmap_new list_bits) = Ret demo_bitmap"
  by (simp add: bitmap_init_def bitmap_new_def list_bits_def demo_bitmap_def alloc_align_up_def alloc_align_down_def
      power_of_two_page upt_conv_Cons Let_def)

lemma demo_bitmap_inv: "bitmap_inv (\<lambda>b. unat ` set b) (2 ^ 20) 0x1000 demo_bitmap"
  by (simp add: bitmap_inv_def demo_bitmap_def power_of_two_page)

lemma demo_bitmap_alloc:
  "bitmap_alloc_pages list_bits 0x1000 3 0x1000 demo_bitmap
   = (Ok 0x80001000, demo_bitmap\<lparr>bm_used_pages := 3, bm_inner := [3]\<rparr>)"
  by (simp add: bitmap_alloc_pages_def demo_bitmap_def list_bits_def power_of_two_page upt_conv_Cons Let_def)


text \<open>
  C24: Giving back a block of \<open>n\<close> pages makes only its first page free again, while the counter of used pages goes
  down by \<open>n\<close>: allocating and giving back one page restores the free pages, but a longer block loses \<open>n - 1\<close> pages
  for good, and the counters no longer show it.
\<close>

theorem page_dealloc_leaks:
  assumes "bit_alloc B CAP fbits" "bitmap_inv fbits CAP PS s" "bitmap_alloc_pages B PS n al s = (Ok p, s1)"
  shows "bm_used_pages (bitmap_dealloc_pages B PS p n s1) = bm_used_pages s
    \<and> bitmap_free fbits PS (bitmap_dealloc_pages B PS p n s1) = bitmap_free fbits PS s - pages PS (p + PS) (unat n - 1)
    \<and> (n = 1 \<longrightarrow> bitmap_free fbits PS (bitmap_dealloc_pages B PS p n s1) = bitmap_free fbits PS s)"
  using bit_alloc.bitmap_dealloc_block [OF assms] by (cases "n = 1") (simp_all add: pages_def)

theorem page_dealloc_leaks_witness:
  "0x80002000 \<in> bitmap_free (\<lambda>b. unat ` set b) 0x1000 demo_bitmap
   \<and> 0x80002000 \<notin> bitmap_free (\<lambda>b. unat ` set b) 0x1000
        (bitmap_dealloc_pages list_bits 0x1000 0x80001000 3 (demo_bitmap\<lparr>bm_used_pages := 3, bm_inner := [3]\<rparr>))"
proof -
  have "0x80002000 \<in> pages 0x1000 (0x80001000 + 0x1000) (unat (3 :: usize) - 1)"
    unfolding pages_def by (rule image_eqI [where x = 0]) simp_all
  moreover have "0x80002000 \<in> bitmap_free (\<lambda>b. unat ` set b) 0x1000 demo_bitmap"
    by (simp add: bitmap_free_def demo_bitmap_def page_addr_def)
  ultimately show ?thesis
    using page_dealloc_leaks [OF lb.bit_alloc_axioms demo_bitmap_inv demo_bitmap_alloc] by blast
qed

end
