(* ===== verification/SlabAlloc.thy ===== *)
theory SlabAlloc
  imports PageAlloc
begin

text \<open>
  Model of the crate \<open>slab_allocator\<close> (src/crates/slab_allocator/src/lib.rs and slab.rs): slabs of blocks of seven
  sizes with their free blocks in an intrusive list, over a buddy allocator for new blocks and for larger
  requests. The memory of the free blocks, each holding the address of the next, is the map \<open>blocks\<close>. The buddy
  allocator is the third-party crate \<open>buddy_system_allocator\<close>: a record of its operations, with its documented
  behaviour as the locale \<open>buddy_heap\<close>.
\<close>

section \<open>Model\<close>

record Layout =
  lay_size :: usize
  lay_align :: usize

text \<open>\<open>Layout::from_size_align\<close> of the standard library; the largest \<open>isize\<close> bounds the padded size.\<close>

definition from_size_align :: "usize \<Rightarrow> usize \<Rightarrow> Layout option" where
  "from_size_align sz align =
     (if is_power_of_two align \<and> sz \<le> 0x7fffffffffffffff - (align - 1)
      then Some \<lparr>lay_size = sz, lay_align = align\<rparr> else None)"

text \<open>The operations of the third-party buddy allocator that are used.\<close>

record 'h BuddyHeap =
  bh_new :: 'h
  bh_init :: "usize \<Rightarrow> usize \<Rightarrow> 'h \<Rightarrow> 'h"
  bh_add_to_heap :: "usize \<Rightarrow> usize \<Rightarrow> 'h \<Rightarrow> 'h"
  bh_alloc :: "Layout \<Rightarrow> 'h \<Rightarrow> usize option \<times> 'h"
  bh_dealloc :: "usize \<Rightarrow> Layout \<Rightarrow> 'h \<Rightarrow> 'h"
  bh_stats_total_bytes :: "'h \<Rightarrow> usize"
  bh_stats_alloc_actual :: "'h \<Rightarrow> usize"

subsection \<open>The list of free blocks\<close>

text \<open>The field \<open>next\<close> of the \<open>FreeBlock\<close> at an address.\<close>

type_synonym fmem = "usize \<Rightarrow> usize option"

record FreeBlockList =
  fbl_len :: usize
  fbl_head :: "usize option"

definition fbl_new_empty :: FreeBlockList where
  "fbl_new_empty = \<lparr>fbl_len = 0, fbl_head = None\<rparr>"

definition fbl_push :: "usize \<Rightarrow> FreeBlockList \<times> fmem \<Rightarrow> FreeBlockList \<times> fmem" where
  "fbl_push free_block s =
     (case s of (l, m) \<Rightarrow>
        (l\<lparr>fbl_len := fbl_len l + 1, fbl_head := Some free_block\<rparr>, m(free_block := fbl_head l)))"

definition fbl_pop :: "FreeBlockList \<times> fmem \<Rightarrow> usize option \<times> FreeBlockList \<times> fmem" where
  "fbl_pop s =
     (case s of (l, m) \<Rightarrow>
        case fbl_head l of
          None \<Rightarrow> (None, l, m)
        | Some node \<Rightarrow> (Some node, l\<lparr>fbl_len := fbl_len l - 1, fbl_head := m node\<rparr>, m(node := None)))"

definition fbl_new :: "usize \<Rightarrow> usize \<Rightarrow> usize \<Rightarrow> fmem \<Rightarrow> FreeBlockList \<times> fmem" where
  "fbl_new start_addr block_size num_of_blocks m =
     fold (\<lambda>i. fbl_push (start_addr + of_nat i * block_size)) (rev [0..<unat num_of_blocks]) (fbl_new_empty, m)"

definition fbl_is_empty :: "FreeBlockList \<Rightarrow> bool" where
  "fbl_is_empty l = (fbl_head l = None)"

text \<open>\<open>Drop\<close> pops until the list is empty.\<close>

partial_function (option) fbl_drop :: "FreeBlockList \<times> fmem \<Rightarrow> fmem option" where
  "fbl_drop s = (case fbl_pop s of (None, s) \<Rightarrow> Some (snd s) | (Some _, s) \<Rightarrow> fbl_drop s)"

subsection \<open>A slab\<close>

record Slab =
  free_block_list :: FreeBlockList
  total_blocks :: usize

definition SET_SIZE :: usize where "SET_SIZE = 64"

definition slab_new :: "usize \<Rightarrow> usize \<Rightarrow> usize \<Rightarrow> fmem \<Rightarrow> Slab \<times> fmem" where
  "slab_new BLK start_addr slab_size m =
     (let num_of_blocks = slab_size div BLK; (l, m) = fbl_new start_addr BLK num_of_blocks m
      in (\<lparr>free_block_list = l, total_blocks = num_of_blocks\<rparr>, m))"

definition used_blocks :: "Slab \<Rightarrow> usize" where
  "used_blocks s = total_blocks s - fbl_len (free_block_list s)"

text \<open>The loop of \<open>grow\<close> moves the blocks of \<open>l\<close> to the list \<open>fl\<close> of the slab.\<close>

partial_function (option) grow_loop ::
  "FreeBlockList \<Rightarrow> FreeBlockList \<Rightarrow> fmem \<Rightarrow> (FreeBlockList \<times> FreeBlockList \<times> fmem) option" where
  "grow_loop l fl m =
     (case fbl_pop (l, m) of
        (None, l, m) \<Rightarrow> Some (l, fl, m)
      | (Some block, l, m) \<Rightarrow> (case fbl_push block (fl, m) of (fl, m) \<Rightarrow> grow_loop l fl m))"

definition slab_grow :: "usize \<Rightarrow> usize \<Rightarrow> usize \<Rightarrow> Slab \<times> fmem \<Rightarrow> (Slab \<times> fmem) option" where
  "slab_grow BLK start_addr slab_size S =
     (case S of (s, m) \<Rightarrow>
        let num_of_blocks = slab_size div BLK;
            s = s\<lparr>total_blocks := total_blocks s + num_of_blocks\<rparr>;
            (l, m) = fbl_new start_addr BLK num_of_blocks m
        in Option.bind (grow_loop l (free_block_list s) m) (\<lambda>(l, fl, m).
             Option.bind (fbl_drop (l, m)) (\<lambda>m. Some (s\<lparr>free_block_list := fl\<rparr>, m))))"

definition slab_allocate :: "'h BuddyHeap \<Rightarrow> usize \<Rightarrow> Slab \<times> fmem \<times> 'h
    \<Rightarrow> ((unit, usize) result \<times> Slab \<times> fmem \<times> 'h) outcome option" where
  "slab_allocate H BLK S =
     (case S of (s, m, buddy) \<Rightarrow>
        case fbl_pop (free_block_list s, m) of
          (Some block, l, m) \<Rightarrow> Some (Ret (Ok block, s\<lparr>free_block_list := l\<rparr>, m, buddy))
        | (None, l, m) \<Rightarrow>
            let s = s\<lparr>free_block_list := l\<rparr>;
                layout = \<lparr>lay_size = SET_SIZE * BLK, lay_align = 4096\<rparr>
            in case bh_alloc H layout buddy of
                 (Some ptr, buddy) \<Rightarrow>
                   Option.bind (slab_grow BLK ptr (SET_SIZE * BLK) (s, m)) (\<lambda>(s, m).
                     case fbl_pop (free_block_list s, m) of
                       (Some block, l, m) \<Rightarrow> Some (Ret (Ok block, s\<lparr>free_block_list := l\<rparr>, m, buddy))
                     | (None, l, m) \<Rightarrow> Some Panic)
               | (None, buddy) \<Rightarrow> Some (Ret (Err (), s, m, buddy)))"

definition slab_deallocate :: "usize \<Rightarrow> Slab \<times> fmem \<Rightarrow> Slab \<times> fmem" where
  "slab_deallocate ptr S =
     (case S of (s, m) \<Rightarrow>
        let (l, m) = fbl_push ptr (free_block_list s, m) in (s\<lparr>free_block_list := l\<rparr>, m))"

subsection \<open>The heap\<close>

datatype HeapAllocator =
  Slab64Bytes | Slab128Bytes | Slab256Bytes | Slab512Bytes | Slab1024Bytes | Slab2048Bytes | Slab4096Bytes
| BuddyAllocator

text \<open>
  The fields \<open>slab_64_bytes\<close> to \<open>slab_4096_bytes\<close> of the struct are the values of \<open>slab\<close> at the first seven
  constructors; their block sizes, the type arguments of the fields, are \<open>blk_size\<close>.
\<close>

record 'h Heap =
  slab :: "HeapAllocator \<Rightarrow> Slab"
  buddy_allocator :: 'h
  blocks :: fmem

fun blk_size :: "HeapAllocator \<Rightarrow> usize" where
  "blk_size Slab64Bytes = 64"
| "blk_size Slab128Bytes = 128"
| "blk_size Slab256Bytes = 256"
| "blk_size Slab512Bytes = 512"
| "blk_size Slab1024Bytes = 1024"
| "blk_size Slab2048Bytes = 2048"
| "blk_size Slab4096Bytes = 4096"
| "blk_size BuddyAllocator = 0"

definition MIN_HEAP_SIZE :: usize where "MIN_HEAP_SIZE = 0x8000"

definition heap_new :: "'h BuddyHeap \<Rightarrow> usize \<Rightarrow> usize \<Rightarrow> fmem \<Rightarrow> 'h Heap outcome" where
  "heap_new H heap_start_addr heap_size m =
     (if \<not> heap_start_addr mod 4096 = 0 then Panic
      else if \<not> heap_size \<ge> MIN_HEAP_SIZE then Panic
      else if \<not> heap_size mod MIN_HEAP_SIZE = 0 then Panic
      else Ret \<lparr>slab = (\<lambda>k. fst (slab_new (blk_size k) 0 0 m)),
                buddy_allocator = bh_init H heap_start_addr heap_size (bh_new H), blocks = m\<rparr>)"

definition heap_add_memory :: "'h BuddyHeap \<Rightarrow> usize \<Rightarrow> usize \<Rightarrow> 'h Heap \<Rightarrow> 'h Heap outcome" where
  "heap_add_memory H heap_start_addr heap_size h =
     (if \<not> heap_start_addr mod 4096 = 0 then Panic
      else if \<not> heap_size mod 4096 = 0 then Panic
      else Ret (h\<lparr>buddy_allocator := bh_add_to_heap H heap_start_addr (heap_start_addr + heap_size) (buddy_allocator h)\<rparr>))"

definition heap_grow :: "'h BuddyHeap \<Rightarrow> usize \<Rightarrow> usize \<Rightarrow> HeapAllocator \<Rightarrow> 'h Heap \<Rightarrow> 'h Heap option" where
  "heap_grow H mem_start_addr mem_size k h =
     (if k = BuddyAllocator
      then Some (h\<lparr>buddy_allocator := bh_add_to_heap H mem_start_addr (mem_start_addr + mem_size) (buddy_allocator h)\<rparr>)
      else Option.bind (slab_grow (blk_size k) mem_start_addr mem_size (slab h k, blocks h))
             (\<lambda>(s, m). Some (h\<lparr>slab := (slab h)(k := s), blocks := m\<rparr>)))"

definition layout_to_allocator :: "Layout \<Rightarrow> HeapAllocator" where
  "layout_to_allocator layout =
     (if lay_size layout > 4096 then BuddyAllocator
      else if lay_size layout \<le> 64 \<and> lay_align layout \<le> 64 then Slab64Bytes
      else if lay_size layout \<le> 128 \<and> lay_align layout \<le> 128 then Slab128Bytes
      else if lay_size layout \<le> 256 \<and> lay_align layout \<le> 256 then Slab256Bytes
      else if lay_size layout \<le> 512 \<and> lay_align layout \<le> 512 then Slab512Bytes
      else if lay_size layout \<le> 1024 \<and> lay_align layout \<le> 1024 then Slab1024Bytes
      else if lay_size layout \<le> 2048 \<and> lay_align layout \<le> 2048 then Slab2048Bytes
      else Slab4096Bytes)"

definition heap_allocate :: "'h BuddyHeap \<Rightarrow> Layout \<Rightarrow> 'h Heap
    \<Rightarrow> ((unit, usize) result \<times> 'h Heap) outcome option" where
  "heap_allocate H layout h =
     (let k = layout_to_allocator layout in
      if k = BuddyAllocator
      then (case bh_alloc H layout (buddy_allocator h) of
              (Some ptr, b) \<Rightarrow> Some (Ret (Ok ptr, h\<lparr>buddy_allocator := b\<rparr>))
            | (None, b) \<Rightarrow> Some (Ret (Err (), h\<lparr>buddy_allocator := b\<rparr>)))
      else Option.bind (slab_allocate H (blk_size k) (slab h k, blocks h, buddy_allocator h)) (\<lambda>out.
             Some (out_then out (\<lambda>(r, s, m, b).
               Ret (r, h\<lparr>slab := (slab h)(k := s), blocks := m, buddy_allocator := b\<rparr>)))))"

definition heap_deallocate :: "'h BuddyHeap \<Rightarrow> usize \<Rightarrow> Layout \<Rightarrow> 'h Heap \<Rightarrow> 'h Heap outcome" where
  "heap_deallocate H ptr layout h =
     (let k = layout_to_allocator layout in
      if k = BuddyAllocator
      then (if ptr = 0 then Panic
            else Ret (h\<lparr>buddy_allocator := bh_dealloc H ptr layout (buddy_allocator h)\<rparr>))
      else (case slab_deallocate ptr (slab h k, blocks h) of
              (s, m) \<Rightarrow> Ret (h\<lparr>slab := (slab h)(k := s), blocks := m\<rparr>)))"

definition usable_size :: "Layout \<Rightarrow> usize \<times> usize" where
  "usable_size layout =
     (let k = layout_to_allocator layout in
      (lay_size layout, if k = BuddyAllocator then lay_size layout else blk_size k))"

definition heap_total_bytes :: "'h BuddyHeap \<Rightarrow> 'h Heap \<Rightarrow> usize" where
  "heap_total_bytes H h =
     total_blocks (slab h Slab64Bytes) * 64 + total_blocks (slab h Slab128Bytes) * 128
     + total_blocks (slab h Slab256Bytes) * 256 + total_blocks (slab h Slab512Bytes) * 512
     + total_blocks (slab h Slab1024Bytes) * 1024 + total_blocks (slab h Slab2048Bytes) * 2048
     + total_blocks (slab h Slab4096Bytes) * 4096 + bh_stats_total_bytes H (buddy_allocator h)"

definition heap_used_bytes :: "'h BuddyHeap \<Rightarrow> 'h Heap \<Rightarrow> usize" where
  "heap_used_bytes H h =
     used_blocks (slab h Slab64Bytes) * 64 + used_blocks (slab h Slab128Bytes) * 128
     + used_blocks (slab h Slab256Bytes) * 256 + used_blocks (slab h Slab512Bytes) * 512
     + used_blocks (slab h Slab1024Bytes) * 1024 + used_blocks (slab h Slab2048Bytes) * 2048
     + used_blocks (slab h Slab4096Bytes) * 4096 + bh_stats_alloc_actual H (buddy_allocator h)"

definition heap_available_bytes :: "'h BuddyHeap \<Rightarrow> 'h Heap \<Rightarrow> usize" where
  "heap_available_bytes H h = heap_total_bytes H h - heap_used_bytes H h"

section \<open>Free lists\<close>

fun flist :: "fmem \<Rightarrow> usize option \<Rightarrow> usize list \<Rightarrow> bool" where
  "flist m h [] \<longleftrightarrow> h = None"
| "flist m h (x # xs) \<longleftrightarrow> h = Some x \<and> flist m (m x) xs"

lemma flist_upd [simp]: "b \<notin> set xs \<Longrightarrow> flist (m(b := v)) h xs = flist m h xs"
  by (induction xs arbitrary: h) auto

lemma flist_frame: "flist m h xs \<Longrightarrow> (\<And>b. b \<in> set xs \<Longrightarrow> m' b = m b) \<Longrightarrow> flist m' h xs"
  by (induction xs arbitrary: h) auto

text \<open>\<open>flist_of m l xs\<close>: the list object \<open>l\<close> holds the blocks \<open>xs\<close> and knows their number.\<close>

definition flist_of :: "fmem \<Rightarrow> FreeBlockList \<Rightarrow> usize list \<Rightarrow> bool" where
  "flist_of m l xs \<longleftrightarrow> flist m (fbl_head l) xs \<and> distinct xs \<and> fbl_len l = of_nat (length xs)"

lemma push_flist:
  assumes "flist_of m l xs" "b \<notin> set xs"
  obtains l' where "fbl_push b (l, m) = (l', m(b := fbl_head l))" "flist_of (m(b := fbl_head l)) l' (b # xs)"
  using assms by (auto simp: fbl_push_def flist_of_def)

lemma pop_flist:
  assumes "flist_of m l (x # xs)"
  obtains l' where "fbl_pop (l, m) = (Some x, l', m(x := None))" "flist_of (m(x := None)) l' xs"
  using assms by (auto simp: fbl_pop_def flist_of_def)

lemma pop_empty: "flist_of m l [] \<Longrightarrow> fbl_pop (l, m) = (None, l, m)"
  by (simp add: fbl_pop_def flist_of_def)

lemma flist_of_frame: "flist_of m l xs \<Longrightarrow> (\<And>b. b \<in> set xs \<Longrightarrow> m' b = m b) \<Longrightarrow> flist_of m' l xs"
  by (auto simp: flist_of_def intro: flist_frame)

lemma push_all:
  assumes "flist_of m l xs" "distinct (ys @ xs)"
  shows "\<exists>l' m'. fold fbl_push (rev ys) (l, m) = (l', m') \<and> flist_of m' l' (ys @ xs)
    \<and> (\<forall>b. b \<notin> set ys \<longrightarrow> m' b = m b)"
  using assms
proof (induction ys)
  case (Cons y ys)
  then obtain l1 m1 where 1: "fold fbl_push (rev ys) (l, m) = (l1, m1)" "flist_of m1 l1 (ys @ xs)"
    "\<forall>b. b \<notin> set ys \<longrightarrow> m1 b = m b" by auto
  obtain l2 where "fbl_push y (l1, m1) = (l2, m1(y := fbl_head l1))" "flist_of (m1(y := fbl_head l1)) l2 (y # ys @ xs)"
    using push_flist [OF 1(2), of y] Cons.prems by auto
  then show ?case using 1 by auto
qed simp

lemma fbl_new_flist:
  assumes "distinct (map (\<lambda>i. start + of_nat i * BLK) [0..<unat n])"
  shows "\<exists>l m'. fbl_new start BLK n m = (l, m') \<and> flist_of m' l (map (\<lambda>i. start + of_nat i * BLK) [0..<unat n])
    \<and> (\<forall>b. b \<notin> set (map (\<lambda>i. start + of_nat i * BLK) [0..<unat n]) \<longrightarrow> m' b = m b)"
proof -
  have "flist_of m fbl_new_empty []" by (simp add: flist_of_def fbl_new_empty_def)
  moreover have "fbl_new start BLK n m = fold fbl_push (rev (map (\<lambda>i. start + of_nat i * BLK) [0..<unat n])) (fbl_new_empty, m)"
    by (simp add: fbl_new_def rev_map fold_map comp_def)
  ultimately show ?thesis
    using push_all [of m fbl_new_empty "[]" "map (\<lambda>i. start + of_nat i * BLK) [0..<unat n]"] assms by simp
qed

lemma fbl_drop_all: "flist_of m l xs \<Longrightarrow> \<exists>m'. fbl_drop (l, m) = Some m' \<and> (\<forall>b. b \<notin> set xs \<longrightarrow> m' b = m b)"
proof (induction xs arbitrary: m l)
  case Nil
  then show ?case by (simp add: pop_empty fbl_drop.simps)
next
  case (Cons x xs)
  obtain l' where p: "fbl_pop (l, m) = (Some x, l', m(x := None))" "flist_of (m(x := None)) l' xs"
    using pop_flist [OF Cons.prems] by metis
  from Cons.IH [OF p(2)] obtain m' where "fbl_drop (l', m(x := None)) = Some m'"
    "\<forall>b. b \<notin> set xs \<longrightarrow> m' b = (m(x := None)) b" by blast
  then show ?case using p(1) by (simp add: fbl_drop.simps [of "(l, m)"])
qed

lemma grow_loop_moves:
  assumes "flist_of m l ys" "flist_of m fl xs" "set ys \<inter> set xs = {}"
  shows "\<exists>l' fl' m'. grow_loop l fl m = Some (l', fl', m') \<and> flist_of m' l' [] \<and> flist_of m' fl' (rev ys @ xs)
    \<and> (\<forall>b. b \<notin> set ys \<longrightarrow> m' b = m b)"
  using assms
proof (induction ys arbitrary: m l fl xs)
  case Nil
  then show ?case by (simp add: pop_empty grow_loop.simps)
next
  case (Cons y ys)
  obtain l1 where 1: "fbl_pop (l, m) = (Some y, l1, m(y := None))" "flist_of (m(y := None)) l1 ys"
    using pop_flist [OF Cons.prems(1)] by metis
  have y: "y \<notin> set ys" "y \<notin> set xs" using Cons.prems by (auto simp: flist_of_def)
  have "flist_of (m(y := None)) fl xs" using Cons.prems(2) y by (auto intro: flist_of_frame)
  then obtain fl1 where 2: "fbl_push y (fl, m(y := None)) = (fl1, m(y := fbl_head fl))"
    "flist_of (m(y := fbl_head fl)) fl1 (y # xs)"
    using push_flist [OF _ y(2)] by (metis fun_upd_upd)
  have "flist_of (m(y := fbl_head fl)) l1 ys" using 1(2) y by (auto intro!: flist_of_frame [OF 1(2)])
  moreover have "set ys \<inter> set (y # xs) = {}" using Cons.prems(3) y by auto
  ultimately obtain l' fl' m' where
    "grow_loop l1 fl1 (m(y := fbl_head fl)) = Some (l', fl', m')" "flist_of m' l' []" "flist_of m' fl' (rev ys @ y # xs)"
    "\<forall>b. b \<notin> set ys \<longrightarrow> m' b = (m(y := fbl_head fl)) b" using Cons.IH [OF _ 2(2)] by blast
  then show ?case using 1(1) 2(1) by (simp add: grow_loop.simps [of l])
qed

text \<open>A slab grows by the blocks of the new chunk, the last of which is then first in its list.\<close>

lemma slab_grow_blocks:
  assumes "flist_of m (free_block_list s) xs" "n = sz div BLK"
    and "ys = map (\<lambda>i. start + of_nat i * BLK) [0..<unat n]" "distinct (ys @ xs)"
  shows "\<exists>s' m'. slab_grow BLK start sz (s, m) = Some (s', m') \<and> flist_of m' (free_block_list s') (rev ys @ xs)
    \<and> total_blocks s' = total_blocks s + n \<and> (\<forall>b. b \<notin> set ys \<longrightarrow> m' b = m b)"
proof -
  obtain l m1 where 1: "fbl_new start BLK n m = (l, m1)" "flist_of m1 l ys" "\<forall>b. b \<notin> set ys \<longrightarrow> m1 b = m b"
    using fbl_new_flist [of start BLK n m] assms(3,4) by auto
  have "flist_of m1 (free_block_list s) xs" using assms(1,4) 1(3) by (auto intro: flist_of_frame)
  from grow_loop_moves [OF 1(2) this] assms(4) obtain l' fl m2 where
    2: "grow_loop l (free_block_list s) m1 = Some (l', fl, m2)" "flist_of m2 l' []" "flist_of m2 fl (rev ys @ xs)"
    "\<forall>b. b \<notin> set ys \<longrightarrow> m2 b = m1 b" by auto
  have "fbl_drop (l', m2) = Some m2" using 2(2) by (simp add: pop_empty fbl_drop.simps)
  then show ?thesis using 1 2 assms(2) by (simp add: slab_grow_def Let_def)
qed

section \<open>The contract of the buddy allocator\<close>

text \<open>The addresses of \<open>n\<close> bytes from \<open>a\<close> on.\<close>

definition rng :: "usize \<Rightarrow> nat \<Rightarrow> nat set" where
  "rng a n = {unat a..<unat a + n}"

text \<open>
  The documented behaviour of the buddy allocator: \<open>pool h\<close> is the memory it was given and \<open>live h\<close> the regions
  it has handed out and not got back. Regions that are out do not overlap.
\<close>

locale buddy_heap =
  fixes H :: "'h BuddyHeap" and ok :: "'h \<Rightarrow> bool" and live :: "'h \<Rightarrow> (usize \<times> nat) set" and pool :: "'h \<Rightarrow> nat set"
  assumes live_pool: "ok h \<Longrightarrow> (p, n) \<in> live h \<Longrightarrow> 0 < n \<and> rng p n \<subseteq> pool h"
    and pool_bound: "ok h \<Longrightarrow> pool h \<subseteq> {0<..<2 ^ 64}"
    and live_disjoint: "ok h \<Longrightarrow> (p, n) \<in> live h \<Longrightarrow> (q, k) \<in> live h \<Longrightarrow> (p, n) \<noteq> (q, k) \<Longrightarrow> rng p n \<inter> rng q k = {}"
    and buddy_new: "ok (bh_new H) \<and> live (bh_new H) = {} \<and> pool (bh_new H) = {}"
    and buddy_init: "ok h \<Longrightarrow> 0 < sz \<Longrightarrow> 4096 dvd unat start \<Longrightarrow> 4096 dvd unat sz \<Longrightarrow> unat start + unat sz < 2 ^ 64 \<Longrightarrow>
      rng start (unat sz) \<inter> insert 0 (pool h) = {} \<Longrightarrow>
      ok (bh_init H start sz h) \<and> live (bh_init H start sz h) = live h \<and>
      pool (bh_init H start sz h) = pool h \<union> rng start (unat sz)"
    and buddy_add: "ok h \<Longrightarrow> start < stop \<Longrightarrow> 4096 dvd unat start \<Longrightarrow> 4096 dvd unat stop \<Longrightarrow>
      {unat start..<unat stop} \<inter> insert 0 (pool h) = {} \<Longrightarrow>
      ok (bh_add_to_heap H start stop h) \<and> live (bh_add_to_heap H start stop h) = live h \<and>
      pool (bh_add_to_heap H start stop h) = pool h \<union> {unat start..<unat stop}"
    and buddy_alloc: "ok h \<Longrightarrow> 0 < lay_size l \<Longrightarrow> is_power_of_two (lay_align l) \<Longrightarrow> bh_alloc H l h = (Some p, h') \<Longrightarrow>
      ok h' \<and> pool h' = pool h \<and> (p, unat (lay_size l)) \<notin> live h \<and> live h' = insert (p, unat (lay_size l)) (live h) \<and>
      unat (lay_align l) dvd unat p"
    and buddy_full: "ok h \<Longrightarrow> 0 < lay_size l \<Longrightarrow> is_power_of_two (lay_align l) \<Longrightarrow> bh_alloc H l h = (None, h') \<Longrightarrow>
      ok h' \<and> pool h' = pool h \<and> live h' = live h"
    and buddy_dealloc: "ok h \<Longrightarrow> (p, unat (lay_size l)) \<in> live h \<Longrightarrow>
      ok (bh_dealloc H p l h) \<and> pool (bh_dealloc H p l h) = pool h \<and>
      live (bh_dealloc H p l h) = live h - {(p, unat (lay_size l))}"

section \<open>The invariant of the heap\<close>

text \<open>
  The blocks of a slab are free (\<open>F k\<close>, in the order of the list) or handed out (\<open>L k\<close>); \<open>U\<close> are the regions of
  the buddy allocator that are handed out to users, while the others are the chunks the slabs are cut from.
\<close>

definition hblocks :: "(HeapAllocator \<Rightarrow> usize list) \<Rightarrow> (HeapAllocator \<Rightarrow> usize set) \<Rightarrow> (HeapAllocator \<times> usize) set" where
  "hblocks F L = {(k, a). k \<noteq> BuddyAllocator \<and> a \<in> set (F k) \<union> L k}"

definition slab_ok :: "fmem \<Rightarrow> Slab \<Rightarrow> usize list \<Rightarrow> usize set \<Rightarrow> bool" where
  "slab_ok m s fs ls \<longleftrightarrow> flist_of m (free_block_list s) fs \<and> finite ls \<and> set fs \<inter> ls = {} \<and>
     unat (total_blocks s) = length fs + card ls"

definition block_rng :: "HeapAllocator \<times> usize \<Rightarrow> nat set" where
  "block_rng x = rng (snd x) (unat (blk_size (fst x)))"

definition blocks_ok :: "(usize \<times> nat) set \<Rightarrow> (HeapAllocator \<times> usize) set \<Rightarrow> bool" where
  "blocks_ok chunks bs \<longleftrightarrow>
     (\<forall>x \<in> bs. unat (blk_size (fst x)) dvd unat (snd x) \<and> (\<exists>(p, n) \<in> chunks. block_rng x \<subseteq> rng p n)) \<and>
     (\<forall>x \<in> bs. \<forall>y \<in> bs. x \<noteq> y \<longrightarrow> block_rng x \<inter> block_rng y = {})"

definition heap_inv :: "('h \<Rightarrow> bool) \<Rightarrow> ('h \<Rightarrow> (usize \<times> nat) set) \<Rightarrow> (HeapAllocator \<Rightarrow> usize list)
    \<Rightarrow> (HeapAllocator \<Rightarrow> usize set) \<Rightarrow> (usize \<times> nat) set \<Rightarrow> 'h Heap \<Rightarrow> bool" where
  "heap_inv ok live F L U h \<longleftrightarrow>
     ok (buddy_allocator h) \<and> U \<subseteq> live (buddy_allocator h) \<and>
     (\<forall>k. k \<noteq> BuddyAllocator \<longrightarrow> slab_ok (blocks h) (slab h k) (F k) (L k)) \<and>
     blocks_ok (live (buddy_allocator h) - U) (hblocks F L)"

lemma blk_size_bounds: "k \<noteq> BuddyAllocator \<Longrightarrow> 64 \<le> unat (blk_size k) \<and> unat (blk_size k) \<le> 4096"
  by (cases k) simp_all

lemma blk_size_exp: "k \<noteq> BuddyAllocator \<Longrightarrow> \<exists>n. 6 \<le> n \<and> n \<le> 12 \<and> unat (blk_size k) = 2 ^ n"
proof (cases k)
  case Slab64Bytes then show ?thesis by (intro exI [of _ 6]) simp
next
  case Slab128Bytes then show ?thesis by (intro exI [of _ 7]) simp
next
  case Slab256Bytes then show ?thesis by (intro exI [of _ 8]) simp
next
  case Slab512Bytes then show ?thesis by (intro exI [of _ 9]) simp
next
  case Slab1024Bytes then show ?thesis by (intro exI [of _ 10]) simp
next
  case Slab2048Bytes then show ?thesis by (intro exI [of _ 11]) simp
next
  case Slab4096Bytes then show ?thesis by (intro exI [of _ 12]) simp
qed simp

lemma block_rng_start: "fst x \<noteq> BuddyAllocator \<Longrightarrow> unat (snd x) \<in> block_rng x"
  using blk_size_bounds [of "fst x"] by (simp add: block_rng_def rng_def)

lemma block_unique:
  assumes "blocks_ok C bs" "(k, a) \<in> bs" "(k', a) \<in> bs" "k \<noteq> BuddyAllocator" "k' \<noteq> BuddyAllocator"
  shows "k = k'"
proof (rule ccontr)
  assume "k \<noteq> k'"
  then have "block_rng (k, a) \<inter> block_rng (k', a) = {}" using assms(1-3) by (auto simp: blocks_ok_def)
  then show False using block_rng_start [of "(k, a)"] block_rng_start [of "(k', a)"] assms(4,5) by auto
qed

lemma slab_ok_frame: "slab_ok m s fs ls \<Longrightarrow> (\<And>b. b \<in> set fs \<Longrightarrow> m' b = m b) \<Longrightarrow> slab_ok m' s fs ls"
  by (auto simp: slab_ok_def intro: flist_of_frame)

lemma blocks_count:
  assumes "blocks_ok C bs" "\<And>p n. (p, n) \<in> C \<Longrightarrow> rng p n \<subseteq> {..<2 ^ 64}" "finite A" "Pair k ` A \<subseteq> bs"
  shows "card A * unat (blk_size k) \<le> 2 ^ 64"
proof -
  have "block_rng (k, a) \<subseteq> {..<2 ^ 64}" if "a \<in> A" for a
  proof -
    have "(k, a) \<in> bs" using that assms(4) by blast
    then obtain p n where "(p, n) \<in> C" "block_rng (k, a) \<subseteq> rng p n" using assms(1) unfolding blocks_ok_def by blast
    then show ?thesis using assms(2) by blast
  qed
  then have "(\<Union>a\<in>A. block_rng (k, a)) \<subseteq> {..<2 ^ 64}" by blast
  then have le: "card (\<Union>a\<in>A. block_rng (k, a)) \<le> card {..<2 ^ 64 :: nat}" by (intro card_mono) simp_all
  have "block_rng (k, a) \<inter> block_rng (k, b) = {}" if "a \<in> A" "b \<in> A" "a \<noteq> b" for a b
    using that assms(1,4) unfolding blocks_ok_def by blast
  then have "card (\<Union>a\<in>A. block_rng (k, a)) = (\<Sum>a\<in>A. card (block_rng (k, a)))"
    by (intro card_UN_disjoint [OF assms(3)]) (simp_all add: block_rng_def rng_def)
  moreover have "card (block_rng (k, a)) = unat (blk_size k)" for a by (simp add: block_rng_def rng_def)
  ultimately show ?thesis using le by (simp only: sum_constant card_lessThan of_nat_id)
qed

text \<open>Replacing one slab: the other slabs keep their lists, since their blocks lie elsewhere.\<close>

lemma heap_inv_update:
  assumes inv: "heap_inv ok live F L U h" and k: "k \<noteq> BuddyAllocator"
    and b: "ok b" "U \<subseteq> live b" and s: "slab_ok m s fs ls"
    and bs: "blocks_ok (live b - U) (hblocks (F(k := fs)) (L(k := ls)))"
    and frame: "\<And>a. a \<notin> set fs \<union> ls \<Longrightarrow> m a = blocks h a"
  shows "heap_inv ok live (F(k := fs)) (L(k := ls)) U (h\<lparr>slab := (slab h)(k := s), blocks := m, buddy_allocator := b\<rparr>)"
proof -
  have "slab_ok m (slab h k') (F k') (L k')" if k': "k' \<noteq> BuddyAllocator" "k' \<noteq> k" for k'
  proof (rule slab_ok_frame)
    show "slab_ok (blocks h) (slab h k') (F k') (L k')" using inv k' by (simp add: heap_inv_def)
    show "m a = blocks h a" if "a \<in> set (F k')" for a
    proof (rule frame)
      have "(k', a) \<in> hblocks (F(k := fs)) (L(k := ls))" using that k' by (simp add: hblocks_def)
      moreover have "(k, a) \<in> hblocks (F(k := fs)) (L(k := ls))" if "a \<in> set fs \<union> ls"
        using that k by (simp add: hblocks_def)
      ultimately show "a \<notin> set fs \<union> ls" using block_unique [OF bs] k k' by blast
    qed
  qed
  then show ?thesis using s b bs by (simp add: heap_inv_def)
qed

section \<open>Allocating from a slab\<close>

text \<open>The blocks a chunk is cut into.\<close>

definition chunk_blocks :: "HeapAllocator \<Rightarrow> usize \<Rightarrow> usize list" where
  "chunk_blocks k p = map (\<lambda>i. p + of_nat i * blk_size k) [0..<64]"

lemma unat_chunk: "k \<noteq> BuddyAllocator \<Longrightarrow> unat (SET_SIZE * blk_size k) = 64 * unat (blk_size k)"
  by (cases k) (simp_all add: SET_SIZE_def)

lemma chunk_div: "k \<noteq> BuddyAllocator \<Longrightarrow> SET_SIZE * blk_size k div blk_size k = 64"
  by (cases k) (simp_all add: SET_SIZE_def)

lemma unat_chunk_block:
  assumes "k \<noteq> BuddyAllocator" "unat p + 64 * unat (blk_size k) \<le> 2 ^ 64" "i < 64"
  shows "unat (p + of_nat i * blk_size k) = unat p + i * unat (blk_size k)"
proof -
  have "i * unat (blk_size k) + unat (blk_size k) \<le> 64 * unat (blk_size k)"
    using assms(3) by (metis add.commute mult_Suc mult_le_mono1 Suc_leI)
  then have lt: "unat p + i * unat (blk_size k) < 2 ^ 64" using assms(2) blk_size_bounds [OF assms(1)] by linarith
  have "unat (of_nat i :: usize) = i" using assms(3) by (intro unat_of_nat_usize) simp
  then have "unat (of_nat i * blk_size k) = i * unat (blk_size k)"
    using lt by (simp add: unat_word_ariths)
  then show ?thesis using lt by (subst unat_add_nowrap) simp_all
qed

lemma chunk_blocks_ok:
  assumes k: "k \<noteq> BuddyAllocator" and fits: "unat p + 64 * unat (blk_size k) \<le> 2 ^ 64" and al: "4096 dvd unat p"
  shows "distinct (chunk_blocks k p)"
    "a \<in> set (chunk_blocks k p) \<Longrightarrow> unat (blk_size k) dvd unat a \<and> block_rng (k, a) \<subseteq> rng p (64 * unat (blk_size k))"
    "a \<in> set (chunk_blocks k p) \<Longrightarrow> b \<in> set (chunk_blocks k p) \<Longrightarrow> a \<noteq> b \<Longrightarrow> block_rng (k, a) \<inter> block_rng (k, b) = {}"
proof -
  let ?z = "unat (blk_size k)"
  have z: "0 < ?z" using blk_size_bounds [OF k] by simp
  note u = unat_chunk_block [OF k fits]
  have "inj_on (\<lambda>i. p + of_nat i * blk_size k) {0..<64}"
  proof (rule inj_onI)
    fix i j :: nat assume "i \<in> {0..<64}" "j \<in> {0..<64}" "p + of_nat i * blk_size k = p + of_nat j * blk_size k"
    then have "unat p + i * ?z = unat p + j * ?z" using u by (metis atLeastLessThan_iff)
    then show "i = j" using z by simp
  qed
  then show "distinct (chunk_blocks k p)" by (simp add: chunk_blocks_def distinct_map)
  obtain n where n: "n \<le> 12" "?z = 2 ^ n" using blk_size_exp [OF k] by blast
  then have "?z dvd 4096" using le_imp_power_dvd [of n 12 "2 :: nat"] by simp
  then have dvd: "?z dvd unat p" using al dvd_trans by blast
  have le: "i * ?z + ?z \<le> j * ?z" if "i < j" for i j
    using that by (metis add.commute mult_Suc mult_le_mono1 Suc_leI)
  show "?z dvd unat a \<and> block_rng (k, a) \<subseteq> rng p (64 * ?z)" if a: "a \<in> set (chunk_blocks k p)"
  proof -
    obtain i where i: "i < 64" "unat a = unat p + i * ?z" using a u by (auto simp: chunk_blocks_def)
    then show ?thesis using dvd le [of i 64] by (auto simp: block_rng_def rng_def)
  qed
  show "block_rng (k, a) \<inter> block_rng (k, b) = {}"
    if ab: "a \<in> set (chunk_blocks k p)" "b \<in> set (chunk_blocks k p)" "a \<noteq> b"
  proof -
    obtain i j where ij: "a = p + of_nat i * blk_size k" "unat a = unat p + i * ?z"
      "b = p + of_nat j * blk_size k" "unat b = unat p + j * ?z"
      using ab(1,2) u by (auto simp: chunk_blocks_def)
    have "i \<noteq> j" using ab(3) ij by blast
    then consider "i < j" | "j < i" by linarith
    then show ?thesis using ij le [of i j] le [of j i] by cases (auto simp: block_rng_def rng_def)
  qed
qed

context buddy_heap
begin

lemma live_bound: "ok h \<Longrightarrow> (p, n) \<in> live h \<Longrightarrow> unat p + n \<le> 2 ^ 64 \<and> 0 < unat p \<and> rng p n \<subseteq> {..<2 ^ 64}"
proof -
  assume h: "ok h" "(p, n) \<in> live h"
  then have sub: "rng p n \<subseteq> {0<..<2 ^ 64}" "0 < n" using live_pool pool_bound by blast+
  then have "unat p \<in> rng p n" "unat p + n - 1 \<in> rng p n" by (auto simp: rng_def)
  then have "unat p \<in> {0<..<2 ^ 64}" "unat p + n - 1 \<in> {0<..<2 ^ 64}" using sub(1) by blast+
  then show ?thesis using sub by auto
qed

text \<open>A new chunk lies apart from the chunks the other blocks are in.\<close>

lemma blocks_ok_grow:
  assumes bs: "blocks_ok (live b - U) bs" and b: "ok b" "U \<subseteq> live b" and k: "k \<noteq> BuddyAllocator"
    and al: "bh_alloc H \<lparr>lay_size = SET_SIZE * blk_size k, lay_align = 4096\<rparr> b = (Some p, b')"
  shows "ok b' \<and> U \<subseteq> live b' \<and> blocks_ok (live b' - U) (bs \<union> Pair k ` set (chunk_blocks k p))"
    "unat p + 64 * unat (blk_size k) \<le> 2 ^ 64" "4096 dvd unat p" "pool b' = pool b"
    "(k, a) \<in> bs \<Longrightarrow> a \<notin> set (chunk_blocks k p)"
proof -
  let ?n = "64 * unat (blk_size k)"
  have "0 < unat (SET_SIZE * blk_size k)" using blk_size_bounds [OF k] unat_chunk [OF k] by simp
  then have pos: "0 < SET_SIZE * blk_size k" by (simp add: word_less_nat_alt)
  have b': "ok b'" "pool b' = pool b" "(p, ?n) \<notin> live b" "live b' = insert (p, ?n) (live b)" "4096 dvd unat p"
    using buddy_alloc [OF b(1) _ _ al] pos power_of_two_page by (simp_all add: unat_chunk [OF k])
  show "pool b' = pool b" "4096 dvd unat p" by (rule b')+
  show fits: "unat p + ?n \<le> 2 ^ 64" using live_bound [OF b'(1), of p ?n] b'(4) by simp
  note new = chunk_blocks_ok [OF k fits b'(5)]
  have chunks: "live b' - U = insert (p, ?n) (live b - U)" using b' b by auto
  have apart: "block_rng x \<inter> block_rng (k, a) = {}" if x: "x \<in> bs" and a: "a \<in> set (chunk_blocks k p)" for x a
  proof -
    obtain q m where q: "(q, m) \<in> live b - U" "block_rng x \<subseteq> rng q m" using bs x unfolding blocks_ok_def by blast
    have "rng q m \<inter> rng p ?n = {}" using live_disjoint [OF b'(1), of q m p ?n] q(1) b'(3,4) by blast
    then show ?thesis using q(2) new(2) [OF a] by blast
  qed
  show "a \<notin> set (chunk_blocks k p)" if "(k, a) \<in> bs"
    using apart [OF that, of a] block_rng_start [of "(k, a)"] k by auto
  have "blocks_ok (live b' - U) (bs \<union> Pair k ` set (chunk_blocks k p))"
    unfolding blocks_ok_def
  proof (intro conjI ballI impI)
    fix x assume x: "x \<in> bs \<union> Pair k ` set (chunk_blocks k p)"
    show "unat (blk_size (fst x)) dvd unat (snd x)" using x bs new(2) by (auto simp: blocks_ok_def)
    show "\<exists>(p, n) \<in> live b' - U. block_rng x \<subseteq> rng p n"
      unfolding chunks using x bs new(2) unfolding blocks_ok_def by blast
    fix y assume "y \<in> bs \<union> Pair k ` set (chunk_blocks k p)" "x \<noteq> y"
    then show "block_rng x \<inter> block_rng y = {}"
      using x bs apart new(3) unfolding blocks_ok_def by (elim UnE imageE) (simp_all, blast+)
  qed
  then show "ok b' \<and> U \<subseteq> live b' \<and> blocks_ok (live b' - U) (bs \<union> Pair k ` set (chunk_blocks k p))"
    using b' b by auto
qed

end

text \<open>The regions handed out to users, with the allocator each comes from.\<close>

definition user_regions :: "(HeapAllocator \<Rightarrow> usize set) \<Rightarrow> (usize \<times> nat) set \<Rightarrow> (HeapAllocator \<times> usize \<times> nat) set" where
  "user_regions L U = {(k, a, unat (blk_size k)) |k a. k \<noteq> BuddyAllocator \<and> a \<in> L k} \<union> Pair BuddyAllocator ` U"

definition heap_wf :: "('h \<Rightarrow> bool) \<Rightarrow> ('h \<Rightarrow> (usize \<times> nat) set) \<Rightarrow> (HeapAllocator \<times> usize \<times> nat) set \<Rightarrow> 'h Heap \<Rightarrow> bool" where
  "heap_wf ok live R h \<longleftrightarrow> (\<exists>F L U. heap_inv ok live F L U h \<and> R = user_regions L U)"

text \<open>The region that an allocation with a layout gets at an address.\<close>

definition usable :: "Layout \<Rightarrow> nat" where
  "usable layout = unat (snd (usable_size layout))"

definition region_of :: "Layout \<Rightarrow> usize \<Rightarrow> HeapAllocator \<times> usize \<times> nat" where
  "region_of layout p = (layout_to_allocator layout, p, usable layout)"

lemma usable_slab: "layout_to_allocator l \<noteq> BuddyAllocator \<Longrightarrow> usable l = unat (blk_size (layout_to_allocator l))"
  by (simp add: usable_def usable_size_def Let_def)

lemma usable_buddy: "layout_to_allocator l = BuddyAllocator \<Longrightarrow> usable l = unat (lay_size l)"
  by (simp add: usable_def usable_size_def Let_def)

lemma layout_fits: "lay_size l \<le> snd (usable_size l)"
  by (simp add: usable_size_def layout_to_allocator_def Let_def not_less)

lemma layout_align:
  "layout_to_allocator l \<noteq> BuddyAllocator \<Longrightarrow> lay_align l \<le> 4096 \<Longrightarrow> lay_align l \<le> blk_size (layout_to_allocator l)"
  by (simp add: layout_to_allocator_def split: if_splits)

lemma layout_buddy: "layout_to_allocator l = BuddyAllocator \<longleftrightarrow> 4096 < lay_size l"
  by (simp add: layout_to_allocator_def)

lemma power_of_two_dvd:
  assumes "is_power_of_two (a :: usize)" "a \<le> blk_size k" "k \<noteq> BuddyAllocator"
  shows "unat a dvd unat (blk_size k)"
proof -
  obtain i where i: "i < 64" "a = 2 ^ i" using assms(1) by (auto simp: is_power_of_two_iff)
  obtain n where n: "unat (blk_size k) = 2 ^ n" using blk_size_exp [OF assms(3)] by blast
  have "(2 :: nat) ^ i \<le> 2 ^ n" using assms(2) i n by (simp add: word_le_nat_alt unat_exp)
  then show ?thesis using i n by (simp add: unat_exp le_imp_power_dvd)
qed

lemma length_chunk_blocks: "length (chunk_blocks k p) = 64"
  by (simp add: chunk_blocks_def)

lemma chunk_blocks_set: "insert (last (chunk_blocks k p)) (set (butlast (chunk_blocks k p))) = set (chunk_blocks k p)"
  using length_chunk_blocks [of k p] by (metis append_butlast_last_id length_0_conv list.simps(15) rotate1.simps(2) set_rotate1 zero_neq_numeral)

context buddy_heap
begin

text \<open>Regions of different users do not overlap.\<close>

lemma user_regions_disjoint:
  assumes "heap_inv ok live F L U h" "(k, a, n) \<in> user_regions L U" "(k', a', n') \<in> user_regions L U"
    and "(k, a, n) \<noteq> (k', a', n')"
  shows "rng a n \<inter> rng a' n' = {}"
proof -
  let ?b = "buddy_allocator h"
  have ok: "ok ?b" "U \<subseteq> live ?b" and bs: "blocks_ok (live ?b - U) (hblocks F L)"
    using assms(1) by (auto simp: heap_inv_def)
  have mixed: "rng a n \<inter> rng a' n' = {}" if "k \<noteq> BuddyAllocator" "a \<in> L k" "n = unat (blk_size k)" "(a', n') \<in> U" for k a n a' n'
  proof -
    have "(k, a) \<in> hblocks F L" using that by (simp add: hblocks_def)
    then obtain p m where "(p, m) \<in> live ?b - U" "block_rng (k, a) \<subseteq> rng p m" using bs unfolding blocks_ok_def by blast
    then show ?thesis using live_disjoint [OF ok(1), of p m a' n'] that ok(2) by (auto simp: block_rng_def)
  qed
  show ?thesis
  proof (cases "k = BuddyAllocator"; cases "k' = BuddyAllocator")
    assume "k = BuddyAllocator" "k' = BuddyAllocator"
    then show ?thesis using assms(2-4) live_disjoint [OF ok(1), of a n a' n'] ok(2) by (auto simp: user_regions_def)
  next
    assume "k = BuddyAllocator" "k' \<noteq> BuddyAllocator"
    then show ?thesis using assms(2,3) mixed [of k' a' n' a n] by (auto simp: user_regions_def)
  next
    assume "k \<noteq> BuddyAllocator" "k' = BuddyAllocator"
    then show ?thesis using assms(2,3) mixed [of k a n a' n'] by (auto simp: user_regions_def)
  next
    assume k: "k \<noteq> BuddyAllocator" "k' \<noteq> BuddyAllocator"
    then have "(k, a) \<in> hblocks F L" "(k', a') \<in> hblocks F L" "n = unat (blk_size k)" "n' = unat (blk_size k')"
      using assms(2,3) by (auto simp: user_regions_def hblocks_def)
    then show ?thesis using bs assms(4) unfolding blocks_ok_def block_rng_def by (metis fst_conv snd_conv prod.inject)
  qed
qed

lemma user_region_pool:
  assumes "heap_inv ok live F L U h" "(k, a, n) \<in> user_regions L U"
  shows "rng a n \<subseteq> pool (buddy_allocator h)"
proof (cases "k = BuddyAllocator")
  case True
  then have "(a, n) \<in> live (buddy_allocator h)" using assms by (auto simp: user_regions_def heap_inv_def)
  then show ?thesis using live_pool assms(1) by (auto simp: heap_inv_def)
next
  case False
  then have "(k, a) \<in> hblocks F L" "n = unat (blk_size k)" using assms(2) by (auto simp: user_regions_def hblocks_def)
  then obtain p m where "(p, m) \<in> live (buddy_allocator h)" "rng a n \<subseteq> rng p m"
    using assms(1) unfolding heap_inv_def blocks_ok_def block_rng_def by fastforce
  then show ?thesis using live_pool [of "buddy_allocator h" p m] assms(1) by (auto simp: heap_inv_def)
qed

lemma slab_allocate_pop:
  assumes "slab_ok m s (x # xs) ls"
  shows "\<exists>s'. slab_allocate H BLK (s, m, b) = Some (Ret (Ok x, s', m(x := None), b)) \<and> slab_ok (m(x := None)) s' xs (insert x ls)"
proof -
  have f: "flist_of m (free_block_list s) (x # xs)" using assms by (simp add: slab_ok_def)
  obtain l' where l: "fbl_pop (free_block_list s, m) = (Some x, l', m(x := None))" "flist_of (m(x := None)) l' xs"
    using pop_flist [OF f] by metis
  have "x \<notin> set xs" using f by (simp add: flist_of_def)
  then have "slab_ok (m(x := None)) (s\<lparr>free_block_list := l'\<rparr>) xs (insert x ls)"
    using assms l(2) by (auto simp: slab_ok_def)
  then show ?thesis using l(1) by (simp add: slab_allocate_def)
qed

lemma slab_allocate_grow:
  assumes s: "slab_ok m s [] ls" and k: "k \<noteq> BuddyAllocator"
    and al: "bh_alloc H \<lparr>lay_size = SET_SIZE * blk_size k, lay_align = 4096\<rparr> b = (Some p, b')"
    and p: "unat p + 64 * unat (blk_size k) \<le> 2 ^ 64" "4096 dvd unat p"
    and disj: "ls \<inter> set (chunk_blocks k p) = {}" and card: "card ls + 64 < 2 ^ 64"
  shows "\<exists>s' m'. slab_allocate H (blk_size k) (s, m, b) = Some (Ret (Ok (last (chunk_blocks k p)), s', m', b')) \<and>
    slab_ok m' s' (rev (butlast (chunk_blocks k p))) (insert (last (chunk_blocks k p)) ls) \<and>
    (\<forall>a. a \<notin> set (chunk_blocks k p) \<longrightarrow> m' a = m a)"
proof -
  let ?ys = "chunk_blocks k p" and ?z = "last (chunk_blocks k p)"
  note ys = chunk_blocks_ok [OF k p]
  have rev: "rev ?ys = ?z # rev (butlast ?ys)" by (simp add: chunk_blocks_def)
  have f: "flist_of m (free_block_list s) []" using s by (simp add: slab_ok_def)
  have cb: "?ys = map (\<lambda>i. p + of_nat i * blk_size k) [0..<unat (64 :: usize)]" by (simp add: chunk_blocks_def)
  obtain s1 m1 where 1: "slab_grow (blk_size k) p (SET_SIZE * blk_size k) (s, m) = Some (s1, m1)"
    "flist_of m1 (free_block_list s1) (?z # rev (butlast ?ys))" "total_blocks s1 = total_blocks s + 64"
    "\<forall>a. a \<notin> set ?ys \<longrightarrow> m1 a = m a"
    using slab_grow_blocks [OF f chunk_div [OF k, symmetric] cb] ys(1) unfolding append_Nil2 rev by blast
  obtain l where l: "fbl_pop (free_block_list s1, m1) = (Some ?z, l, m1(?z := None))" "flist_of (m1(?z := None)) l (rev (butlast ?ys))"
    using pop_flist [OF 1(2)] by metis
  have "slab_allocate H (blk_size k) (s, m, b) = Some (Ret (Ok ?z, s1\<lparr>free_block_list := l\<rparr>, m1(?z := None), b'))"
    using 1(1) al l(1) pop_empty [OF f] by (simp add: slab_allocate_def)
  moreover have "unat (total_blocks s1) = card ls + 64"
    unfolding 1(3) using s card by (subst unat_add_nowrap) (auto simp: slab_ok_def)
  moreover have "?z \<in> set ?ys" "?z \<notin> set (butlast ?ys)" "length (butlast ?ys) = 63" "set (butlast ?ys) \<subseteq> set ?ys"
    using 1(2) chunk_blocks_set [of k p] by (auto simp: length_chunk_blocks flist_of_def)
  moreover have "finite ls" using s by (simp add: slab_ok_def)
  moreover from calculation have "?z \<notin> ls" "set (butlast ?ys) \<inter> ls = {}" using disj by blast+
  ultimately have "slab_ok (m1(?z := None)) (s1\<lparr>free_block_list := l\<rparr>) (rev (butlast ?ys)) (insert ?z ls)"
    using l(2) by (auto simp: slab_ok_def)
  moreover have "\<forall>a. a \<notin> set ?ys \<longrightarrow> (m1(?z := None)) a = m a" using 1(4) \<open>?z \<in> set ?ys\<close> by auto
  ultimately show ?thesis
    using \<open>slab_allocate H (blk_size k) (s, m, b) = Some (Ret (Ok ?z, s1\<lparr>free_block_list := l\<rparr>, m1(?z := None), b'))\<close> by blast
qed

lemma slab_allocate_inv:
  assumes inv: "heap_inv ok live F L U h" and k: "k \<noteq> BuddyAllocator"
  shows "\<exists>r s m b. slab_allocate H (blk_size k) (slab h k, blocks h, buddy_allocator h) = Some (Ret (r, s, m, b)) \<and>
    pool b = pool (buddy_allocator h) \<and>
    (case r of
       Err _ \<Rightarrow> heap_inv ok live F L U (h\<lparr>slab := (slab h)(k := s), blocks := m, buddy_allocator := b\<rparr>)
     | Ok p \<Rightarrow> p \<notin> L k \<and> unat (blk_size k) dvd unat p \<and>
         (\<exists>F'. heap_inv ok live F' (L(k := insert p (L k))) U (h\<lparr>slab := (slab h)(k := s), blocks := m, buddy_allocator := b\<rparr>)))"
proof (cases "F k")
  case (Cons x xs)
  let ?b = "buddy_allocator h"
  have s: "slab_ok (blocks h) (slab h k) (x # xs) (L k)" and bs: "blocks_ok (live ?b - U) (hblocks F L)"
    using inv k Cons by (auto simp: heap_inv_def)
  then obtain s' where s': "slab_allocate H (blk_size k) (slab h k, blocks h, ?b) = Some (Ret (Ok x, s', (blocks h)(x := None), ?b))"
    "slab_ok ((blocks h)(x := None)) s' xs (insert x (L k))" using slab_allocate_pop by blast
  have same: "hblocks (F(k := xs)) (L(k := insert x (L k))) = hblocks F L" using Cons k by (auto simp: hblocks_def split: if_splits)
  have "heap_inv ok live (F(k := xs)) (L(k := insert x (L k))) U (h\<lparr>slab := (slab h)(k := s'), blocks := (blocks h)(x := None), buddy_allocator := ?b\<rparr>)"
    using bs inv by (intro heap_inv_update [OF inv k _ _ s'(2)]) (auto simp: same heap_inv_def)
  moreover have "(k, x) \<in> hblocks F L" using Cons k by (simp add: hblocks_def)
  then have "unat (blk_size k) dvd unat x" using bs by (auto simp: blocks_ok_def)
  moreover have "x \<notin> L k" using s by (auto simp: slab_ok_def)
  ultimately show ?thesis using s' by auto
next
  case Nil
  let ?b = "buddy_allocator h" and ?l = "\<lparr>lay_size = SET_SIZE * blk_size k, lay_align = 4096\<rparr>"
  have s: "slab_ok (blocks h) (slab h k) [] (L k)" and bs: "blocks_ok (live ?b - U) (hblocks F L)"
    and ok: "ok ?b" "U \<subseteq> live ?b"
    using inv k Nil by (auto simp: heap_inv_def)
  have pop: "fbl_pop (free_block_list (slab h k), blocks h) = (None, free_block_list (slab h k), blocks h)"
    using s by (intro pop_empty) (simp add: slab_ok_def)
  obtain r b where al: "bh_alloc H ?l ?b = (r, b)" by fastforce
  show ?thesis
  proof (cases r)
    case None
    have "0 < unat (SET_SIZE * blk_size k)" using blk_size_bounds [OF k] unat_chunk [OF k] by simp
    then have "ok b \<and> pool b = pool ?b \<and> live b = live ?b"
      using buddy_full [OF ok(1), of ?l b] al None power_of_two_page by (simp add: word_less_nat_alt)
    moreover from this have "heap_inv ok live F L U (h\<lparr>slab := (slab h)(k := slab h k), blocks := blocks h, buddy_allocator := b\<rparr>)"
      using inv by (simp add: heap_inv_def)
    ultimately show ?thesis using al None pop by (simp add: slab_allocate_def)
  next
    case (Some p)
    then have al: "bh_alloc H ?l ?b = (Some p, b)" using al by simp
    note g = blocks_ok_grow [OF bs ok k al]
    let ?ys = "chunk_blocks k p"
    have disj: "L k \<inter> set ?ys = {}" using g(5) k by (auto simp: hblocks_def)
    have fin: "finite (L k)" using s by (simp add: slab_ok_def)
    have new: "hblocks (F(k := rev (butlast ?ys))) (L(k := insert (last ?ys) (L k))) = hblocks F L \<union> Pair k ` set ?ys"
      using k Nil by (auto simp: hblocks_def chunk_blocks_set [symmetric] split: if_splits)
    have "card (L k \<union> set ?ys) * unat (blk_size k) \<le> 2 ^ 64"
      using g(1) fin k live_bound by (intro blocks_count [of "live b - U" "hblocks F L \<union> Pair k ` set ?ys"]) (auto simp: hblocks_def)
    moreover have "card (L k \<union> set ?ys) = card (L k) + 64"
      using card_Un_disjoint [OF fin _ disj] chunk_blocks_ok(1) [OF k g(2,3)] by (simp add: distinct_card length_chunk_blocks)
    moreover have "card (L k \<union> set ?ys) * 64 \<le> card (L k \<union> set ?ys) * unat (blk_size k)"
      using blk_size_bounds [OF k] by (intro mult_le_mono2) simp
    ultimately have "card (L k) + 64 < 2 ^ 64" by linarith
    then obtain s' m' where s': "slab_allocate H (blk_size k) (slab h k, blocks h, ?b) = Some (Ret (Ok (last ?ys), s', m', b))"
      "slab_ok m' s' (rev (butlast ?ys)) (insert (last ?ys) (L k))" "\<forall>a. a \<notin> set ?ys \<longrightarrow> m' a = blocks h a"
      using slab_allocate_grow [OF s k al g(2,3) disj] by blast
    have "heap_inv ok live (F(k := rev (butlast ?ys))) (L(k := insert (last ?ys) (L k))) U
        (h\<lparr>slab := (slab h)(k := s'), blocks := m', buddy_allocator := b\<rparr>)"
    proof (rule heap_inv_update [OF inv k _ _ s'(2)])
      show "blocks_ok (live b - U) (hblocks (F(k := rev (butlast ?ys))) (L(k := insert (last ?ys) (L k))))"
        using g(1) unfolding new by blast
      show "m' a = blocks h a" if "a \<notin> set (rev (butlast ?ys)) \<union> insert (last ?ys) (L k)" for a
        using that s'(3) chunk_blocks_set [of k p] by auto
    qed (use g(1) in auto)
    moreover have "last ?ys \<in> set ?ys" using chunk_blocks_set [of k p] by blast
    then have "unat (blk_size k) dvd unat (last ?ys)" "last ?ys \<notin> L k"
      using chunk_blocks_ok(2) [OF k g(2,3)] disj by blast+
    ultimately show ?thesis using s'(1) g(4) by auto
  qed
qed

lemma heap_allocate_inv:
  assumes wf: "heap_wf ok live R h" and l: "is_power_of_two (lay_align l)"
  shows "\<exists>r h'. heap_allocate H l h = Some (Ret (r, h')) \<and> pool (buddy_allocator h') = pool (buddy_allocator h) \<and>
    (case r of
       Err _ \<Rightarrow> heap_wf ok live R h'
     | Ok p \<Rightarrow> region_of l p \<notin> R \<and> heap_wf ok live (insert (region_of l p) R) h' \<and>
         (lay_align l \<le> 4096 \<or> 4096 < lay_size l \<longrightarrow> unat (lay_align l) dvd unat p))"
proof -
  obtain F L U where inv: "heap_inv ok live F L U h" and R: "R = user_regions L U" using wf by (auto simp: heap_wf_def)
  let ?k = "layout_to_allocator l"
  show ?thesis
  proof (cases "?k = BuddyAllocator")
    case True
    have ok: "ok (buddy_allocator h)" "U \<subseteq> live (buddy_allocator h)" using inv by (auto simp: heap_inv_def)
    have pos: "0 < lay_size l" using True unfolding layout_buddy by (rule order.strict_trans [rotated]) simp
    obtain r b where al: "bh_alloc H l (buddy_allocator h) = (r, b)" by fastforce
    show ?thesis
    proof (cases r)
      case None
      then have "ok b \<and> pool b = pool (buddy_allocator h) \<and> live b = live (buddy_allocator h)"
        using buddy_full [OF ok(1) pos l] al by simp
      moreover from this have "heap_inv ok live F L U (h\<lparr>buddy_allocator := b\<rparr>)" using inv by (simp add: heap_inv_def)
      ultimately show ?thesis using al None True R by (auto simp: heap_allocate_def Let_def heap_wf_def)
    next
      case (Some p)
      let ?x = "(p, unat (lay_size l))"
      have b: "ok b" "pool b = pool (buddy_allocator h)" "?x \<notin> live (buddy_allocator h)"
        "live b = insert ?x (live (buddy_allocator h))" "unat (lay_align l) dvd unat p"
        using buddy_alloc [OF ok(1) pos l, of p b] al Some by auto
      have "live b - insert ?x U = live (buddy_allocator h) - U" using b(3,4) ok(2) by auto
      then have "heap_inv ok live F L (insert ?x U) (h\<lparr>buddy_allocator := b\<rparr>)"
        using inv b ok(2) by (auto simp: heap_inv_def)
      moreover have "region_of l p = (BuddyAllocator, ?x)" using True by (simp add: region_of_def usable_buddy)
      moreover from this have "region_of l p \<notin> R" using R b(3) ok(2) by (auto simp: user_regions_def)
      moreover have "user_regions L (insert ?x U) = insert (BuddyAllocator, ?x) R" by (auto simp: R user_regions_def)
      ultimately show ?thesis using al Some True b by (auto simp: heap_allocate_def Let_def heap_wf_def)
    qed
  next
    case False
    obtain r s m b where sl: "slab_allocate H (blk_size ?k) (slab h ?k, blocks h, buddy_allocator h) = Some (Ret (r, s, m, b))"
      and post: "pool b = pool (buddy_allocator h)"
      "case r of
         Err _ \<Rightarrow> heap_inv ok live F L U (h\<lparr>slab := (slab h)(?k := s), blocks := m, buddy_allocator := b\<rparr>)
       | Ok p \<Rightarrow> p \<notin> L ?k \<and> unat (blk_size ?k) dvd unat p \<and>
           (\<exists>F'. heap_inv ok live F' (L(?k := insert p (L ?k))) U (h\<lparr>slab := (slab h)(?k := s), blocks := m, buddy_allocator := b\<rparr>))"
      using slab_allocate_inv [OF inv False] by blast
    let ?h = "h\<lparr>slab := (slab h)(?k := s), blocks := m, buddy_allocator := b\<rparr>"
    have run: "heap_allocate H l h = Some (Ret (r, ?h))" using sl False by (simp add: heap_allocate_def Let_def)
    show ?thesis
    proof (cases r)
      case (Inl e)
      then have "heap_wf ok live R ?h" using post(2) R by (auto simp: heap_wf_def)
      then show ?thesis using run post(1) Inl by simp
    next
      case (Inr p)
      have "user_regions (L(?k := insert p (L ?k))) U = insert (region_of l p) R"
        using False by (auto simp: R user_regions_def region_of_def usable_slab split: if_splits)
      then have "heap_wf ok live (insert (region_of l p) R) ?h" using post(2) Inr unfolding heap_wf_def by auto
      moreover have "region_of l p \<notin> R" using post(2) Inr False by (auto simp: R user_regions_def region_of_def)
      moreover have "unat (lay_align l) dvd unat p" if "lay_align l \<le> 4096 \<or> 4096 < lay_size l"
      proof -
        have "lay_align l \<le> blk_size ?k" using that False layout_align layout_buddy by blast
        then show ?thesis using power_of_two_dvd [OF l _ False] post(2) Inr dvd_trans by auto
      qed
      ultimately show ?thesis using run post(1) Inr by simp
    qed
  qed
qed

lemma heap_deallocate_inv:
  assumes wf: "heap_wf ok live R h" and p: "region_of l p \<in> R"
  shows "\<exists>h'. heap_deallocate H p l h = Ret h' \<and> heap_wf ok live (R - {region_of l p}) h' \<and>
    pool (buddy_allocator h') = pool (buddy_allocator h) \<and>
    (lay_size l \<le> 4096 \<longrightarrow> (\<exists>h''. heap_allocate H l h' = Some (Ret (Ok p, h''))))"
proof -
  obtain F L U where inv: "heap_inv ok live F L U h" and R: "R = user_regions L U" using wf by (auto simp: heap_wf_def)
  let ?k = "layout_to_allocator l" and ?b = "buddy_allocator h"
  have ok: "ok ?b" "U \<subseteq> live ?b" and bs: "blocks_ok (live ?b - U) (hblocks F L)" using inv by (auto simp: heap_inv_def)
  show ?thesis
  proof (cases "?k = BuddyAllocator")
    case True
    let ?x = "(p, unat (lay_size l))"
    have x: "region_of l p = (BuddyAllocator, ?x)" using True by (simp add: region_of_def usable_buddy)
    then have xU: "?x \<in> U" using p by (auto simp: R user_regions_def)
    then have "?x \<in> live ?b" using ok(2) by blast
    from buddy_dealloc [OF ok(1) this]
    have b: "ok (bh_dealloc H p l ?b)" "pool (bh_dealloc H p l ?b) = pool ?b" "live (bh_dealloc H p l ?b) = live ?b - {?x}"
      by auto
    have "p \<noteq> 0" using live_bound [OF ok(1) \<open>?x \<in> live ?b\<close>] by auto
    moreover have "live ?b - {?x} - (U - {?x}) = live ?b - U" using xU by auto
    then have "heap_inv ok live F L (U - {?x}) (h\<lparr>buddy_allocator := bh_dealloc H p l ?b\<rparr>)"
      using inv b ok(2) by (auto simp: heap_inv_def)
    moreover have "user_regions L (U - {?x}) = R - {(BuddyAllocator, ?x)}" by (auto simp: R user_regions_def)
    moreover have "\<not> lay_size l \<le> 4096" using True layout_buddy by (simp add: not_le)
    ultimately show ?thesis using True b x by (auto simp: heap_deallocate_def Let_def heap_wf_def)
  next
    case False
    let ?s = "slab h ?k"
    have pL: "p \<in> L ?k" using p False by (auto simp: R user_regions_def region_of_def)
    have s: "slab_ok (blocks h) ?s (F ?k) (L ?k)" using inv False by (simp add: heap_inv_def)
    then have f: "flist_of (blocks h) (free_block_list ?s) (F ?k)" and pF: "p \<notin> set (F ?k)"
      using pL by (auto simp: slab_ok_def)
    obtain fl where fl: "fbl_push p (free_block_list ?s, blocks h) = (fl, (blocks h)(p := fbl_head (free_block_list ?s)))"
      "flist_of ((blocks h)(p := fbl_head (free_block_list ?s))) fl (p # F ?k)"
      using push_flist [OF f pF] by blast
    let ?m = "(blocks h)(p := fbl_head (free_block_list ?s))" and ?s' = "?s\<lparr>free_block_list := fl\<rparr>"
    have s': "slab_ok ?m ?s' (p # F ?k) (L ?k - {p})"
      using s fl(2) pL pF card_Suc_Diff1 [OF _ pL] by (auto simp: slab_ok_def)
    have same: "hblocks (F(?k := p # F ?k)) (L(?k := L ?k - {p})) = hblocks F L"
      using pL by (auto simp: hblocks_def split: if_splits)
    have "heap_inv ok live (F(?k := p # F ?k)) (L(?k := L ?k - {p})) U
        (h\<lparr>slab := (slab h)(?k := ?s'), blocks := ?m, buddy_allocator := ?b\<rparr>)"
      using bs ok by (intro heap_inv_update [OF inv False _ _ s']) (auto simp: same)
    moreover have "user_regions (L(?k := L ?k - {p})) U = R - {region_of l p}"
      using False by (auto simp: R user_regions_def region_of_def usable_slab split: if_splits)
    ultimately have "heap_wf ok live (R - {region_of l p}) (h\<lparr>slab := (slab h)(?k := ?s'), blocks := ?m\<rparr>)"
      unfolding heap_wf_def by auto
    moreover have "heap_deallocate H p l h = Ret (h\<lparr>slab := (slab h)(?k := ?s'), blocks := ?m\<rparr>)"
      using fl(1) False by (simp add: heap_deallocate_def slab_deallocate_def Let_def)
    moreover have "\<exists>h''. heap_allocate H l (h\<lparr>slab := (slab h)(?k := ?s'), blocks := ?m\<rparr>) = Some (Ret (Ok p, h''))"
      using slab_allocate_pop [OF s', of "blk_size ?k" ?b] False by (auto simp: heap_allocate_def Let_def)
    ultimately show ?thesis by auto
  qed
qed

end

context buddy_heap
begin

lemma heap_new_wf:
  assumes "4096 dvd unat start" "0 < start" "MIN_HEAP_SIZE \<le> sz" "sz mod MIN_HEAP_SIZE = 0" "unat start + unat sz < 2 ^ 64"
  shows "\<exists>h. heap_new H start sz m = Ret h \<and> heap_wf ok live {} h \<and> pool (buddy_allocator h) = rng start (unat sz)"
proof -
  have "unat sz mod unat MIN_HEAP_SIZE = 0" using assms(4) by (metis unat_mod unat_0)
  then have "(0x8000 :: nat) dvd unat sz" by (simp add: MIN_HEAP_SIZE_def mod_eq_0_iff_dvd)
  then have "4096 dvd unat sz" by (rule dvd_trans [rotated]) simp
  moreover have "0 < sz" using assms(3) by (rule less_le_trans [rotated]) (simp add: MIN_HEAP_SIZE_def)
  moreover have "0 < unat start" using assms(2) by (simp add: word_less_nat_alt)
  ultimately have b: "ok (bh_init H start sz (bh_new H))" "live (bh_init H start sz (bh_new H)) = {}"
    "pool (bh_init H start sz (bh_new H)) = rng start (unat sz)"
    using buddy_init [of "bh_new H" sz start] buddy_new assms(1,5) by (auto simp: rng_def)
  let ?h = "\<lparr>slab = (\<lambda>k. fst (slab_new (blk_size k) 0 0 m)), buddy_allocator = bh_init H start sz (bh_new H), blocks = m\<rparr>"
  have al: "start mod 4096 = 0" using assms(1)
    by (intro word_unat_eq_iff [THEN iffD2]) (simp add: unat_mod dvd_eq_mod_eq_0)
  have "slab_ok m (fst (slab_new (blk_size k) 0 0 m)) [] {}" for k
    by (simp add: slab_ok_def slab_new_def fbl_new_def fbl_new_empty_def flist_of_def Let_def)
  then have "heap_inv ok live (\<lambda>_. []) (\<lambda>_. {}) {} ?h" using b by (simp add: heap_inv_def blocks_ok_def hblocks_def)
  moreover have "user_regions (\<lambda>_. {}) {} = {}" by (simp add: user_regions_def)
  ultimately have "heap_wf ok live {} ?h" by (auto simp: heap_wf_def)
  then show ?thesis using al assms(3,4) b(3) by (simp add: heap_new_def)
qed

lemma heap_add_memory_wf:
  assumes wf: "heap_wf ok live R h" and "4096 dvd unat start" "4096 dvd unat sz" "0 < sz" "unat start + unat sz < 2 ^ 64"
    and "rng start (unat sz) \<inter> insert 0 (pool (buddy_allocator h)) = {}"
  shows "\<exists>h'. heap_add_memory H start sz h = Ret h' \<and> heap_wf ok live R h' \<and>
    pool (buddy_allocator h') = pool (buddy_allocator h) \<union> rng start (unat sz)"
proof -
  obtain F L U where inv: "heap_inv ok live F L U h" and R: "R = user_regions L U" using wf by (auto simp: heap_wf_def)
  have u: "unat (start + sz) = unat start + unat sz" using assms(5) by (intro unat_add_nowrap) simp
  have al: "start mod 4096 = 0" "sz mod 4096 = 0" using assms(2,3)
    by (intro word_unat_eq_iff [THEN iffD2]; simp add: unat_mod dvd_eq_mod_eq_0)+
  have "ok (buddy_allocator h)" using inv by (simp add: heap_inv_def)
  then have b: "ok (bh_add_to_heap H start (start + sz) (buddy_allocator h))"
    "live (bh_add_to_heap H start (start + sz) (buddy_allocator h)) = live (buddy_allocator h)"
    "pool (bh_add_to_heap H start (start + sz) (buddy_allocator h)) = pool (buddy_allocator h) \<union> rng start (unat sz)"
    using buddy_add [of "buddy_allocator h" start "start + sz"] assms(2-6) by (auto simp: u rng_def word_less_nat_alt)
  have "heap_inv ok live F L U (h\<lparr>buddy_allocator := bh_add_to_heap H start (start + sz) (buddy_allocator h)\<rparr>)"
    using inv b by (simp add: heap_inv_def)
  then show ?thesis using al b(3) R by (auto simp: heap_add_memory_def heap_wf_def)
qed

end

section \<open>A buddy allocator to evaluate\<close>

text \<open>
  Regions of memory and the blocks that are out, as lists; a request gets the first suitable address at the start
  of a region or behind a block.
\<close>

record FirstFit =
  ff_regions :: "(nat \<times> nat) list"
  ff_live :: "(usize \<times> nat) list"

definition ff_fits :: "nat \<Rightarrow> nat \<Rightarrow> FirstFit \<Rightarrow> nat \<Rightarrow> bool" where
  "ff_fits sz al h c \<longleftrightarrow> c mod al = 0 \<and> list_ex (\<lambda>(lo, hi). lo \<le> c \<and> c + sz \<le> hi) (ff_regions h) \<and>
     list_all (\<lambda>(p, n). c + sz \<le> unat p \<or> unat p + n \<le> c) (ff_live h)"

definition first_fit :: "FirstFit BuddyHeap" where
  "first_fit =
     \<lparr>bh_new = \<lparr>ff_regions = [], ff_live = []\<rparr>,
      bh_init = (\<lambda>start sz h. h\<lparr>ff_regions := (unat start, unat start + unat sz) # ff_regions h\<rparr>),
      bh_add_to_heap = (\<lambda>start stop h. h\<lparr>ff_regions := (unat start, unat stop) # ff_regions h\<rparr>),
      bh_alloc = (\<lambda>l h.
        let sz = unat (lay_size l); al = unat (lay_align l);
            cs = map (\<lambda>c. (c + al - 1) div al * al) (map fst (ff_regions h) @ map (\<lambda>(p, n). unat p + n) (ff_live h))
        in case filter (ff_fits sz al h) cs of
             [] \<Rightarrow> (None, h)
           | c # _ \<Rightarrow> (Some (of_nat c), h\<lparr>ff_live := (of_nat c, sz) # ff_live h\<rparr>)),
      bh_dealloc = (\<lambda>p l h. h\<lparr>ff_live := filter (\<lambda>x. x \<noteq> (p, unat (lay_size l))) (ff_live h)\<rparr>),
      bh_stats_total_bytes = (\<lambda>h. of_nat (sum_list (map (\<lambda>(lo, hi). hi - lo) (ff_regions h)))),
      bh_stats_alloc_actual = (\<lambda>h. of_nat (sum_list (map snd (ff_live h))))\<rparr>"

definition ff_pool :: "FirstFit \<Rightarrow> nat set" where
  "ff_pool h = (\<Union>(lo, hi) \<in> set (ff_regions h). {lo..<hi})"

definition ff_ok :: "FirstFit \<Rightarrow> bool" where
  "ff_ok h \<longleftrightarrow> ff_pool h \<subseteq> {0<..<2 ^ 64} \<and> (\<forall>x \<in> set (ff_live h). 0 < snd x \<and> rng (fst x) (snd x) \<subseteq> ff_pool h) \<and>
     (\<forall>x \<in> set (ff_live h). \<forall>y \<in> set (ff_live h). x \<noteq> y \<longrightarrow> rng (fst x) (snd x) \<inter> rng (fst y) (snd y) = {})"

lemma filter_first:
  "(case filter P xs of [] \<Rightarrow> a | c # _ \<Rightarrow> f c) = y \<Longrightarrow> y = a \<or> (\<exists>c. P c \<and> y = f c)"
  by (cases "filter P xs") (auto dest: filter_eq_ConsD)

lemma ff_alloc_ok:
  assumes ok: "ff_ok h" and sz: "0 < lay_size l" and al: "bh_alloc first_fit l h = (Some p, h')"
  shows "ff_ok h' \<and> ff_pool h' = ff_pool h \<and> (p, unat (lay_size l)) \<notin> set (ff_live h)
    \<and> set (ff_live h') = insert (p, unat (lay_size l)) (set (ff_live h)) \<and> unat (lay_align l) dvd unat p"
proof -
  let ?n = "unat (lay_size l)"
  obtain c cs where f: "ff_fits ?n (unat (lay_align l)) h c" and h': "p = of_nat c" "h' = h\<lparr>ff_live := (p, ?n) # ff_live h\<rparr>"
    using al by (simp add: first_fit_def Let_def del: filter_append map_append) (drule filter_first, auto)
  have n: "0 < ?n" using sz by (simp add: word_less_nat_alt)
  obtain lo hi where r: "(lo, hi) \<in> set (ff_regions h)" "lo \<le> c" "c + ?n \<le> hi" using f by (auto simp: ff_fits_def list_ex_iff)
  have "{lo..<hi} \<subseteq> ff_pool h" using r(1) by (auto simp: ff_pool_def)
  moreover have "{c..<c + ?n} \<subseteq> {lo..<hi}" using r(2,3) by auto
  ultimately have sub: "{c..<c + ?n} \<subseteq> ff_pool h" by blast
  moreover have "c \<in> {c..<c + ?n}" using n by simp
  moreover have "ff_pool h \<subseteq> {0<..<2 ^ 64}" using ok unfolding ff_ok_def by blast
  ultimately have "c \<in> {0<..<2 ^ 64}" by blast
  then have "c < 2 ^ 64" by simp
  then have u: "unat p = c" using h'(1) by (simp add: unat_of_nat_usize)
  have apart: "rng p ?n \<inter> rng q k = {}" if "(q, k) \<in> set (ff_live h)" for q k
    using f that by (auto simp: ff_fits_def list_all_iff rng_def u)
  have new: "(p, ?n) \<notin> set (ff_live h)" using apart [of p ?n] n by (auto simp: rng_def)
  have al_ok: "unat (lay_align l) dvd unat p" using f by (simp add: ff_fits_def u mod_eq_0_iff_dvd)
  have pool: "ff_pool h' = ff_pool h" using h'(2) by (simp add: ff_pool_def)
  have "rng p ?n \<subseteq> ff_pool h" using sub u by (simp add: rng_def)
  moreover have "rng p ?n \<inter> rng (fst y) (snd y) = {}" "rng (fst y) (snd y) \<inter> rng p ?n = {}" if "y \<in> set (ff_live h)" for y
    using apart [of "fst y" "snd y"] that by auto
  ultimately have "ff_ok h'" using ok n h'(2) unfolding ff_ok_def pool by simp
  with new al_ok show ?thesis using h'(2) pool by simp
qed

interpretation ff: buddy_heap first_fit ff_ok "\<lambda>h. set (ff_live h)" ff_pool
proof
  fix h :: FirstFit and p q start stop sz :: usize and n k :: nat and l :: Layout and h'
  show "ff_ok (bh_new first_fit) \<and> set (ff_live (bh_new first_fit)) = {} \<and> ff_pool (bh_new first_fit) = {}"
    by (simp add: first_fit_def ff_ok_def ff_pool_def)
  assume ok: "ff_ok h"
  show "ff_pool h \<subseteq> {0<..<2 ^ 64}" using ok by (simp add: ff_ok_def)
  show "0 < n \<and> rng p n \<subseteq> ff_pool h" if "(p, n) \<in> set (ff_live h)" using ok that unfolding ff_ok_def by (metis fst_conv snd_conv)
  show "rng p n \<inter> rng q k = {}" if "(p, n) \<in> set (ff_live h)" "(q, k) \<in> set (ff_live h)" "(p, n) \<noteq> (q, k)"
    using ok that unfolding ff_ok_def by (metis fst_conv snd_conv)
  have add: "ff_ok h' \<and> set (ff_live h') = set (ff_live h) \<and> ff_pool h' = ff_pool h \<union> {lo..<hi}"
    if "h' = h\<lparr>ff_regions := (lo, hi) # ff_regions h\<rparr>" "hi \<le> 2 ^ 64" "{lo..<hi} \<inter> insert 0 (ff_pool h) = {}" for lo hi h'
  proof -
    have p: "ff_pool h' = ff_pool h \<union> {lo..<hi}" using that(1) by (auto simp: ff_pool_def)
    moreover have "{lo..<hi} \<subseteq> {0<..<2 ^ 64}" using that(2,3) by (auto intro: Suc_leI simp: disjoint_iff)
    ultimately show ?thesis using ok that(1) unfolding ff_ok_def p by auto
  qed
  show "ff_ok (bh_init first_fit start sz h) \<and> set (ff_live (bh_init first_fit start sz h)) = set (ff_live h)
      \<and> ff_pool (bh_init first_fit start sz h) = ff_pool h \<union> rng start (unat sz)"
    if "unat start + unat sz < 2 ^ 64" "rng start (unat sz) \<inter> insert 0 (ff_pool h) = {}"
    using add [of "bh_init first_fit start sz h" "unat start" "unat start + unat sz"] that by (simp add: first_fit_def rng_def)
  show "ff_ok (bh_add_to_heap first_fit start stop h) \<and> set (ff_live (bh_add_to_heap first_fit start stop h)) = set (ff_live h)
      \<and> ff_pool (bh_add_to_heap first_fit start stop h) = ff_pool h \<union> {unat start..<unat stop}"
    if "{unat start..<unat stop} \<inter> insert 0 (ff_pool h) = {}"
    using add [of "bh_add_to_heap first_fit start stop h" "unat start" "unat stop"] that unat_lt [of stop]
    by (simp add: first_fit_def)
  show "ff_ok h' \<and> ff_pool h' = ff_pool h \<and> (p, unat (lay_size l)) \<notin> set (ff_live h)
      \<and> set (ff_live h') = insert (p, unat (lay_size l)) (set (ff_live h)) \<and> unat (lay_align l) dvd unat p"
    if "0 < lay_size l" "bh_alloc first_fit l h = (Some p, h')"
    using ff_alloc_ok [OF ok that] .
  show "ff_ok h' \<and> ff_pool h' = ff_pool h \<and> set (ff_live h') = set (ff_live h)"
    if "bh_alloc first_fit l h = (None, h')"
    using that ok by (simp add: first_fit_def Let_def del: filter_append map_append) (drule filter_first, auto)
  show "ff_ok (bh_dealloc first_fit p l h) \<and> ff_pool (bh_dealloc first_fit p l h) = ff_pool h
      \<and> set (ff_live (bh_dealloc first_fit p l h)) = set (ff_live h) - {(p, unat (lay_size l))}"
  proof -
    let ?h = "bh_dealloc first_fit p l h"
    have "ff_pool ?h = ff_pool h" "set (ff_live ?h) = set (ff_live h) - {(p, unat (lay_size l))}"
      by (auto simp: first_fit_def ff_pool_def)
    then show ?thesis using ok unfolding ff_ok_def by blast
  qed
qed

section \<open>Properties\<close>

text \<open>
  C25: An allocation from the heap always returns without panicking. If it succeeds, the block holds at least the
  requested size, lies within the memory of the heap, overlaps no block that is handed out, and is aligned as
  requested (for requests of at most 4096 bytes only if the alignment is at most 4096); the heap stays well
  formed. If it fails, nothing that is handed out changes.
\<close>

theorem heap_allocate_safe:
  assumes "buddy_heap H ok live pool" "heap_wf ok live R h" "from_size_align sz align = Some l"
  shows "\<exists>r h'. heap_allocate H l h = Some (Ret (r, h')) \<and>
    (case r of
       Err _ \<Rightarrow> heap_wf ok live R h'
     | Ok p \<Rightarrow> heap_wf ok live (insert (region_of l p) R) h' \<and> unat sz \<le> usable l \<and>
         rng p (usable l) \<subseteq> pool (buddy_allocator h) \<and>
         (\<forall>(k, a, n) \<in> R. rng a n \<inter> rng p (usable l) = {}) \<and>
         (align \<le> 4096 \<or> 4096 < sz \<longrightarrow> unat align dvd unat p))"
proof -
  have l: "is_power_of_two (lay_align l)" "lay_align l = align" "lay_size l = sz"
    using assms(3) by (auto simp: from_size_align_def split: if_splits)
  obtain r h' where run: "heap_allocate H l h = Some (Ret (r, h'))" "pool (buddy_allocator h') = pool (buddy_allocator h)"
    and post: "case r of
       Err _ \<Rightarrow> heap_wf ok live R h'
     | Ok p \<Rightarrow> region_of l p \<notin> R \<and> heap_wf ok live (insert (region_of l p) R) h' \<and>
         (lay_align l \<le> 4096 \<or> 4096 < lay_size l \<longrightarrow> unat (lay_align l) dvd unat p)"
    using buddy_heap.heap_allocate_inv [OF assms(1,2) l(1)] by blast
  show ?thesis
  proof (cases r)
    case (Inr p)
    then obtain F L U where inv: "heap_inv ok live F L U h'" "insert (region_of l p) R = user_regions L U"
      and new: "region_of l p \<notin> R" using post by (auto simp: heap_wf_def)
    have p: "(layout_to_allocator l, p, usable l) \<in> user_regions L U" using inv(2) by (auto simp: region_of_def)
    have "rng p (usable l) \<subseteq> pool (buddy_allocator h)"
      using buddy_heap.user_region_pool [OF assms(1) inv(1) p] run(2) by simp
    moreover have "\<forall>(k, a, n) \<in> R. rng a n \<inter> rng p (usable l) = {}"
      using buddy_heap.user_regions_disjoint [OF assms(1) inv(1) _ p] inv(2) new
      by (fastforce simp: region_of_def)
    moreover have "unat sz \<le> usable l"
      using layout_fits [of l] unfolding l(3) usable_def by (simp add: word_le_nat_alt)
    ultimately show ?thesis using run(1) post Inr l by simp
  qed (use run(1) post in auto)
qed

text \<open>A heap of 32 KB, from which a block of 100 bytes is taken.\<close>

definition demo_layout :: Layout where "demo_layout = \<lparr>lay_size = 100, lay_align = 8\<rparr>"

definition demo_heap :: "FirstFit Heap" where
  "demo_heap = \<lparr>slab = (\<lambda>_. \<lparr>free_block_list = \<lparr>fbl_len = 0, fbl_head = None\<rparr>, total_blocks = 0\<rparr>),
     buddy_allocator = \<lparr>ff_regions = [(0x80000000, 0x80008000)], ff_live = []\<rparr>, blocks = (\<lambda>_. None)\<rparr>"

lemma demo_layout: "from_size_align 100 8 = Some demo_layout"
  using is_power_of_two_numeral_exp [of 3, where 'a = 64] by (simp add: from_size_align_def demo_layout_def)

lemma demo_heap_new: "heap_new first_fit 0x80000000 0x8000 (\<lambda>_. None) = Ret demo_heap"
  by (simp add: heap_new_def MIN_HEAP_SIZE_def slab_new_def fbl_new_def fbl_new_empty_def first_fit_def demo_heap_def Let_def)

lemma demo_heap_wf: "heap_wf ff_ok (\<lambda>h. set (ff_live h)) {} demo_heap"
  using ff.heap_new_wf [of "0x80000000" "0x8000" "\<lambda>_. None"] unfolding demo_heap_new
  by (simp add: MIN_HEAP_SIZE_def)

lemma demo_heap_allocate:
  "\<exists>h. heap_allocate first_fit demo_layout demo_heap = Some (Ret (Ok 0x80001f80, h))
     \<and> heap_wf ff_ok (\<lambda>h. set (ff_live h)) {region_of demo_layout 0x80001f80} h"
proof -
  let ?b = "buddy_allocator demo_heap" and ?k = Slab128Bytes
  have al: "bh_alloc first_fit \<lparr>lay_size = SET_SIZE * blk_size ?k, lay_align = 4096\<rparr> ?b
      = (Some 0x80000000, \<lparr>ff_regions = [(0x80000000, 0x80008000)], ff_live = [(0x80000000, 0x2000)]\<rparr>)"
    by (simp add: first_fit_def demo_heap_def SET_SIZE_def ff_fits_def Let_def)
  have s: "slab_ok (\<lambda>_. None) (slab demo_heap ?k) [] {}"
    by (simp add: slab_ok_def demo_heap_def flist_of_def)
  have last: "last (chunk_blocks ?k 0x80000000) = 0x80001f80"
    by (simp add: chunk_blocks_def last_map)
  have k: "layout_to_allocator demo_layout = ?k" by (simp add: layout_to_allocator_def demo_layout_def)
  obtain h where run: "heap_allocate first_fit demo_layout demo_heap = Some (Ret (Ok 0x80001f80, h))"
    using ff.slab_allocate_grow [OF s _ al] last k by (auto simp: heap_allocate_def Let_def demo_heap_def)
  have "is_power_of_two (lay_align demo_layout)" using is_power_of_two_numeral_exp [of 3, where 'a = 64] by (simp add: demo_layout_def)
  from ff.heap_allocate_inv [OF demo_heap_wf this] run show ?thesis by auto
qed

theorem heap_allocate_safe_witness:
  "\<exists>r h'. heap_allocate first_fit demo_layout demo_heap = Some (Ret (r, h')) \<and>
    (case r of Err _ \<Rightarrow> True | Ok p \<Rightarrow> 100 \<le> usable demo_layout \<and> 8 dvd unat p)"
  using heap_allocate_safe [OF ff.buddy_heap_axioms demo_heap_wf demo_layout]
  by (auto split: sum.splits)



end
