(* ===== verification/AxErrno.thy ===== *)
theory AxErrno
  imports Prelude
begin

text \<open>
  Model of the crate \<open>axerrno\<close> (src/crates/axerrno/src/lib.rs): the error type of the kernel and its translation
  to the error numbers of Linux. \<open>LinuxError\<close> is generated by build.rs from src/crates/axerrno/src/errno.h; an
  error is its number there.
\<close>

datatype AxError =
  AddrInUse | AlreadyExists | BadAddress | BadState | ConnectionRefused | DirectoryNotEmpty | InvalidData
| InvalidInput | Io | IsADirectory | NoMemory | NotADirectory | NotConnected | NotFound | PermissionDenied
| ResourceBusy | StorageFull | UnexpectedEof | Unsupported | WouldBlock | WriteZero

type_synonym 'a AxResult = "(AxError, 'a) result"

datatype LinuxError = LinuxError (code: int)

fun linux_error :: "AxError \<Rightarrow> LinuxError" where
  "linux_error AddrInUse = LinuxError 98"
| "linux_error AlreadyExists = LinuxError 17"
| "linux_error BadAddress = LinuxError 14"
| "linux_error BadState = LinuxError 14"
| "linux_error ConnectionRefused = LinuxError 111"
| "linux_error DirectoryNotEmpty = LinuxError 39"
| "linux_error InvalidInput = LinuxError 22"
| "linux_error InvalidData = LinuxError 22"
| "linux_error Io = LinuxError 5"
| "linux_error IsADirectory = LinuxError 21"
| "linux_error NoMemory = LinuxError 12"
| "linux_error NotADirectory = LinuxError 20"
| "linux_error NotConnected = LinuxError 107"
| "linux_error NotFound = LinuxError 2"
| "linux_error PermissionDenied = LinuxError 13"
| "linux_error ResourceBusy = LinuxError 16"
| "linux_error StorageFull = LinuxError 28"
| "linux_error Unsupported = LinuxError 38"
| "linux_error UnexpectedEof = LinuxError 5"
| "linux_error WriteZero = LinuxError 5"
| "linux_error WouldBlock = LinuxError 11"

text \<open>The text of a Linux error is in the generated file too; it is a parameter.\<close>

fun as_str :: "(LinuxError \<Rightarrow> string) \<Rightarrow> AxError \<Rightarrow> string" where
  "as_str linux_str BadState = ''Bad internal state''"
| "as_str linux_str InvalidData = ''Invalid data''"
| "as_str linux_str Unsupported = ''Operation not supported''"
| "as_str linux_str UnexpectedEof = ''Unexpected end of file''"
| "as_str linux_str WriteZero = ''Write zero''"
| "as_str linux_str e = linux_str (linux_error e)"

text \<open>Every error number is that of an error of errno.h, so the negated number tells errors from results.\<close>

lemma linux_error_range: "1 \<le> code (linux_error e) \<and> code (linux_error e) \<le> 133"
  by (cases e) simp_all

end
