(* ===== verification/GlobalAlloc.thy ===== *)
theory GlobalAlloc
  imports SlabAlloc AxErrno
begin

text \<open>
  Model of the byte allocators of the crate \<open>allocator\<close> (src/crates/allocator/src/slab.rs and buddy.rs) and of the
  global allocator of the kernel with its page type (src/modules/axalloc/src/lib.rs and page.rs): the page
  allocator owns the memory, and the byte allocator gets pages from it when it has no memory left. The locks
  around the two allocators are left out: every operation runs under them.
\<close>

section \<open>Model\<close>

subsection \<open>Byte allocators\<close>

record 's ByteAllocator = "'s BaseAllocator" +
  alloc_bytes :: "usize \<Rightarrow> usize \<Rightarrow> 's \<Rightarrow> ((AllocError, usize) result \<times> 's) outcome option"
  dealloc_bytes :: "usize \<Rightarrow> usize \<Rightarrow> usize \<Rightarrow> 's \<Rightarrow> 's outcome"
  total_bytes :: "'s \<Rightarrow> usize outcome"
  used_bytes :: "'s \<Rightarrow> usize outcome"
  available_bytes :: "'s \<Rightarrow> usize outcome"

text \<open>\<open>sba_mem\<close> is the content of the memory that the heap will use for its free blocks.\<close>

record 'h SlabByteAllocator =
  sba_inner :: "'h Heap option"
  sba_mem :: fmem

definition slab_byte_new :: "fmem \<Rightarrow> 'h SlabByteAllocator" where
  "slab_byte_new m = \<lparr>sba_inner = None, sba_mem = m\<rparr>"

text \<open>\<open>inner\<close> and \<open>inner_mut\<close> unwrap the heap.\<close>

definition sba_unwrap :: "'h SlabByteAllocator \<Rightarrow> 'h Heap outcome" where
  "sba_unwrap s = (case sba_inner s of None \<Rightarrow> Panic | Some h \<Rightarrow> Ret h)"

definition slab_byte_init :: "'h BuddyHeap \<Rightarrow> usize \<Rightarrow> usize \<Rightarrow> 'h SlabByteAllocator \<Rightarrow> 'h SlabByteAllocator outcome" where
  "slab_byte_init H start sz s = out_then (heap_new H start sz (sba_mem s)) (\<lambda>h. Ret (s\<lparr>sba_inner := Some h\<rparr>))"

definition slab_byte_add_memory :: "'h BuddyHeap \<Rightarrow> usize \<Rightarrow> usize \<Rightarrow> 'h SlabByteAllocator
    \<Rightarrow> ((AllocError, unit) result \<times> 'h SlabByteAllocator) outcome" where
  "slab_byte_add_memory H start sz s =
     out_then (sba_unwrap s) (\<lambda>h. out_then (heap_add_memory H start sz h) (\<lambda>h. Ret (Ok (), s\<lparr>sba_inner := Some h\<rparr>)))"

definition slab_byte_alloc :: "'h BuddyHeap \<Rightarrow> usize \<Rightarrow> usize \<Rightarrow> 'h SlabByteAllocator
    \<Rightarrow> ((AllocError, usize) result \<times> 'h SlabByteAllocator) outcome option" where
  "slab_byte_alloc H sz align_pow2 s =
     (case sba_inner s of
        None \<Rightarrow> Some Panic
      | Some h \<Rightarrow>
          case from_size_align sz align_pow2 of
            None \<Rightarrow> Some Panic
          | Some layout \<Rightarrow>
              Option.bind (heap_allocate H layout h) (\<lambda>out. Some (out_then out (\<lambda>(r, h).
                Ret (case r of Inl _ \<Rightarrow> Err NoMemoryA | Inr p \<Rightarrow> Ok p, s\<lparr>sba_inner := Some h\<rparr>)))))"

definition slab_byte_dealloc :: "'h BuddyHeap \<Rightarrow> usize \<Rightarrow> usize \<Rightarrow> usize \<Rightarrow> 'h SlabByteAllocator
    \<Rightarrow> 'h SlabByteAllocator outcome" where
  "slab_byte_dealloc H pos sz align_pow2 s =
     out_then (sba_unwrap s) (\<lambda>h.
       case from_size_align sz align_pow2 of
         None \<Rightarrow> Panic
       | Some layout \<Rightarrow> out_then (heap_deallocate H pos layout h) (\<lambda>h. Ret (s\<lparr>sba_inner := Some h\<rparr>)))"

definition slab_byte_total_bytes :: "'h BuddyHeap \<Rightarrow> 'h SlabByteAllocator \<Rightarrow> usize outcome" where
  "slab_byte_total_bytes H s = out_then (sba_unwrap s) (\<lambda>h. Ret (heap_total_bytes H h))"

definition slab_byte_used_bytes :: "'h BuddyHeap \<Rightarrow> 'h SlabByteAllocator \<Rightarrow> usize outcome" where
  "slab_byte_used_bytes H s = out_then (sba_unwrap s) (\<lambda>h. Ret (heap_used_bytes H h))"

definition slab_byte_available_bytes :: "'h BuddyHeap \<Rightarrow> 'h SlabByteAllocator \<Rightarrow> usize outcome" where
  "slab_byte_available_bytes H s = out_then (sba_unwrap s) (\<lambda>h. Ret (heap_available_bytes H h))"

definition SlabBA :: "'h BuddyHeap \<Rightarrow> 'h SlabByteAllocator ByteAllocator" where
  "SlabBA H =
     \<lparr>init_alloc = slab_byte_init H, add_memory = slab_byte_add_memory H, alloc_bytes = slab_byte_alloc H,
      dealloc_bytes = slab_byte_dealloc H, total_bytes = slab_byte_total_bytes H,
      used_bytes = slab_byte_used_bytes H, available_bytes = slab_byte_available_bytes H\<rparr>"

text \<open>The allocator that uses the buddy allocator alone.\<close>

record 'h BuddyByteAllocator =
  bba_inner :: 'h

definition buddy_byte_new :: "'h BuddyHeap \<Rightarrow> 'h BuddyByteAllocator" where
  "buddy_byte_new H = \<lparr>bba_inner = bh_new H\<rparr>"

definition buddy_byte_init :: "'h BuddyHeap \<Rightarrow> usize \<Rightarrow> usize \<Rightarrow> 'h BuddyByteAllocator \<Rightarrow> 'h BuddyByteAllocator outcome" where
  "buddy_byte_init H start sz s = Ret (s\<lparr>bba_inner := bh_init H start sz (bba_inner s)\<rparr>)"

definition buddy_byte_add_memory :: "'h BuddyHeap \<Rightarrow> usize \<Rightarrow> usize \<Rightarrow> 'h BuddyByteAllocator
    \<Rightarrow> ((AllocError, unit) result \<times> 'h BuddyByteAllocator) outcome" where
  "buddy_byte_add_memory H start sz s = Ret (Ok (), s\<lparr>bba_inner := bh_add_to_heap H start (start + sz) (bba_inner s)\<rparr>)"

definition buddy_byte_alloc :: "'h BuddyHeap \<Rightarrow> usize \<Rightarrow> usize \<Rightarrow> 'h BuddyByteAllocator
    \<Rightarrow> ((AllocError, usize) result \<times> 'h BuddyByteAllocator) outcome option" where
  "buddy_byte_alloc H sz align_pow2 s =
     (case from_size_align sz align_pow2 of
        None \<Rightarrow> Some Panic
      | Some layout \<Rightarrow>
          case bh_alloc H layout (bba_inner s) of
            (None, h) \<Rightarrow> Some (Ret (Err NoMemoryA, s\<lparr>bba_inner := h\<rparr>))
          | (Some p, h) \<Rightarrow> Some (Ret (Ok p, s\<lparr>bba_inner := h\<rparr>)))"

definition buddy_byte_dealloc :: "'h BuddyHeap \<Rightarrow> usize \<Rightarrow> usize \<Rightarrow> usize \<Rightarrow> 'h BuddyByteAllocator
    \<Rightarrow> 'h BuddyByteAllocator outcome" where
  "buddy_byte_dealloc H pos sz align_pow2 s =
     (case from_size_align sz align_pow2 of
        None \<Rightarrow> Panic
      | Some layout \<Rightarrow> Ret (s\<lparr>bba_inner := bh_dealloc H pos layout (bba_inner s)\<rparr>))"

definition BuddyBA :: "'h BuddyHeap \<Rightarrow> 'h BuddyByteAllocator ByteAllocator" where
  "BuddyBA H =
     \<lparr>init_alloc = buddy_byte_init H, add_memory = buddy_byte_add_memory H, alloc_bytes = buddy_byte_alloc H,
      dealloc_bytes = buddy_byte_dealloc H,
      total_bytes = (\<lambda>s. Ret (bh_stats_total_bytes H (bba_inner s))),
      used_bytes = (\<lambda>s. Ret (bh_stats_alloc_actual H (bba_inner s))),
      available_bytes = (\<lambda>s. Ret (bh_stats_total_bytes H (bba_inner s) - bh_stats_alloc_actual H (bba_inner s)))\<rparr>"

subsection \<open>The global allocator\<close>

definition GA_PAGE_SIZE :: usize where "GA_PAGE_SIZE = 0x1000"

record ('h, 'b) GlobalAllocator =
  balloc :: "'h SlabByteAllocator"
  palloc :: "'b BitmapPageAllocator"

definition ga_new :: "'b BitAlloc \<Rightarrow> fmem \<Rightarrow> ('h, 'b) GlobalAllocator" where
  "ga_new B m = \<lparr>balloc = slab_byte_new m, palloc = bitmap_new B\<rparr>"

definition ga_alloc_pages :: "'b BitAlloc \<Rightarrow> usize \<Rightarrow> usize \<Rightarrow> ('h, 'b) GlobalAllocator
    \<Rightarrow> (AllocError, usize) result \<times> ('h, 'b) GlobalAllocator" where
  "ga_alloc_pages B num_pages align_pow2 g =
     (case bitmap_alloc_pages B GA_PAGE_SIZE num_pages align_pow2 (palloc g) of (r, p) \<Rightarrow> (r, g\<lparr>palloc := p\<rparr>))"

definition ga_dealloc_pages :: "'b BitAlloc \<Rightarrow> usize \<Rightarrow> usize \<Rightarrow> ('h, 'b) GlobalAllocator \<Rightarrow> ('h, 'b) GlobalAllocator" where
  "ga_dealloc_pages B pos num_pages g = g\<lparr>palloc := bitmap_dealloc_pages B GA_PAGE_SIZE pos num_pages (palloc g)\<rparr>"

definition ga_init :: "'b BitAlloc \<Rightarrow> 'h BuddyHeap \<Rightarrow> usize \<Rightarrow> usize \<Rightarrow> ('h, 'b) GlobalAllocator
    \<Rightarrow> ('h, 'b) GlobalAllocator outcome" where
  "ga_init B H start_vaddr sz g =
     (if \<not> sz > MIN_HEAP_SIZE then Panic
      else out_then (bitmap_init B GA_PAGE_SIZE start_vaddr sz (palloc g)) (\<lambda>p.
        case ga_alloc_pages B (MIN_HEAP_SIZE div GA_PAGE_SIZE) GA_PAGE_SIZE (g\<lparr>palloc := p\<rparr>) of
          (Inl _, g) \<Rightarrow> Panic
        | (Inr heap_ptr, g) \<Rightarrow>
            out_then (slab_byte_init H heap_ptr MIN_HEAP_SIZE (balloc g)) (\<lambda>b. Ret (g\<lparr>balloc := b\<rparr>))))"

definition ga_add_memory :: "'h BuddyHeap \<Rightarrow> usize \<Rightarrow> usize \<Rightarrow> ('h, 'b) GlobalAllocator
    \<Rightarrow> ((AllocError, unit) result \<times> ('h, 'b) GlobalAllocator) outcome" where
  "ga_add_memory H start_vaddr sz g =
     out_then (slab_byte_add_memory H start_vaddr sz (balloc g)) (\<lambda>(r, b). Ret (r, g\<lparr>balloc := b\<rparr>))"

text \<open>\<open>usize::next_power_of_two\<close>, which is 0 in a release build if there is none.\<close>

definition next_power_of_two :: "usize \<Rightarrow> usize" where
  "next_power_of_two w = (case filter (\<lambda>n. w \<le> 2 ^ n) [0..<64] of [] \<Rightarrow> 0 | n # _ \<Rightarrow> 2 ^ n)"

partial_function (option) ga_alloc :: "'b BitAlloc \<Rightarrow> 'h BuddyHeap \<Rightarrow> usize \<Rightarrow> usize \<Rightarrow> ('h, 'b) GlobalAllocator
    \<Rightarrow> ((AllocError, usize) result \<times> ('h, 'b) GlobalAllocator) outcome option" where
  "ga_alloc B H sz align_pow2 g =
     Option.bind (slab_byte_alloc H sz align_pow2 (balloc g)) (\<lambda>out.
       case out of
         Panic \<Rightarrow> Some Panic
       | Ret (Inr ptr, b) \<Rightarrow> Some (Ret (Ok ptr, g\<lparr>balloc := b\<rparr>))
       | Ret (Inl _, b) \<Rightarrow>
           case slab_byte_total_bytes H b of
             Panic \<Rightarrow> Some Panic
           | Ret old_size \<Rightarrow>
               let expand_size = max (next_power_of_two (max old_size sz)) GA_PAGE_SIZE
               in case ga_alloc_pages B (expand_size div GA_PAGE_SIZE) GA_PAGE_SIZE (g\<lparr>balloc := b\<rparr>) of
                    (Inl e, g) \<Rightarrow> Some (Ret (Err e, g))
                  | (Inr heap_ptr, g) \<Rightarrow>
                      case slab_byte_add_memory H heap_ptr expand_size (balloc g) of
                        Panic \<Rightarrow> Some Panic
                      | Ret (Inl e, b) \<Rightarrow> Some (Ret (Err e, g\<lparr>balloc := b\<rparr>))
                      | Ret (Inr _, b) \<Rightarrow> ga_alloc B H sz align_pow2 (g\<lparr>balloc := b\<rparr>))"

definition ga_dealloc :: "'h BuddyHeap \<Rightarrow> usize \<Rightarrow> usize \<Rightarrow> usize \<Rightarrow> ('h, 'b) GlobalAllocator
    \<Rightarrow> ('h, 'b) GlobalAllocator outcome" where
  "ga_dealloc H pos sz align_pow2 g =
     out_then (slab_byte_dealloc H pos sz align_pow2 (balloc g)) (\<lambda>b. Ret (g\<lparr>balloc := b\<rparr>))"

definition ga_used_bytes :: "'h BuddyHeap \<Rightarrow> ('h, 'b) GlobalAllocator \<Rightarrow> usize outcome" where
  "ga_used_bytes H g = slab_byte_used_bytes H (balloc g)"

definition ga_available_bytes :: "'h BuddyHeap \<Rightarrow> ('h, 'b) GlobalAllocator \<Rightarrow> usize outcome" where
  "ga_available_bytes H g = slab_byte_available_bytes H (balloc g)"

definition ga_used_pages :: "('h, 'b) GlobalAllocator \<Rightarrow> usize" where
  "ga_used_pages g = bm_used_pages (palloc g)"

definition ga_available_pages :: "('h, 'b) GlobalAllocator \<Rightarrow> usize" where
  "ga_available_pages g = bitmap_available_pages (palloc g)"

text \<open>\<open>GlobalAlloc\<close> of the standard library; \<open>handle_alloc_error\<close> does not return.\<close>

definition global_alloc :: "'b BitAlloc \<Rightarrow> 'h BuddyHeap \<Rightarrow> Layout \<Rightarrow> ('h, 'b) GlobalAllocator
    \<Rightarrow> (usize \<times> ('h, 'b) GlobalAllocator) outcome option" where
  "global_alloc B H layout g =
     Option.bind (ga_alloc B H (lay_size layout) (lay_align layout) g) (\<lambda>out. Some (out_then out (\<lambda>(r, g).
       case r of Inr ptr \<Rightarrow> Ret (ptr, g) | Inl _ \<Rightarrow> Panic)))"

definition global_dealloc :: "'h BuddyHeap \<Rightarrow> usize \<Rightarrow> Layout \<Rightarrow> ('h, 'b) GlobalAllocator
    \<Rightarrow> ('h, 'b) GlobalAllocator outcome" where
  "global_dealloc H ptr layout g = ga_dealloc H ptr (lay_size layout) (lay_align layout) g"

subsection \<open>Pages as values\<close>

record GlobalPage =
  gp_start_vaddr :: VirtAddr
  gp_num_pages :: usize

fun alloc_err_to_ax_err :: "AllocError \<Rightarrow> AxError" where
  "alloc_err_to_ax_err InvalidParam = InvalidInput"
| "alloc_err_to_ax_err MemoryOverlap = InvalidInput"
| "alloc_err_to_ax_err NotAllocated = InvalidInput"
| "alloc_err_to_ax_err NoMemoryA = NoMemory"

definition gp_alloc_contiguous :: "'b BitAlloc \<Rightarrow> usize \<Rightarrow> usize \<Rightarrow> ('h, 'b) GlobalAllocator
    \<Rightarrow> GlobalPage AxResult \<times> ('h, 'b) GlobalAllocator" where
  "gp_alloc_contiguous B num_pages align_pow2 g =
     (case ga_alloc_pages B num_pages align_pow2 g of
        (Inr vaddr, g) \<Rightarrow> (Ok \<lparr>gp_start_vaddr = VirtAddr vaddr, gp_num_pages = num_pages\<rparr>, g)
      | (Inl e, g) \<Rightarrow> (Err (alloc_err_to_ax_err e), g))"

definition gp_alloc :: "'b BitAlloc \<Rightarrow> ('h, 'b) GlobalAllocator \<Rightarrow> GlobalPage AxResult \<times> ('h, 'b) GlobalAllocator" where
  "gp_alloc B g =
     (case ga_alloc_pages B 1 GA_PAGE_SIZE g of
        (Inr vaddr, g) \<Rightarrow> (Ok \<lparr>gp_start_vaddr = VirtAddr vaddr, gp_num_pages = 1\<rparr>, g)
      | (Inl e, g) \<Rightarrow> (Err (alloc_err_to_ax_err e), g))"

definition gp_start_paddr :: "(VirtAddr \<Rightarrow> PhysAddr) \<Rightarrow> GlobalPage \<Rightarrow> PhysAddr" where
  "gp_start_paddr virt_to_phys p = virt_to_phys (gp_start_vaddr p)"

definition gp_size :: "GlobalPage \<Rightarrow> usize" where
  "gp_size p = gp_num_pages p * GA_PAGE_SIZE"

text \<open>\<open>write_bytes\<close> to the memory of the pages, a map from addresses to bytes.\<close>

definition gp_fill :: "u8 \<Rightarrow> GlobalPage \<Rightarrow> (usize \<Rightarrow> u8) \<Rightarrow> usize \<Rightarrow> u8" where
  "gp_fill byte p mem a =
     (if a - virt_as_usize (gp_start_vaddr p) < gp_size p then byte else mem a)"

definition gp_zero :: "GlobalPage \<Rightarrow> (usize \<Rightarrow> u8) \<Rightarrow> usize \<Rightarrow> u8" where
  "gp_zero p mem = gp_fill 0 p mem"

definition gp_alloc_zero :: "'b BitAlloc \<Rightarrow> (usize \<Rightarrow> u8) \<Rightarrow> ('h, 'b) GlobalAllocator
    \<Rightarrow> GlobalPage AxResult \<times> (usize \<Rightarrow> u8) \<times> ('h, 'b) GlobalAllocator" where
  "gp_alloc_zero B mem g =
     (case gp_alloc B g of
        (Inl e, g) \<Rightarrow> (Err e, mem, g)
      | (Inr p, g) \<Rightarrow> (Ok p, gp_zero p mem, g))"

definition gp_as_slice :: "(usize \<Rightarrow> u8) \<Rightarrow> GlobalPage \<Rightarrow> u8 list" where
  "gp_as_slice mem p = map (\<lambda>i. mem (virt_as_usize (gp_start_vaddr p) + of_nat i)) [0..<unat (gp_size p)]"

definition gp_drop :: "'b BitAlloc \<Rightarrow> GlobalPage \<Rightarrow> ('h, 'b) GlobalAllocator \<Rightarrow> ('h, 'b) GlobalAllocator" where
  "gp_drop B p g = ga_dealloc_pages B (virt_as_usize (gp_start_vaddr p)) (gp_num_pages p) g"

section \<open>The contract of a byte allocator\<close>

text \<open>
  \<open>inv R s\<close>: the allocator is well formed and has handed out the blocks \<open>R\<close>; \<open>block p sz align\<close> is the block that
  a request for \<open>sz\<close> bytes gets at \<open>p\<close>, and \<open>span\<close> the memory of a block.
\<close>

locale byte_allocator =
  fixes A :: "('s, 'z) ByteAllocator_scheme" and inv :: "'r set \<Rightarrow> 's \<Rightarrow> bool"
    and block :: "usize \<Rightarrow> usize \<Rightarrow> usize \<Rightarrow> 'r" and span :: "'r \<Rightarrow> nat set"
  assumes blocks_apart: "inv R s \<Longrightarrow> x \<in> R \<Longrightarrow> y \<in> R \<Longrightarrow> x \<noteq> y \<Longrightarrow> span x \<inter> span y = {}"
    and block_holds: "rng p (unat sz) \<subseteq> span (block p sz al)"
    and alloc_returns: "inv R s \<Longrightarrow> from_size_align sz al = Some l \<Longrightarrow> 0 < sz \<Longrightarrow>
      \<exists>r s'. alloc_bytes A sz al s = Some (Ret (r, s')) \<and>
        (case r of Err e \<Rightarrow> e = NoMemoryA \<and> inv R s' | Ok p \<Rightarrow> block p sz al \<notin> R \<and> inv (insert (block p sz al) R) s')"
    and dealloc_ok: "inv R s \<Longrightarrow> from_size_align sz al = Some l \<Longrightarrow> block p sz al \<in> R \<Longrightarrow>
      \<exists>s'. dealloc_bytes A p sz al s = Ret s' \<and> inv (R - {block p sz al}) s'"
begin

text \<open>Blocks that are handed out one after the other do not overlap.\<close>

lemma alloc_twice_apart:
  assumes "inv R s" "from_size_align sz al = Some l" "0 < sz" "from_size_align sz' al' = Some l'" "0 < sz'"
    and "alloc_bytes A sz al s = Some (Ret (Ok p, s1))" "alloc_bytes A sz' al' s1 = Some (Ret (Ok p', s2))"
  shows "rng p (unat sz) \<inter> rng p' (unat sz') = {}"
proof -
  have 1: "inv (insert (block p sz al) R) s1" using alloc_returns [OF assms(1-3)] assms(6) by auto
  have 2: "block p' sz' al' \<noteq> block p sz al" "inv (insert (block p' sz' al') (insert (block p sz al) R)) s2"
    using alloc_returns [OF 1 assms(4,5)] assms(7) by auto
  have "span (block p sz al) \<inter> span (block p' sz' al') = {}"
    by (rule blocks_apart [OF 2(2)]) (simp_all add: 2(1) [symmetric])
  then show ?thesis using block_holds by blast
qed

text \<open>Giving back what was just allocated restores the blocks that are handed out.\<close>

lemma alloc_dealloc:
  assumes "inv R s" "from_size_align sz al = Some l" "0 < sz" "alloc_bytes A sz al s = Some (Ret (Ok p, s1))"
  shows "\<exists>s2. dealloc_bytes A p sz al s1 = Ret s2 \<and> inv R s2"
proof -
  have 1: "inv (insert (block p sz al) R) s1" "block p sz al \<notin> R" using alloc_returns [OF assms(1-3)] assms(4) by auto
  then show ?thesis using dealloc_ok [OF 1(1) assms(2), of p] by simp
qed

end

definition slab_block :: "usize \<Rightarrow> usize \<Rightarrow> usize \<Rightarrow> HeapAllocator \<times> usize \<times> nat" where
  "slab_block p sz align = region_of \<lparr>lay_size = sz, lay_align = align\<rparr> p"

definition slab_byte_inv :: "('h \<Rightarrow> bool) \<Rightarrow> ('h \<Rightarrow> (usize \<times> nat) set) \<Rightarrow> (HeapAllocator \<times> usize \<times> nat) set
    \<Rightarrow> 'h SlabByteAllocator \<Rightarrow> bool" where
  "slab_byte_inv ok live R s \<longleftrightarrow> (\<exists>h. sba_inner s = Some h \<and> heap_wf ok live R h)"

lemma from_size_align_some:
  "from_size_align sz al = Some l \<Longrightarrow> l = \<lparr>lay_size = sz, lay_align = al\<rparr> \<and> is_power_of_two al"
  by (auto simp: from_size_align_def split: if_splits)

sublocale buddy_heap \<subseteq> slab: byte_allocator "SlabBA H" "slab_byte_inv ok live" slab_block "\<lambda>(k, a, n). rng a n"
proof
  fix R :: "(HeapAllocator \<times> usize \<times> nat) set" and s :: "'h SlabByteAllocator" and sz al p l and x y :: "HeapAllocator \<times> usize \<times> nat"
  show "rng p (unat sz) \<subseteq> (case slab_block p sz al of (k, a, n) \<Rightarrow> rng a n)"
    using layout_fits [of "\<lparr>lay_size = sz, lay_align = al\<rparr>"]
    by (auto simp: slab_block_def region_of_def rng_def usable_def word_le_nat_alt)
  assume inv: "slab_byte_inv ok live R s"
  then obtain h where h: "sba_inner s = Some h" "heap_wf ok live R h" by (auto simp: slab_byte_inv_def)
  show "(case x of (k, a, n) \<Rightarrow> rng a n) \<inter> (case y of (k, a, n) \<Rightarrow> rng a n) = {}" if xy: "x \<in> R" "y \<in> R" "x \<noteq> y"
  proof -
    obtain k a n k' a' n' where e: "x = (k, a, n)" "y = (k', a', n')" by (metis prod_cases3)
    obtain F L U where "heap_inv ok live F L U h" "R = user_regions L U" using h(2) by (auto simp: heap_wf_def)
    then show ?thesis using user_regions_disjoint [of F L U h k a n k' a' n'] xy unfolding e by simp
  qed
  assume l: "from_size_align sz al = Some l"
  then have ll: "l = \<lparr>lay_size = sz, lay_align = al\<rparr>" "is_power_of_two (lay_align l)" using from_size_align_some [OF l] by auto
  show "\<exists>r s'. alloc_bytes (SlabBA H) sz al s = Some (Ret (r, s')) \<and>
      (case r of Err e \<Rightarrow> e = NoMemoryA \<and> slab_byte_inv ok live R s'
       | Ok p \<Rightarrow> slab_block p sz al \<notin> R \<and> slab_byte_inv ok live (insert (slab_block p sz al) R) s')"
  proof -
    obtain r h' where run: "heap_allocate H l h = Some (Ret (r, h'))"
      and post: "case r of Err _ \<Rightarrow> heap_wf ok live R h'
        | Ok p \<Rightarrow> region_of l p \<notin> R \<and> heap_wf ok live (insert (region_of l p) R) h' \<and>
            (lay_align l \<le> 4096 \<or> 4096 < lay_size l \<longrightarrow> unat (lay_align l) dvd unat p)"
      using heap_allocate_inv [OF h(2) ll(2)] by blast
    show ?thesis using run post h(1) l ll(1)
      by (cases r) (auto simp: SlabBA_def slab_byte_alloc_def slab_byte_inv_def slab_block_def)
  qed
  show "\<exists>s'. dealloc_bytes (SlabBA H) p sz al s = Ret s' \<and> slab_byte_inv ok live (R - {slab_block p sz al}) s'"
    if "slab_block p sz al \<in> R"
    using heap_deallocate_inv [OF h(2), of l p] that h(1) l ll(1)
    by (auto simp: SlabBA_def slab_byte_dealloc_def slab_byte_inv_def slab_block_def sba_unwrap_def)
qed

definition buddy_byte_inv :: "('h \<Rightarrow> bool) \<Rightarrow> ('h \<Rightarrow> (usize \<times> nat) set) \<Rightarrow> (usize \<times> nat) set \<Rightarrow> 'h BuddyByteAllocator \<Rightarrow> bool" where
  "buddy_byte_inv ok live R s \<longleftrightarrow> ok (bba_inner s) \<and> live (bba_inner s) = R"

sublocale buddy_heap \<subseteq> buddy: byte_allocator "BuddyBA H" "buddy_byte_inv ok live" "\<lambda>p sz al. (p, unat sz)" "\<lambda>(a, n). rng a n"
proof
  fix R :: "(usize \<times> nat) set" and s :: "'h BuddyByteAllocator" and sz al p :: usize and l and x y :: "usize \<times> nat"
  show "rng p (unat sz) \<subseteq> (case (p, unat sz) of (a, n) \<Rightarrow> rng a n)" by simp
  assume inv: "buddy_byte_inv ok live R s"
  then have s: "ok (bba_inner s)" "live (bba_inner s) = R" by (simp_all add: buddy_byte_inv_def)
  show "(case x of (a, n) \<Rightarrow> rng a n) \<inter> (case y of (a, n) \<Rightarrow> rng a n) = {}" if "x \<in> R" "y \<in> R" "x \<noteq> y"
    using live_disjoint [OF s(1), of "fst x" "snd x" "fst y" "snd y"] that s(2) by (simp add: case_prod_beta)
  assume l: "from_size_align sz al = Some l"
  then have ll: "l = \<lparr>lay_size = sz, lay_align = al\<rparr>" "is_power_of_two (lay_align l)" using from_size_align_some [OF l] by auto
  show "\<exists>r s'. alloc_bytes (BuddyBA H) sz al s = Some (Ret (r, s')) \<and>
      (case r of Err e \<Rightarrow> e = NoMemoryA \<and> buddy_byte_inv ok live R s'
       | Ok p \<Rightarrow> (p, unat sz) \<notin> R \<and> buddy_byte_inv ok live (insert (p, unat sz) R) s')" if "0 < sz"
  proof -
    obtain r b where al: "bh_alloc H l (bba_inner s) = (r, b)" by fastforce
    have pos: "0 < lay_size l" using that ll(1) by simp
    show ?thesis
      using al l buddy_full [OF s(1) pos ll(2), of b] buddy_alloc [OF s(1) pos ll(2), of _ b] s(2) ll(1)
      by (cases r) (auto simp: BuddyBA_def buddy_byte_alloc_def buddy_byte_inv_def)
  qed
  show "\<exists>s'. dealloc_bytes (BuddyBA H) p sz al s = Ret s' \<and> buddy_byte_inv ok live (R - {(p, unat sz)}) s'"
    if "(p, unat sz) \<in> R"
    using buddy_dealloc [OF s(1), of p l] that s(2) l ll(1) by (auto simp: BuddyBA_def buddy_byte_dealloc_def buddy_byte_inv_def)
qed

section \<open>The global allocator\<close>

text \<open>The bytes of the free pages.\<close>

definition free_bytes :: "('b \<Rightarrow> nat set) \<Rightarrow> 'b BitmapPageAllocator \<Rightarrow> nat set" where
  "free_bytes fbits p = {x. unat (bm_base p) \<le> x \<and> (x - unat (bm_base p)) div 4096 \<in> fbits (bm_inner p)}"

definition ga_pages_ok :: "('b \<Rightarrow> nat set) \<Rightarrow> nat \<Rightarrow> 'b BitmapPageAllocator \<Rightarrow> bool" where
  "ga_pages_ok fbits CAP p \<longleftrightarrow> bitmap_inv fbits CAP GA_PAGE_SIZE p \<and> 0 < unat (bm_base p) \<and>
     unat (bm_base p) + unat (bm_total_pages p) * 4096 < 2 ^ 64"

definition ga_inv :: "('b \<Rightarrow> nat set) \<Rightarrow> nat \<Rightarrow> ('h \<Rightarrow> bool) \<Rightarrow> ('h \<Rightarrow> (usize \<times> nat) set) \<Rightarrow> ('h \<Rightarrow> nat set)
    \<Rightarrow> (HeapAllocator \<times> usize \<times> nat) set \<Rightarrow> ('h, 'b) GlobalAllocator \<Rightarrow> bool" where
  "ga_inv fbits CAP ok live pool R g \<longleftrightarrow>
     ga_pages_ok fbits CAP (palloc g) \<and>
     (\<exists>h. sba_inner (balloc g) = Some h \<and> heap_wf ok live R h \<and>
       pool (buddy_allocator h) \<inter> free_bytes fbits (palloc g) = {})"

locale global_allocator = bit_alloc B CAP fbits + buddy_heap H ok live pool
  for B :: "'b BitAlloc" and CAP :: nat and fbits :: "'b \<Rightarrow> nat set" and H :: "'h BuddyHeap"
    and ok :: "'h \<Rightarrow> bool" and live :: "'h \<Rightarrow> (usize \<times> nat) set" and pool :: "'h \<Rightarrow> nat set"

lemma block_bytes:
  fixes base i n x :: nat
  shows "base + i * 4096 \<le> x \<and> x < base + i * 4096 + n * 4096 \<longleftrightarrow> base \<le> x \<and> i \<le> (x - base) div 4096 \<and> (x - base) div 4096 < i + n"
proof -
  have "i * 4096 \<le> y \<longleftrightarrow> i \<le> y div 4096" for y :: nat by (simp add: less_eq_div_iff_mult_less_eq)
  moreover have "y < (i + n) * 4096 \<longleftrightarrow> y div 4096 < i + n" for y :: nat by (simp add: div_less_iff_less_mult)
  ultimately show ?thesis by (cases "base \<le> x") (auto simp: algebra_simps)
qed

lemma next_power_of_two_cases: "next_power_of_two w = 0 \<or> (\<exists>n<64. next_power_of_two w = 2 ^ n)"
proof (cases "filter (\<lambda>n. w \<le> 2 ^ n) [0..<64]")
  case (Cons n ns)
  then have "n \<in> set [0..<64]" by (metis Cons filter_is_subset list.set_intros(1) subsetD)
  then show ?thesis using Cons by (auto simp: next_power_of_two_def)
qed (simp add: next_power_of_two_def)

lemma expand_pages:
  assumes "e = max (next_power_of_two w) GA_PAGE_SIZE"
  shows "unat (e div GA_PAGE_SIZE) * 4096 = unat e" "0 < unat (e div GA_PAGE_SIZE)" "4096 dvd unat e" "0 < e"
proof -
  obtain k where k: "12 \<le> k" "k < 64" "e = 2 ^ k"
  proof (cases "next_power_of_two w \<le> GA_PAGE_SIZE")
    case True
    then have "e = 2 ^ 12" using assms by (simp add: GA_PAGE_SIZE_def)
    then show thesis using that [of 12] by simp
  next
    case False
    then have e: "e = next_power_of_two w" "GA_PAGE_SIZE < e" using assms by auto
    then obtain n where n: "n < 64" "e = 2 ^ n" using next_power_of_two_cases [of w] by (auto simp: GA_PAGE_SIZE_def)
    have "(2 :: nat) ^ 12 < 2 ^ n" using e(2) n by (simp add: GA_PAGE_SIZE_def word_less_nat_alt unat_exp)
    then have "12 < n" by (rule power_less_imp_less_exp [rotated]) simp
    then show thesis using that [of n] n by simp
  qed
  have ue: "unat e = 2 ^ k" using k by (simp add: unat_exp)
  have "(2 :: nat) ^ k = 2 ^ (k - 12) * 4096"
    using k(1) power_add [of "2 :: nat" "k - 12" 12] by simp
  moreover have "unat (e div GA_PAGE_SIZE) = 2 ^ k div 4096" by (simp add: unat_div ue GA_PAGE_SIZE_def)
  ultimately show "unat (e div GA_PAGE_SIZE) * 4096 = unat e" "0 < unat (e div GA_PAGE_SIZE)" "4096 dvd unat e"
    using ue by simp_all
  show "0 < e" using ue by (simp add: word_less_nat_alt)
qed

context global_allocator
begin

abbreviation ginv :: "(HeapAllocator \<times> usize \<times> nat) set \<Rightarrow> ('h, 'b) GlobalAllocator \<Rightarrow> bool" where
  "ginv \<equiv> ga_inv fbits CAP ok live pool"

text \<open>A block of pages takes its bytes from those of the free pages.\<close>

lemma alloc_pages_bytes:
  assumes inv: "ga_pages_ok fbits CAP (palloc g)" and al: "ga_alloc_pages B n al g = (Ok p, g')"
  shows "balloc g' = balloc g" "4096 dvd unat p" "0 < unat p" "unat p + unat n * 4096 < 2 ^ 64"
    "rng p (unat n * 4096) \<subseteq> free_bytes fbits (palloc g)"
    "free_bytes fbits (palloc g') = free_bytes fbits (palloc g) - rng p (unat n * 4096)"
    "ga_pages_ok fbits CAP (palloc g')"
    "card (fbits (bm_inner (palloc g'))) < card (fbits (bm_inner (palloc g)))"
proof -
  let ?s = "palloc g" and ?b = "unat (bm_base (palloc g))"
  have binv: "bitmap_inv fbits CAP GA_PAGE_SIZE ?s" using inv by (simp add: ga_pages_ok_def)
  obtain s' where s': "bitmap_alloc_pages B GA_PAGE_SIZE n al ?s = (Ok p, s')" "g' = g\<lparr>palloc := s'\<rparr>"
    using al by (auto simp: ga_alloc_pages_def split: prod.splits)
  obtain i where i: "p = of_nat i * GA_PAGE_SIZE + bm_base ?s" "{i..<i + unat n} \<subseteq> fbits (bm_inner ?s)" "0 < unat n"
    "fbits (bm_inner s') = fbits (bm_inner ?s) - {i..<i + unat n}" "bm_base s' = bm_base ?s"
    "bm_total_pages s' = bm_total_pages ?s"
    using bitmap_alloc_some [OF binv s'(1)] by metis
  have "i + (unat n - 1) \<in> fbits (bm_inner ?s)" "i \<in> fbits (bm_inner ?s)" using i(2,3) by auto
  then have t: "i + (unat n - 1) < unat (bm_total_pages ?s)" "i < unat (bm_total_pages ?s)"
    using binv by (auto simp: bitmap_inv_def)
  have P: "unat GA_PAGE_SIZE = 4096" by (simp add: GA_PAGE_SIZE_def)
  have p: "p = page_addr GA_PAGE_SIZE ?s i" using i(1) by (simp add: page_addr_def algebra_simps)
  then have up: "unat p = ?b + i * 4096" using unat_page_addr(1) [OF binv t(2)] P by simp
  have "4096 dvd ?b" using binv P by (simp add: bitmap_inv_def)
  then show "4096 dvd unat p" unfolding up by simp
  show "0 < unat p" using inv up by (simp add: ga_pages_ok_def)
  have "(i + unat n) * 4096 \<le> unat (bm_total_pages ?s) * 4096" using t(1) i(3) by (intro mult_le_mono1) linarith
  moreover have "?b + unat (bm_total_pages ?s) * 4096 < 2 ^ 64" using inv unfolding ga_pages_ok_def by blast
  ultimately show "unat p + unat n * 4096 < 2 ^ 64" unfolding up add_mult_distrib by linarith
  have r: "rng p (unat n * 4096) = {x. ?b \<le> x \<and> (x - ?b) div 4096 \<in> {i..<i + unat n}}"
    by (simp only: rng_def up set_eq_iff atLeastLessThan_iff mem_Collect_eq block_bytes) simp
  show "rng p (unat n * 4096) \<subseteq> free_bytes fbits (palloc g)" using i(2) unfolding r free_bytes_def by blast
  show "free_bytes fbits (palloc g') = free_bytes fbits (palloc g) - rng p (unat n * 4096)"
    using s'(2) i(4,5) unfolding r free_bytes_def by auto
  show "balloc g' = balloc g" using s'(2) by simp
  show "ga_pages_ok fbits CAP (palloc g')"
    using bitmap_alloc_inv [OF binv s'(1)] s'(2) i(5,6) inv by (simp add: ga_pages_ok_def)
  have fin: "finite (fbits (bm_inner ?s))" using binv by (auto simp: bitmap_inv_def intro: finite_subset)
  have "i \<notin> fbits (bm_inner s')" using i(3,4) by simp
  then have "fbits (bm_inner s') \<subset> fbits (bm_inner ?s)" using \<open>i \<in> fbits (bm_inner ?s)\<close> i(4) by blast
  then show "card (fbits (bm_inner (palloc g'))) < card (fbits (bm_inner (palloc g)))"
    using psubset_card_mono [OF fin] s'(2) by simp
qed

lemma alloc_pages_fails:
  assumes inv: "ginv R g" and al: "ga_alloc_pages B n GA_PAGE_SIZE g = (Err e, g')" and n: "0 < unat n"
  shows "ginv R g'" "e = NoMemoryA"
proof -
  obtain s' where s': "bitmap_alloc_pages B GA_PAGE_SIZE n GA_PAGE_SIZE (palloc g) = (Err e, s')" "g' = g\<lparr>palloc := s'\<rparr>"
    using al by (auto simp: ga_alloc_pages_def split: prod.splits)
  have "fbits (bm_inner s') = fbits (bm_inner (palloc g)) \<and> bm_base s' = bm_base (palloc g)
      \<and> bm_total_pages s' = bm_total_pages (palloc g) \<and> bm_used_pages s' = bm_used_pages (palloc g)"
    by (rule bitmap_alloc_fails [OF s'(1)])
  then show "ginv R g'" using inv s'(2) by (auto simp: ga_inv_def ga_pages_ok_def bitmap_inv_def free_bytes_def)
  have "n \<noteq> 0" using n by auto
  then show "e = NoMemoryA"
    using bitmap_alloc_error [OF s'(1)] power_of_two_page by (auto simp: GA_PAGE_SIZE_def)
qed

text \<open>The allocation loop ends, since every round without success uses up free pages.\<close>

lemma ga_alloc_returns:
  assumes "ginv R g" and l: "from_size_align sz al = Some l" and sz: "0 < sz"
  shows "\<exists>r g'. ga_alloc B H sz al g = Some (Ret (r, g')) \<and>
    (case r of Err e \<Rightarrow> e = NoMemoryA \<and> ginv R g'
     | Ok p \<Rightarrow> slab_block p sz al \<notin> R \<and> ginv (insert (slab_block p sz al) R) g')"
  using assms(1)
proof (induction "card (fbits (bm_inner (palloc g)))" arbitrary: g rule: less_induct)
  case less
  obtain h where h: "sba_inner (balloc g) = Some h" "heap_wf ok live R h" "pool (buddy_allocator h) \<inter> free_bytes fbits (palloc g) = {}"
    using less.prems by (auto simp: ga_inv_def)
  have l': "is_power_of_two (lay_align l)" "l = \<lparr>lay_size = sz, lay_align = al\<rparr>" using from_size_align_some [OF l] by auto
  obtain r h1 where run: "heap_allocate H l h = Some (Ret (r, h1))" "pool (buddy_allocator h1) = pool (buddy_allocator h)"
    and post: "case r of Err _ \<Rightarrow> heap_wf ok live R h1
      | Ok p \<Rightarrow> region_of l p \<notin> R \<and> heap_wf ok live (insert (region_of l p) R) h1 \<and>
          (lay_align l \<le> 4096 \<or> 4096 < lay_size l \<longrightarrow> unat (lay_align l) dvd unat p)"
    using heap_allocate_inv [OF h(2) l'(1)] by blast
  let ?b = "(balloc g)\<lparr>sba_inner := Some h1\<rparr>"
  have sb: "slab_byte_alloc H sz al (balloc g) = Some (Ret (case r of Inl _ \<Rightarrow> Err NoMemoryA | Inr p \<Rightarrow> Ok p, ?b))"
    using h(1) l run(1) by (simp add: slab_byte_alloc_def)
  show ?case
  proof (cases r)
    case (Inr p)
    then have "ga_alloc B H sz al g = Some (Ret (Ok p, g\<lparr>balloc := ?b\<rparr>))" using sb by (simp add: ga_alloc.simps)
    moreover have "ginv (insert (slab_block p sz al) R) (g\<lparr>balloc := ?b\<rparr>)" "slab_block p sz al \<notin> R"
      using less.prems post Inr h(3) run(2) l'(2) by (auto simp: ga_inv_def slab_block_def)
    ultimately show ?thesis by simp
  next
    case (Inl u)
    let ?g = "g\<lparr>balloc := ?b\<rparr>"
    have g: "ginv R ?g" using less.prems post Inl h(3) run(2) by (simp add: ga_inv_def)
    let ?e = "max (next_power_of_two (max (heap_total_bytes H h1) sz)) GA_PAGE_SIZE"
    note e = expand_pages [OF refl, of "max (heap_total_bytes H h1) sz"]
    obtain r2 g2 where al2: "ga_alloc_pages B (?e div GA_PAGE_SIZE) GA_PAGE_SIZE ?g = (r2, g2)" by fastforce
    have step: "ga_alloc B H sz al g =
        (case r2 of
           Inl e \<Rightarrow> Some (Ret (Err e, g2))
         | Inr heap_ptr \<Rightarrow>
             case slab_byte_add_memory H heap_ptr ?e (balloc g2) of
               Panic \<Rightarrow> Some Panic
             | Ret (Inl e, b) \<Rightarrow> Some (Ret (Err e, g2\<lparr>balloc := b\<rparr>))
             | Ret (Inr _, b) \<Rightarrow> ga_alloc B H sz al (g2\<lparr>balloc := b\<rparr>))"
      using sb Inl al2 by (simp add: ga_alloc.simps [of B H sz al g] slab_byte_total_bytes_def sba_unwrap_def Let_def)
    show ?thesis
    proof (cases r2)
      case (Inl x)
      then show ?thesis using step alloc_pages_fails [OF g, of "?e div GA_PAGE_SIZE" x g2] al2 e(2) by simp
    next
      case (Inr ptr)
      then have al3: "ga_alloc_pages B (?e div GA_PAGE_SIZE) GA_PAGE_SIZE ?g = (Ok ptr, g2)" using al2 by simp
      have "ga_pages_ok fbits CAP (palloc ?g)" using g by (simp add: ga_inv_def)
      note p = alloc_pages_bytes [OF this al3, unfolded e(1)]
      have h1: "heap_wf ok live R h1" using post \<open>r = Inl u\<close> by simp
      have "0 \<notin> rng ptr (unat ?e)" using p(3) by (auto simp: rng_def)
      moreover have "rng ptr (unat ?e) \<inter> pool (buddy_allocator h1) = {}" using p(5) h(3) run(2) by auto
      ultimately have "rng ptr (unat ?e) \<inter> insert 0 (pool (buddy_allocator h1)) = {}" by auto
      from heap_add_memory_wf [OF h1 p(2) e(3) e(4) p(4) this] obtain h2 where
        h2: "heap_add_memory H ptr ?e h1 = Ret h2" "heap_wf ok live R h2"
        "pool (buddy_allocator h2) = pool (buddy_allocator h1) \<union> rng ptr (unat ?e)" by blast
      let ?g3 = "g2\<lparr>balloc := (balloc g2)\<lparr>sba_inner := Some h2\<rparr>\<rparr>"
      have "ginv R ?g3" using p(6,7) h2 run(2) h(3) by (auto simp: ga_inv_def)
      moreover have "card (fbits (bm_inner (palloc ?g3))) < card (fbits (bm_inner (palloc g)))" using p(8) by simp
      moreover have "ga_alloc B H sz al g = ga_alloc B H sz al ?g3"
        unfolding step using Inr h2(1) p(1) by (simp add: slab_byte_add_memory_def sba_unwrap_def)
      ultimately show ?thesis using less.hyps by simp
    qed
  qed
qed

end

interpretation ga: global_allocator list_bits "2 ^ 20" "\<lambda>b. unat ` set b" first_fit ff_ok "\<lambda>h. set (ff_live h)" ff_pool ..

context global_allocator
begin

text \<open>Initialisation gives a well-formed allocator with nothing handed out.\<close>

lemma ga_init_inv:
  assumes "ga_init B H start sz (ga_new B m) = Ret g" "0 < unat start" "unat start + unat sz < 2 ^ 64" "unat sz div 4096 \<le> CAP"
  shows "ginv {} g"
proof -
  have P: "is_power_of_two GA_PAGE_SIZE" "unat GA_PAGE_SIZE = 4096" using power_of_two_page by (simp_all add: GA_PAGE_SIZE_def)
  have "MIN_HEAP_SIZE < sz" using assms(1) by (simp add: ga_init_def split: if_splits)
  then have sz: "0x8000 < unat sz" by (simp add: MIN_HEAP_SIZE_def word_less_nat_alt)
  obtain s where s: "bitmap_init B GA_PAGE_SIZE start sz (bitmap_new B) = Ret s" "bitmap_inv fbits CAP GA_PAGE_SIZE s"
    "unat start \<le> unat (bm_base s)" "unat (bm_base s) + unat (bm_total_pages s) * 4096 \<le> unat start + unat sz"
    using bitmap_init_inv [OF P(1) assms(3)] sz assms(4) unfolding P(2) by auto
  obtain s1 ptr where al: "bitmap_alloc_pages B GA_PAGE_SIZE 8 GA_PAGE_SIZE s = (Ok ptr, s1)"
    and b: "slab_byte_init H ptr MIN_HEAP_SIZE (slab_byte_new m) = Ret (balloc g)" and pg: "palloc g = s1"
  proof -
    have d: "MIN_HEAP_SIZE div GA_PAGE_SIZE = 8" by (simp add: MIN_HEAP_SIZE_def GA_PAGE_SIZE_def)
    show thesis
      using assms(1) \<open>MIN_HEAP_SIZE < sz\<close> s(1) that
      by (cases "bitmap_alloc_pages B GA_PAGE_SIZE 8 GA_PAGE_SIZE s"; cases "fst (bitmap_alloc_pages B GA_PAGE_SIZE 8 GA_PAGE_SIZE s)";
          cases "slab_byte_init H (projr (fst (bitmap_alloc_pages B GA_PAGE_SIZE 8 GA_PAGE_SIZE s))) MIN_HEAP_SIZE (slab_byte_new m)")
         (auto simp: ga_init_def ga_new_def ga_alloc_pages_def d)
  qed
  have "ga_pages_ok fbits CAP (palloc \<lparr>balloc = balloc g, palloc = s\<rparr>)" using s(2-4) assms(2,3) by (simp add: ga_pages_ok_def)
  moreover have "ga_alloc_pages B 8 GA_PAGE_SIZE \<lparr>balloc = balloc g, palloc = s\<rparr> = (Ok ptr, \<lparr>balloc = balloc g, palloc = s1\<rparr>)"
    using al by (simp add: ga_alloc_pages_def)
  ultimately have p: "4096 dvd unat ptr" "0 < unat ptr" "unat ptr + 0x8000 < 2 ^ 64"
    "free_bytes fbits s1 = free_bytes fbits s - rng ptr 0x8000" "ga_pages_ok fbits CAP s1"
    using alloc_pages_bytes(2-7) [of "\<lparr>balloc = balloc g, palloc = s\<rparr>" 8 GA_PAGE_SIZE ptr "\<lparr>balloc = balloc g, palloc = s1\<rparr>"] by auto
  have "\<exists>h. heap_new H ptr MIN_HEAP_SIZE m = Ret h \<and> heap_wf ok live {} h \<and> pool (buddy_allocator h) = rng ptr (unat MIN_HEAP_SIZE)"
    using p(1-3) by (intro heap_new_wf) (simp_all add: MIN_HEAP_SIZE_def word_less_nat_alt)
  then obtain h where h: "heap_new H ptr MIN_HEAP_SIZE m = Ret h" "heap_wf ok live {} h" "pool (buddy_allocator h) = rng ptr 0x8000"
    by (auto simp: MIN_HEAP_SIZE_def)
  have "balloc g = \<lparr>sba_inner = Some h, sba_mem = m\<rparr>" using b h(1) by (simp add: slab_byte_init_def slab_byte_new_def)
  then have "sba_inner (balloc g) = Some h" by simp
  then show ?thesis using h p(4,5) pg by (auto simp: ga_inv_def)
qed

end

section \<open>Properties\<close>

text \<open>
  C27: An allocation of bytes from the global allocator always returns: the loop that asks the page allocator for
  more memory ends whatever the sizes, because each round uses up free pages, and no round panics. If it
  succeeds, the block overlaps neither a block that is handed out nor a free page; if it fails, it fails with
  \<open>NoMemory\<close>. Either way both allocators stay well formed and apart.
\<close>

theorem global_alloc_returns:
  assumes "global_allocator B CAP fbits H ok live pool" "ga_inv fbits CAP ok live pool R g"
    and "from_size_align sz align = Some l" "0 < sz"
  shows "\<exists>r g'. ga_alloc B H sz align g = Some (Ret (r, g')) \<and>
    (case r of
       Err e \<Rightarrow> e = NoMemoryA \<and> ga_inv fbits CAP ok live pool R g'
     | Ok p \<Rightarrow> ga_inv fbits CAP ok live pool (insert (slab_block p sz align) R) g' \<and>
         (\<forall>(k, a, n) \<in> R. rng a n \<inter> rng p (unat sz) = {}) \<and> rng p (unat sz) \<inter> free_bytes fbits (palloc g') = {})"
proof -
  note H = global_allocator.axioms(2) [OF assms(1)]
  obtain r g' where run: "ga_alloc B H sz align g = Some (Ret (r, g'))" and post:
    "case r of Err e \<Rightarrow> e = NoMemoryA \<and> ga_inv fbits CAP ok live pool R g'
     | Ok p \<Rightarrow> slab_block p sz align \<notin> R \<and> ga_inv fbits CAP ok live pool (insert (slab_block p sz align) R) g'"
    using global_allocator.ga_alloc_returns [OF assms] by blast
  show ?thesis
  proof (cases r)
    case (Inr p)
    let ?b = "slab_block p sz align" and ?l = "\<lparr>lay_size = sz, lay_align = align\<rparr>"
    have new: "?b \<notin> R" and inv: "ga_inv fbits CAP ok live pool (insert ?b R) g'" using post Inr by simp_all
    then obtain h where h: "heap_wf ok live (insert ?b R) h" "pool (buddy_allocator h) \<inter> free_bytes fbits (palloc g') = {}"
      by (auto simp: ga_inv_def)
    obtain F L U where hi: "heap_inv ok live F L U h" "insert ?b R = user_regions L U" using h(1) by (auto simp: heap_wf_def)
    have sub: "rng p (unat sz) \<subseteq> rng p (usable ?l)"
      using layout_fits [of ?l] by (auto simp: rng_def usable_def word_le_nat_alt)
    have b: "(layout_to_allocator ?l, p, usable ?l) \<in> user_regions L U"
      using hi(2) by (auto simp: slab_block_def region_of_def)
    have "rng a n \<inter> rng p (unat sz) = {}" if "(k, a, n) \<in> R" for k a n
    proof -
      have "(k, a, n) \<noteq> (layout_to_allocator ?l, p, usable ?l)"
        using that new by (auto simp: slab_block_def region_of_def)
      then show ?thesis
        using buddy_heap.user_regions_disjoint [OF H hi(1) _ b, of k a n] that hi(2) sub by blast
    qed
    moreover have "rng p (unat sz) \<inter> free_bytes fbits (palloc g') = {}"
      using buddy_heap.user_region_pool [OF H hi(1) b] h(2) sub by blast
    ultimately show ?thesis using run inv Inr by (auto simp: Ball_def)
  qed (use run post in auto)
qed

text \<open>A region of 16 pages, the first eight of which become the heap.\<close>

lemma demo_ga_init: "\<exists>g. ga_init list_bits first_fit 0x80000000 0x10000 (ga_new list_bits (\<lambda>_. None)) = Ret g"
proof -
  have 1: "bitmap_init list_bits GA_PAGE_SIZE 0x80000000 0x10000 (bitmap_new list_bits)
      = Ret \<lparr>bm_base = 0x80000000, bm_total_pages = 16, bm_used_pages = 0, bm_inner = [0, 1, 2, 3, 4, 5, 6, 7, 8, 9, 10, 11, 12, 13, 14, 15]\<rparr>"
    by (simp add: bitmap_init_def bitmap_new_def list_bits_def alloc_align_up_def alloc_align_down_def GA_PAGE_SIZE_def
        power_of_two_page upt_conv_Cons Let_def)
  have 2: "bitmap_alloc_pages list_bits GA_PAGE_SIZE 8 GA_PAGE_SIZE
      \<lparr>bm_base = 0x80000000, bm_total_pages = 16, bm_used_pages = 0, bm_inner = [0, 1, 2, 3, 4, 5, 6, 7, 8, 9, 10, 11, 12, 13, 14, 15]\<rparr>
      = (Ok 0x80000000, \<lparr>bm_base = 0x80000000, bm_total_pages = 16, bm_used_pages = 8, bm_inner = [8, 9, 10, 11, 12, 13, 14, 15]\<rparr>)"
    by (simp add: bitmap_alloc_pages_def list_bits_def GA_PAGE_SIZE_def power_of_two_page upt_conv_Cons Let_def)
  have 3: "0x8000 div GA_PAGE_SIZE = 8" "MIN_HEAP_SIZE < 0x10000" "MIN_HEAP_SIZE = 0x8000"
    by (simp_all add: MIN_HEAP_SIZE_def GA_PAGE_SIZE_def)
  show ?thesis
    by (simp add: ga_init_def ga_new_def 1 3 ga_alloc_pages_def 2 slab_byte_init_def slab_byte_new_def demo_heap_new)
qed

theorem global_alloc_returns_witness:
  "\<exists>g r g'. ga_init list_bits first_fit 0x80000000 0x10000 (ga_new list_bits (\<lambda>_. None)) = Ret g \<and>
     ga_alloc list_bits first_fit 100 8 g = Some (Ret (r, g')) \<and> (case r of Err e \<Rightarrow> e = NoMemoryA | Ok p \<Rightarrow> True)"
proof -
  obtain g where g: "ga_init list_bits first_fit 0x80000000 0x10000 (ga_new list_bits (\<lambda>_. None)) = Ret g"
    using demo_ga_init by blast
  have "ga_inv (\<lambda>b. unat ` set b) (2 ^ 20) ff_ok (\<lambda>h. set (ff_live h)) ff_pool {} g"
    by (rule ga.ga_init_inv [OF g]) simp_all
  from global_alloc_returns [OF ga.global_allocator_axioms this demo_layout] obtain r g' where
    run: "ga_alloc list_bits first_fit 100 8 g = Some (Ret (r, g'))" and post: "\<And>e. r = Err e \<Longrightarrow> e = NoMemoryA"
    by fastforce
  have "case r of Err e \<Rightarrow> e = NoMemoryA | Ok p \<Rightarrow> True" using post by (cases r) auto
  with g run show ?thesis by blast
qed

text \<open>
  \<open>GlobalPage::alloc_zero\<close> returns a page of 4096 zero bytes and writes no other memory; dropping the page makes
  exactly the pages free that were free before, and its error is \<open>NoMemory\<close> exactly when no page is free.
\<close>

lemma global_page_zeroed:
  assumes "bit_alloc B CAP fbits" "bitmap_inv fbits CAP GA_PAGE_SIZE (palloc g)" "gp_alloc_zero B mem g = (r, mem', g')"
  shows "case r of
      Ok p \<Rightarrow> gp_as_slice mem' p = replicate 4096 0 \<and>
        (\<forall>a. 4096 \<le> a - virt_as_usize (gp_start_vaddr p) \<longrightarrow> mem' a = mem a) \<and>
        bitmap_free fbits GA_PAGE_SIZE (palloc (gp_drop B p g')) = bitmap_free fbits GA_PAGE_SIZE (palloc g)
    | Err e \<Rightarrow> e = NoMemory \<and> mem' = mem \<and> bitmap_free fbits GA_PAGE_SIZE (palloc g) = {}"
proof -
  obtain r1 s where al: "bitmap_alloc_pages B GA_PAGE_SIZE 1 GA_PAGE_SIZE (palloc g) = (r1, s)" by fastforce
  show ?thesis
  proof (cases r1)
    case (Inl e)
    have "e = NoMemoryA" "bitmap_free fbits GA_PAGE_SIZE (palloc g) = {}"
      using bit_alloc.bitmap_alloc_error [OF assms(1), of GA_PAGE_SIZE 1 GA_PAGE_SIZE "palloc g" e s] al Inl power_of_two_page
      by (auto simp: GA_PAGE_SIZE_def)
    then show ?thesis using assms(3) al Inl by (auto simp: gp_alloc_zero_def gp_alloc_def ga_alloc_pages_def)
  next
    case (Inr v)
    let ?p = "\<lparr>gp_start_vaddr = VirtAddr v, gp_num_pages = 1\<rparr>"
    have r: "r = Ok ?p" "mem' = gp_zero ?p mem" "palloc g' = s"
      using assms(3) al Inr by (auto simp: gp_alloc_zero_def gp_alloc_def ga_alloc_pages_def)
    have size: "gp_size ?p = 0x1000" by (simp add: gp_size_def GA_PAGE_SIZE_def)
    have "of_nat i < (0x1000 :: usize)" if "i < 4096" for i
      using that by (simp add: word_less_nat_alt unat_of_nat_usize)
    then have "gp_as_slice mem' ?p = replicate 4096 0"
      unfolding r(2) gp_as_slice_def size
      by (intro nth_equalityI) (simp_all add: gp_zero_def gp_fill_def size [unfolded gp_size_def] gp_size_def GA_PAGE_SIZE_def)
    moreover have "mem' a = mem a" if "4096 \<le> a - v" for a
      using that by (simp add: r(2) gp_zero_def gp_fill_def size not_less [symmetric])
    moreover have "bitmap_free fbits GA_PAGE_SIZE (bitmap_dealloc_pages B GA_PAGE_SIZE v 1 s) = bitmap_free fbits GA_PAGE_SIZE (palloc g)"
      using bit_alloc.bitmap_dealloc_block(2) [OF assms(1,2), of 1 GA_PAGE_SIZE v s] al Inr by (simp add: pages_def)
    ultimately show ?thesis using r by (simp add: gp_drop_def ga_dealloc_pages_def)
  qed
qed

end
