(* ===== verification/KernelMem.thy ===== *)
theory KernelMem
  imports PageTableRegion GlobalAlloc
begin

text \<open>
  Model of the memory of the kernel at boot: the memory regions of the platforms and the direct map
  (src/modules/axhal/src/mem.rs and platform/*/mem.rs), the physical memory interface of the page tables over the
  global allocator (src/modules/axhal/src/paging.rs), and the two boot steps that set up the allocator and the
  kernel page table (src/modules/axruntime/src/lib.rs). The constants of the generated crate \<open>axconfig\<close> and the
  addresses that the linker script defines are parameters.
\<close>

section \<open>Model\<close>

record AxConfig =
  PHYS_VIRT_OFFSET :: usize
  PHYS_MEMORY_END :: usize
  MMIO_REGIONS :: "(usize \<times> usize) list"

record Symbols =
  stext :: usize
  etext :: usize
  srodata :: usize
  erodata :: usize
  sdata :: usize
  edata :: usize
  sbss :: usize
  ebss :: usize
  boot_stack :: usize
  boot_stack_top :: usize
  percpu_start :: usize
  percpu_end :: usize
  ekernel :: usize

subsection \<open>Memory regions\<close>

type_synonym MemRegionFlags = usize

definition MRF_READ :: MemRegionFlags where "MRF_READ = 0x01"
definition MRF_WRITE :: MemRegionFlags where "MRF_WRITE = 0x02"
definition MRF_EXECUTE :: MemRegionFlags where "MRF_EXECUTE = 0x04"
definition MRF_DEVICE :: MemRegionFlags where "MRF_DEVICE = 0x10"
definition MRF_RESERVED :: MemRegionFlags where "MRF_RESERVED = 0x20"
definition MRF_FREE :: MemRegionFlags where "MRF_FREE = 0x40"

definition MRF_ALL :: MemRegionFlags where
  "MRF_ALL = MRF_READ OR MRF_WRITE OR MRF_EXECUTE OR MRF_DEVICE OR MRF_RESERVED OR MRF_FREE"

lemmas mrf_defs [flag_simps] = MRF_READ_def MRF_WRITE_def MRF_EXECUTE_def MRF_DEVICE_def MRF_RESERVED_def MRF_FREE_def

record MemRegion =
  mr_paddr :: PhysAddr
  mr_size :: usize
  mr_flags :: MemRegionFlags
  mr_name :: string

definition mem_virt_to_phys :: "AxConfig \<Rightarrow> VirtAddr \<Rightarrow> PhysAddr" where
  "mem_virt_to_phys C vaddr = PhysAddr (virt_as_usize vaddr - PHYS_VIRT_OFFSET C)"

definition mem_phys_to_virt :: "AxConfig \<Rightarrow> PhysAddr \<Rightarrow> VirtAddr" where
  "mem_phys_to_virt C paddr = VirtAddr (phys_as_usize paddr + PHYS_VIRT_OFFSET C)"

definition common_memory_regions_num :: "AxConfig \<Rightarrow> nat" where
  "common_memory_regions_num C = 6 + length (MMIO_REGIONS C)"

definition common_memory_region_at :: "usize bitflags \<Rightarrow> AxConfig \<Rightarrow> Symbols \<Rightarrow> nat \<Rightarrow> MemRegion option" where
  "common_memory_region_at R C S idx =
     (let ro = bf_union R MRF_RESERVED MRF_READ; rw = bf_union R ro MRF_WRITE;
          sec = (\<lambda>lo hi flags name.
            \<lparr>mr_paddr = mem_virt_to_phys C (VirtAddr lo), mr_size = hi - lo, mr_flags = flags, mr_name = name\<rparr>)
      in if idx = 0 then Some (sec (stext S) (etext S) (bf_union R ro MRF_EXECUTE) ''.text'')
         else if idx = 1 then Some (sec (srodata S) (erodata S) ro ''.rodata'')
         else if idx = 2 then Some (sec (sdata S) (edata S) rw ''.data'')
         else if idx = 3 then Some (sec (percpu_start S) (percpu_end S) rw ''.percpu'')
         else if idx = 4 then Some (sec (boot_stack S) (boot_stack_top S) rw ''boot stack'')
         else if idx = 5 then Some (sec (sbss S) (ebss S) rw ''.bss'')
         else if idx < 6 + length (MMIO_REGIONS C)
         then Some \<lparr>mr_paddr = PhysAddr (fst (MMIO_REGIONS C ! (idx - 6))), mr_size = snd (MMIO_REGIONS C ! (idx - 6)),
                    mr_flags = bf_union R (bf_union R (bf_union R MRF_RESERVED MRF_DEVICE) MRF_READ) MRF_WRITE,
                    mr_name = ''mmio''\<rparr>
         else None)"

text \<open>The free memory behind the kernel image, the same on all platforms.\<close>

definition free_memory_region :: "usize bitflags \<Rightarrow> AxConfig \<Rightarrow> Symbols \<Rightarrow> MemRegion" where
  "free_memory_region R C S =
     (let start = phys_align_up_4k (mem_virt_to_phys C (VirtAddr (ekernel S)));
          stop = phys_align_down_4k (PhysAddr (PHYS_MEMORY_END C))
      in \<lparr>mr_paddr = start, mr_size = phys_as_usize stop - phys_as_usize start,
          mr_flags = bf_union R (bf_union R MRF_FREE MRF_READ) MRF_WRITE, mr_name = ''free memory''\<rparr>)"

text \<open>The platforms qemu_virt_riscv and qemu_virt_aarch64, pc_x86, and raspi4_aarch64.\<close>

definition qemu_riscv_region_at :: "usize bitflags \<Rightarrow> AxConfig \<Rightarrow> Symbols \<Rightarrow> nat \<Rightarrow> MemRegion option" where
  "qemu_riscv_region_at R C S idx =
     (if idx < common_memory_regions_num C then common_memory_region_at R C S idx
      else if idx = common_memory_regions_num C then Some (free_memory_region R C S)
      else None)"

definition qemu_aarch64_region_at :: "usize bitflags \<Rightarrow> AxConfig \<Rightarrow> Symbols \<Rightarrow> nat \<Rightarrow> MemRegion option" where
  "qemu_aarch64_region_at R C S idx =
     (if idx < common_memory_regions_num C then common_memory_region_at R C S idx
      else if idx = common_memory_regions_num C then Some (free_memory_region R C S)
      else None)"

definition pc_x86_region_at :: "usize bitflags \<Rightarrow> AxConfig \<Rightarrow> Symbols \<Rightarrow> nat \<Rightarrow> MemRegion option" where
  "pc_x86_region_at R C S idx =
     (let num = common_memory_regions_num C
      in if idx = 0
         then Some \<lparr>mr_paddr = PhysAddr 0, mr_size = 0x9f000,
                    mr_flags = bf_union R (bf_union R MRF_RESERVED MRF_READ) MRF_WRITE, mr_name = ''low memory''\<rparr>
         else if idx \<le> num then common_memory_region_at R C S (idx - 1)
         else if idx = num + 1 then Some (free_memory_region R C S)
         else None)"

definition extern_memory_region_at :: "usize bitflags \<Rightarrow> nat \<Rightarrow> MemRegion option" where
  "extern_memory_region_at R idx =
     (if idx = 1
      then Some \<lparr>mr_paddr = PhysAddr 0, mr_size = 0x1000,
                 mr_flags = bf_union R (bf_union R MRF_FREE MRF_READ) MRF_WRITE, mr_name = ''spintable''\<rparr>
      else None)"

definition raspi4_region_at :: "usize bitflags \<Rightarrow> AxConfig \<Rightarrow> Symbols \<Rightarrow> nat \<Rightarrow> MemRegion option" where
  "raspi4_region_at R C S idx =
     (if idx < common_memory_regions_num C then common_memory_region_at R C S idx
      else if idx = common_memory_regions_num C then Some (free_memory_region R C S)
      else extern_memory_region_at R (idx - common_memory_regions_num C))"

text \<open>
  The iterator over the regions of a platform with \<open>num\<close> regions: a \<open>for\<close> loop stops at the first index that has
  no region.
\<close>

definition mem_region_iter_next :: "nat \<Rightarrow> (nat \<Rightarrow> MemRegion option) \<Rightarrow> nat \<Rightarrow> MemRegion option \<times> nat" where
  "mem_region_iter_next num at idx = ((if idx < num then at idx else None), idx + 1)"

function regions_from :: "nat \<Rightarrow> (nat \<Rightarrow> MemRegion option) \<Rightarrow> nat \<Rightarrow> MemRegion list" where
  "regions_from num at idx =
     (case mem_region_iter_next num at idx of
        (None, _) \<Rightarrow> []
      | (Some r, idx) \<Rightarrow> r # regions_from num at idx)"
  by auto
termination
  by (relation "measure (\<lambda>(num, _, idx). num - idx)") (auto simp: mem_region_iter_next_def split: if_splits)

definition memory_regions :: "nat \<Rightarrow> (nat \<Rightarrow> MemRegion option) \<Rightarrow> MemRegion list" where
  "memory_regions num at = regions_from num at 0"

subsection \<open>The physical memory interface\<close>

definition mapping_from_region :: "usize bitflags \<Rightarrow> usize bitflags \<Rightarrow> MemRegionFlags \<Rightarrow> MappingFlags" where
  "mapping_from_region M R f =
     (let ret = 0;
          ret = (if bf_contains R f MRF_READ then bf_union M ret MF_READ else ret);
          ret = (if bf_contains R f MRF_WRITE then bf_union M ret MF_WRITE else ret);
          ret = (if bf_contains R f MRF_EXECUTE then bf_union M ret MF_EXECUTE else ret);
          ret = (if bf_contains R f MRF_DEVICE then bf_union M ret MF_DEVICE else ret)
      in ret)"

definition pi_alloc_frames_at :: "'b BitAlloc \<Rightarrow> AxConfig \<Rightarrow> usize \<Rightarrow> usize \<Rightarrow> ('h, 'b) GlobalAllocator
    \<Rightarrow> PhysAddr option \<times> ('h, 'b) GlobalAllocator" where
  "pi_alloc_frames_at B C n align g =
     (case ga_alloc_pages B n align g of
        (Inr vaddr, g) \<Rightarrow> (Some (mem_virt_to_phys C (VirtAddr vaddr)), g)
      | (Inl _, g) \<Rightarrow> (None, g))"

definition pi_alloc_frame :: "'b BitAlloc \<Rightarrow> AxConfig \<Rightarrow> ('h, 'b) GlobalAllocator
    \<Rightarrow> PhysAddr option \<times> ('h, 'b) GlobalAllocator" where
  "pi_alloc_frame B C g = pi_alloc_frames_at B C 1 PAGE_SIZE_4K g"

definition pi_alloc_frames :: "'b BitAlloc \<Rightarrow> AxConfig \<Rightarrow> usize \<Rightarrow> ('h, 'b) GlobalAllocator
    \<Rightarrow> PhysAddr option \<times> ('h, 'b) GlobalAllocator" where
  "pi_alloc_frames B C page_nums g = pi_alloc_frames_at B C page_nums (PAGE_SIZE_4K * page_nums) g"

definition pi_dealloc_frames :: "'b BitAlloc \<Rightarrow> AxConfig \<Rightarrow> PhysAddr \<Rightarrow> usize \<Rightarrow> ('h, 'b) GlobalAllocator
    \<Rightarrow> ('h, 'b) GlobalAllocator" where
  "pi_dealloc_frames B C paddr page_nums g = ga_dealloc_pages B (virt_as_usize (mem_phys_to_virt C paddr)) page_nums g"

definition pi_dealloc_frame :: "'b BitAlloc \<Rightarrow> AxConfig \<Rightarrow> PhysAddr \<Rightarrow> ('h, 'b) GlobalAllocator \<Rightarrow> ('h, 'b) GlobalAllocator" where
  "pi_dealloc_frame B C paddr g = ga_dealloc_pages B (virt_as_usize (mem_phys_to_virt C paddr)) 1 g"

definition PagingIfImpl :: "'b BitAlloc \<Rightarrow> AxConfig \<Rightarrow> ('h, 'b) GlobalAllocator PagingIf" where
  "PagingIfImpl B C =
     \<lparr>alloc_frame = pi_alloc_frame B C, alloc_frames = pi_alloc_frames B C, dealloc_frame = pi_dealloc_frame B C,
      dealloc_frames = pi_dealloc_frames B C, phys_to_virt = mem_phys_to_virt C\<rparr>"

subsection \<open>Boot\<close>

text \<open>The largest free region: the first loop of \<open>init_allocator\<close>.\<close>

definition max_free_region :: "usize bitflags \<Rightarrow> MemRegion list \<Rightarrow> usize \<times> PhysAddr" where
  "max_free_region R rs =
     fold (\<lambda>r (sz, paddr). if bf_contains R (mr_flags r) MRF_FREE \<and> mr_size r > sz then (mr_size r, mr_paddr r) else (sz, paddr))
       rs (0, PhysAddr 0)"

definition add_region :: "'h BuddyHeap \<Rightarrow> AxConfig \<Rightarrow> MemRegion \<Rightarrow> ('h, 'b) GlobalAllocator \<Rightarrow> ('h, 'b) GlobalAllocator outcome" where
  "add_region H C r g =
     out_then (ga_add_memory H (virt_as_usize (mem_phys_to_virt C (mr_paddr r))) (mr_size r) g)
       (\<lambda>(x, g). case x of Inl _ \<Rightarrow> Panic | Inr _ \<Rightarrow> Ret g)"

fun add_regions :: "'h BuddyHeap \<Rightarrow> AxConfig \<Rightarrow> MemRegion list \<Rightarrow> ('h, 'b) GlobalAllocator \<Rightarrow> ('h, 'b) GlobalAllocator outcome" where
  "add_regions H C [] g = Ret g"
| "add_regions H C (r # rs) g = out_then (add_region H C r g) (add_regions H C rs)"

definition init_allocator :: "'b BitAlloc \<Rightarrow> 'h BuddyHeap \<Rightarrow> usize bitflags \<Rightarrow> AxConfig \<Rightarrow> MemRegion list
    \<Rightarrow> ('h, 'b) GlobalAllocator \<Rightarrow> ('h, 'b) GlobalAllocator outcome" where
  "init_allocator B H R C rs g =
     (let max_region_paddr = snd (max_free_region R rs);
          free = (\<lambda>r. bf_contains R (mr_flags r) MRF_FREE)
      in out_then
           (case filter (\<lambda>r. free r \<and> mr_paddr r = max_region_paddr) rs of
              [] \<Rightarrow> Ret g
            | r # _ \<Rightarrow> ga_init B H (virt_as_usize (mem_phys_to_virt C (mr_paddr r))) (mr_size r) g)
           (add_regions H C (filter (\<lambda>r. free r \<and> mr_paddr r \<noteq> max_region_paddr) rs)))"

text \<open>The loop of \<open>remap_kernel_memory\<close> over the regions.\<close>

fun remap_loop :: "'pte GenericPTE \<Rightarrow> 'os PagingIf \<Rightarrow> PagingMetaData \<Rightarrow> usize bitflags \<Rightarrow> usize bitflags \<Rightarrow> AxConfig
    \<Rightarrow> MemRegion list \<Rightarrow> ('pte, 'os) PageTable64 \<Rightarrow> (unit PagingResult \<times> ('pte, 'os) PageTable64) outcome option" where
  "remap_loop P I M MF R C [] s = Some (Ret (Ok (), s))"
| "remap_loop P I M MF R C (r # rs) s =
     Option.bind
       (map_region P I M (mem_phys_to_virt C (mr_paddr r)) (mr_paddr r) (mr_size r)
          (mapping_from_region MF R (mr_flags r)) True s)
       (\<lambda>out. case out of
          Panic \<Rightarrow> Some Panic
        | Ret (Inl e, s) \<Rightarrow> Some (Ret (Err e, s))
        | Ret (Inr _, s) \<Rightarrow> remap_loop P I M MF R C rs s)"

text \<open>
  \<open>KERNEL_PAGE_TABLE\<close> is the table \<open>kpt\<close>, once it is initialised; the result is the root that is written to the
  page table register. A table that is not finished is dropped with the error.
\<close>

definition remap_kernel_memory :: "'pte GenericPTE \<Rightarrow> 'os PagingIf \<Rightarrow> PagingMetaData \<Rightarrow> usize bitflags \<Rightarrow> usize bitflags
    \<Rightarrow> AxConfig \<Rightarrow> bool \<Rightarrow> MemRegion list \<Rightarrow> ('pte, 'os) PageTable64 option \<Rightarrow> ('pte, 'os) world
    \<Rightarrow> (PhysAddr PagingResult \<times> ('pte, 'os) PageTable64 option \<times> ('pte, 'os) world) outcome option" where
  "remap_kernel_memory P I M MF R C is_bsp rs kpt w =
     (if is_bsp
      then
        case try_new P I w of
          (Inl e, w) \<Rightarrow> Some (Ret (Err e, kpt, w))
        | (Inr s, _) \<Rightarrow>
            Option.bind (remap_loop P I M MF R C rs s) (\<lambda>out. Some (out_then out (\<lambda>(res, s).
              case res of
                Inl e \<Rightarrow> Ret (Err e, kpt, \<lparr>tables = tables s, os = drop_table I s\<rparr>)
              | Inr _ \<Rightarrow>
                  if kpt \<noteq> None then Panic
                  else Ret (Ok (root_paddr s), Some s, \<lparr>tables = tables s, os = os s\<rparr>))))
      else
        case kpt of
          None \<Rightarrow> Some Panic
        | Some s \<Rightarrow> Some (Ret (Ok (root_paddr s), kpt, w)))"

text \<open>
  The boot page tables of qemu_virt_aarch64 and raspi4_aarch64: the entries that are written, as pairs of index
  and entry for the two tables; \<open>l1\<close> is the address of the second.
\<close>

definition qemu_boot_page_table :: "usize bitflags \<Rightarrow> u64 bitflags \<Rightarrow> bool \<Rightarrow> usize \<Rightarrow> (nat \<times> A64PTE) list \<times> (nat \<times> A64PTE) list" where
  "qemu_boot_page_table M D hv l1 =
     (let rw = bf_union M MF_READ MF_WRITE
      in ([(0, a64_new_table D (PhysAddr l1))],
          [(0, a64_new_page M D hv (PhysAddr 0) (bf_union M rw MF_DEVICE) True),
           (1, a64_new_page M D hv (PhysAddr 0x40000000) (bf_union M rw MF_EXECUTE) True)]))"

definition raspi4_boot_page_table :: "usize bitflags \<Rightarrow> u64 bitflags \<Rightarrow> bool \<Rightarrow> usize \<Rightarrow> (nat \<times> A64PTE) list \<times> (nat \<times> A64PTE) list" where
  "raspi4_boot_page_table M D hv l1 =
     (let rw = bf_union M MF_READ MF_WRITE
      in ([(0, a64_new_table D (PhysAddr l1))],
          [(0, a64_new_page M D hv (PhysAddr 0) (bf_union M rw MF_EXECUTE) True),
           (1, a64_new_page M D hv (PhysAddr 0x40000000) (bf_union M rw MF_EXECUTE) True),
           (2, a64_new_page M D hv (PhysAddr 0x80000000) (bf_union M rw MF_EXECUTE) True),
           (3, a64_new_page M D hv (PhysAddr 0xc0000000) (bf_union M rw MF_DEVICE) True)]))"

section \<open>Page tables over the global allocator\<close>

definition v2p :: "AxConfig \<Rightarrow> usize \<Rightarrow> PhysAddr" where
  "v2p C p = mem_virt_to_phys C (VirtAddr p)"

text \<open>The frames of the pages that are handed out, and when the allocator can serve page tables from the pages \<open>Rg\<close>.\<close>

definition pi_allocated :: "('b \<Rightarrow> nat set) \<Rightarrow> AxConfig \<Rightarrow> ('h, 'b) GlobalAllocator \<Rightarrow> PhysAddr set" where
  "pi_allocated fbits C g = v2p C ` (bitmap_region GA_PAGE_SIZE (palloc g) - bitmap_free fbits GA_PAGE_SIZE (palloc g))"

definition pi_ok :: "('b \<Rightarrow> nat set) \<Rightarrow> nat \<Rightarrow> AxConfig \<Rightarrow> (PhysAddr \<Rightarrow> bool) \<Rightarrow> usize set \<Rightarrow> ('h, 'b) GlobalAllocator \<Rightarrow> bool" where
  "pi_ok fbits CAP C frame_ok Rg g \<longleftrightarrow> bitmap_inv fbits CAP GA_PAGE_SIZE (palloc g) \<and>
     bitmap_region GA_PAGE_SIZE (palloc g) = Rg \<and> (\<forall>p \<in> Rg. frame_ok (v2p C p))"

lemma v2p_inj: "inj (v2p C)"
  by (rule injI) (simp add: v2p_def mem_virt_to_phys_def)

lemma v2p_phys_to_virt: "virt_as_usize (mem_phys_to_virt C (v2p C p)) = p"
  by (simp add: v2p_def mem_virt_to_phys_def mem_phys_to_virt_def)

lemma mem_phys_to_virt_inj: "inj (mem_phys_to_virt C)"
  by (rule injI) (simp add: mem_phys_to_virt_def PhysAddr.expand)

lemma page_size_4k: "GA_PAGE_SIZE = PAGE_SIZE_4K"
  by (simp add: GA_PAGE_SIZE_def PAGE_SIZE_4K_def)

context bit_alloc
begin

lemma paging_if_impl: "paging_if (PagingIfImpl B C) frame_ok (pi_ok fbits CAP C frame_ok Rg) (pi_allocated fbits C)"
proof
  show "inj (phys_to_virt (PagingIfImpl B C))" by (simp add: PagingIfImpl_def mem_phys_to_virt_inj)
  fix w w' :: "('c, 'b) GlobalAllocator" and p :: PhysAddr
  let ?PA = "BitmapPA B GA_PAGE_SIZE"
  assume ok: "pi_ok fbits CAP C frame_ok Rg w"
  then have inv: "bitmap_inv fbits CAP GA_PAGE_SIZE (palloc w)" by (simp add: pi_ok_def)
  note free = bm.free_region [OF inv, THEN conjunct1]
  have alloc: "alloc_frame (PagingIfImpl B C) w =
      (case bitmap_alloc_pages B GA_PAGE_SIZE 1 GA_PAGE_SIZE (palloc w) of
         (Inr v, s) \<Rightarrow> (Some (v2p C v), w\<lparr>palloc := s\<rparr>) | (Inl _, s) \<Rightarrow> (None, w\<lparr>palloc := s\<rparr>))"
    by (simp add: PagingIfImpl_def pi_alloc_frame_def pi_alloc_frames_at_def ga_alloc_pages_def v2p_def page_size_4k
        split: prod.splits sum.splits)
  show "p \<notin> pi_allocated fbits C w \<and> pi_allocated fbits C w' = insert p (pi_allocated fbits C w) \<and> frame_ok p
      \<and> pi_ok fbits CAP C frame_ok Rg w'" if a: "alloc_frame (PagingIfImpl B C) w = (Some p, w')"
  proof -
    obtain v s where al: "bitmap_alloc_pages B GA_PAGE_SIZE 1 GA_PAGE_SIZE (palloc w) = (Ok v, s)"
      and p: "p = v2p C v" "w' = w\<lparr>palloc := s\<rparr>"
      using a alloc by (auto split: prod.splits sum.splits)
    have pg: "pages GA_PAGE_SIZE v (unat (1 :: usize)) = {v}" by (simp add: pages_def lessThan_Suc)
    have post: "bitmap_inv fbits CAP GA_PAGE_SIZE s" "bitmap_region GA_PAGE_SIZE s = bitmap_region GA_PAGE_SIZE (palloc w)"
      "v \<in> bitmap_free fbits GA_PAGE_SIZE (palloc w)"
      "bitmap_free fbits GA_PAGE_SIZE s = bitmap_free fbits GA_PAGE_SIZE (palloc w) - {v}"
      using bm.alloc_ok [OF inv, of 1 GA_PAGE_SIZE v s] al pg by (simp_all add: BitmapPA_def)
    have v: "v \<in> bitmap_region GA_PAGE_SIZE (palloc w)" using post(3) free by blast
    have "bitmap_region GA_PAGE_SIZE s - bitmap_free fbits GA_PAGE_SIZE s
        = insert v (bitmap_region GA_PAGE_SIZE (palloc w) - bitmap_free fbits GA_PAGE_SIZE (palloc w))"
      using post(2-4) v by auto
    then show ?thesis
      using p post ok v v2p_inj [of C] by (auto simp: pi_allocated_def pi_ok_def inj_image_mem_iff)
  qed
  show "pi_allocated fbits C w' = pi_allocated fbits C w \<and> pi_ok fbits CAP C frame_ok Rg w'"
    if a: "alloc_frame (PagingIfImpl B C) w = (None, w')"
  proof -
    obtain e s where al: "bitmap_alloc_pages B GA_PAGE_SIZE 1 GA_PAGE_SIZE (palloc w) = (Err e, s)" "w' = w\<lparr>palloc := s\<rparr>"
      using a alloc by (auto split: prod.splits sum.splits)
    then show ?thesis
      using bm.alloc_err [OF inv, of 1 GA_PAGE_SIZE e s] ok by (simp add: BitmapPA_def pi_allocated_def pi_ok_def)
  qed
  show "pi_allocated fbits C (dealloc_frame (PagingIfImpl B C) p w) = pi_allocated fbits C w - {p}
      \<and> pi_ok fbits CAP C frame_ok Rg (dealloc_frame (PagingIfImpl B C) p w)" if a: "p \<in> pi_allocated fbits C w"
  proof -
    obtain v where v: "p = v2p C v" "v \<in> bitmap_region GA_PAGE_SIZE (palloc w) - bitmap_free fbits GA_PAGE_SIZE (palloc w)"
      using a by (auto simp: pi_allocated_def)
    have d: "palloc (dealloc_frame (PagingIfImpl B C) p w) = bitmap_dealloc_pages B GA_PAGE_SIZE v 1 (palloc w)"
      by (simp add: PagingIfImpl_def pi_dealloc_frame_def ga_dealloc_pages_def v(1) v2p_phys_to_virt)
    note post = bm.dealloc_one [OF inv v(2), simplified BitmapPA_def, simplified]
    have "bitmap_region GA_PAGE_SIZE (palloc w) - insert v (bitmap_free fbits GA_PAGE_SIZE (palloc w))
        = bitmap_region GA_PAGE_SIZE (palloc w) - bitmap_free fbits GA_PAGE_SIZE (palloc w) - {v}" by auto
    then show ?thesis
      using post ok v2p_inj [of C] unfolding pi_allocated_def pi_ok_def d by (simp add: v(1) image_set_diff)
  qed
qed

end

context bit_alloc
begin

text \<open>The pages that are handed out determine the free pages and their number.\<close>

lemma pi_allocated_eq:
  fixes w w' :: "('c, 'b) GlobalAllocator"
  assumes "pi_ok fbits CAP C frame_ok Rg w" "pi_ok fbits CAP C frame_ok Rg w'" "pi_allocated fbits C w' = pi_allocated fbits C w"
  shows "bitmap_free fbits GA_PAGE_SIZE (palloc w') = bitmap_free fbits GA_PAGE_SIZE (palloc w) \<and>
    bm_used_pages (palloc w') = bm_used_pages (palloc w)"
proof -
  have sub: "bitmap_free fbits GA_PAGE_SIZE (palloc x) \<subseteq> Rg" if "pi_ok fbits CAP C frame_ok Rg x" for x :: "('c, 'b) GlobalAllocator"
    using that bm.free_region [of GA_PAGE_SIZE "palloc x"] by (auto simp: pi_ok_def)
  have "Rg - bitmap_free fbits GA_PAGE_SIZE (palloc w') = Rg - bitmap_free fbits GA_PAGE_SIZE (palloc w)"
    using assms inj_image_eq_iff [OF v2p_inj [of C]] by (simp add: pi_allocated_def pi_ok_def)
  then have free: "bitmap_free fbits GA_PAGE_SIZE (palloc w') = bitmap_free fbits GA_PAGE_SIZE (palloc w)"
    using sub [OF assms(1)] sub [OF assms(2)] by blast
  have card: "unat (bm_used_pages (palloc x)) + card (bitmap_free fbits GA_PAGE_SIZE (palloc x)) = card Rg"
    if "pi_ok fbits CAP C frame_ok Rg x" for x :: "('c, 'b) GlobalAllocator"
  proof -
    have inv: "bitmap_inv fbits CAP GA_PAGE_SIZE (palloc x)" and rg: "bitmap_region GA_PAGE_SIZE (palloc x) = Rg"
      using that by (simp_all add: pi_ok_def)
    note inj = page_addr_inj [OF inv]
    have "card Rg = unat (bm_total_pages (palloc x))" using card_image [OF inj] rg by (simp add: bitmap_region_def)
    moreover have "inj_on (page_addr GA_PAGE_SIZE (palloc x)) (fbits (bm_inner (palloc x)))"
      using inv inj by (auto simp: bitmap_inv_def intro: inj_on_subset)
    then have "card (bitmap_free fbits GA_PAGE_SIZE (palloc x)) = card (fbits (bm_inner (palloc x)))"
      by (simp add: bitmap_free_def card_image)
    ultimately show ?thesis using inv by (simp add: bitmap_inv_def)
  qed
  have "unat (bm_used_pages (palloc w')) = unat (bm_used_pages (palloc w))"
    using card [OF assms(1)] card [OF assms(2)] free by simp
  then show ?thesis using free by (simp add: word_unat_eq_iff)
qed

end

context page_table
begin

lemma drop_ok: "pt_inv P I M os_ok allocated s \<Longrightarrow> os_ok (drop_table I s)"
  unfolding drop_table_def by (rule dealloc_all [THEN conjunct2]) (auto simp: pt_inv_def pt_wf_def)

end

text \<open>The page tables of the three architectures over the allocator, for every direct map offset.\<close>

interpretation x64_kpt: page_table "X64 MFW ptf_word" x64_frame_ok x64_flags_ok x64_norm "PagingIfImpl list_bits C"
  "pi_ok (\<lambda>b. unat ` set b) (2 ^ 20) C x64_frame_ok Rg" "pi_allocated (\<lambda>b. unat ` set b) C" X64PagingMetaData for C Rg
  by (intro page_table.intro page_table_axioms.intro x64.generic_pte_axioms lb.paging_if_impl)
     (simp add: X64PagingMetaData_def)

interpretation rv_kpt: page_table "Rv64 MFW RVW" rv_frame_ok rv_flags_ok rv_norm "PagingIfImpl list_bits C"
  "pi_ok (\<lambda>b. unat ` set b) (2 ^ 20) C rv_frame_ok Rg" "pi_allocated (\<lambda>b. unat ` set b) C" Sv39MetaData for C Rg
  by (intro page_table.intro page_table_axioms.intro rv64.generic_pte_axioms lb.paging_if_impl)
     (simp add: Sv39MetaData_def)

interpretation a64_kpt: page_table "A64 MFW DAW False" a64_frame_ok a64_flags_ok "\<lambda>f. f" "PagingIfImpl list_bits C"
  "pi_ok (\<lambda>b. unat ` set b) (2 ^ 20) C a64_frame_ok Rg" "pi_allocated (\<lambda>b. unat ` set b) C" A64PagingMetaData for C Rg
  by (intro page_table.intro page_table_axioms.intro a64.generic_pte_axioms lb.paging_if_impl)
     (simp add: A64PagingMetaData_def)

section \<open>The kernel page table\<close>

definition region_ok :: "(PhysAddr \<Rightarrow> bool) \<Rightarrow> (MappingFlags \<Rightarrow> bool) \<Rightarrow> PagingMetaData \<Rightarrow> usize bitflags \<Rightarrow> usize bitflags
    \<Rightarrow> MemRegion \<Rightarrow> bool" where
  "region_ok frame_ok flags_ok M MF R r \<longleftrightarrow> phys_is_aligned (mr_paddr r) 0x1000 \<and> is_aligned (mr_size r) 0x1000 \<and>
     unat (mr_size r) \<le> 2 ^ va_bits M \<and> frames_ok frame_ok (mr_paddr r) (mr_size r) \<and>
     flags_ok (mapping_from_region MF R (mr_flags r))"

context page_table
begin

lemma remap_loop_post:
  assumes C: "is_aligned (PHYS_VIRT_OFFSET C) 0x1000"
  shows "pt_inv P I M os_ok allocated s \<Longrightarrow> \<forall>r \<in> set rs. region_ok frame_ok flags_ok M MF R r \<Longrightarrow>
    \<exists>res s'. remap_loop P I M MF R C rs s = Some (Ret (res, s')) \<and> pt_inv P I M os_ok allocated s' \<and>
      allocated (os s') - set (intrm_tables s') = allocated (os s) - set (intrm_tables s) \<and>
      (res = Ok () \<longrightarrow>
         (\<forall>va. mapping P I M s va \<noteq> None \<longrightarrow> mapping P I M s' va = mapping P I M s va) \<and>
         (\<forall>r \<in> set rs. \<forall>k < unat (mr_size r).
            page_hit P norm (mapping_from_region MF R (mr_flags r)) (mr_paddr r)
              (mem_phys_to_virt C (phys_add (mr_paddr r) (of_nat k))) k
              (mapping P I M s' (mem_phys_to_virt C (phys_add (mr_paddr r) (of_nat k))))))"
proof (induction rs arbitrary: s)
  case (Cons r rs)
  let ?va = "mem_phys_to_virt C (mr_paddr r)" and ?f = "mapping_from_region MF R (mr_flags r)"
  have r: "phys_is_aligned (mr_paddr r) 0x1000" "is_aligned (mr_size r) 0x1000" "unat (mr_size r) \<le> 2 ^ va_bits M"
    "frames_ok frame_ok (mr_paddr r) (mr_size r)" "flags_ok ?f"
    using Cons.prems(2) by (auto simp: region_ok_def)
  have va: "virt_is_aligned ?va 0x1000"
    using is_aligned_add [of 12 "phys_as_usize (mr_paddr r)" "PHYS_VIRT_OFFSET C"] r(1) C
    by (simp add: virt_is_aligned_def phys_is_aligned_def mem_phys_to_virt_def)
  obtain res1 s1 where loop: "map_region_loop P I M ?f True ?va (mr_paddr r) (mr_size r) s = Some (Ret (res1, s1))"
    and post: "region_post P I M os_ok allocated norm ?f ?va (mr_paddr r) (mr_size r) s res1 s1"
    using map_region_loop_post [OF r(5) Cons.prems(1) va r(1-4)] by blast
  have run: "map_region P I M ?va (mr_paddr r) (mr_size r) ?f True s = Some (Ret (res1, s1))"
    using loop va r(1,2) by (simp add: map_region_def)
  have inv1: "pt_inv P I M os_ok allocated s1"
    "allocated (os s1) - set (intrm_tables s1) = allocated (os s) - set (intrm_tables s)"
    using post by (simp_all add: region_post_def)
  show ?case
  proof (cases res1)
    case (Inl e)
    then show ?thesis using run inv1 by simp
  next
    case (Inr u)
    obtain res s' where tail: "remap_loop P I M MF R C rs s1 = Some (Ret (res, s'))" "pt_inv P I M os_ok allocated s'"
      "allocated (os s') - set (intrm_tables s') = allocated (os s1) - set (intrm_tables s1)"
      and ok: "res = Ok () \<longrightarrow>
         (\<forall>va. mapping P I M s1 va \<noteq> None \<longrightarrow> mapping P I M s' va = mapping P I M s1 va) \<and>
         (\<forall>r \<in> set rs. \<forall>k < unat (mr_size r).
            page_hit P norm (mapping_from_region MF R (mr_flags r)) (mr_paddr r)
              (mem_phys_to_virt C (phys_add (mr_paddr r) (of_nat k))) k
              (mapping P I M s' (mem_phys_to_virt C (phys_add (mr_paddr r) (of_nat k)))))"
      using Cons.IH [OF inv1(1)] Cons.prems(2) by auto
    have keep: "mapping P I M s1 va = mapping P I M s va" if "mapping P I M s va \<noteq> None" for va
      using that post Inr by (cases "va_dist M ?va va < unat (mr_size r)") (auto simp: region_post_def not_less)
    have hit: "page_hit P norm ?f (mr_paddr r) (mem_phys_to_virt C (phys_add (mr_paddr r) (of_nat k))) k
        (mapping P I M s1 (mem_phys_to_virt C (phys_add (mr_paddr r) (of_nat k))))" if k: "k < unat (mr_size r)" for k
    proof -
      have "va_dist M ?va (mem_phys_to_virt C (phys_add (mr_paddr r) (of_nat k))) = unat (take_bit (va_bits M) (of_nat k :: usize))"
        by (simp add: va_dist_def mem_phys_to_virt_def phys_add_def)
      also have "\<dots> = k"
        using k r(3) unat_lt [of "mr_size r"] by (simp add: unsigned_take_bit_eq unat_of_nat_usize take_bit_nat_eq_self)
      finally have d: "va_dist M ?va (mem_phys_to_virt C (phys_add (mr_paddr r) (of_nat k))) = k" .
      from post Inr have "\<forall>va'. va_dist M ?va va' < unat (mr_size r) \<longrightarrow>
          page_hit P norm ?f (mr_paddr r) va' (va_dist M ?va va') (mapping P I M s1 va')"
        by (simp add: region_post_def)
      from this [rule_format, of "mem_phys_to_virt C (phys_add (mr_paddr r) (of_nat k))"] show ?thesis using k unfolding d .
    qed
    have some: "mapping P I M s1 va \<noteq> None" if "page_hit P norm f pa va k (mapping P I M s1 va)" for f pa va k
      using that by (auto simp: page_hit_def)
    have A: "mapping P I M s' va = mapping P I M s va" if "res = Ok ()" "mapping P I M s va \<noteq> None" for va
      using ok keep [OF that(2)] that by simp
    have B: "page_hit P norm (mapping_from_region MF R (mr_flags r')) (mr_paddr r')
        (mem_phys_to_virt C (phys_add (mr_paddr r') (of_nat k))) k
        (mapping P I M s' (mem_phys_to_virt C (phys_add (mr_paddr r') (of_nat k))))"
      if "res = Ok ()" "r' \<in> set (r # rs)" "k < unat (mr_size r')" for r' k
    proof (cases "r' \<in> set rs")
      case False
      then have "r' = r" using that(2) by simp
      then show ?thesis using ok that hit [of k] some [OF hit [of k]] by simp
    next
      case True
      then show ?thesis using ok that(1,3) by simp
    qed
    have "remap_loop P I M MF R C (r # rs) s = Some (Ret (res, s'))" using run Inr tail(1) by simp
    moreover have "allocated (os s') - set (intrm_tables s') = allocated (os s) - set (intrm_tables s)"
      using tail(3) inv1(2) by simp
    ultimately show ?thesis using tail(2) A B
      by (intro exI [of _ res] exI [of _ s'] conjI impI allI ballI) assumption+
  qed
qed simp

end

context page_table
begin

lemma remap_kernel_memory_post:
  assumes C: "is_aligned (PHYS_VIRT_OFFSET C) 0x1000" and w: "os_ok (os w)"
    and rs: "\<forall>r \<in> set rs. region_ok frame_ok flags_ok M MF R r"
  shows "\<exists>res kpt w'. remap_kernel_memory P I M MF R C True rs None w = Some (Ret (res, kpt, w')) \<and>
    (case res of
       Err _ \<Rightarrow> kpt = None \<and> allocated (os w') = allocated (os w)
     | Ok root \<Rightarrow> \<exists>s. kpt = Some s \<and> root = root_paddr s \<and> pt_inv P I M os_ok allocated s \<and>
         (\<forall>r \<in> set rs. \<forall>k < unat (mr_size r). \<exists>psz.
            query P I M (mem_phys_to_virt C (phys_add (mr_paddr r) (of_nat k))) s
              = Ret (Ok (phys_add (mr_paddr r) (of_nat k), norm (mapping_from_region MF R (mr_flags r)), psz))))"
proof (cases "try_new P I w")
  case (Pair x w1)
  show ?thesis
  proof (cases x)
    case (Inl e)
    have "alloc_frame I (os w) = (None, os w1)"
      using Pair Inl by (cases "alloc_frame I (os w)"; cases "fst (alloc_frame I (os w))") (auto simp: try_new_def alloc_table_def Let_def)
    then have "allocated (os w1) = allocated (os w)" using alloc_none [OF w] by blast
    then show ?thesis using Pair Inl by (simp add: remap_kernel_memory_def)
  next
    case (Inr s0)
    then have new: "try_new P I w = (Ok s0, w1)" using Pair by simp
    note s0 = try_new_post [OF new w]
    obtain res s where loop: "remap_loop P I M MF R C rs s0 = Some (Ret (res, s))" and inv: "pt_inv P I M os_ok allocated s"
      and al: "allocated (os s) - set (intrm_tables s) = allocated (os s0) - set (intrm_tables s0)"
      and ok: "res = Ok () \<longrightarrow> (\<forall>r \<in> set rs. \<forall>k < unat (mr_size r).
            page_hit P norm (mapping_from_region MF R (mr_flags r)) (mr_paddr r)
              (mem_phys_to_virt C (phys_add (mr_paddr r) (of_nat k))) k
              (mapping P I M s (mem_phys_to_virt C (phys_add (mr_paddr r) (of_nat k)))))"
      using remap_loop_post [OF C s0(1) rs] by blast
    show ?thesis
    proof (cases res)
      case (Inl e)
      have "allocated (drop_table I s) = allocated (os w)" using drop_frees [OF inv] al s0(3) by simp
      then show ?thesis using new loop Inl by (simp add: remap_kernel_memory_def)
    next
      case (Inr u)
      have "\<exists>psz. query P I M va s = Ret (Ok (phys_add pa (of_nat k), norm f, psz))"
        if "page_hit P norm f pa va k (mapping P I M s va)" for f pa va k
        using that unfolding query_mapping [OF inv] page_hit_def by auto
      then show ?thesis using new loop Inr ok inv by (simp add: remap_kernel_memory_def)
    qed
  qed
qed

end

text \<open>A kernel with four free pages and the direct map at 2 GiB.\<close>

definition demo_config :: AxConfig where
  "demo_config = \<lparr>PHYS_VIRT_OFFSET = 0x80000000, PHYS_MEMORY_END = 0x10000, MMIO_REGIONS = []\<rparr>"

definition demo_kernel :: "(X64PTE, (FirstFit, usize list) GlobalAllocator) world" where
  "demo_kernel = \<lparr>tables = (\<lambda>_ _. X64PTE 0), os = \<lparr>balloc = slab_byte_new (\<lambda>_. None), palloc = demo_bitmap\<rparr>\<rparr>"

lemma demo_kernel_ok:
  "pi_ok (\<lambda>b. unat ` set b) (2 ^ 20) demo_config x64_frame_ok (bitmap_region GA_PAGE_SIZE demo_bitmap) (os demo_kernel)"
proof -
  have "{..<4 :: nat} = {0, 1, 2, 3}" by auto
  then show ?thesis using demo_bitmap_inv
    by (simp add: pi_ok_def demo_kernel_def GA_PAGE_SIZE_def bitmap_region_def page_addr_def demo_bitmap_def v2p_def
        mem_virt_to_phys_def demo_config_def x64_frame_ok_def X64_PHYS_ADDR_MASK_def)
qed

lemma demo_kernel_new:
  "\<exists>s w. try_new demo_pte (PagingIfImpl list_bits demo_config) demo_kernel = (Ok s, w)"
  by (simp add: try_new_def alloc_table_def PagingIfImpl_def pi_alloc_frame_def pi_alloc_frames_at_def ga_alloc_pages_def
      bitmap_alloc_pages_def list_bits_def demo_kernel_def demo_bitmap_def GA_PAGE_SIZE_def PAGE_SIZE_4K_def power_of_two_page Let_def)

definition demo_regions :: "MemRegion list" where
  "demo_regions = [\<lparr>mr_paddr = PhysAddr 0x1000, mr_size = 0x2000, mr_flags = MRF_READ OR MRF_EXECUTE, mr_name = ''.text''\<rparr>]"

lemma demo_regions_ok: "\<forall>r \<in> set demo_regions. region_ok x64_frame_ok x64_flags_ok X64PagingMetaData MFW (word_bitflags MRF_ALL) r"
proof -
  have "frames_ok x64_frame_ok (PhysAddr 0x1000) 0x2000"
  proof (unfold frames_ok_def, intro allI impI)
    fix k :: nat assume "k * 4096 < unat (0x2000 :: usize)"
    then have "k = 0 \<or> k = 1" by simp arith
    then show "x64_frame_ok (phys_add (PhysAddr 0x1000) (word_of_nat (k * 4096)))"
      by (auto simp: x64_frame_ok_def phys_add_def X64_PHYS_ADDR_MASK_def)
  qed
  then show ?thesis
    by (simp add: demo_regions_def region_ok_def phys_is_aligned_def is_aligned_def align_offset_def va_bits_def X64PagingMetaData_def
        mapping_from_region_def Let_def x64_flags_ok_def word_bitflags_def MF_ALL_eq MRF_ALL_def flag_simps)
qed

section \<open>Properties\<close>



text \<open>
  C29: \<open>remap_kernel_memory\<close> on the primary CPU always returns. When it succeeds, every byte of every memory region is
  mapped at its direct-map address to itself, with the permissions of the region, whatever the order and number of the
  regions; when it fails for want of memory, every frame it took is given back and no kernel page table is installed.
\<close>

theorem remap_kernel_memory_maps_all:
  assumes "page_table P frame_ok flags_ok norm I os_ok allocated M"
    and "is_aligned (PHYS_VIRT_OFFSET C) 0x1000" "os_ok (os w)"
    and "\<forall>r \<in> set rs. region_ok frame_ok flags_ok M MF R r"
  shows "\<exists>res kpt w'. remap_kernel_memory P I M MF R C True rs None w = Some (Ret (res, kpt, w')) \<and>
    (case res of
       Err _ \<Rightarrow> kpt = None \<and> allocated (os w') = allocated (os w)
     | Ok root \<Rightarrow> \<exists>s. kpt = Some s \<and> root = root_paddr s \<and> pt_inv P I M os_ok allocated s \<and>
         (\<forall>r \<in> set rs. \<forall>k < unat (mr_size r). \<exists>psz.
            query P I M (mem_phys_to_virt C (phys_add (mr_paddr r) (of_nat k))) s
              = Ret (Ok (phys_add (mr_paddr r) (of_nat k), norm (mapping_from_region MF R (mr_flags r)), psz))))"
  using assms by (rule page_table.remap_kernel_memory_post)

theorem remap_kernel_memory_maps_all_witness:
  "\<exists>res kpt w'. remap_kernel_memory demo_pte (PagingIfImpl list_bits demo_config) X64PagingMetaData MFW (word_bitflags MRF_ALL) demo_config True
      demo_regions None demo_kernel = Some (Ret (res, kpt, w')) \<and>
    (case res of
       Err _ \<Rightarrow> kpt = None
     | Ok root \<Rightarrow> \<exists>s psz. kpt = Some s \<and> query demo_pte (PagingIfImpl list_bits demo_config) X64PagingMetaData (VirtAddr 0x80001234) s
              = Ret (Ok (PhysAddr 0x1234, 5, psz)))"
proof -
  have al: "is_aligned (PHYS_VIRT_OFFSET demo_config) 0x1000" by (simp add: demo_config_def is_aligned_def align_offset_def)
  note maps = remap_kernel_memory_maps_all [OF x64_kpt.page_table_axioms al demo_kernel_ok demo_regions_ok]
  have "x64_norm (mapping_from_region MFW (word_bitflags MRF_ALL) (MRF_READ OR MRF_EXECUTE)) = 5"
    by (simp add: mapping_from_region_def Let_def word_bitflags_def MF_ALL_eq MRF_ALL_def flag_simps x64_norm_def)
  then show ?thesis
    using maps
    apply (elim exE conjE)
    subgoal for res kpt w'
      apply (rule exI [of _ res], rule exI [of _ kpt], rule exI [of _ w'])
      apply (cases res)
       apply (auto simp: demo_regions_def mem_phys_to_virt_def phys_add_def demo_config_def dest: spec [of _ "0x234"])
      done
    done
qed

end
