(* ===== verification/LinkedList.thy ===== *)
theory LinkedList
  imports Prelude
begin

text \<open>
  Model of the crate \<open>linked_list\<close> (src/crates/linked_list/src): the intrusive circular doubly-linked list of
  unsafe_list.rs with its cursors and iterators, and the owning list of linked_list.rs on top of it.

  Entries are pointers. The links of every entry are memory: \<open>links p\<close> is the \<open>LinksInner\<close> stored in the
  entry at \<open>p\<close>, or \<open>None\<close> while it is uninitialised. Reading uninitialised links is undefined behaviour in
  the code and \<open>Panic\<close> here, so that a proof that an operation returns also shows that it never does this.
  The smart pointer that wraps an entry (\<open>Wrapper\<close>) is represented by the pointer.
\<close>

section \<open>The intrusive list\<close>

record 'p LinksInner =
  lnext :: 'p
  lprev :: 'p

record 'p ulist =
  links :: "'p \<Rightarrow> 'p LinksInner option"
  first :: "'p option"

definition ul_new :: "('p \<Rightarrow> 'p LinksInner option) \<Rightarrow> 'p ulist" where
  "ul_new h = \<lparr>links = h, first = None\<rparr>"

definition ul_is_empty :: "'p ulist \<Rightarrow> bool" where
  "ul_is_empty self = (first self = None)"

definition links_new :: "'p LinksInner option" where
  "links_new = None"

definition inner_ref :: "'p ulist \<Rightarrow> 'p \<Rightarrow> 'p LinksInner outcome" where
  "inner_ref self ptr = (case links self ptr of None \<Rightarrow> Panic | Some l \<Rightarrow> Ret l)"

text \<open>A write through the reference that \<open>inner\<close> returns.\<close>

definition inner :: "'p ulist \<Rightarrow> 'p \<Rightarrow> ('p LinksInner \<Rightarrow> 'p LinksInner) \<Rightarrow> 'p ulist outcome" where
  "inner self ptr f =
     (case links self ptr of None \<Rightarrow> Panic | Some l \<Rightarrow> Ret (self\<lparr>links := (links self)(ptr := Some (f l))\<rparr>))"

definition insert_only_entry :: "'p \<Rightarrow> 'p ulist \<Rightarrow> 'p ulist" where
  "insert_only_entry obj self =
     self\<lparr>links := (links self)(obj := Some \<lparr>lnext = obj, lprev = obj\<rparr>), first := Some obj\<rparr>"

definition ul_insert_after :: "'p \<Rightarrow> 'p \<Rightarrow> 'p ulist \<Rightarrow> 'p ulist outcome" where
  "ul_insert_after existing new self =
     out_then (inner_ref self existing) (\<lambda>existing_inner.
       let next = lnext existing_inner;
           self = self\<lparr>links := (links self)(new := Some \<lparr>lnext = next, lprev = existing\<rparr>)\<rparr>
       in out_then (inner self existing (lnext_update (\<lambda>_. new))) (\<lambda>self.
            inner self next (lprev_update (\<lambda>_. new))))"

definition ul_insert_before :: "'p \<Rightarrow> 'p \<Rightarrow> 'p ulist \<Rightarrow> 'p ulist outcome" where
  "ul_insert_before existing new self =
     out_then (inner_ref self existing) (\<lambda>l.
       out_then (ul_insert_after (lprev l) new self) (\<lambda>self.
         case first self of
           None \<Rightarrow> Panic
         | Some f \<Rightarrow> Ret (if f = existing then self\<lparr>first := Some new\<rparr> else self)))"

definition ul_push_back :: "'p \<Rightarrow> 'p ulist \<Rightarrow> 'p ulist outcome" where
  "ul_push_back obj self =
     (case first self of
        Some f \<Rightarrow> out_then (inner_ref self f) (\<lambda>l. ul_insert_after (lprev l) obj self)
      | None \<Rightarrow> Ret (insert_only_entry obj self))"

definition ul_push_front :: "'p \<Rightarrow> 'p ulist \<Rightarrow> 'p ulist outcome" where
  "ul_push_front obj self =
     (case first self of
        Some f \<Rightarrow> ul_insert_before f obj self
      | None \<Rightarrow> Ret (insert_only_entry obj self))"

definition ul_remove :: "'p \<Rightarrow> 'p ulist \<Rightarrow> 'p ulist outcome" where
  "ul_remove entry self =
     out_then (inner_ref self entry) (\<lambda>l.
       let next = lnext l; prev = lprev l;
           self = self\<lparr>links := (links self)(entry := None)\<rparr>
       in if next = entry then Ret (self\<lparr>first := None\<rparr>)
          else out_then (inner self prev (lnext_update (\<lambda>_. next))) (\<lambda>self.
            out_then (inner self next (lprev_update (\<lambda>_. prev))) (\<lambda>self.
              case first self of
                None \<Rightarrow> Panic
              | Some f \<Rightarrow> Ret (if f = entry then self\<lparr>first := Some next\<rparr> else self))))"

definition ul_front :: "'p ulist \<Rightarrow> 'p option" where
  "ul_front self = first self"

definition ul_back :: "'p ulist \<Rightarrow> 'p option outcome" where
  "ul_back self =
     (case first self of None \<Rightarrow> Ret None | Some f \<Rightarrow> out_then (inner_ref self f) (\<lambda>l. Ret (Some (lprev l))))"

subsection \<open>Cursors and iterators\<close>

text \<open>A cursor is its current entry, \<open>None\<close> past either end.\<close>

definition move_next :: "'p ulist \<Rightarrow> 'p option \<Rightarrow> 'p option outcome" where
  "move_next list cur =
     (case cur of
        None \<Rightarrow> Ret (first list)
      | Some cur \<Rightarrow>
          (case first list of
             None \<Rightarrow> Ret None
           | Some head \<Rightarrow>
               out_then (inner_ref list cur) (\<lambda>links.
                 if lnext links \<noteq> head then Ret (Some (lnext links)) else Ret None)))"

definition move_prev :: "'p ulist \<Rightarrow> 'p option \<Rightarrow> 'p option outcome" where
  "move_prev list cur =
     (case first list of
        None \<Rightarrow> Ret None
      | Some head \<Rightarrow>
          (if cur = Some head then Ret None
           else (let next = (case cur of None \<Rightarrow> head | Some cur \<Rightarrow> cur)
                 in out_then (inner_ref list next) (\<lambda>links. Ret (Some (lprev links))))))"

definition cursor_front :: "'p ulist \<Rightarrow> 'p option" where
  "cursor_front self = ul_front self"

definition cursor_back :: "'p ulist \<Rightarrow> 'p option outcome" where
  "cursor_back self = ul_back self"

text \<open>One call of the iterator: the item and the cursor after it.\<close>

definition iter_next :: "'p ulist \<Rightarrow> 'p option \<Rightarrow> ('p \<times> 'p option) option outcome" where
  "iter_next list cur =
     (case cur of None \<Rightarrow> Ret None | Some ret \<Rightarrow> out_then (move_next list cur) (\<lambda>cur. Ret (Some (ret, cur))))"

definition iter_next_back :: "'p ulist \<Rightarrow> 'p option \<Rightarrow> ('p \<times> 'p option) option outcome" where
  "iter_next_back list cur =
     (case cur of None \<Rightarrow> Ret None | Some ret \<Rightarrow> out_then (move_prev list cur) (\<lambda>cur. Ret (Some (ret, cur))))"

text \<open>A \<open>for\<close> loop over an iterator collects its items; \<open>None\<close> if \<open>fuel\<close> calls do not exhaust it.\<close>

fun iterate :: "('p option \<Rightarrow> ('p \<times> 'p option) option outcome) \<Rightarrow> nat \<Rightarrow> 'p option \<Rightarrow> 'p list outcome option" where
  "iterate step 0 cur = None"
| "iterate step (Suc fuel) cur =
     (case step cur of
        Panic \<Rightarrow> Some Panic
      | Ret None \<Rightarrow> Some (Ret [])
      | Ret (Some (x, cur')) \<Rightarrow> map_option (\<lambda>r. out_then r (\<lambda>xs. Ret (x # xs))) (iterate step fuel cur'))"

section \<open>The owning list\<close>

definition list_push_back :: "'p \<Rightarrow> 'p ulist \<Rightarrow> 'p ulist outcome" where
  "list_push_back data self = ul_push_back data self"

definition list_insert_after :: "'p \<Rightarrow> 'p \<Rightarrow> 'p ulist \<Rightarrow> 'p ulist outcome" where
  "list_insert_after existing data self = ul_insert_after existing data self"

definition list_remove :: "'p \<Rightarrow> 'p ulist \<Rightarrow> ('p option \<times> 'p ulist) outcome" where
  "list_remove data self = out_then (ul_remove data self) (\<lambda>self. Ret (Some data, self))"

definition list_pop_front :: "'p ulist \<Rightarrow> ('p option \<times> 'p ulist) outcome" where
  "list_pop_front self =
     (case ul_front self of
        None \<Rightarrow> Ret (None, self)
      | Some entry \<Rightarrow> out_then (ul_remove entry self) (\<lambda>self. Ret (Some entry, self)))"

definition list_front :: "'p ulist \<Rightarrow> 'p option" where
  "list_front self = ul_front self"

definition list_back :: "'p ulist \<Rightarrow> 'p option outcome" where
  "list_back self = ul_back self"

text \<open>\<open>Drop\<close> pops until the list is empty; the result holds the entries that were popped.\<close>

partial_function (option) list_drop :: "'p ulist \<Rightarrow> ('p list \<times> 'p ulist) outcome option" where
  "list_drop self =
     (case list_pop_front self of
        Panic \<Rightarrow> Some Panic
      | Ret (None, self) \<Rightarrow> Some (Ret ([], self))
      | Ret (Some x, self) \<Rightarrow>
          Option.bind (list_drop self) (\<lambda>r. Some (out_then r (\<lambda>(xs, self). Ret (x # xs, self)))))"

section \<open>Lists of entries\<close>

text \<open>
  \<open>dcyc h xs\<close>: the links in memory \<open>h\<close> form the ring through \<open>xs\<close>. \<open>dlist s xs\<close>: the list \<open>s\<close> holds exactly
  \<open>xs\<close>, in this order.
\<close>

definition lk :: "('p \<Rightarrow> 'p LinksInner option) \<Rightarrow> 'p \<Rightarrow> 'p \<Rightarrow> bool" where
  "lk h a b \<longleftrightarrow> map_option lnext (h a) = Some b \<and> map_option lprev (h b) = Some a"

definition dcyc :: "('p \<Rightarrow> 'p LinksInner option) \<Rightarrow> 'p list \<Rightarrow> bool" where
  "dcyc h xs \<longleftrightarrow> distinct xs \<and> successively (lk h) xs \<and> (xs \<noteq> [] \<longrightarrow> lk h (last xs) (hd xs))"

definition dlist :: "'p ulist \<Rightarrow> 'p list \<Rightarrow> bool" where
  "dlist s xs \<longleftrightarrow> dcyc (links s) xs \<and> first s = (case xs of [] \<Rightarrow> None | x # _ \<Rightarrow> Some x)"

lemma successively_transfer:
  assumes "successively P xs" "\<And>a b. a \<in> set (butlast xs) \<Longrightarrow> b \<in> set (tl xs) \<Longrightarrow> P a b \<Longrightarrow> Q a b"
  shows "successively Q xs"
  using assms
proof (induction xs rule: induct_list012)
  case (3 x y zs)
  have "successively Q (y # zs)" by (rule "3.IH"(2)) (use "3.prems" in \<open>auto split: if_splits\<close>)
  moreover have "Q x y" using "3.prems" by simp
  ultimately show ?case by simp
qed simp_all

lemma dcyc_rotate: "dcyc h (xs @ ys) \<Longrightarrow> dcyc h (ys @ xs)"
  by (cases "xs = []"; cases "ys = []") (auto simp: dcyc_def successively_append_iff)

lemma dcyc_links: "dcyc h xs \<Longrightarrow> x \<in> set xs \<Longrightarrow> h x \<noteq> None"
proof -
  assume d: "dcyc h xs" and "x \<in> set xs"
  then obtain us vs where "xs = us @ x # vs" by (auto simp: in_set_conv_decomp)
  then have "dcyc h ((x # vs) @ us)" using d dcyc_rotate by blast
  then show ?thesis by (auto simp: dcyc_def lk_def)
qed

text \<open>The ring with the entry \<open>e\<close> in last place, and the entries next to it.\<close>

lemma dcyc_last:
  assumes "dcyc h (zs @ [e])"
  shows "\<exists>l. h e = Some l \<and> lnext l = hd (zs @ [e]) \<and> lprev l = last (e # zs)"
proof -
  have "lk h e (hd (zs @ [e]))" using assms by (simp add: dcyc_def)
  moreover have "lk h (last (e # zs)) e"
    using assms by (cases "zs = []") (auto simp: dcyc_def successively_append_iff)
  ultimately show ?thesis by (auto simp: lk_def)
qed

lemma dcyc_frame: "dcyc h xs \<Longrightarrow> (\<And>x. x \<in> set xs \<Longrightarrow> h' x = h x) \<Longrightarrow> dcyc h' xs"
proof -
  assume d: "dcyc h xs" and e: "\<And>x. x \<in> set xs \<Longrightarrow> h' x = h x"
  have "successively (lk h') xs"
    using d unfolding dcyc_def
    by (auto intro!: successively_transfer [of "lk h" xs "lk h'"] simp: lk_def e dest: in_set_butlastD list.set_sel(2))
  then show ?thesis using d e by (auto simp: dcyc_def lk_def)
qed

text \<open>Inserting behind the last entry of the ring and removing the last entry of the ring.\<close>

lemma ring_insert:
  assumes d: "dcyc (links s) (zs @ [e])" and x: "x \<notin> set (zs @ [e])"
  shows "\<exists>s'. ul_insert_after e x s = Ret s' \<and> dcyc (links s') (zs @ [e, x]) \<and> first s' = first s
    \<and> (\<forall>p. p \<notin> set (zs @ [e, x]) \<longrightarrow> links s' p = links s p)"
proof -
  let ?h = "links s" and ?f = "hd (zs @ [e])"
  obtain l where l: "?h e = Some l" "lnext l = ?f" using dcyc_last [OF d] by blast
  have "?f \<in> set (zs @ [e])" by (cases zs) auto
  then obtain m where m: "?h ?f = Some m" using dcyc_links [OF d] by auto
  have dis: "distinct (zs @ [e])" and su: "successively (lk ?h) (zs @ [e])" using d by (simp_all add: dcyc_def)
  have xs: "x \<noteq> e" "x \<noteq> ?f" "x \<notin> set zs" using x \<open>?f \<in> _\<close> by auto
  define h3 where "h3 = (?h(x \<mapsto> \<lparr>lnext = ?f, lprev = e\<rparr>, e \<mapsto> l\<lparr>lnext := x\<rparr>))
      (?f \<mapsto> (if ?f = e then l\<lparr>lnext := x\<rparr> else m)\<lparr>lprev := x\<rparr>)"
  have ret: "ul_insert_after e x s = Ret (s\<lparr>links := h3\<rparr>)"
    using l m xs by (auto simp: ul_insert_after_def inner_ref_def inner_def Let_def h3_def)
  have nth: "map_option lnext (h3 a) = map_option lnext (?h a)" if "a \<noteq> e" "a \<noteq> x" for a
    using that m by (auto simp: h3_def)
  have prv: "map_option lprev (h3 b) = map_option lprev (?h b)" if "b \<noteq> ?f" "b \<noteq> x" for b
    using that l by (auto simp: h3_def)
  have "successively (lk h3) (zs @ [e])"
  proof (rule successively_transfer [OF su])
    fix a b assume a: "a \<in> set (butlast (zs @ [e]))" and b: "b \<in> set (tl (zs @ [e]))" and "lk ?h a b"
    moreover have "a \<noteq> e" "a \<noteq> x" using a dis xs by auto
    moreover have "b \<noteq> ?f" "b \<noteq> x" using b dis x by (cases zs; auto)+
    ultimately show "lk h3 a b" by (simp add: lk_def nth prv)
  qed
  moreover have "lk h3 e x" "lk h3 x ?f" using xs l m by (auto simp: lk_def h3_def)
  ultimately have "dcyc h3 ((zs @ [e]) @ [x])"
    using dis xs unfolding dcyc_def successively_append_iff [of _ "zs @ [e]" "[x]"] by (cases zs; auto)
  then show ?thesis using ret \<open>?f \<in> _\<close> by (auto simp: h3_def)
qed

lemma ring_remove:
  assumes d: "dcyc (links s) (zs @ [e])" and z: "zs \<noteq> []" and fs: "first s = Some f"
  shows "\<exists>s'. ul_remove e s = Ret s' \<and> dcyc (links s') zs
    \<and> first s' = (if f = e then Some (hd zs) else first s)
    \<and> (\<forall>p. p \<notin> set zs \<longrightarrow> links s' p = (if p = e then None else links s p))"
proof -
  let ?h = "links s" and ?n = "hd zs" and ?q = "last zs"
  obtain l where l: "?h e = Some l" "lnext l = ?n" "lprev l = ?q" using dcyc_last [OF d] z by auto
  have n: "?n \<in> set zs" "?q \<in> set zs" using z by simp_all
  have dis: "distinct (zs @ [e])" and su: "successively (lk ?h) (zs @ [e])" using d by (simp_all add: dcyc_def)
  then have ne: "?n \<noteq> e" "?q \<noteq> e" "e \<notin> set zs" using n by auto
  obtain a b where a: "?h ?q = Some a" and b: "?h ?n = Some b"
    using n dcyc_links [OF d, of ?q] dcyc_links [OF d, of ?n] by auto
  define h3 where "h3 = (?h(e := None, ?q \<mapsto> a\<lparr>lnext := ?n\<rparr>))
      (?n \<mapsto> (if ?n = ?q then a\<lparr>lnext := ?n\<rparr> else b)\<lparr>lprev := ?q\<rparr>)"
  have ret: "ul_remove e s = Ret (s\<lparr>links := h3, first := if f = e then Some ?n else first s\<rparr>)"
    using l a b ne fs by (auto simp: ul_remove_def inner_ref_def inner_def Let_def h3_def)
  have su': "successively (lk h3) zs"
  proof (rule successively_transfer)
    show "successively (lk ?h) zs" using su by (simp add: successively_append_iff)
    fix p r assume p: "p \<in> set (butlast zs)" and r: "r \<in> set (tl zs)" and "lk ?h p r"
    moreover have "distinct (butlast zs @ [?q])" using dis z by simp
    then have "p \<noteq> ?q" using p by auto
    moreover have "r \<noteq> ?n" using r dis z by (cases zs) auto
    moreover have "p \<noteq> e" "r \<noteq> e" using p r ne z by (auto dest: in_set_butlastD list.set_sel(2))
    ultimately show "lk h3 p r" using a b by (auto simp: lk_def h3_def)
  qed
  have "lk h3 ?q ?n" by (auto simp: lk_def h3_def)
  then have "dcyc h3 zs" using su' dis by (simp add: dcyc_def)
  then show ?thesis using ret n by (auto simp: h3_def)
qed

text \<open>The operations on the list, wherever the entry is in it.\<close>

lemma insert_after_dlist:
  assumes s: "dlist s (us @ e # vs)" and x: "x \<notin> set (us @ e # vs)"
  shows "\<exists>s'. ul_insert_after e x s = Ret s' \<and> dlist s' (us @ e # x # vs)
    \<and> (\<forall>p. p \<notin> set (us @ e # x # vs) \<longrightarrow> links s' p = links s p)"
proof -
  have "dcyc (links s) ((us @ [e]) @ vs)" using s by (simp add: dlist_def)
  then have "dcyc (links s) ((vs @ us) @ [e])" using dcyc_rotate [of _ "us @ [e]" vs] by simp
  from ring_insert [OF this, of x] x obtain s' where
    s': "ul_insert_after e x s = Ret s'" "dcyc (links s') ((vs @ us) @ [e, x])" "first s' = first s"
    "\<forall>p. p \<notin> set ((vs @ us) @ [e, x]) \<longrightarrow> links s' p = links s p" by auto
  have "dcyc (links s') (us @ e # x # vs)" using s'(2) dcyc_rotate [of _ vs "us @ [e, x]"] by simp
  then show ?thesis using s' s by (cases us) (auto simp: dlist_def)
qed

lemma insert_before_dlist:
  assumes s: "dlist s (us @ e # vs)" and x: "x \<notin> set (us @ e # vs)"
  shows "\<exists>s'. ul_insert_before e x s = Ret s' \<and> dlist s' (us @ x # e # vs)
    \<and> (\<forall>p. p \<notin> set (us @ x # e # vs) \<longrightarrow> links s' p = links s p)"
proof -
  have "dcyc (links s) ((us @ [e]) @ vs)" using s by (simp add: dlist_def)
  then have r: "dcyc (links s) ((vs @ us) @ [e])" using dcyc_rotate [of _ "us @ [e]" vs] by simp
  obtain l where l: "links s e = Some l" "lprev l = last (e # vs @ us)" using dcyc_last [OF r] by auto
  define q where "q = lprev l"
  have f: "first s = Some (hd (us @ [e]))" using s by (cases us) (auto simp: dlist_def)
  define ws where "ws = butlast (e # vs @ us)"
  have ws: "ws @ [q] = e # vs @ us" using l(2) by (simp add: ws_def q_def)
  have "dcyc (links s) (ws @ [q])" unfolding ws using r dcyc_rotate [of _ "vs @ us" "[e]"] by simp
  moreover have "x \<notin> set (ws @ [q])" unfolding ws using x by auto
  ultimately obtain s' where s': "ul_insert_after q x s = Ret s'" "dcyc (links s') (ws @ [q, x])" "first s' = first s"
    "\<forall>p. p \<notin> set (ws @ [q, x]) \<longrightarrow> links s' p = links s p" using ring_insert [of s ws q x] by blast
  have wsx: "ws @ [q, x] = (e # vs) @ (us @ [x])" using arg_cong [OF ws, of "\<lambda>z. z @ [x]"] by simp
  have ring: "dcyc (links s') (us @ x # e # vs)" using s'(2) dcyc_rotate [of _ "e # vs" "us @ [x]"] unfolding wsx by simp
  define s2 where "s2 = (if hd (us @ [e]) = e then s'\<lparr>first := Some x\<rparr> else s')"
  have "ul_insert_before e x s = Ret s2"
    using l(1) s'(1,3) f by (simp add: ul_insert_before_def inner_ref_def q_def s2_def)
  moreover have "hd (us @ [e]) = e \<longleftrightarrow> us = []"
    using s by (cases us) (auto simp: dlist_def dcyc_def)
  then have "dlist s2 (us @ x # e # vs)" using ring s'(3) f by (cases us) (auto simp: dlist_def s2_def)
  moreover have "\<forall>p. p \<notin> set (us @ x # e # vs) \<longrightarrow> links s2 p = links s p"
    using s'(4) unfolding wsx by (auto simp: s2_def)
  ultimately show ?thesis by blast
qed

lemma remove_dlist:
  assumes s: "dlist s (us @ e # vs)"
  shows "\<exists>s'. ul_remove e s = Ret s' \<and> dlist s' (us @ vs)
    \<and> (\<forall>p. p \<notin> set (us @ vs) \<longrightarrow> links s' p = (if p = e then None else links s p))"
proof -
  have "dcyc (links s) ((us @ [e]) @ vs)" using s by (simp add: dlist_def)
  then have r: "dcyc (links s) ((vs @ us) @ [e])" using dcyc_rotate [of _ "us @ [e]" vs] by simp
  have f: "first s = Some (hd (us @ [e]))" using s by (cases us) (auto simp: dlist_def)
  have dis: "distinct (us @ e # vs)" using s by (simp add: dlist_def dcyc_def)
  show ?thesis
  proof (cases "vs @ us = []")
    case True
    then obtain l where "links s e = Some l" "lnext l = e" using dcyc_last [OF r] by auto
    then have "ul_remove e s = Ret (s\<lparr>links := (links s)(e := None), first := None\<rparr>)"
      by (simp add: ul_remove_def inner_ref_def Let_def)
    then show ?thesis using True by (simp add: dlist_def dcyc_def)
  next
    case False
    from ring_remove [OF r False f] obtain s' where s': "ul_remove e s = Ret s'" "dcyc (links s') (vs @ us)"
      "first s' = (if hd (us @ [e]) = e then Some (hd (vs @ us)) else first s)"
      "\<forall>p. p \<notin> set (vs @ us) \<longrightarrow> links s' p = (if p = e then None else links s p)" by blast
    have "dcyc (links s') (us @ vs)" using s'(2) by (rule dcyc_rotate)
    moreover have "first s' = (case us @ vs of [] \<Rightarrow> None | x # _ \<Rightarrow> Some x)"
      using s'(3) f dis False by (cases us; cases vs) auto
    ultimately show ?thesis using s' by (auto simp: dlist_def)
  qed
qed

lemma push_back_dlist:
  assumes s: "dlist s xs" and x: "x \<notin> set xs"
  shows "\<exists>s'. ul_push_back x s = Ret s' \<and> dlist s' (xs @ [x])
    \<and> (\<forall>p. p \<notin> set (xs @ [x]) \<longrightarrow> links s' p = links s p)"
proof (cases xs)
  case Nil
  then show ?thesis using s
    by (auto simp: ul_push_back_def insert_only_entry_def dlist_def dcyc_def lk_def)
next
  case (Cons f ys)
  have f: "first s = Some f" and r: "dcyc (links s) (f # ys)" using s Cons by (simp_all add: dlist_def)
  have "dcyc (links s) (ys @ [f])" using r dcyc_rotate [of _ "[f]" ys] by simp
  then obtain l where l: "links s f = Some l" "lprev l = last xs" using dcyc_last [of "links s" ys f] Cons by auto
  have xs: "xs = butlast xs @ last xs # []" using Cons by simp
  from insert_after_dlist [of s "butlast xs" "last xs" "[]" x] s x xs
  obtain s' where "ul_insert_after (last xs) x s = Ret s'" "dlist s' (xs @ [x])"
    "\<forall>p. p \<notin> set (xs @ [x]) \<longrightarrow> links s' p = links s p"
    by (metis append.assoc append_Cons append_Nil)
  then show ?thesis using f l by (simp add: ul_push_back_def inner_ref_def)
qed

lemma push_front_dlist:
  assumes s: "dlist s xs" and x: "x \<notin> set xs"
  shows "\<exists>s'. ul_push_front x s = Ret s' \<and> dlist s' (x # xs)
    \<and> (\<forall>p. p \<notin> set (x # xs) \<longrightarrow> links s' p = links s p)"
proof (cases xs)
  case Nil
  then show ?thesis using s
    by (auto simp: ul_push_front_def insert_only_entry_def dlist_def dcyc_def lk_def)
next
  case (Cons f ys)
  then have "first s = Some f" using s by (simp add: dlist_def)
  then show ?thesis using insert_before_dlist [of s "[]" f ys x] s x Cons by (simp add: ul_push_front_def)
qed

lemma dlist_neighbours:
  assumes s: "dlist s (us @ c # ws)"
  shows "\<exists>l. links s c = Some l \<and> lnext l = hd (ws @ us @ [c]) \<and> lprev l = last (c # ws @ us)"
proof -
  have "dcyc (links s) ((us @ [c]) @ ws)" using s by (simp add: dlist_def)
  then have "dcyc (links s) ((ws @ us) @ [c])" using dcyc_rotate [of _ "us @ [c]" ws] by simp
  from dcyc_last [OF this] show ?thesis by simp
qed

lemma back_dlist: "dlist s xs \<Longrightarrow> ul_back s = Ret (if xs = [] then None else Some (last xs))"
proof (cases xs)
  case (Cons f ys)
  assume s: "dlist s xs"
  then have "first s = Some f" using Cons by (simp add: dlist_def)
  then show ?thesis using dlist_neighbours [of s "[]" f ys] s Cons by (auto simp: ul_back_def inner_ref_def)
qed (simp add: dlist_def ul_back_def)

lemma pop_front_dlist:
  assumes "dlist s (x # xs)"
  shows "\<exists>s'. list_pop_front s = Ret (Some x, s') \<and> dlist s' xs
    \<and> (\<forall>p. p \<notin> set xs \<longrightarrow> links s' p = (if p = x then None else links s p))"
  using remove_dlist [of s "[]" x xs] assms by (auto simp: list_pop_front_def ul_front_def dlist_def)

lemma pop_front_nil: "dlist s [] \<Longrightarrow> list_pop_front s = Ret (None, s)"
  by (simp add: list_pop_front_def ul_front_def dlist_def)

lemma dlist_distinct: "dlist s xs \<Longrightarrow> distinct xs" by (simp add: dlist_def dcyc_def)

lemma dlist_first: "dlist s (x # xs) \<Longrightarrow> first s = Some x" by (simp add: dlist_def)

lemma move_next_dlist:
  assumes s: "dlist s (us @ c # ws)"
  shows "move_next s (Some c) = Ret (case ws of [] \<Rightarrow> None | w # _ \<Rightarrow> Some w)"
proof -
  obtain l where l: "links s c = Some l" "lnext l = hd (ws @ us @ [c])" using dlist_neighbours [OF s] by blast
  have f: "first s = Some (hd (us @ [c]))" using s by (cases us) (auto simp: dlist_def)
  show ?thesis using l f dlist_distinct [OF s]
    by (cases ws; cases us) (auto simp: move_next_def inner_ref_def)
qed

lemma move_prev_dlist:
  assumes s: "dlist s (us @ c # ws)"
  shows "move_prev s (Some c) = Ret (if us = [] then None else Some (last us))"
proof -
  obtain l where l: "links s c = Some l" "lprev l = last (c # ws @ us)" using dlist_neighbours [OF s] by blast
  have f: "first s = Some (hd (us @ [c]))" using s by (cases us) (auto simp: dlist_def)
  show ?thesis using l f dlist_distinct [OF s]
    by (cases us) (auto simp: move_prev_def inner_ref_def)
qed

lemma iterate_forward:
  "dlist s (us @ ws) \<Longrightarrow> length ws < fuel \<Longrightarrow>
   iterate (iter_next s) fuel (case ws of [] \<Rightarrow> None | w # _ \<Rightarrow> Some w) = Some (Ret ws)"
proof (induction ws arbitrary: us fuel)
  case Nil
  then show ?case by (cases fuel) (simp_all add: iter_next_def)
next
  case (Cons w ws)
  then obtain n where "fuel = Suc n" "length ws < n" by (cases fuel) auto
  then show ?case
    using Cons.IH [of "us @ [w]" n] Cons.prems(1) move_next_dlist [of s us w ws] by (simp add: iter_next_def)
qed

lemma iterate_backward:
  "dlist s (us @ ws) \<Longrightarrow> length us < fuel \<Longrightarrow>
   iterate (iter_next_back s) fuel (if us = [] then None else Some (last us)) = Some (Ret (rev us))"
proof (induction us arbitrary: ws fuel rule: rev_induct)
  case Nil
  then show ?case by (cases fuel) (simp_all add: iter_next_back_def)
next
  case (snoc u us)
  then obtain n where "fuel = Suc n" "length us < n" by (cases fuel) auto
  then show ?case
    using snoc.IH [of "u # ws" n] snoc.prems(1) move_prev_dlist [of s us u ws] by (simp add: iter_next_back_def)
qed

lemma drop_dlist: "dlist s xs \<Longrightarrow> \<exists>s'. list_drop s = Some (Ret (xs, s')) \<and> dlist s' []
    \<and> (\<forall>p. links s' p = (if p \<in> set xs then None else links s p))"
proof (induction xs arbitrary: s)
  case Nil
  then show ?case by (subst list_drop.simps) (simp add: pop_front_nil)
next
  case (Cons x xs)
  obtain s1 where s1: "list_pop_front s = Ret (Some x, s1)" "dlist s1 xs"
    "\<forall>p. p \<notin> set xs \<longrightarrow> links s1 p = (if p = x then None else links s p)"
    using pop_front_dlist [OF Cons.prems] by blast
  obtain s' where s': "list_drop s1 = Some (Ret (xs, s'))" "dlist s' []"
    "\<forall>p. links s' p = (if p \<in> set xs then None else links s1 p)" using Cons.IH [OF s1(2)] by blast
  have "list_drop s = Some (Ret (x # xs, s'))" using s1 s' by (subst list_drop.simps) simp
  then show ?case using s' s1(3) by auto
qed

section \<open>The contract of the list\<close>

text \<open>What the owner of a list relies on: \<open>holds s xs\<close> says that the list \<open>s\<close> holds \<open>xs\<close>.\<close>

locale owned_list =
  fixes holds :: "'s \<Rightarrow> 'p list \<Rightarrow> bool"
    and push_back :: "'p \<Rightarrow> 's \<Rightarrow> 's outcome"
    and pop_front :: "'s \<Rightarrow> ('p option \<times> 's) outcome"
    and remove_entry :: "'p \<Rightarrow> 's \<Rightarrow> ('p option \<times> 's) outcome"
  assumes holds_distinct: "holds s xs \<Longrightarrow> distinct xs"
    and holds_unique: "holds s xs \<Longrightarrow> holds s ys \<Longrightarrow> xs = ys"
    and push_back_holds: "holds s xs \<Longrightarrow> x \<notin> set xs \<Longrightarrow> \<exists>s'. push_back x s = Ret s' \<and> holds s' (xs @ [x])"
    and pop_front_holds: "holds s xs \<Longrightarrow>
      \<exists>s'. pop_front s = Ret (case xs of [] \<Rightarrow> None | x # _ \<Rightarrow> Some x, s') \<and> holds s' (tl xs)"
    and remove_holds: "holds s xs \<Longrightarrow> x \<in> set xs \<Longrightarrow>
      \<exists>s'. remove_entry x s = Ret (Some x, s') \<and> holds s' (remove1 x xs)"

lemma dlist_unique:
  assumes "dlist s xs" "dlist s ys"
  shows "xs = ys"
proof -
  have *: "iterate (iter_next s) (Suc (length xs + length ys)) (first s) = Some (Ret zs)"
    if "dlist s zs" "length zs < Suc (length xs + length ys)" for zs
    using iterate_forward [of s "[]" zs] that by (simp add: dlist_def del: iterate.simps)
  show ?thesis using * [OF assms(1)] * [OF assms(2)] by (simp del: iterate.simps)
qed

lemma remove1_split: "x \<notin> set us \<Longrightarrow> remove1 x (us @ x # vs) = us @ vs" by (simp add: remove1_append)

lemma list_remove_dlist:
  assumes "dlist s xs" "x \<in> set xs"
  shows "\<exists>s'. list_remove x s = Ret (Some x, s') \<and> dlist s' (remove1 x xs)
    \<and> (\<forall>p. p \<notin> set (remove1 x xs) \<longrightarrow> links s' p = (if p = x then None else links s p))"
proof -
  obtain us vs where xs: "xs = us @ x # vs" "x \<notin> set us" using split_list_first [OF assms(2)] by blast
  then show ?thesis using remove_dlist [of s us x vs] assms(1) by (auto simp: list_remove_def remove1_split)
qed

interpretation dl: owned_list dlist list_push_back list_pop_front list_remove
proof
  show "\<exists>s'. list_push_back x s = Ret s' \<and> dlist s' (xs @ [x])" if "dlist s xs" "x \<notin> set xs" for s :: "'p ulist" and xs x
    using push_back_dlist [OF that] by (auto simp: list_push_back_def)
  show "\<exists>s'. list_pop_front s = Ret (case xs of [] \<Rightarrow> None | x # _ \<Rightarrow> Some x, s') \<and> dlist s' (tl xs)"
    if "dlist s xs" for s :: "'p ulist" and xs
    using that pop_front_dlist [of s] pop_front_nil [of s] by (cases xs) fastforce+
  show "\<exists>s'. list_remove x s = Ret (Some x, s') \<and> dlist s' (remove1 x xs)"
    if "dlist s xs" "x \<in> set xs" for s :: "'p ulist" and xs x
    using list_remove_dlist [OF that] by blast
qed (rule dlist_distinct, assumption, erule (1) dlist_unique)

section \<open>Properties\<close>

definition demo_list :: "nat ulist" where
  "demo_list = \<lparr>links = [1 \<mapsto> \<lparr>lnext = 2, lprev = 3\<rparr>, 2 \<mapsto> \<lparr>lnext = 3, lprev = 1\<rparr>, 3 \<mapsto> \<lparr>lnext = 1, lprev = 2\<rparr>],
     first = Some 1\<rparr>"

lemma demo_list: "dlist demo_list [1, 2, 3]" by (simp add: dlist_def dcyc_def lk_def demo_list_def)



text \<open>
  C19: Removing an entry of the list, wherever it is, returns it, leaves the list of the other entries in order
  and the links of the removed entry uninitialised; \<open>pop_front\<close> does so for the first entry.
\<close>

theorem linked_list_remove:
  assumes "dlist s xs" "x \<in> set xs"
  shows "(\<exists>s'. list_remove x s = Ret (Some x, s') \<and> dlist s' (remove1 x xs)
            \<and> (\<forall>p. p \<notin> set (remove1 x xs) \<longrightarrow> links s' p = (if p = x then None else links s p)))
    \<and> (\<exists>s'. list_pop_front s = Ret (Some (hd xs), s') \<and> dlist s' (tl xs))"
  using list_remove_dlist [OF assms] dl.pop_front_holds [OF assms(1)] assms(2) by (cases xs) auto

theorem linked_list_remove_witness:
  "(\<exists>s'. list_remove 2 demo_list = Ret (Some 2, s') \<and> dlist s' [1, 3])
   \<and> (\<exists>s'. list_pop_front demo_list = Ret (Some 1, s') \<and> dlist s' [2, 3])"
  using linked_list_remove [OF demo_list, of 2] by auto

text \<open>
  Iterating from the front visits the entries in order, iterating from the back visits them in reverse, and
  dropping the list pops every entry in order and leaves all their links uninitialised.
\<close>

lemma linked_list_traverse:
  assumes "dlist s xs" "length xs < fuel"
  shows "iterate (iter_next s) fuel (cursor_front s) = Some (Ret xs)
    \<and> (\<exists>c. cursor_back s = Ret c \<and> iterate (iter_next_back s) fuel c = Some (Ret (rev xs)))
    \<and> (\<exists>s'. list_drop s = Some (Ret (xs, s')) \<and> dlist s' []
         \<and> (\<forall>p. links s' p = (if p \<in> set xs then None else links s p)))"
proof -
  have "cursor_front s = (case xs of [] \<Rightarrow> None | w # _ \<Rightarrow> Some w)"
    using assms(1) by (simp add: cursor_front_def ul_front_def dlist_def)
  then show ?thesis
    using iterate_forward [of s "[]" xs fuel] iterate_backward [of s xs "[]" fuel] back_dlist [OF assms(1)]
      drop_dlist [OF assms(1)] assms by (simp add: cursor_back_def)
qed

end
