(* ===== verification/BTreeMap.thy ===== *)
theory BTreeMap
  imports Prelude
begin

text \<open>
  \<open>BTreeMap\<close> of the standard library as the list of its entries in ascending order of the keys. The scheduler and the
  file system in memory keep their entries in such a map.
\<close>

section \<open>Operations\<close>

fun bt_insert :: "'k::linorder \<Rightarrow> 'v \<Rightarrow> ('k \<times> 'v) list \<Rightarrow> ('k \<times> 'v) list" where
  "bt_insert k v [] = [(k, v)]"
| "bt_insert k v ((k', v') # m) =
     (if k < k' then (k, v) # (k', v') # m
      else if k = k' then (k, v) # m
      else (k', v') # bt_insert k v m)"

fun bt_remove_entry :: "'k \<Rightarrow> ('k \<times> 'v) list \<Rightarrow> ('k \<times> 'v) option \<times> ('k \<times> 'v) list" where
  "bt_remove_entry k [] = (None, [])"
| "bt_remove_entry k ((k', v') # m) =
     (if k' = k then (Some (k', v'), m)
      else (let (r, m') = bt_remove_entry k m in (r, (k', v') # m')))"

fun bt_first_key_value :: "('k \<times> 'v) list \<Rightarrow> ('k \<times> 'v) option" where
  "bt_first_key_value [] = None"
| "bt_first_key_value (e # m) = Some e"

fun bt_pop_first :: "('k \<times> 'v) list \<Rightarrow> ('k \<times> 'v) option \<times> ('k \<times> 'v) list" where
  "bt_pop_first [] = (None, [])"
| "bt_pop_first (e # m) = (Some e, m)"

section \<open>Laws\<close>

lemma bt_insert_set: "k \<notin> fst ` set m \<Longrightarrow> set (bt_insert k v m) = insert (k, v) (set m)"
  by (induction k v m rule: bt_insert.induct) auto

lemma bt_insert_keys: "fst ` set (bt_insert k v m) = insert k (fst ` set m)"
  by (induction k v m rule: bt_insert.induct) auto

lemma bt_insert_sorted: "sorted_wrt (<) (map fst m) \<Longrightarrow> sorted_wrt (<) (map fst (bt_insert k v m))"
proof (induction k v m rule: bt_insert.induct)
  case (2 k v k' v' m)
  then show ?case using bt_insert_keys [of k v m] by (auto simp: image_iff)
qed simp

lemma bt_insert_values:
  "k \<notin> fst ` set m \<Longrightarrow> v \<notin> snd ` set m \<Longrightarrow> distinct (map snd m) \<Longrightarrow> distinct (map snd (bt_insert k v m))"
proof (induction k v m rule: bt_insert.induct)
  case (2 k v k' v' m)
  then show ?case using bt_insert_set [of k m v] by auto
qed simp

lemma bt_remove_entry_in:
  "distinct (map fst m) \<Longrightarrow> (k, v) \<in> set m \<Longrightarrow> bt_remove_entry k m = (Some (k, v), remove1 (k, v) m)"
  by (induction m) (force simp: image_iff)+

lemma bt_remove_entry_notin: "k \<notin> fst ` set m \<Longrightarrow> bt_remove_entry k m = (None, m)"
  by (induction m) auto

lemma bt_insert_map_of: "map_of (bt_insert k v m) = (map_of m)(k \<mapsto> v)"
  by (induction k v m rule: bt_insert.induct) (auto simp: fun_eq_iff)

lemma bt_remove_entry_filter: "distinct (map fst m) \<Longrightarrow> snd (bt_remove_entry k m) = filter (\<lambda>e. fst e \<noteq> k) m"
proof (induction m)
  case (Cons e m)
  have "k \<notin> fst ` set m \<Longrightarrow> filter (\<lambda>e. fst e \<noteq> k) m = m" by (auto simp: filter_id_conv)
  then show ?case using Cons by (cases e) (auto simp: Let_def split: prod.splits)
qed simp

lemma map_of_filter_key: "map_of (filter (\<lambda>e. fst e \<noteq> k) m) = (map_of m)(k := None)"
  by (induction m) (auto simp: fun_eq_iff)

lemma filter_key_sorted: "sorted_wrt (<) (map fst m) \<Longrightarrow> sorted_wrt (<) (map fst (filter (\<lambda>e. fst e \<noteq> k) m))"
  by (induction m) auto

lemma sorted_keys_distinct: "sorted_wrt (<) (map fst (m :: ('k::linorder \<times> 'v) list)) \<Longrightarrow> distinct (map fst m)"
  by (simp add: strict_sorted_iff)

end
