(* ===== verification/Scheduler.thy ===== *)
theory Scheduler
  imports LinkedList BTreeMap "HOL-Library.Product_Lexorder"
begin

text \<open>
  Model of the crate \<open>scheduler\<close> (src/crates/scheduler/src): the trait \<open>BaseScheduler\<close> and its three
  implementations, FIFO (over the intrusive linked list), round robin and completely fair scheduling.

  A task is a reference (an \<open>Arc\<close>). The atomic counters a scheduler keeps inside the task objects are part of
  the state of that scheduler, as a function from references; each atomic operation is one step. An \<open>isize\<close>
  is an \<open>int\<close> that every arithmetic operation wraps into 64 bits.
\<close>

section \<open>The trait\<close>

record ('t, 's) BaseScheduler =
  init :: "'s \<Rightarrow> 's"
  add_task :: "'t \<Rightarrow> 's \<Rightarrow> 's outcome"
  remove_task :: "'t \<Rightarrow> 's \<Rightarrow> ('t option \<times> 's) outcome"
  pick_next_task :: "'s \<Rightarrow> ('t option \<times> 's) outcome"
  put_prev_task :: "'t \<Rightarrow> bool \<Rightarrow> 's \<Rightarrow> 's outcome"
  task_tick :: "'t \<Rightarrow> 's \<Rightarrow> (bool \<times> 's) outcome"
  set_priority :: "'t \<Rightarrow> int \<Rightarrow> 's \<Rightarrow> (bool \<times> 's) outcome"

section \<open>FIFO\<close>

record 't FifoScheduler =
  fifo_queue :: "'t ulist"

definition fifo_new :: "('t \<Rightarrow> 't LinksInner option) \<Rightarrow> 't FifoScheduler" where
  "fifo_new h = \<lparr>fifo_queue = ul_new h\<rparr>"

definition fifo_add_task :: "'t \<Rightarrow> 't FifoScheduler \<Rightarrow> 't FifoScheduler outcome" where
  "fifo_add_task task self =
     out_then (list_push_back task (fifo_queue self)) (\<lambda>q. Ret (self\<lparr>fifo_queue := q\<rparr>))"

definition fifo_remove_task :: "'t \<Rightarrow> 't FifoScheduler \<Rightarrow> ('t option \<times> 't FifoScheduler) outcome" where
  "fifo_remove_task task self =
     out_then (list_remove task (fifo_queue self)) (\<lambda>(r, q). Ret (r, self\<lparr>fifo_queue := q\<rparr>))"

definition fifo_pick_next_task :: "'t FifoScheduler \<Rightarrow> ('t option \<times> 't FifoScheduler) outcome" where
  "fifo_pick_next_task self =
     out_then (list_pop_front (fifo_queue self)) (\<lambda>(r, q). Ret (r, self\<lparr>fifo_queue := q\<rparr>))"

definition fifo_put_prev_task :: "'t \<Rightarrow> bool \<Rightarrow> 't FifoScheduler \<Rightarrow> 't FifoScheduler outcome" where
  "fifo_put_prev_task prev preempt self =
     out_then (list_push_back prev (fifo_queue self)) (\<lambda>q. Ret (self\<lparr>fifo_queue := q\<rparr>))"

definition fifo_task_tick :: "'t \<Rightarrow> 't FifoScheduler \<Rightarrow> (bool \<times> 't FifoScheduler) outcome" where
  "fifo_task_tick current self = Ret (False, self)"

definition fifo_set_priority :: "'t \<Rightarrow> int \<Rightarrow> 't FifoScheduler \<Rightarrow> (bool \<times> 't FifoScheduler) outcome" where
  "fifo_set_priority task prio self = Ret (False, self)"

definition FIFO :: "('t, 't FifoScheduler) BaseScheduler" where
  "FIFO = \<lparr>init = (\<lambda>self. self), add_task = fifo_add_task, remove_task = fifo_remove_task,
     pick_next_task = fifo_pick_next_task, put_prev_task = fifo_put_prev_task, task_tick = fifo_task_tick,
     set_priority = fifo_set_priority\<rparr>"

section \<open>Round robin\<close>

text \<open>The ready queue is a \<open>VecDeque\<close>; \<open>S\<close> is the const parameter \<open>MAX_TIME_SLICE\<close>.\<close>

record 't RRScheduler =
  rr_queue :: "'t list"
  time_slices :: "'t \<Rightarrow> int"

definition rr_new :: "('t \<Rightarrow> int) \<Rightarrow> 't RRScheduler" where
  "rr_new slices = \<lparr>rr_queue = [], time_slices = slices\<rparr>"

definition rr_task_new :: "usize \<Rightarrow> int" where
  "rr_task_new S = sint S"

definition rr_time_slice :: "'t \<Rightarrow> 't RRScheduler \<Rightarrow> int" where
  "rr_time_slice task self = time_slices self task"

definition rr_reset_time_slice :: "usize \<Rightarrow> 't \<Rightarrow> 't RRScheduler \<Rightarrow> 't RRScheduler" where
  "rr_reset_time_slice S task self = self\<lparr>time_slices := (time_slices self)(task := sint S)\<rparr>"

definition rr_add_task :: "'t \<Rightarrow> 't RRScheduler \<Rightarrow> 't RRScheduler outcome" where
  "rr_add_task task self = Ret (self\<lparr>rr_queue := rr_queue self @ [task]\<rparr>)"

definition rr_remove_task :: "'t \<Rightarrow> 't RRScheduler \<Rightarrow> ('t option \<times> 't RRScheduler) outcome" where
  "rr_remove_task task self =
     (case position (\<lambda>t. t = task) (rr_queue self) of
        None \<Rightarrow> Ret (None, self)
      | Some idx \<Rightarrow> (let (r, q) = vec_remove idx (rr_queue self) in Ret (r, self\<lparr>rr_queue := q\<rparr>)))"

definition rr_pick_next_task :: "'t RRScheduler \<Rightarrow> ('t option \<times> 't RRScheduler) outcome" where
  "rr_pick_next_task self =
     (case rr_queue self of
        [] \<Rightarrow> Ret (None, self)
      | t # q \<Rightarrow> Ret (Some t, self\<lparr>rr_queue := q\<rparr>))"

definition rr_put_prev_task :: "usize \<Rightarrow> 't \<Rightarrow> bool \<Rightarrow> 't RRScheduler \<Rightarrow> 't RRScheduler outcome" where
  "rr_put_prev_task S prev preempt self =
     (if rr_time_slice prev self > 0 \<and> preempt
      then Ret (self\<lparr>rr_queue := prev # rr_queue self\<rparr>)
      else (let self = rr_reset_time_slice S prev self
            in Ret (self\<lparr>rr_queue := rr_queue self @ [prev]\<rparr>)))"

definition rr_task_tick :: "'t \<Rightarrow> 't RRScheduler \<Rightarrow> (bool \<times> 't RRScheduler) outcome" where
  "rr_task_tick current self =
     (let old_slice = time_slices self current;
          self = self\<lparr>time_slices := (time_slices self)(current := wrap_isize (old_slice - 1))\<rparr>
      in Ret (old_slice \<le> 1, self))"

definition rr_set_priority :: "'t \<Rightarrow> int \<Rightarrow> 't RRScheduler \<Rightarrow> (bool \<times> 't RRScheduler) outcome" where
  "rr_set_priority task prio self = Ret (False, self)"

definition RR :: "usize \<Rightarrow> ('t, 't RRScheduler) BaseScheduler" where
  "RR S = \<lparr>init = (\<lambda>self. self), add_task = rr_add_task, remove_task = rr_remove_task,
     pick_next_task = rr_pick_next_task, put_prev_task = rr_put_prev_task S, task_tick = rr_task_tick,
     set_priority = rr_set_priority\<rparr>"

section \<open>Completely fair scheduling\<close>

subsection \<open>Tasks\<close>

record CFSTask =
  init_vruntime :: int
  delta :: int
  nice :: int
  task_id :: int

definition NICE_RANGE_POS :: nat where "NICE_RANGE_POS = 19"
definition NICE_RANGE_NEG :: nat where "NICE_RANGE_NEG = 20"

definition NICE2WEIGHT_POS :: "int list" where
  "NICE2WEIGHT_POS =
     [1024, 820, 655, 526, 423, 335, 272, 215, 172, 137, 110, 87, 70, 56, 45, 36, 29, 23, 18, 15]"

definition NICE2WEIGHT_NEG :: "int list" where
  "NICE2WEIGHT_NEG =
     [1024, 1277, 1586, 1991, 2501, 3121, 3906, 4904, 6100, 7620, 9548, 11916, 14949, 18705, 23254,
      29154, 36291, 46273, 56483, 71755, 88761]"

definition cfs_task_new :: CFSTask where
  "cfs_task_new = \<lparr>init_vruntime = 0, delta = 0, nice = 0, task_id = 0\<rparr>"

text \<open>An index out of bounds panics; \<open>as usize\<close> of a negative number is far out of bounds.\<close>

definition get_weight :: "CFSTask \<Rightarrow> int outcome" where
  "get_weight self =
     (let n = nice self
      in if n \<ge> 0
         then if nat n < length NICE2WEIGHT_POS then Ret (NICE2WEIGHT_POS ! nat n) else Panic
         else (let i = wrap_isize (- n)
               in if i \<ge> 0 \<and> nat i < length NICE2WEIGHT_NEG then Ret (NICE2WEIGHT_NEG ! nat i) else Panic))"

definition get_vruntime :: "CFSTask \<Rightarrow> int outcome" where
  "get_vruntime self =
     (if nice self = 0 then Ret (wrap_isize (init_vruntime self + delta self))
      else out_then (get_weight self) (\<lambda>w.
        Ret (wrap_isize (init_vruntime self + quot_isize (wrap_isize (delta self * 1024)) w))))"

definition cfs_task_set_priority :: "int \<Rightarrow> CFSTask \<Rightarrow> CFSTask outcome" where
  "cfs_task_set_priority n self =
     out_then (get_vruntime self) (\<lambda>current_init_vruntime.
       Ret (self\<lparr>init_vruntime := current_init_vruntime, delta := 0, nice := n\<rparr>))"

definition cfs_task_task_tick :: "CFSTask \<Rightarrow> CFSTask" where
  "cfs_task_task_tick self = self\<lparr>delta := wrap_isize (delta self + 1)\<rparr>"

subsection \<open>The scheduler\<close>

record 't CFScheduler =
  cfs_queue :: "((int \<times> int) \<times> 't) list"
  min_vruntime :: "int option"
  id_pool :: int
  cfs_tasks :: "'t \<Rightarrow> CFSTask"

definition cfs_new :: "('t \<Rightarrow> CFSTask) \<Rightarrow> 't CFScheduler" where
  "cfs_new ts = \<lparr>cfs_queue = [], min_vruntime = None, id_pool = 0, cfs_tasks = ts\<rparr>"

definition cfs_update_min :: "'t CFScheduler \<Rightarrow> 't CFScheduler" where
  "cfs_update_min self =
     self\<lparr>min_vruntime := (case bt_first_key_value (cfs_queue self) of Some ((v, _), _) \<Rightarrow> Some v | None \<Rightarrow> None)\<rparr>"

definition cfs_add_task :: "'t \<Rightarrow> 't CFScheduler \<Rightarrow> 't CFScheduler outcome" where
  "cfs_add_task task self =
     (let vruntime = (case min_vruntime self of None \<Rightarrow> 0 | Some v \<Rightarrow> v);
          taskid = id_pool self;
          self = self\<lparr>min_vruntime := Some vruntime, id_pool := wrap_isize (taskid + 1)\<rparr>;
          self = self\<lparr>cfs_tasks := (cfs_tasks self)(task := (cfs_tasks self task)\<lparr>init_vruntime := vruntime, task_id := taskid\<rparr>)\<rparr>;
          self = self\<lparr>cfs_queue := bt_insert (vruntime, taskid) task (cfs_queue self)\<rparr>
      in Ret (cfs_update_min self))"

definition cfs_remove_task :: "'t \<Rightarrow> 't CFScheduler \<Rightarrow> ('t option \<times> 't CFScheduler) outcome" where
  "cfs_remove_task task self =
     out_then (get_vruntime (cfs_tasks self task)) (\<lambda>v.
       case bt_remove_entry (v, task_id (cfs_tasks self task)) (cfs_queue self) of
         (Some (_, tmp), q) \<Rightarrow> Ret (Some tmp, cfs_update_min (self\<lparr>cfs_queue := q\<rparr>))
       | (None, q) \<Rightarrow> Ret (None, self))"

definition cfs_pick_next_task :: "'t CFScheduler \<Rightarrow> ('t option \<times> 't CFScheduler) outcome" where
  "cfs_pick_next_task self =
     (case bt_pop_first (cfs_queue self) of
        (Some (_, v), q) \<Rightarrow> Ret (Some v, self\<lparr>cfs_queue := q\<rparr>)
      | (None, q) \<Rightarrow> Ret (None, self))"

definition cfs_put_prev_task :: "'t \<Rightarrow> bool \<Rightarrow> 't CFScheduler \<Rightarrow> 't CFScheduler outcome" where
  "cfs_put_prev_task prev preempt self =
     (let taskid = id_pool self;
          self = self\<lparr>id_pool := wrap_isize (taskid + 1)\<rparr>;
          self = self\<lparr>cfs_tasks := (cfs_tasks self)(prev := (cfs_tasks self prev)\<lparr>task_id := taskid\<rparr>)\<rparr>
      in out_then (get_vruntime (cfs_tasks self prev)) (\<lambda>v.
           Ret (self\<lparr>cfs_queue := bt_insert (v, taskid) prev (cfs_queue self)\<rparr>)))"

definition cfs_task_tick :: "'t \<Rightarrow> 't CFScheduler \<Rightarrow> (bool \<times> 't CFScheduler) outcome" where
  "cfs_task_tick current self =
     (let self = self\<lparr>cfs_tasks := (cfs_tasks self)(current := cfs_task_task_tick (cfs_tasks self current))\<rparr>
      in case min_vruntime self of
           None \<Rightarrow> Ret (True, self)
         | Some m \<Rightarrow> out_then (get_vruntime (cfs_tasks self current)) (\<lambda>v. Ret (v > m, self)))"

definition cfs_set_priority :: "'t \<Rightarrow> int \<Rightarrow> 't CFScheduler \<Rightarrow> (bool \<times> 't CFScheduler) outcome" where
  "cfs_set_priority task prio self =
     (if - 20 \<le> prio \<and> prio \<le> 19
      then out_then (cfs_task_set_priority prio (cfs_tasks self task)) (\<lambda>t.
        Ret (True, self\<lparr>cfs_tasks := (cfs_tasks self)(task := t)\<rparr>))
      else Ret (False, self))"

definition CFS :: "('t, 't CFScheduler) BaseScheduler" where
  "CFS = \<lparr>init = (\<lambda>self. self), add_task = cfs_add_task, remove_task = cfs_remove_task,
     pick_next_task = cfs_pick_next_task, put_prev_task = cfs_put_prev_task, task_tick = cfs_task_tick,
     set_priority = cfs_set_priority\<rparr>"

section \<open>The contract of a scheduler\<close>

text \<open>
  What the run queue relies on, for an invariant, the set of tasks in the scheduler, and the condition under
  which a task may be handed to it.
\<close>

locale base_scheduler =
  fixes B :: "('t, 's) BaseScheduler"
    and inv :: "'s \<Rightarrow> bool" and queued :: "'s \<Rightarrow> 't set" and can_add :: "'s \<Rightarrow> 't \<Rightarrow> bool"
  assumes queued_finite: "inv s \<Longrightarrow> finite (queued s)"
    and can_add_new: "can_add s t \<Longrightarrow> t \<notin> queued s"
    and add_ok: "inv s \<Longrightarrow> can_add s t \<Longrightarrow>
      \<exists>s'. add_task B t s = Ret s' \<and> inv s' \<and> queued s' = insert t (queued s)"
    and put_ok: "inv s \<Longrightarrow> can_add s t \<Longrightarrow>
      \<exists>s'. put_prev_task B t preempt s = Ret s' \<and> inv s' \<and> queued s' = insert t (queued s)"
    and pick_ok: "inv s \<Longrightarrow> \<exists>r s'. pick_next_task B s = Ret (r, s') \<and> inv s' \<and>
      (case r of None \<Rightarrow> queued s = {} \<and> s' = s | Some t \<Rightarrow> t \<in> queued s \<and> queued s' = queued s - {t})"
    and tick_ok: "inv s \<Longrightarrow> \<exists>r s'. task_tick B t s = Ret (r, s') \<and> inv s' \<and> queued s' = queued s"
    and prio_ok: "inv s \<Longrightarrow> \<exists>r s'. set_priority B t prio s = Ret (r, s') \<and> inv s' \<and> queued s' = queued s"

text \<open>Picking until the scheduler is empty; \<open>None\<close> if that takes more than \<open>fuel\<close> picks.\<close>

fun drain :: "('t, 's) BaseScheduler \<Rightarrow> nat \<Rightarrow> 's \<Rightarrow> ('t list \<times> 's) outcome option" where
  "drain B 0 s = None"
| "drain B (Suc fuel) s =
     (case pick_next_task B s of
        Panic \<Rightarrow> Some Panic
      | Ret (None, s') \<Rightarrow> Some (Ret ([], s'))
      | Ret (Some t, s') \<Rightarrow> map_option (\<lambda>r. out_then r (\<lambda>(ts, s''). Ret (t # ts, s''))) (drain B fuel s'))"

context base_scheduler
begin

lemma drain_all:
  "inv s \<Longrightarrow> card (queued s) < fuel \<Longrightarrow>
   \<exists>ts s'. drain B fuel s = Some (Ret (ts, s')) \<and> set ts = queued s \<and> distinct ts \<and> queued s' = {}"
proof (induction fuel arbitrary: s)
  case (Suc fuel)
  obtain r s1 where p: "pick_next_task B s = Ret (r, s1)" "inv s1" and
    c: "case r of None \<Rightarrow> queued s = {} \<and> s1 = s | Some t \<Rightarrow> t \<in> queued s \<and> queued s1 = queued s - {t}"
    using pick_ok [OF Suc.prems(1)] by blast
  show ?case
  proof (cases r)
    case None
    then show ?thesis using p c by simp
  next
    case (Some t)
    then have t: "t \<in> queued s" "queued s1 = queued s - {t}" using c by simp_all
    then have "card (queued s1) < fuel"
      using Suc.prems queued_finite [OF Suc.prems(1)] by (metis card_Suc_Diff1 Suc_less_SucD)
    from Suc.IH [OF p(2) this] obtain ts s' where "drain B fuel s1 = Some (Ret (ts, s'))" "set ts = queued s1"
      "distinct ts" "queued s' = {}" by blast
    then show ?thesis using p Some t by auto
  qed
qed simp

end

section \<open>The schedulers meet the contract\<close>

definition fifo_tasks :: "'t FifoScheduler \<Rightarrow> 't list \<Rightarrow> bool" where
  "fifo_tasks s ts \<longleftrightarrow> dlist (fifo_queue s) ts"

definition fifo_inv :: "'t FifoScheduler \<Rightarrow> bool" where
  "fifo_inv s \<longleftrightarrow> (\<exists>ts. fifo_tasks s ts)"

definition fifo_queued :: "'t FifoScheduler \<Rightarrow> 't set" where
  "fifo_queued s = {t. \<exists>ts. fifo_tasks s ts \<and> t \<in> set ts}"

lemma fifo_queued_eq: "fifo_tasks s ts \<Longrightarrow> fifo_queued s = set ts"
  by (auto simp: fifo_queued_def fifo_tasks_def dest: dl.holds_unique)

lemma fifo_add:
  assumes "fifo_tasks s ts" "t \<notin> set ts"
  shows "\<exists>s'. fifo_add_task t s = Ret s' \<and> fifo_put_prev_task t b s = Ret s' \<and> fifo_tasks s' (ts @ [t])"
  using dl.push_back_holds [of "fifo_queue s" ts t] assms
  by (auto simp: fifo_tasks_def fifo_add_task_def fifo_put_prev_task_def)

lemma fifo_pick:
  assumes "fifo_tasks s ts"
  shows "\<exists>s'. fifo_pick_next_task s = Ret (case ts of [] \<Rightarrow> None | t # _ \<Rightarrow> Some t, s') \<and> fifo_tasks s' (tl ts)
    \<and> (ts = [] \<longrightarrow> s' = s)"
proof (cases ts)
  case Nil
  then show ?thesis using assms pop_front_nil [of "fifo_queue s"] by (simp add: fifo_tasks_def fifo_pick_next_task_def)
next
  case (Cons t us)
  then show ?thesis using dl.pop_front_holds [of "fifo_queue s" ts] assms
    by (auto simp: fifo_tasks_def fifo_pick_next_task_def)
qed

interpretation fifo: base_scheduler FIFO fifo_inv fifo_queued "\<lambda>s t. t \<notin> fifo_queued s"
proof
  fix s :: "'t FifoScheduler" and t preempt prio
  assume "fifo_inv s"
  then obtain ts where ts: "fifo_tasks s ts" by (auto simp: fifo_inv_def)
  note q = fifo_queued_eq [OF ts]
  show "finite (fifo_queued s)" by (simp add: q)
  show "\<exists>s'. add_task FIFO t s = Ret s' \<and> fifo_inv s' \<and> fifo_queued s' = insert t (fifo_queued s)"
    "\<exists>s'. put_prev_task FIFO t preempt s = Ret s' \<and> fifo_inv s' \<and> fifo_queued s' = insert t (fifo_queued s)"
    if "t \<notin> fifo_queued s"
    using fifo_add [OF ts, of t preempt] that fifo_queued_eq [of _ "ts @ [t]"]
    by (auto simp: FIFO_def q fifo_inv_def)
  obtain s' where s': "fifo_pick_next_task s = Ret (case ts of [] \<Rightarrow> None | t # _ \<Rightarrow> Some t, s')"
    "fifo_tasks s' (tl ts)" "ts = [] \<longrightarrow> s' = s" using fifo_pick [OF ts] by blast
  have "distinct ts" using ts dl.holds_distinct by (auto simp: fifo_tasks_def)
  then show "\<exists>r s'. pick_next_task FIFO s = Ret (r, s') \<and> fifo_inv s' \<and> (case r of None \<Rightarrow> fifo_queued s = {} \<and> s' = s
      | Some t \<Rightarrow> t \<in> fifo_queued s \<and> fifo_queued s' = fifo_queued s - {t})"
    using s' fifo_queued_eq [OF s'(2)] by (cases ts) (auto simp: FIFO_def q fifo_inv_def)
qed (auto simp: FIFO_def fifo_task_tick_def fifo_set_priority_def)

lemma rr_remove: "rr_remove_task t s = (if t \<in> set (rr_queue s) then Ret (Some t, s\<lparr>rr_queue := remove1 t (rr_queue s)\<rparr>) else Ret (None, s))"
  using position_remove [where x = t and xs = "rr_queue s"]
  by (auto simp: rr_remove_task_def split: option.splits if_splits)

interpretation rr: base_scheduler "RR S" "\<lambda>s. distinct (rr_queue s)" "\<lambda>s. set (rr_queue s)" "\<lambda>s t. t \<notin> set (rr_queue s)"
  by unfold_locales
    (auto simp: RR_def rr_add_task_def rr_put_prev_task_def rr_reset_time_slice_def Let_def rr_pick_next_task_def
      rr_task_tick_def rr_set_priority_def split: list.splits)

subsection \<open>CFS\<close>

definition nice_ok :: "CFSTask \<Rightarrow> bool" where
  "nice_ok t \<longleftrightarrow> - 20 \<le> nice t \<and> nice t \<le> 19"

definition cfs_inv :: "'t CFScheduler \<Rightarrow> bool" where
  "cfs_inv s \<longleftrightarrow> sorted_wrt (<) (map fst (cfs_queue s)) \<and> distinct (map snd (cfs_queue s))
     \<and> (\<forall>e \<in> set (cfs_queue s). snd (fst e) < id_pool s) \<and> 0 \<le> id_pool s \<and> (\<forall>t. nice_ok (cfs_tasks s t))"

definition cfs_queued :: "'t CFScheduler \<Rightarrow> 't set" where
  "cfs_queued s = snd ` set (cfs_queue s)"

definition cfs_can_add :: "'t CFScheduler \<Rightarrow> 't \<Rightarrow> bool" where
  "cfs_can_add s t \<longleftrightarrow> t \<notin> cfs_queued s \<and> id_pool s < 2 ^ 63 - 1"

text \<open>The key of every queued task is its current virtual runtime and identifier.\<close>

definition cfs_keyed :: "'t CFScheduler \<Rightarrow> bool" where
  "cfs_keyed s \<longleftrightarrow> (\<forall>e \<in> set (cfs_queue s). get_vruntime (cfs_tasks s (snd e)) = Ret (fst (fst e))
     \<and> task_id (cfs_tasks s (snd e)) = snd (fst e))"

lemma wrap_isize_id: "- (2 ^ 63) \<le> x \<Longrightarrow> x < 2 ^ 63 \<Longrightarrow> wrap_isize x = x"
  by (simp add: wrap_isize_def)

lemma get_weight_ok: "nice_ok t \<Longrightarrow> \<exists>w>0. get_weight t = Ret w"
proof -
  assume "nice_ok t"
  then have "nice t \<in> set [-20, -19, -18, -17, -16, -15, -14, -13, -12, -11, -10, -9, -8, -7, -6, -5, -4, -3, -2, -1,
      0, 1, 2, 3, 4, 5, 6, 7, 8, 9, 10, 11, 12, 13, 14, 15, 16, 17, 18, 19]"
    unfolding nice_ok_def by (simp; presburger)
  then show ?thesis
    by (auto simp: get_weight_def NICE2WEIGHT_POS_def NICE2WEIGHT_NEG_def wrap_isize_def)
qed

lemma get_vruntime_ok: "nice_ok t \<Longrightarrow> \<exists>v. get_vruntime t = Ret v"
  using get_weight_ok [of t] by (auto simp: get_vruntime_def)

lemma get_vruntime_id [simp]: "get_vruntime (t\<lparr>task_id := i\<rparr>) = get_vruntime t"
  by (simp add: get_vruntime_def get_weight_def)

lemma cfs_update_min_simps [simp]:
  "cfs_queue (cfs_update_min s) = cfs_queue s" "id_pool (cfs_update_min s) = id_pool s"
  "cfs_tasks (cfs_update_min s) = cfs_tasks s"
  by (simp_all add: cfs_update_min_def)

lemma cfs_fresh_key: "cfs_inv s \<Longrightarrow> (v, id_pool s) \<notin> fst ` set (cfs_queue s)"
  by (force simp: cfs_inv_def)

text \<open>Inserting a task under a new identifier, as both \<open>add_task\<close> and \<open>put_prev_task\<close> do.\<close>

lemma cfs_insert:
  assumes "cfs_inv s" "cfs_can_add s t" "nice_ok c"
    and "cfs_queue s' = bt_insert (v, id_pool s) t (cfs_queue s)" "id_pool s' = wrap_isize (id_pool s + 1)"
    and "cfs_tasks s' = (cfs_tasks s)(t := c)"
  shows "cfs_inv s'" "cfs_queued s' = insert t (cfs_queued s)"
proof -
  note f = cfs_fresh_key [OF assms(1), of v]
  have id: "id_pool s' = id_pool s + 1"
    using assms(1,2,5) wrap_isize_id [of "id_pool s + 1"] by (simp add: cfs_inv_def cfs_can_add_def)
  show "cfs_inv s'"
    using assms(1-3) f bt_insert_set [OF f] bt_insert_values [OF f] bt_insert_sorted
    unfolding cfs_inv_def assms(4,6) id by (auto simp: cfs_can_add_def cfs_queued_def)
  show "cfs_queued s' = insert t (cfs_queued s)" by (simp add: cfs_queued_def assms(4) bt_insert_set [OF f])
qed

lemma cfs_insert_keyed:
  assumes "cfs_inv s" "cfs_keyed s" "t \<notin> cfs_queued s"
    and "cfs_queue s' = bt_insert (v, id_pool s) t (cfs_queue s)"
    and "cfs_tasks s' = (cfs_tasks s)(t := c)" "get_vruntime c = Ret v" "task_id c = id_pool s"
  shows "cfs_keyed s'"
  using assms bt_insert_set [OF cfs_fresh_key [OF assms(1), of v]] by (auto simp: cfs_keyed_def cfs_queued_def image_iff)

lemma cfs_pick:
  assumes "cfs_queue s = ((v, i), t) # q"
  shows "cfs_pick_next_task s = Ret (Some t, s\<lparr>cfs_queue := q\<rparr>)"
  using assms by (simp add: cfs_pick_next_task_def)

interpretation cfs: base_scheduler CFS cfs_inv cfs_queued cfs_can_add
proof
  fix s :: "'t CFScheduler" and t preempt prio
  assume inv: "cfs_inv s"
  then have nice: "nice_ok (cfs_tasks s t)" for t by (simp add: cfs_inv_def)
  obtain v where v: "get_vruntime (cfs_tasks s t) = Ret v" using get_vruntime_ok [OF nice] by blast
  show "finite (cfs_queued s)" by (simp add: cfs_queued_def)
  show "\<exists>s'. add_task CFS t s = Ret s' \<and> cfs_inv s' \<and> cfs_queued s' = insert t (cfs_queued s)" if a: "cfs_can_add s t"
  proof -
    obtain s' where s': "cfs_add_task t s = Ret s'" by (simp add: cfs_add_task_def Let_def)
    let ?v = "case min_vruntime s of None \<Rightarrow> 0 | Some v \<Rightarrow> v"
    let ?c = "(cfs_tasks s t)\<lparr>init_vruntime := ?v, task_id := id_pool s\<rparr>"
    have "cfs_queue s' = bt_insert (?v, id_pool s) t (cfs_queue s)" "id_pool s' = wrap_isize (id_pool s + 1)"
      "cfs_tasks s' = (cfs_tasks s)(t := ?c)" using s' by (auto simp: cfs_add_task_def Let_def)
    moreover have "nice_ok ?c" using nice [of t] by (simp add: nice_ok_def)
    ultimately show ?thesis using cfs_insert [OF inv a, of ?c s' ?v] s' by (simp add: CFS_def)
  qed
  show "\<exists>s'. put_prev_task CFS t preempt s = Ret s' \<and> cfs_inv s' \<and> cfs_queued s' = insert t (cfs_queued s)"
    if a: "cfs_can_add s t"
  proof -
    obtain s' where s': "cfs_put_prev_task t preempt s = Ret s'" by (simp add: cfs_put_prev_task_def Let_def v)
    let ?c = "(cfs_tasks s t)\<lparr>task_id := id_pool s\<rparr>"
    have "cfs_queue s' = bt_insert (v, id_pool s) t (cfs_queue s)" "id_pool s' = wrap_isize (id_pool s + 1)"
      "cfs_tasks s' = (cfs_tasks s)(t := ?c)" using s' by (auto simp: cfs_put_prev_task_def Let_def v)
    moreover have "nice_ok ?c" using nice [of t] by (simp add: nice_ok_def)
    ultimately show ?thesis using cfs_insert [OF inv a, of ?c s' v] s' by (simp add: CFS_def)
  qed
  show "\<exists>r s'. pick_next_task CFS s = Ret (r, s') \<and> cfs_inv s' \<and> (case r of None \<Rightarrow> cfs_queued s = {} \<and> s' = s
      | Some t \<Rightarrow> t \<in> cfs_queued s \<and> cfs_queued s' = cfs_queued s - {t})"
  proof (cases "cfs_queue s")
    case Nil
    then show ?thesis using inv by (simp add: CFS_def cfs_pick_next_task_def cfs_queued_def)
  next
    case (Cons e q)
    obtain w i u where e: "e = ((w, i), u)" by (metis surj_pair)
    have "cfs_inv (s\<lparr>cfs_queue := q\<rparr>)" using inv Cons by (simp add: cfs_inv_def)
    moreover have "u \<notin> snd ` set q" using inv Cons e by (auto simp: cfs_inv_def)
    ultimately show ?thesis using cfs_pick [of s w i u q] Cons e by (auto simp: CFS_def cfs_queued_def)
  qed
  show "\<exists>r s'. task_tick CFS t s = Ret (r, s') \<and> cfs_inv s' \<and> cfs_queued s' = cfs_queued s"
  proof -
    let ?s = "s\<lparr>cfs_tasks := (cfs_tasks s)(t := cfs_task_task_tick (cfs_tasks s t))\<rparr>"
    have n: "nice_ok (cfs_task_task_tick (cfs_tasks s t))" using nice [of t] by (simp add: nice_ok_def cfs_task_task_tick_def)
    obtain w where "get_vruntime (cfs_task_task_tick (cfs_tasks s t)) = Ret w" using get_vruntime_ok [OF n] by blast
    moreover have "cfs_inv ?s" using inv n by (simp add: cfs_inv_def)
    ultimately show ?thesis by (auto simp: CFS_def cfs_task_tick_def cfs_queued_def Let_def split: option.splits)
  qed
  show "\<exists>r s'. set_priority CFS t prio s = Ret (r, s') \<and> cfs_inv s' \<and> cfs_queued s' = cfs_queued s"
    using inv v by (auto simp: CFS_def cfs_set_priority_def cfs_task_set_priority_def cfs_inv_def cfs_queued_def nice_ok_def)
qed (simp add: cfs_can_add_def)

section \<open>Properties\<close>

lemma fifo_drain: "fifo_tasks s ts \<Longrightarrow> length ts < fuel \<Longrightarrow> \<exists>s'. drain FIFO fuel s = Some (Ret (ts, s')) \<and> fifo_tasks s' []"
proof (induction ts arbitrary: s fuel)
  case Nil
  then obtain n where "fuel = Suc n" by (cases fuel) auto
  then show ?case using fifo_pick [OF Nil.prems(1)] Nil.prems(1) by (auto simp: FIFO_def)
next
  case (Cons t ts)
  then obtain n where n: "fuel = Suc n" "length ts < n" by (cases fuel) auto
  obtain s1 where s1: "fifo_pick_next_task s = Ret (Some t, s1)" "fifo_tasks s1 ts"
    using fifo_pick [OF Cons.prems(1)] by auto
  from Cons.IH [OF s1(2) n(2)] show ?case using n s1(1) by (auto simp: FIFO_def)
qed

definition demo_fifo :: "nat FifoScheduler" where
  "demo_fifo = \<lparr>fifo_queue = demo_list\<rparr>"




definition demo_cfs :: "nat CFScheduler" where
  "demo_cfs = \<lparr>cfs_queue = [((3, 4), 10), ((3, 5), 11), ((7, 1), 12)], min_vruntime = Some 3, id_pool = 6,
     cfs_tasks = (\<lambda>_. cfs_task_new)
       (10 := \<lparr>init_vruntime = 3, delta = 0, nice = 0, task_id = 4\<rparr>,
        11 := \<lparr>init_vruntime = 1, delta = 2, nice = 0, task_id = 5\<rparr>,
        12 := \<lparr>init_vruntime = 7, delta = 0, nice = 5, task_id = 1\<rparr>)\<rparr>"

lemma demo_cfs: "cfs_inv demo_cfs" "cfs_keyed demo_cfs"
  by (simp_all add: cfs_inv_def cfs_keyed_def demo_cfs_def nice_ok_def cfs_task_new_def get_vruntime_def get_weight_def
      NICE2WEIGHT_POS_def wrap_isize_def quot_isize_def less_prod_def)


text \<open>
  CFS picks a task whose virtual runtime is least among all queued tasks (the oldest identifier among equals),
  as long as the keys of the queue are up to date.
\<close>

lemma cfs_picks_least:
  assumes "cfs_inv s" "cfs_keyed s" "cfs_pick_next_task s = Ret (Some t, s')" "u \<in> cfs_queued s"
    and "get_vruntime (cfs_tasks s t) = Ret v" "get_vruntime (cfs_tasks s u) = Ret w"
  shows "t \<in> cfs_queued s \<and> cfs_keyed s' \<and> (v, task_id (cfs_tasks s t)) \<le> (w, task_id (cfs_tasks s u))"
proof (cases "cfs_queue s")
  case Nil
  then show ?thesis using assms(4) by (simp add: cfs_queued_def)
next
  case (Cons e q)
  obtain a i x where e: "e = ((a, i), x)" by (metis surj_pair)
  then have s': "x = t" "s' = s\<lparr>cfs_queue := q\<rparr>" using assms(3) cfs_pick [of s a i x q] Cons by simp_all
  obtain k where k: "(k, u) \<in> set (cfs_queue s)" using assms(4) by (auto simp: cfs_queued_def)
  then have "(a, i) \<le> k" using assms(1) Cons e by (auto simp: cfs_inv_def order.strict_iff_order)
  moreover have "(a, i) = (v, task_id (cfs_tasks s t))" "k = (w, task_id (cfs_tasks s u))"
    using assms(2,5,6) Cons e s'(1) k unfolding cfs_keyed_def by (auto simp: prod_eq_iff)
  ultimately show ?thesis using assms(2) Cons e s' by (auto simp: cfs_keyed_def cfs_queued_def)
qed

lemma map_remove1_wrt:
  "sorted_wrt R (map f xs) \<Longrightarrow> sorted_wrt R (map f (remove1 x xs))" "distinct (map f xs) \<Longrightarrow> distinct (map f (remove1 x xs))"
  by (induction xs) (auto dest: subsetD [OF set_remove1_subset])

lemma cfs_remove:
  assumes "cfs_inv s" "cfs_keyed s" "t \<in> cfs_queued s"
  shows "\<exists>s'. cfs_remove_task t s = Ret (Some t, s') \<and> cfs_inv s' \<and> cfs_keyed s' \<and> cfs_queued s' = cfs_queued s - {t}
    \<and> min_vruntime s' = (case cfs_queue s' of [] \<Rightarrow> None | e # _ \<Rightarrow> Some (fst (fst e)))"
proof -
  obtain k where k: "(k, t) \<in> set (cfs_queue s)" using assms(3) by (auto simp: cfs_queued_def)
  have key: "get_vruntime (cfs_tasks s t) = Ret (fst k)" "task_id (cfs_tasks s t) = snd k"
    using assms(2) k by (auto simp: cfs_keyed_def)
  have "distinct (map fst (cfs_queue s))" "distinct (map snd (cfs_queue s))"
    using assms(1) strict_sorted_iff [of "map fst (cfs_queue s)"] by (simp_all add: cfs_inv_def)
  then have dis: "distinct (map fst (cfs_queue s))" "distinct (map snd (cfs_queue s))" "distinct (cfs_queue s)"
    by (simp_all add: distinct_map)
  let ?q = "remove1 (k, t) (cfs_queue s)"
  let ?s' = "cfs_update_min (s\<lparr>cfs_queue := ?q\<rparr>)"
  have "cfs_remove_task t s = Ret (Some t, ?s')"
    using bt_remove_entry_in [OF dis(1) k] key by (simp add: cfs_remove_task_def)
  moreover have "cfs_inv ?s'"
    using assms(1) unfolding cfs_inv_def by (auto intro: map_remove1_wrt dest: subsetD [OF set_remove1_subset])
  moreover have "cfs_keyed ?s'" using assms(2) by (auto simp: cfs_keyed_def dest: subsetD [OF set_remove1_subset])
  moreover have "cfs_queued ?s' = cfs_queued s - {t}"
  proof -
    have "cfs_queued ?s' = snd ` (set (cfs_queue s) - {(k, t)})" by (simp add: cfs_queued_def dis(3))
    also have "\<dots> = snd ` set (cfs_queue s) - snd ` {(k, t)}"
      using dis(2) k by (intro inj_on_image_set_diff) (auto simp: distinct_map)
    finally show ?thesis by (simp add: cfs_queued_def)
  qed
  moreover have "min_vruntime ?s' = (case cfs_queue ?s' of [] \<Rightarrow> None | e # _ \<Rightarrow> Some (fst (fst e)))"
    by (auto simp: cfs_update_min_def split: list.splits)
  ultimately show ?thesis by blast
qed

text \<open>
  A task that is put back into CFS can be taken out again: \<open>put_prev_task\<close> keeps all keys up to date, and then
  \<open>remove_task\<close> returns exactly the task asked for, keeps all others, and recomputes the minimal runtime.
\<close>

lemma cfs_put_then_remove:
  assumes "cfs_inv s" "cfs_keyed s" "cfs_can_add s t"
  shows "\<exists>s1 s2. cfs_put_prev_task t preempt s = Ret s1 \<and> cfs_keyed s1 \<and> cfs_queued s1 = insert t (cfs_queued s)
    \<and> cfs_remove_task t s1 = Ret (Some t, s2) \<and> cfs_queued s2 = cfs_queued s
    \<and> min_vruntime s2 = (case cfs_queue s2 of [] \<Rightarrow> None | e # _ \<Rightarrow> Some (fst (fst e)))"
proof -
  have nt: "t \<notin> cfs_queued s" using assms(3) by (simp add: cfs_can_add_def)
  obtain v where v: "get_vruntime (cfs_tasks s t) = Ret v"
    using assms(1) get_vruntime_ok [of "cfs_tasks s t"] by (auto simp: cfs_inv_def)
  obtain s1 where s1: "cfs_put_prev_task t preempt s = Ret s1" "cfs_inv s1" "cfs_queued s1 = insert t (cfs_queued s)"
    using cfs.put_ok [OF assms(1,3), of preempt] by (auto simp: CFS_def)
  have "cfs_keyed s1"
  proof (rule cfs_insert_keyed [OF assms(1,2) nt])
    show "cfs_queue s1 = bt_insert (v, id_pool s) t (cfs_queue s)"
      "cfs_tasks s1 = (cfs_tasks s)(t := (cfs_tasks s t)\<lparr>task_id := id_pool s\<rparr>)"
      using s1(1) by (auto simp: cfs_put_prev_task_def Let_def v)
  qed (simp_all add: v)
  moreover from this obtain s2 where "cfs_remove_task t s1 = Ret (Some t, s2)" "cfs_queued s2 = cfs_queued s1 - {t}"
    "min_vruntime s2 = (case cfs_queue s2 of [] \<Rightarrow> None | e # _ \<Rightarrow> Some (fst (fst e)))"
    using cfs_remove [OF s1(2)] s1(3) by blast
  ultimately show ?thesis using s1 nt by auto
qed



text \<open>The results of \<open>n\<close> timer ticks in a row.\<close>

fun rr_ticks :: "nat \<Rightarrow> 't \<Rightarrow> 't RRScheduler \<Rightarrow> (bool list \<times> 't RRScheduler) outcome" where
  "rr_ticks 0 t s = Ret ([], s)"
| "rr_ticks (Suc n) t s =
     out_then (rr_task_tick t s) (\<lambda>(b, s). out_then (rr_ticks n t s) (\<lambda>(bs, s). Ret (b # bs, s)))"

lemma rr_ticks_slice:
  "time_slices s t < 2 ^ 63 \<Longrightarrow> - (2 ^ 63) \<le> time_slices s t - int n \<Longrightarrow>
   rr_ticks n t s = Ret (map (\<lambda>i. time_slices s t - int i \<le> 1) [0..<n],
     s\<lparr>time_slices := (time_slices s)(t := time_slices s t - int n)\<rparr>)"
proof (induction n arbitrary: s)
  case (Suc n)
  let ?s = "s\<lparr>time_slices := (time_slices s)(t := time_slices s t - 1)\<rparr>"
  have w: "wrap_isize (time_slices s t - 1) = time_slices s t - 1"
    using Suc.prems by (intro wrap_isize_id) linarith+
  have tick: "rr_task_tick t s = Ret (time_slices s t \<le> 1, ?s)" by (simp add: rr_task_tick_def Let_def w)
  have IH: "rr_ticks n t ?s = Ret (map (\<lambda>i. time_slices s t - 1 - int i \<le> 1) [0..<n],
      s\<lparr>time_slices := (time_slices s)(t := time_slices s t - 1 - int n)\<rparr>)"
    using Suc.IH [of ?s] Suc.prems by (simp add: fun_upd_def cong: if_cong)
  have step: "rr_ticks (Suc n) t s = Ret ((time_slices s t \<le> 1) # map (\<lambda>i. time_slices s t - 1 - int i \<le> 1) [0..<n],
      s\<lparr>time_slices := (time_slices s)(t := time_slices s t - 1 - int n)\<rparr>)"
    unfolding rr_ticks.simps tick out_then.simps prod.case IH ..
  have e: "time_slices s t - 1 - int n = time_slices s t - int (Suc n)" by simp
  have "map (\<lambda>i. time_slices s t - int i \<le> 1) [0..<Suc n]
      = (time_slices s t \<le> 1) # map (\<lambda>i. time_slices s t - 1 - int i \<le> 1) [0..<n]"
    by (simp only: upt_conv_Cons [OF zero_less_Suc] map_Suc_upt [symmetric] list.map map_map) (simp add: algebra_simps)
  then show ?case using step unfolding e by (simp only:)
qed simp

text \<open>
  Under round robin a task that starts with a full time slice of \<open>S\<close> ticks runs for exactly \<open>S\<close> ticks: the first
  \<open>S - 1\<close> ticks ask for no rescheduling, and from the \<open>S\<close>-th on every tick does. Put back before that by a
  preemption, it is the next task to run and keeps its slice; put back otherwise, it goes to the end with a full
  slice.
\<close>

lemma rr_time_slice_exact:
  assumes "time_slices s t = sint S" "0 < sint S" "n < 2 ^ 62"
  shows "\<exists>s'. rr_ticks n t s = Ret (map (\<lambda>i. sint S \<le> int i + 1) [0..<n], s')
    \<and> (n < nat (sint S) \<longrightarrow> rr_put_prev_task S t True s' = Ret (s'\<lparr>rr_queue := t # rr_queue s\<rparr>)
         \<and> rr_pick_next_task (s'\<lparr>rr_queue := t # rr_queue s\<rparr>) = Ret (Some t, s'))
    \<and> (nat (sint S) \<le> n \<longrightarrow> rr_put_prev_task S t b s' = Ret (s\<lparr>rr_queue := rr_queue s @ [t]\<rparr>))"
proof -
  let ?s' = "s\<lparr>time_slices := (time_slices s)(t := sint S - int n)\<rparr>"
  have "sint S < 2 ^ 63" using sint_lt [of S] by simp
  moreover have "int n < 2 ^ 62" using assms(3) by (metis of_nat_less_iff of_nat_numeral of_nat_power)
  then have "- (2 ^ 63) \<le> sint S - int n" using assms(2) by simp
  ultimately have "rr_ticks n t s = Ret (map (\<lambda>i. sint S - int i \<le> 1) [0..<n], ?s')"
    using rr_ticks_slice [of s t n] assms(1) by simp
  then have "rr_ticks n t s = Ret (map (\<lambda>i. sint S \<le> int i + 1) [0..<n], ?s')" by (simp add: algebra_simps)
  moreover have "s = s\<lparr>time_slices := (time_slices s)(t := sint S)\<rparr>" using assms(1) by (simp add: fun_upd_idem)
  ultimately show ?thesis using assms(2)
    by (auto simp: rr_put_prev_task_def rr_time_slice_def rr_pick_next_task_def rr_reset_time_slice_def Let_def)
qed

end
