(* ===== verification/TimerList.thy ===== *)
theory TimerList
  imports Prelude "HOL-Library.Multiset"
begin

text \<open>
  Model of the crate \<open>timer_list\<close> (src/crates/timer_list/src/lib.rs): timed events in a heap ordered by deadline.
  A \<open>Duration\<close> is its number of nanoseconds. The \<open>BinaryHeap\<close> of the standard library is the list of its elements,
  greatest first; equal elements leave in the order they came, a choice that the standard library leaves open.
\<close>

section \<open>Model\<close>

type_synonym TimeValue = nat

text \<open>\<open>Duration + Duration\<close> panics when the seconds do not fit into 64 bits.\<close>

definition duration_add :: "TimeValue \<Rightarrow> TimeValue \<Rightarrow> TimeValue outcome" where
  "duration_add a b = (if a + b < 2 ^ 64 * 1000000000 then Ret (a + b) else Panic)"

fun heap_push :: "('a \<Rightarrow> 'a \<Rightarrow> bool) \<Rightarrow> 'a \<Rightarrow> 'a list \<Rightarrow> 'a list" where
  "heap_push le x [] = [x]"
| "heap_push le x (y # ys) = (if le x y then y # heap_push le x ys else x # y # ys)"

definition heap_peek :: "'a list \<Rightarrow> 'a option" where
  "heap_peek h = (case h of [] \<Rightarrow> None | x # _ \<Rightarrow> Some x)"

definition heap_pop :: "'a list \<Rightarrow> 'a option \<times> 'a list" where
  "heap_pop h = (case h of [] \<Rightarrow> (None, []) | x # xs \<Rightarrow> (Some x, xs))"

record 'e TimerEventWrapper =
  deadline :: TimeValue
  event :: 'e

text \<open>The order of the events is that of the deadlines reversed.\<close>

definition wrapper_le :: "'e TimerEventWrapper \<Rightarrow> 'e TimerEventWrapper \<Rightarrow> bool" where
  "wrapper_le a b \<longleftrightarrow> deadline b \<le> deadline a"

record 'e TimerList =
  events :: "'e TimerEventWrapper list"

definition tl_new :: "'e TimerList" where
  "tl_new = \<lparr>events = []\<rparr>"

definition tl_is_empty :: "'e TimerList \<Rightarrow> bool" where
  "tl_is_empty l = (events l = [])"

definition tl_set :: "TimeValue \<Rightarrow> 'e \<Rightarrow> 'e TimerList \<Rightarrow> 'e TimerList" where
  "tl_set d e l = l\<lparr>events := heap_push wrapper_le \<lparr>deadline = d, event = e\<rparr> (events l)\<rparr>"

definition tl_cancel :: "('e \<Rightarrow> bool) \<Rightarrow> 'e TimerList \<Rightarrow> 'e TimerList" where
  "tl_cancel condition l = l\<lparr>events := filter (\<lambda>e. \<not> condition (event e)) (events l)\<rparr>"

definition tl_next_deadline :: "'e TimerList \<Rightarrow> TimeValue option" where
  "tl_next_deadline l = map_option deadline (heap_peek (events l))"

definition tl_expire_one :: "TimeValue \<Rightarrow> 'e TimerList \<Rightarrow> (TimeValue \<times> 'e) option \<times> 'e TimerList" where
  "tl_expire_one now l =
     (case heap_peek (events l) of
        Some e \<Rightarrow>
          if deadline e \<le> now
          then (case heap_pop (events l) of (x, h) \<Rightarrow> (map_option (\<lambda>e. (deadline e, event e)) x, l\<lparr>events := h\<rparr>))
          else (None, l)
      | None \<Rightarrow> (None, l))"

section \<open>Order of the events\<close>

definition tl_sorted :: "'e TimerList \<Rightarrow> bool" where
  "tl_sorted l \<longleftrightarrow> sorted (map deadline (events l))"

text \<open>The pending events, as pairs.\<close>

definition pending :: "'e TimerList \<Rightarrow> (TimeValue \<times> 'e) multiset" where
  "pending l = image_mset (\<lambda>e. (deadline e, event e)) (mset (events l))"

lemma heap_push_mset [simp]: "mset (heap_push le x h) = add_mset x (mset h)"
  by (induction h) auto

lemma heap_push_set [simp]: "set (heap_push le x h) = insert x (set h)"
  by (induction h) auto

lemma heap_push_sorted: "sorted (map deadline h) \<Longrightarrow> sorted (map deadline (heap_push wrapper_le x h))"
  by (induction h) (auto simp: wrapper_le_def)

lemma tl_set_sorted: "tl_sorted l \<Longrightarrow> tl_sorted (tl_set d e l)"
  by (simp add: tl_sorted_def tl_set_def heap_push_sorted)

lemma tl_cancel_sorted: "tl_sorted l \<Longrightarrow> tl_sorted (tl_cancel c l)"
  by (simp add: tl_sorted_def tl_cancel_def sorted_filter)

lemma tl_new_sorted [simp]: "tl_sorted tl_new"
  by (simp add: tl_sorted_def tl_new_def)

lemma pending_new [simp]: "pending tl_new = {#}"
  by (simp add: pending_def tl_new_def)

lemma pending_set [simp]: "pending (tl_set d e l) = add_mset (d, e) (pending l)"
  by (simp add: pending_def tl_set_def)

lemma pending_cancel: "pending (tl_cancel c l) = filter_mset (\<lambda>(d, e). \<not> c e) (pending l)"
  by (simp add: pending_def tl_cancel_def filter_mset_image_mset)

lemma tl_expire_one_none:
  "tl_sorted l \<Longrightarrow> tl_expire_one now l = (None, l') \<Longrightarrow> l' = l \<and> (\<forall>(d, e) \<in># pending l. now < d)"
  by (auto simp: tl_sorted_def tl_expire_one_def heap_peek_def heap_pop_def pending_def split: list.splits if_splits)

lemma tl_expire_one_some:
  assumes "tl_sorted l" "tl_expire_one now l = (Some (d, e), l')"
  shows "tl_sorted l' \<and> d \<le> now \<and> pending l = add_mset (d, e) (pending l') \<and> (\<forall>(d', e') \<in># pending l. d \<le> d')
    \<and> length (events l) = Suc (length (events l'))"
  using assms by (auto simp: tl_sorted_def tl_expire_one_def heap_peek_def heap_pop_def pending_def split: list.splits if_splits)

end
