(* ===== verification/AxTask.thy ===== *)
theory AxTask
  imports Scheduler SlabAlloc TimerList
begin

text \<open>
  Model of the module \<open>axtask\<close> (src/modules/axtask/src: task.rs, run_queue.rs, wait_queue.rs, timers.rs, api.rs) in
  the configuration with multi-tasking, interrupts and preemption, over any scheduler and any number of CPUs.

  The state of the module is a \<open>Kernel\<close>: the task objects, the wait queues, the run queue, the timers, the exited tasks and,
  per CPU, the current and the idle task. An \<open>Arc\<close> is the index of its task object, which holds the count of strong
  references; cloning and dropping are explicit, and the last drop frees the stack. A critical section of \<open>RUN_QUEUE\<close> is
  one step. A call that switches to another task ends in the code that this task runs when it comes back: it leaves its
  own critical section or, if it is new, starts at \<open>task_entry\<close>. Registers, logging and the hypervisor feature
  are not part of the model.
\<close>

section \<open>Tasks\<close>

type_synonym tref = nat

datatype TaskState = Running | Ready | Blocked | Exited

fun task_state_as :: "TaskState \<Rightarrow> u8" where
  "task_state_as Running = 1"
| "task_state_as Ready = 2"
| "task_state_as Blocked = 3"
| "task_state_as Exited = 4"

definition task_state_from :: "u8 \<Rightarrow> TaskState outcome" where
  "task_state_from s =
     (if s = 1 then Ret Running else if s = 2 then Ret Ready else if s = 3 then Ret Blocked
      else if s = 4 then Ret Exited else Panic)"

text \<open>\<open>GlobalAlloc\<close>, the interface of the standard library to the allocator.\<close>

record 'g GlobalAllocIf =
  gl_alloc :: "Layout \<Rightarrow> 'g \<Rightarrow> (usize \<times> 'g) outcome"
  gl_dealloc :: "usize \<Rightarrow> Layout \<Rightarrow> 'g \<Rightarrow> 'g"

record TaskStack =
  ts_ptr :: usize
  ts_layout :: Layout

definition task_stack_alloc :: "'g GlobalAllocIf \<Rightarrow> usize \<Rightarrow> 'g \<Rightarrow> (TaskStack \<times> 'g) outcome" where
  "task_stack_alloc GA sz g =
     (case from_size_align sz 16 of
        None \<Rightarrow> Panic
      | Some layout \<Rightarrow> out_then (gl_alloc GA layout g) (\<lambda>(ptr, g).
          if ptr = 0 then Panic else Ret (\<lparr>ts_ptr = ptr, ts_layout = layout\<rparr>, g)))"

definition task_stack_top :: "TaskStack \<Rightarrow> VirtAddr" where
  "task_stack_top st = VirtAddr (ts_ptr st + lay_size (ts_layout st))"

definition task_stack_drop :: "'g GlobalAllocIf \<Rightarrow> TaskStack \<Rightarrow> 'g \<Rightarrow> 'g" where
  "task_stack_drop GA st g = gl_dealloc GA (ts_ptr st) (ts_layout st) g"

text \<open>
  Where a task that is not on a CPU goes on: nowhere yet (\<open>TaskContext::new\<close>), at \<open>task_entry\<close> on its stack
  (\<open>TaskContext::init\<close>), or behind the switch that took it off the CPU. \<open>CtxLive\<close> is a started task that has not been
  taken off yet.
\<close>

datatype TaskContext = CtxNew | CtxInit VirtAddr | CtxSaved | CtxLive

record TaskInner =
  ti_id :: u64
  ti_name :: string
  ti_is_idle :: bool
  ti_is_init :: bool
  ti_entry :: "usize option"
  ti_state :: TaskState
  ti_in_wait_queue :: bool
  ti_in_timer_list :: bool
  ti_need_resched :: bool
  ti_preempt_disable_count :: usize
  ti_exit_code :: u32
  ti_wait_for_exit :: nat
  ti_kstack :: "TaskStack option"
  ti_ctx :: TaskContext
  ti_strong :: nat

record ('s, 'g) Kernel =
  k_ids :: u64
  k_tasks :: "TaskInner list"
  k_wqs :: "tref list list"
  k_timers :: "tref TimerList option"
  k_sched :: "'s option"
  k_exited :: "tref list"
  k_current :: "tref option list"
  k_idle :: "tref option list"
  k_heap :: 'g

definition task_at :: "tref \<Rightarrow> ('s, 'g) Kernel \<Rightarrow> TaskInner" where
  "task_at t w = k_tasks w ! t"

definition set_task :: "tref \<Rightarrow> (TaskInner \<Rightarrow> TaskInner) \<Rightarrow> ('s, 'g) Kernel \<Rightarrow> ('s, 'g) Kernel" where
  "set_task t f w = w\<lparr>k_tasks := (k_tasks w)[t := f (task_at t w)]\<rparr>"

definition is_running :: "tref \<Rightarrow> ('s, 'g) Kernel \<Rightarrow> bool" where
  "is_running t w \<longleftrightarrow> ti_state (task_at t w) = Running"

definition is_ready :: "tref \<Rightarrow> ('s, 'g) Kernel \<Rightarrow> bool" where
  "is_ready t w \<longleftrightarrow> ti_state (task_at t w) = Ready"

definition is_blocked :: "tref \<Rightarrow> ('s, 'g) Kernel \<Rightarrow> bool" where
  "is_blocked t w \<longleftrightarrow> ti_state (task_at t w) = Blocked"

definition set_state :: "TaskState \<Rightarrow> tref \<Rightarrow> ('s, 'g) Kernel \<Rightarrow> ('s, 'g) Kernel" where
  "set_state s t = set_task t (\<lambda>x. x\<lparr>ti_state := s\<rparr>)"

definition set_in_wait_queue :: "bool \<Rightarrow> tref \<Rightarrow> ('s, 'g) Kernel \<Rightarrow> ('s, 'g) Kernel" where
  "set_in_wait_queue b t = set_task t (\<lambda>x. x\<lparr>ti_in_wait_queue := b\<rparr>)"

definition set_in_timer_list :: "bool \<Rightarrow> tref \<Rightarrow> ('s, 'g) Kernel \<Rightarrow> ('s, 'g) Kernel" where
  "set_in_timer_list b t = set_task t (\<lambda>x. x\<lparr>ti_in_timer_list := b\<rparr>)"

definition set_preempt_pending :: "bool \<Rightarrow> tref \<Rightarrow> ('s, 'g) Kernel \<Rightarrow> ('s, 'g) Kernel" where
  "set_preempt_pending b t = set_task t (\<lambda>x. x\<lparr>ti_need_resched := b\<rparr>)"

definition can_preempt :: "usize \<Rightarrow> tref \<Rightarrow> ('s, 'g) Kernel \<Rightarrow> bool" where
  "can_preempt n t w \<longleftrightarrow> ti_preempt_disable_count (task_at t w) = n"

definition disable_preempt :: "tref \<Rightarrow> ('s, 'g) Kernel \<Rightarrow> ('s, 'g) Kernel" where
  "disable_preempt t = set_task t (\<lambda>x. x\<lparr>ti_preempt_disable_count := ti_preempt_disable_count x + 1\<rparr>)"

subsection \<open>References\<close>

text \<open>\<open>Arc::new\<close>, \<open>Arc::clone\<close> and \<open>Arc::strong_count\<close>.\<close>

definition arc_new :: "TaskInner \<Rightarrow> ('s, 'g) Kernel \<Rightarrow> tref \<times> ('s, 'g) Kernel" where
  "arc_new x w = (length (k_tasks w), w\<lparr>k_tasks := k_tasks w @ [x\<lparr>ti_strong := 1\<rparr>]\<rparr>)"

definition arc_clone :: "tref \<Rightarrow> ('s, 'g) Kernel \<Rightarrow> ('s, 'g) Kernel" where
  "arc_clone t = set_task t (\<lambda>x. x\<lparr>ti_strong := Suc (ti_strong x)\<rparr>)"

definition strong_count :: "tref \<Rightarrow> ('s, 'g) Kernel \<Rightarrow> nat" where
  "strong_count t w = ti_strong (task_at t w)"

lemma sum_strong_update:
  "t < length xs \<Longrightarrow> ti_strong y < ti_strong (xs ! t) \<Longrightarrow>
   sum_list (map ti_strong (xs[t := y])) < sum_list (map ti_strong xs)"
proof (induction xs arbitrary: t)
  case (Cons x xs)
  then show ?case by (cases t) auto
qed simp

text \<open>
  Dropping references. The last reference drops the fields of the task: the references in its wait queue, then its
  stack. What is still to be dropped is a list; a drop without a reference left does not happen.
\<close>

datatype drop_item = DropRef tref | DropStack TaskStack

function (sequential) drop_all :: "'g GlobalAllocIf \<Rightarrow> drop_item list \<Rightarrow> ('s, 'g) Kernel \<Rightarrow> ('s, 'g) Kernel outcome" where
  "drop_all GA [] w = Ret w"
| "drop_all GA (DropStack st # xs) w = drop_all GA xs (w\<lparr>k_heap := task_stack_drop GA st (k_heap w)\<rparr>)"
| "drop_all GA (DropRef t # xs) w =
     (let x = task_at t w in
      if t \<ge> length (k_tasks w) \<or> ti_strong x = 0 then Panic
      else if ti_strong x > 1 then drop_all GA xs (set_task t (\<lambda>x. x\<lparr>ti_strong := ti_strong x - 1\<rparr>) w)
      else
        drop_all GA (map DropRef (k_wqs w ! ti_wait_for_exit x)
            @ (case ti_kstack x of None \<Rightarrow> [] | Some st \<Rightarrow> [DropStack st]) @ xs)
          (set_task t (\<lambda>x. x\<lparr>ti_strong := 0, ti_kstack := None\<rparr>)
            (w\<lparr>k_wqs := (k_wqs w)[ti_wait_for_exit x := []]\<rparr>)))"
  by pat_completeness auto

termination
  by (relation "measures [\<lambda>(GA, xs, w). sum_list (map ti_strong (k_tasks w)), \<lambda>(GA, xs, w). length xs]")
     (auto simp: set_task_def task_at_def intro!: sum_strong_update)

declare drop_all.simps(3) [simp del]

abbreviation arc_drop :: "'g GlobalAllocIf \<Rightarrow> tref \<Rightarrow> ('s, 'g) Kernel \<Rightarrow> ('s, 'g) Kernel outcome" where
  "arc_drop GA t \<equiv> drop_all GA [DropRef t]"

subsection \<open>Creation\<close>

definition task_id_new :: "('s, 'g) Kernel \<Rightarrow> u64 \<times> ('s, 'g) Kernel" where
  "task_id_new w = (k_ids w, w\<lparr>k_ids := k_ids w + 1\<rparr>)"

text \<open>A wait queue is its index among the wait queues.\<close>

definition wait_queue_new :: "('s, 'g) Kernel \<Rightarrow> nat \<times> ('s, 'g) Kernel" where
  "wait_queue_new w = (length (k_wqs w), w\<lparr>k_wqs := k_wqs w @ [[]]\<rparr>)"

definition new_common :: "u64 \<Rightarrow> string \<Rightarrow> ('s, 'g) Kernel \<Rightarrow> TaskInner \<times> ('s, 'g) Kernel" where
  "new_common tid name w =
     (let (q, w) = wait_queue_new w
      in (\<lparr>ti_id = tid, ti_name = name, ti_is_idle = False, ti_is_init = False, ti_entry = None, ti_state = Ready,
           ti_in_wait_queue = False, ti_in_timer_list = False, ti_need_resched = False, ti_preempt_disable_count = 0,
           ti_exit_code = 0, ti_wait_for_exit = q, ti_kstack = None, ti_ctx = CtxNew, ti_strong = 0\<rparr>, w))"

definition task_new :: "'g GlobalAllocIf \<Rightarrow> usize \<Rightarrow> string \<Rightarrow> usize \<Rightarrow> ('s, 'g) Kernel \<Rightarrow> (tref \<times> ('s, 'g) Kernel) outcome" where
  "task_new GA entry name stack_size w =
     (let (tid, w) = task_id_new w;
          (t, w) = new_common tid name w
      in out_then (task_stack_alloc GA (align_up_4k stack_size) (k_heap w)) (\<lambda>(kstack, g).
           let w = w\<lparr>k_heap := g\<rparr>;
               t = t\<lparr>ti_entry := Some entry, ti_ctx := CtxInit (task_stack_top kstack), ti_kstack := Some kstack\<rparr>;
               t = (if name = ''idle'' then t\<lparr>ti_is_idle := True\<rparr> else t)
           in Ret (arc_new t w)))"

definition task_new_init :: "string \<Rightarrow> ('s, 'g) Kernel \<Rightarrow> tref \<times> ('s, 'g) Kernel" where
  "task_new_init name w =
     (let (tid, w) = task_id_new w;
          (t, w) = new_common tid name w;
          t = t\<lparr>ti_is_init := True\<rparr>;
          t = (if name = ''idle'' then t\<lparr>ti_is_idle := True\<rparr> else t)
      in arc_new t w)"

subsection \<open>The current task\<close>

definition current_may_uninit :: "nat \<Rightarrow> ('s, 'g) Kernel \<Rightarrow> tref option" where
  "current_may_uninit c w = (if c < length (k_current w) then k_current w ! c else None)"

definition current :: "nat \<Rightarrow> ('s, 'g) Kernel \<Rightarrow> tref outcome" where
  "current c w = (case current_may_uninit c w of None \<Rightarrow> Panic | Some t \<Rightarrow> Ret t)"

definition init_current :: "nat \<Rightarrow> tref \<Rightarrow> ('s, 'g) Kernel \<Rightarrow> ('s, 'g) Kernel" where
  "init_current c t w = w\<lparr>k_current := (k_current w)[c := Some t]\<rparr>"

definition set_current :: "'g GlobalAllocIf \<Rightarrow> nat \<Rightarrow> tref \<Rightarrow> tref \<Rightarrow> ('s, 'g) Kernel \<Rightarrow> ('s, 'g) Kernel outcome" where
  "set_current GA c prev next w =
     out_then (arc_drop GA prev w) (\<lambda>w. Ret (w\<lparr>k_current := (k_current w)[c := Some next]\<rparr>))"

section \<open>The run queue\<close>

text \<open>A call of the scheduler inside \<open>RUN_QUEUE\<close>, which has to be initialised.\<close>

definition sched_do :: "('s \<Rightarrow> ('a \<times> 's) outcome) \<Rightarrow> ('s, 'g) Kernel \<Rightarrow> ('a \<times> ('s, 'g) Kernel) outcome" where
  "sched_do f w =
     (case k_sched w of
        None \<Rightarrow> Panic
      | Some s \<Rightarrow> out_then (f s) (\<lambda>(x, s). Ret (x, w\<lparr>k_sched := Some s\<rparr>)))"

definition sched_upd :: "('s \<Rightarrow> 's outcome) \<Rightarrow> ('s, 'g) Kernel \<Rightarrow> ('s, 'g) Kernel outcome" where
  "sched_upd f w = out_then (sched_do (\<lambda>s. out_then (f s) (\<lambda>s. Ret ((), s))) w) (\<lambda>(_, w). Ret w)"

definition rq_new :: "(tref, 's) BaseScheduler \<Rightarrow> 's \<Rightarrow> 'g GlobalAllocIf \<Rightarrow> usize \<Rightarrow> usize \<Rightarrow> ('s, 'g) Kernel
    \<Rightarrow> ('s \<times> ('s, 'g) Kernel) outcome" where
  "rq_new B s0 GA gc_entry TASK_STACK_SIZE w =
     out_then (task_new GA gc_entry ''gc'' TASK_STACK_SIZE w) (\<lambda>(gc_task, w).
       out_then (add_task B gc_task s0) (\<lambda>s. Ret (s, w)))"

definition rq_add_task :: "(tref, 's) BaseScheduler \<Rightarrow> tref \<Rightarrow> ('s, 'g) Kernel \<Rightarrow> ('s, 'g) Kernel outcome" where
  "rq_add_task B t w = (if \<not> is_ready t w then Panic else sched_upd (add_task B t) w)"

definition rq_scheduler_timer_tick :: "(tref, 's) BaseScheduler \<Rightarrow> nat \<Rightarrow> ('s, 'g) Kernel \<Rightarrow> ('s, 'g) Kernel outcome" where
  "rq_scheduler_timer_tick B c w =
     out_then (current c w) (\<lambda>cur.
       if ti_is_idle (task_at cur w) then Ret w
       else out_then (sched_do (task_tick B cur) w) (\<lambda>(resched, w).
              Ret (if resched then set_preempt_pending True cur w else w)))"

definition rq_set_current_priority :: "(tref, 's) BaseScheduler \<Rightarrow> nat \<Rightarrow> int \<Rightarrow> ('s, 'g) Kernel \<Rightarrow> (bool \<times> ('s, 'g) Kernel) outcome" where
  "rq_set_current_priority B c prio w =
     out_then (current c w) (\<lambda>cur. sched_do (set_priority B cur prio) w)"

text \<open>The context of the task that leaves the CPU is saved; the one that comes in is loaded.\<close>

definition rq_switch_to :: "'g GlobalAllocIf \<Rightarrow> nat \<Rightarrow> tref \<Rightarrow> tref \<Rightarrow> ('s, 'g) Kernel \<Rightarrow> ('s, 'g) Kernel outcome" where
  "rq_switch_to GA c prev next w =
     (let w = set_preempt_pending False next w;
          w = set_state Running next w
      in if prev = next then arc_drop GA next w
         else if \<not> strong_count prev w > 1 then Panic
         else if \<not> strong_count next w \<ge> 1 then Panic
         else out_then (set_current GA c prev next w) (\<lambda>w. Ret (set_task prev (\<lambda>x. x\<lparr>ti_ctx := CtxSaved\<rparr>) w)))"

definition rq_resched :: "(tref, 's) BaseScheduler \<Rightarrow> 'g GlobalAllocIf \<Rightarrow> nat \<Rightarrow> bool \<Rightarrow> ('s, 'g) Kernel \<Rightarrow> ('s, 'g) Kernel outcome" where
  "rq_resched B GA c preempt w =
     out_then (current c w) (\<lambda>prev.
     out_then
       (if is_running prev w
        then (let w = set_state Ready prev w
              in if \<not> ti_is_idle (task_at prev w) then sched_upd (put_prev_task B prev preempt) (arc_clone prev w)
                 else Ret w)
        else Ret w)
       (\<lambda>w. out_then (sched_do (pick_next_task B) w) (\<lambda>(next, w).
         case next of
           Some next \<Rightarrow> rq_switch_to GA c prev next w
         | None \<Rightarrow>
             (case k_idle w ! c of
                None \<Rightarrow> Panic
              | Some next \<Rightarrow> rq_switch_to GA c prev next (arc_clone next w)))))"

definition rq_yield_current :: "(tref, 's) BaseScheduler \<Rightarrow> 'g GlobalAllocIf \<Rightarrow> nat \<Rightarrow> ('s, 'g) Kernel \<Rightarrow> ('s, 'g) Kernel outcome" where
  "rq_yield_current B GA c w =
     out_then (current c w) (\<lambda>cur. if \<not> is_running cur w then Panic else rq_resched B GA c False w)"

definition rq_preempt_resched :: "(tref, 's) BaseScheduler \<Rightarrow> 'g GlobalAllocIf \<Rightarrow> nat \<Rightarrow> ('s, 'g) Kernel \<Rightarrow> ('s, 'g) Kernel outcome" where
  "rq_preempt_resched B GA c w =
     out_then (current c w) (\<lambda>cur.
       if \<not> is_running cur w then Panic
       else if can_preempt 1 cur w then rq_resched B GA c True w
       else Ret (set_preempt_pending True cur w))"

definition rq_unblock_task :: "(tref, 's) BaseScheduler \<Rightarrow> 'g GlobalAllocIf \<Rightarrow> nat \<Rightarrow> tref \<Rightarrow> bool \<Rightarrow> ('s, 'g) Kernel
    \<Rightarrow> ('s, 'g) Kernel outcome" where
  "rq_unblock_task B GA c t resched w =
     (if is_blocked t w
      then out_then (sched_upd (add_task B t) (set_state Ready t w)) (\<lambda>w.
             if resched then out_then (current c w) (\<lambda>cur. Ret (set_preempt_pending True cur w)) else Ret w)
      else arc_drop GA t w)"

definition rq_block_current :: "(tref, 's) BaseScheduler \<Rightarrow> 'g GlobalAllocIf \<Rightarrow> nat \<Rightarrow> (tref \<Rightarrow> ('s, 'g) Kernel \<Rightarrow> ('s, 'g) Kernel)
    \<Rightarrow> ('s, 'g) Kernel \<Rightarrow> ('s, 'g) Kernel outcome" where
  "rq_block_current B GA c wait_queue_push w =
     out_then (current c w) (\<lambda>cur.
       if \<not> is_running cur w then Panic
       else if ti_is_idle (task_at cur w) then Panic
       else if \<not> can_preempt 1 cur w then Panic
       else rq_resched B GA c False (wait_queue_push cur (arc_clone cur (set_state Blocked cur w))))"

subsection \<open>Waking up\<close>

text \<open>The wait queue \<open>WAIT_FOR_EXIT\<close> of the run queue has index 0.\<close>

definition WAIT_FOR_EXIT :: nat where "WAIT_FOR_EXIT = 0"

definition wq_pop_front :: "nat \<Rightarrow> ('s, 'g) Kernel \<Rightarrow> tref option \<times> ('s, 'g) Kernel" where
  "wq_pop_front q w = (case k_wqs w ! q of [] \<Rightarrow> (None, w) | t # ts \<Rightarrow> (Some t, w\<lparr>k_wqs := (k_wqs w)[q := ts]\<rparr>))"

definition notify_one_locked :: "(tref, 's) BaseScheduler \<Rightarrow> 'g GlobalAllocIf \<Rightarrow> nat \<Rightarrow> nat \<Rightarrow> bool \<Rightarrow> ('s, 'g) Kernel
    \<Rightarrow> (bool \<times> ('s, 'g) Kernel) outcome" where
  "notify_one_locked B GA c q resched w =
     (case wq_pop_front q w of
        (Some t, w) \<Rightarrow> out_then (rq_unblock_task B GA c t resched (set_in_wait_queue False t w)) (\<lambda>w. Ret (True, w))
      | (None, w) \<Rightarrow> Ret (False, w))"

text \<open>The loop of \<open>notify_all_locked\<close> runs at most as often as there are waiting tasks, since none is added.\<close>

fun notify_all_loop :: "(tref, 's) BaseScheduler \<Rightarrow> 'g GlobalAllocIf \<Rightarrow> nat \<Rightarrow> nat \<Rightarrow> bool \<Rightarrow> nat \<Rightarrow> ('s, 'g) Kernel
    \<Rightarrow> ('s, 'g) Kernel outcome" where
  "notify_all_loop B GA c q resched 0 w = Ret w"
| "notify_all_loop B GA c q resched (Suc n) w =
     (case wq_pop_front q w of
        (Some t, w) \<Rightarrow> out_then (rq_unblock_task B GA c t resched (set_in_wait_queue False t w)) (notify_all_loop B GA c q resched n)
      | (None, w) \<Rightarrow> Ret w)"

definition notify_all_locked :: "(tref, 's) BaseScheduler \<Rightarrow> 'g GlobalAllocIf \<Rightarrow> nat \<Rightarrow> nat \<Rightarrow> bool \<Rightarrow> ('s, 'g) Kernel
    \<Rightarrow> ('s, 'g) Kernel outcome" where
  "notify_all_locked B GA c q resched w = notify_all_loop B GA c q resched (length (k_wqs w ! q)) w"

definition notify_exit :: "(tref, 's) BaseScheduler \<Rightarrow> 'g GlobalAllocIf \<Rightarrow> nat \<Rightarrow> tref \<Rightarrow> u32 \<Rightarrow> ('s, 'g) Kernel
    \<Rightarrow> ('s, 'g) Kernel outcome" where
  "notify_exit B GA c t exit_code w =
     notify_all_locked B GA c (ti_wait_for_exit (task_at t w)) False (set_task t (\<lambda>x. x\<lparr>ti_exit_code := exit_code\<rparr>) w)"

text \<open>
  \<open>exit_current\<close>: \<open>None\<close> is the system shut down. The locks that it takes under \<open>RUN_QUEUE\<close> leave the preemption count
  as it is.
\<close>

definition rq_exit_current :: "(tref, 's) BaseScheduler \<Rightarrow> 'g GlobalAllocIf \<Rightarrow> nat \<Rightarrow> u32 \<Rightarrow> ('s, 'g) Kernel
    \<Rightarrow> ('s, 'g) Kernel option outcome" where
  "rq_exit_current B GA c exit_code w =
     out_then (current c w) (\<lambda>cur.
       if \<not> is_running cur w then Panic
       else if ti_is_idle (task_at cur w) then Panic
       else if ti_is_init (task_at cur w)
       then out_then (drop_all GA (map DropRef (k_exited w)) (w\<lparr>k_exited := []\<rparr>)) (\<lambda>w. Ret None)
       else
         out_then (notify_exit B GA c cur exit_code (set_state Exited cur w)) (\<lambda>w.
         let w = arc_clone cur w;
             w = w\<lparr>k_exited := k_exited w @ [cur]\<rparr>
         in out_then (notify_one_locked B GA c WAIT_FOR_EXIT False w) (\<lambda>(_, w).
            out_then (rq_resched B GA c False w) (\<lambda>w. Ret (Some w)))))"

subsection \<open>Critical sections and preemption\<close>

text \<open>
  Taking a \<open>SpinNoIrq\<close> lock disables preemption of the current task, leaving it enables preemption again
  (\<open>KernelGuardIfImpl\<close>), and when the count falls to zero a pending preemption takes place, inside \<open>RUN_QUEUE\<close>. The task
  that then runs leaves its own critical section in turn, unless it is new.
\<close>

definition guard_acquire :: "nat \<Rightarrow> ('s, 'g) Kernel \<Rightarrow> ('s, 'g) Kernel" where
  "guard_acquire c w = (case current_may_uninit c w of None \<Rightarrow> w | Some cur \<Rightarrow> disable_preempt cur w)"

partial_function (option) guard_release :: "(tref, 's) BaseScheduler \<Rightarrow> 'g GlobalAllocIf \<Rightarrow> nat \<Rightarrow> ('s, 'g) Kernel
    \<Rightarrow> ('s, 'g) Kernel outcome option" where
  "guard_release B GA c w =
     (case current_may_uninit c w of
        None \<Rightarrow> Some (Ret w)
      | Some cur \<Rightarrow>
          (case ti_ctx (task_at cur w) of
             CtxInit sp \<Rightarrow> Some (Ret (set_task cur (\<lambda>x. x\<lparr>ti_ctx := CtxLive\<rparr>) w))
           | _ \<Rightarrow>
               (let old = ti_preempt_disable_count (task_at cur w);
                    w = set_task cur (\<lambda>x. x\<lparr>ti_preempt_disable_count := old - 1\<rparr>) w
                in if old = 1 \<and> ti_need_resched (task_at cur w) \<and> can_preempt 0 cur w
                   then
                     (if k_sched w = None then Some Panic
                      else let w = guard_acquire c w
                           in case (if ti_need_resched (task_at cur w) then rq_preempt_resched B GA c w else Ret w) of
                                Panic \<Rightarrow> Some Panic
                              | Ret w \<Rightarrow> guard_release B GA c w)
                   else Some (Ret w))))"

text \<open>A critical section of a \<open>SpinNoIrq\<close> lock, and one of \<open>RUN_QUEUE\<close>.\<close>

definition with_lock :: "(tref, 's) BaseScheduler \<Rightarrow> 'g GlobalAllocIf \<Rightarrow> nat \<Rightarrow> (('s, 'g) Kernel \<Rightarrow> ('a \<times> ('s, 'g) Kernel) outcome)
    \<Rightarrow> ('s, 'g) Kernel \<Rightarrow> ('a \<times> ('s, 'g) Kernel) outcome option" where
  "with_lock B GA c f w =
     (case f (guard_acquire c w) of
        Panic \<Rightarrow> Some Panic
      | Ret (x, w) \<Rightarrow> Option.bind (guard_release B GA c w) (\<lambda>out. Some (out_then out (\<lambda>w. Ret (x, w)))))"

definition with_rq :: "(tref, 's) BaseScheduler \<Rightarrow> 'g GlobalAllocIf \<Rightarrow> nat \<Rightarrow> (('s, 'g) Kernel \<Rightarrow> ('a \<times> ('s, 'g) Kernel) outcome)
    \<Rightarrow> ('s, 'g) Kernel \<Rightarrow> ('a \<times> ('s, 'g) Kernel) outcome option" where
  "with_rq B GA c f w = (if k_sched w = None then Some Panic else with_lock B GA c f w)"

definition no_value :: "('w \<Rightarrow> 'w outcome) \<Rightarrow> 'w \<Rightarrow> (unit \<times> 'w) outcome" where
  "no_value f w = out_then (f w) (\<lambda>w. Ret ((), w))"

section \<open>Timers\<close>

definition timers_do :: "(tref TimerList \<Rightarrow> 'a \<times> tref TimerList) \<Rightarrow> ('s, 'g) Kernel \<Rightarrow> ('a \<times> ('s, 'g) Kernel) outcome" where
  "timers_do f w =
     (case k_timers w of None \<Rightarrow> Panic | Some l \<Rightarrow> (case f l of (x, l) \<Rightarrow> Ret (x, w\<lparr>k_timers := Some l\<rparr>)))"

text \<open>The body of \<open>set_alarm_wakeup\<close>, which takes over a reference, and that of \<open>cancel_alarm\<close>, which drops those of the events.\<close>

definition set_alarm :: "TimeValue \<Rightarrow> tref \<Rightarrow> ('s, 'g) Kernel \<Rightarrow> (unit \<times> ('s, 'g) Kernel) outcome" where
  "set_alarm ddl t w = timers_do (\<lambda>l. ((), tl_set ddl t l)) (set_in_timer_list True t w)"

definition set_alarm_wakeup :: "(tref, 's) BaseScheduler \<Rightarrow> 'g GlobalAllocIf \<Rightarrow> nat \<Rightarrow> TimeValue \<Rightarrow> tref \<Rightarrow> ('s, 'g) Kernel
    \<Rightarrow> (unit \<times> ('s, 'g) Kernel) outcome option" where
  "set_alarm_wakeup B GA c ddl t = with_lock B GA c (set_alarm ddl t)"

definition cancel_alarm :: "(tref, 's) BaseScheduler \<Rightarrow> 'g GlobalAllocIf \<Rightarrow> nat \<Rightarrow> tref \<Rightarrow> ('s, 'g) Kernel
    \<Rightarrow> (unit \<times> ('s, 'g) Kernel) outcome option" where
  "cancel_alarm B GA c t = with_lock B GA c (\<lambda>w.
     out_then (timers_do (\<lambda>l. (filter (\<lambda>u. u = t) (map event (events l)), tl_cancel (\<lambda>u. u = t) l)) (set_in_timer_list False t w))
       (\<lambda>(gone, w). no_value (drop_all GA (map DropRef gone)) w))"

definition wakeup_callback :: "(tref, 's) BaseScheduler \<Rightarrow> 'g GlobalAllocIf \<Rightarrow> nat \<Rightarrow> tref \<Rightarrow> ('s, 'g) Kernel
    \<Rightarrow> (unit \<times> ('s, 'g) Kernel) outcome option" where
  "wakeup_callback B GA c t = with_rq B GA c (no_value (\<lambda>w. rq_unblock_task B GA c t True (set_in_timer_list False t w)))"

text \<open>\<open>check_events\<close>; \<open>clock k\<close> is the time that the \<open>k\<close>-th round of the loop reads.\<close>

partial_function (option) check_events :: "(tref, 's) BaseScheduler \<Rightarrow> 'g GlobalAllocIf \<Rightarrow> nat \<Rightarrow> (nat \<Rightarrow> TimeValue) \<Rightarrow> nat \<Rightarrow> ('s, 'g) Kernel
    \<Rightarrow> (unit \<times> ('s, 'g) Kernel) outcome option" where
  "check_events B GA c clock k w =
     Option.bind (with_lock B GA c (timers_do (tl_expire_one (clock k))) w) (\<lambda>out.
       case out of
         Panic \<Rightarrow> Some Panic
       | Ret (r, w) \<Rightarrow>
           (case r of
              None \<Rightarrow> Some (Ret ((), w))
            | Some de \<Rightarrow>
                Option.bind (wakeup_callback B GA c (snd de) w) (\<lambda>out.
                  case out of Panic \<Rightarrow> Some Panic | Ret uw \<Rightarrow> check_events B GA c clock (Suc k) (snd uw))))"

definition timers_init :: "('s, 'g) Kernel \<Rightarrow> ('s, 'g) Kernel outcome" where
  "timers_init w = (if k_timers w \<noteq> None then Panic else Ret (w\<lparr>k_timers := Some tl_new\<rparr>))"

definition rq_sleep_until :: "(tref, 's) BaseScheduler \<Rightarrow> 'g GlobalAllocIf \<Rightarrow> nat \<Rightarrow> TimeValue \<Rightarrow> TimeValue \<Rightarrow> ('s, 'g) Kernel
    \<Rightarrow> ('s, 'g) Kernel outcome" where
  "rq_sleep_until B GA c now ddl w =
     out_then (current c w) (\<lambda>cur.
       if \<not> is_running cur w then Panic
       else if ti_is_idle (task_at cur w) then Panic
       else if now < ddl
       then out_then (set_alarm ddl cur (arc_clone cur w)) (\<lambda>(_, w). rq_resched B GA c False (set_state Blocked cur w))
       else Ret w)"

section \<open>Wait queues\<close>

definition wq_push :: "nat \<Rightarrow> tref \<Rightarrow> ('s, 'g) Kernel \<Rightarrow> ('s, 'g) Kernel" where
  "wq_push q t w = (let w = set_in_wait_queue True t w in w\<lparr>k_wqs := (k_wqs w)[q := k_wqs w ! q @ [t]]\<rparr>)"

definition cancel_events :: "(tref, 's) BaseScheduler \<Rightarrow> 'g GlobalAllocIf \<Rightarrow> nat \<Rightarrow> nat \<Rightarrow> tref \<Rightarrow> ('s, 'g) Kernel
    \<Rightarrow> (unit \<times> ('s, 'g) Kernel) outcome option" where
  "cancel_events B GA c q cur w =
     (case (if ti_in_wait_queue (task_at cur w)
            then out_then (drop_all GA (map DropRef (filter (\<lambda>t. t = cur) (k_wqs w ! q)))
                   (w\<lparr>k_wqs := (k_wqs w)[q := filter (\<lambda>t. t \<noteq> cur) (k_wqs w ! q)]\<rparr>))
                   (\<lambda>w. Ret (set_in_wait_queue False cur w))
            else Ret w) of
        Panic \<Rightarrow> Some Panic
      | Ret w \<Rightarrow> if ti_in_timer_list (task_at cur w) then cancel_alarm B GA c cur w else Some (Ret ((), w)))"

text \<open>
  The blocking calls, up to the switch to another task: what they do when the task is back is the release of the lock
  and then \<open>cancel_events\<close>. \<open>wait_until_once\<close> is one round of the loop of \<open>wait_until\<close>, with the value True when the
  loop is left.
\<close>

definition wq_block :: "(tref, 's) BaseScheduler \<Rightarrow> 'g GlobalAllocIf \<Rightarrow> nat \<Rightarrow> nat \<Rightarrow> ('s, 'g) Kernel
    \<Rightarrow> (unit \<times> ('s, 'g) Kernel) outcome option" where
  "wq_block B GA c q = with_rq B GA c (no_value (rq_block_current B GA c (wq_push q)))"

definition wait_until_once :: "(tref, 's) BaseScheduler \<Rightarrow> 'g GlobalAllocIf \<Rightarrow> nat \<Rightarrow> nat \<Rightarrow> (('s, 'g) Kernel \<Rightarrow> bool) \<Rightarrow> ('s, 'g) Kernel
    \<Rightarrow> (bool \<times> ('s, 'g) Kernel) outcome option" where
  "wait_until_once B GA c q condition = with_rq B GA c (\<lambda>w.
     if condition w then Ret (True, w)
     else out_then (rq_block_current B GA c (wq_push q) w) (\<lambda>w. Ret (False, w)))"

text \<open>The first critical section of \<open>wait_timeout\<close> and \<open>wait_timeout_until\<close> sets the alarm; they give the deadline.\<close>

definition wait_timeout_alarm :: "(tref, 's) BaseScheduler \<Rightarrow> 'g GlobalAllocIf \<Rightarrow> nat \<Rightarrow> TimeValue \<Rightarrow> TimeValue \<Rightarrow> ('s, 'g) Kernel
    \<Rightarrow> (TimeValue \<times> ('s, 'g) Kernel) outcome option" where
  "wait_timeout_alarm B GA c now dur w =
     (case out_then (current c w) (\<lambda>cur. out_then (duration_add now dur) (\<lambda>ddl. Ret (cur, ddl))) of
        Panic \<Rightarrow> Some Panic
      | Ret (cur, ddl) \<Rightarrow>
          Option.bind (set_alarm_wakeup B GA c ddl cur (arc_clone cur w)) (\<lambda>out. Some (out_then out (\<lambda>(_, w). Ret (ddl, w)))))"

definition wait_timeout_result :: "tref \<Rightarrow> ('s, 'g) Kernel \<Rightarrow> bool" where
  "wait_timeout_result cur w = ti_in_wait_queue (task_at cur w)"

text \<open>One round of the loop of \<open>wait_timeout_until\<close>, with \<open>Some timeout\<close> when the loop is left.\<close>

definition wait_timeout_until_once :: "(tref, 's) BaseScheduler \<Rightarrow> 'g GlobalAllocIf \<Rightarrow> nat \<Rightarrow> nat \<Rightarrow> (('s, 'g) Kernel \<Rightarrow> bool)
    \<Rightarrow> TimeValue \<Rightarrow> TimeValue \<Rightarrow> ('s, 'g) Kernel \<Rightarrow> (bool option \<times> ('s, 'g) Kernel) outcome option" where
  "wait_timeout_until_once B GA c q condition now ddl w =
     (if now < ddl
      then Option.bind (wait_until_once B GA c q condition w) (\<lambda>out.
             Some (out_then out (\<lambda>(done, w). Ret (if done then Some False else None, w))))
      else Some (Ret (Some True, w)))"

definition notify_one :: "(tref, 's) BaseScheduler \<Rightarrow> 'g GlobalAllocIf \<Rightarrow> nat \<Rightarrow> nat \<Rightarrow> bool \<Rightarrow> ('s, 'g) Kernel
    \<Rightarrow> (bool \<times> ('s, 'g) Kernel) outcome option" where
  "notify_one B GA c q resched = with_rq B GA c (\<lambda>w.
     if k_wqs w ! q \<noteq> [] then notify_one_locked B GA c q resched w else Ret (False, w))"

text \<open>One round of the loop of \<open>notify_all\<close>, with the value False when the queue is empty.\<close>

definition notify_all_once :: "(tref, 's) BaseScheduler \<Rightarrow> 'g GlobalAllocIf \<Rightarrow> nat \<Rightarrow> nat \<Rightarrow> bool \<Rightarrow> ('s, 'g) Kernel
    \<Rightarrow> (bool \<times> ('s, 'g) Kernel) outcome option" where
  "notify_all_once B GA c q resched = with_rq B GA c (notify_one_locked B GA c q resched)"

definition notify_task :: "(tref, 's) BaseScheduler \<Rightarrow> 'g GlobalAllocIf \<Rightarrow> nat \<Rightarrow> nat \<Rightarrow> bool \<Rightarrow> tref \<Rightarrow> ('s, 'g) Kernel
    \<Rightarrow> (bool \<times> ('s, 'g) Kernel) outcome option" where
  "notify_task B GA c q resched t = with_rq B GA c (\<lambda>w.
     case position (\<lambda>u. u = t) (k_wqs w ! q) of
       Some i \<Rightarrow>
         (let w = set_in_wait_queue False t w
          in case vec_remove i (k_wqs w ! q) of
               (None, _) \<Rightarrow> Panic
             | (Some u, ts) \<Rightarrow>
                 out_then (rq_unblock_task B GA c u resched (w\<lparr>k_wqs := (k_wqs w)[q := ts]\<rparr>)) (\<lambda>w. Ret (True, w)))
     | None \<Rightarrow> Ret (False, w))"

text \<open>\<open>TaskInner::join\<close>: a round of the wait for the exit, and the exit code once it is over.\<close>

definition join_once :: "(tref, 's) BaseScheduler \<Rightarrow> 'g GlobalAllocIf \<Rightarrow> nat \<Rightarrow> tref \<Rightarrow> ('s, 'g) Kernel
    \<Rightarrow> (bool \<times> ('s, 'g) Kernel) outcome option" where
  "join_once B GA c t w =
     wait_until_once B GA c (ti_wait_for_exit (task_at t w)) (\<lambda>w. ti_state (task_at t w) = Exited) w"

definition join_result :: "tref \<Rightarrow> ('s, 'g) Kernel \<Rightarrow> u32 option" where
  "join_result t w = Some (ti_exit_code (task_at t w))"

section \<open>The garbage collector of tasks\<close>

text \<open>One round of the inner loop of \<open>gc_entry\<close>; the task is dropped when the collector holds the last reference.\<close>

definition gc_once :: "(tref, 's) BaseScheduler \<Rightarrow> 'g GlobalAllocIf \<Rightarrow> nat \<Rightarrow> ('s, 'g) Kernel
    \<Rightarrow> (unit \<times> ('s, 'g) Kernel) outcome option" where
  "gc_once B GA c w =
     Option.bind
       (with_lock B GA c (\<lambda>w. Ret (case k_exited w of [] \<Rightarrow> (None, w) | t # ts \<Rightarrow> (Some t, w\<lparr>k_exited := ts\<rparr>))) w)
       (\<lambda>out. case out of
          Panic \<Rightarrow> Some Panic
        | Ret (None, w) \<Rightarrow> Some (Ret ((), w))
        | Ret (Some t, w) \<Rightarrow>
            if strong_count t w = 1 then Some (no_value (arc_drop GA t) w)
            else with_lock B GA c (\<lambda>w. Ret ((), w\<lparr>k_exited := k_exited w @ [t]\<rparr>)) w)"

section \<open>The interface of the module\<close>

text \<open>The statics of the module when the system starts with \<open>n\<close> CPUs.\<close>

definition boot_kernel :: "nat \<Rightarrow> 'g \<Rightarrow> ('s, 'g) Kernel" where
  "boot_kernel n g =
     \<lparr>k_ids = 1, k_tasks = [], k_wqs = [[]], k_timers = None, k_sched = None, k_exited = [],
      k_current = replicate n None, k_idle = replicate n None, k_heap = g\<rparr>"

text \<open>\<open>LazyInit::init_by\<close> of a value that is there already panics.\<close>

definition rq_init :: "(tref, 's) BaseScheduler \<Rightarrow> 's \<Rightarrow> 'g GlobalAllocIf \<Rightarrow> usize \<Rightarrow> usize \<Rightarrow> usize \<Rightarrow> nat \<Rightarrow> ('s, 'g) Kernel
    \<Rightarrow> ('s, 'g) Kernel outcome" where
  "rq_init B s0 GA run_idle gc_entry TASK_STACK_SIZE c w =
     out_then (task_new GA run_idle ''idle'' 4096 w) (\<lambda>(idle_task, w).
     if k_idle w ! c \<noteq> None then Panic else
     let w = (arc_clone idle_task w)\<lparr>k_idle := (k_idle w)[c := Some idle_task]\<rparr>;
         (main_task, w) = task_new_init ''main'' w;
         w = set_state Running main_task w
     in out_then (rq_new B s0 GA gc_entry TASK_STACK_SIZE w) (\<lambda>(s, w).
        if k_sched w \<noteq> None then Panic
        else arc_drop GA idle_task (init_current c main_task (w\<lparr>k_sched := Some s\<rparr>))))"

definition rq_init_secondary :: "'g GlobalAllocIf \<Rightarrow> nat \<Rightarrow> ('s, 'g) Kernel \<Rightarrow> ('s, 'g) Kernel outcome" where
  "rq_init_secondary GA c w =
     (let (idle_task, w) = task_new_init ''idle'' w;
          w = set_state Running idle_task w
      in if k_idle w ! c \<noteq> None then Panic
         else Ret (init_current c idle_task ((arc_clone idle_task w)\<lparr>k_idle := (k_idle w)[c := Some idle_task]\<rparr>)))"

definition init_scheduler :: "(tref, 's) BaseScheduler \<Rightarrow> 's \<Rightarrow> 'g GlobalAllocIf \<Rightarrow> usize \<Rightarrow> usize \<Rightarrow> usize \<Rightarrow> nat \<Rightarrow> ('s, 'g) Kernel
    \<Rightarrow> ('s, 'g) Kernel outcome" where
  "init_scheduler B s0 GA run_idle gc_entry TASK_STACK_SIZE c w =
     out_then (rq_init B s0 GA run_idle gc_entry TASK_STACK_SIZE c w) timers_init"

definition spawn_raw :: "(tref, 's) BaseScheduler \<Rightarrow> 'g GlobalAllocIf \<Rightarrow> nat \<Rightarrow> usize \<Rightarrow> string \<Rightarrow> usize \<Rightarrow> ('s, 'g) Kernel
    \<Rightarrow> (tref \<times> ('s, 'g) Kernel) outcome option" where
  "spawn_raw B GA c f name stack_size w =
     (case task_new GA f name stack_size w of
        Panic \<Rightarrow> Some Panic
      | Ret (t, w) \<Rightarrow> with_rq B GA c (\<lambda>w. out_then (rq_add_task B t (arc_clone t w)) (\<lambda>w. Ret (t, w))) w)"

definition spawn :: "(tref, 's) BaseScheduler \<Rightarrow> 'g GlobalAllocIf \<Rightarrow> usize \<Rightarrow> nat \<Rightarrow> usize \<Rightarrow> ('s, 'g) Kernel
    \<Rightarrow> (tref \<times> ('s, 'g) Kernel) outcome option" where
  "spawn B GA TASK_STACK_SIZE c f = spawn_raw B GA c f [] TASK_STACK_SIZE"

definition set_priority_now :: "(tref, 's) BaseScheduler \<Rightarrow> 'g GlobalAllocIf \<Rightarrow> nat \<Rightarrow> int \<Rightarrow> ('s, 'g) Kernel
    \<Rightarrow> (bool \<times> ('s, 'g) Kernel) outcome option" where
  "set_priority_now B GA c prio = with_rq B GA c (rq_set_current_priority B c prio)"

definition yield_now :: "(tref, 's) BaseScheduler \<Rightarrow> 'g GlobalAllocIf \<Rightarrow> nat \<Rightarrow> ('s, 'g) Kernel
    \<Rightarrow> (unit \<times> ('s, 'g) Kernel) outcome option" where
  "yield_now B GA c = with_rq B GA c (no_value (rq_yield_current B GA c))"

definition sleep_until :: "(tref, 's) BaseScheduler \<Rightarrow> 'g GlobalAllocIf \<Rightarrow> nat \<Rightarrow> TimeValue \<Rightarrow> TimeValue \<Rightarrow> ('s, 'g) Kernel
    \<Rightarrow> (unit \<times> ('s, 'g) Kernel) outcome option" where
  "sleep_until B GA c now ddl = with_rq B GA c (no_value (rq_sleep_until B GA c now ddl))"

definition sleep :: "(tref, 's) BaseScheduler \<Rightarrow> 'g GlobalAllocIf \<Rightarrow> nat \<Rightarrow> TimeValue \<Rightarrow> TimeValue \<Rightarrow> TimeValue \<Rightarrow> ('s, 'g) Kernel
    \<Rightarrow> (unit \<times> ('s, 'g) Kernel) outcome option" where
  "sleep B GA c now now' dur w =
     (case duration_add now dur of Panic \<Rightarrow> Some Panic | Ret ddl \<Rightarrow> sleep_until B GA c now' ddl w)"

text \<open>\<open>exit\<close>; a system that is shut down has no state any more.\<close>

definition exit_task :: "(tref, 's) BaseScheduler \<Rightarrow> 'g GlobalAllocIf \<Rightarrow> nat \<Rightarrow> u32 \<Rightarrow> ('s, 'g) Kernel
    \<Rightarrow> ('s, 'g) Kernel option outcome option" where
  "exit_task B GA c exit_code w =
     (if k_sched w = None then Some Panic
      else case rq_exit_current B GA c exit_code (guard_acquire c w) of
             Panic \<Rightarrow> Some Panic
           | Ret None \<Rightarrow> Some (Ret None)
           | Ret (Some w) \<Rightarrow> Option.bind (guard_release B GA c w) (\<lambda>out. Some (out_then out (\<lambda>w. Ret (Some w)))))"

definition on_timer_tick :: "(tref, 's) BaseScheduler \<Rightarrow> 'g GlobalAllocIf \<Rightarrow> nat \<Rightarrow> (nat \<Rightarrow> TimeValue) \<Rightarrow> ('s, 'g) Kernel
    \<Rightarrow> (unit \<times> ('s, 'g) Kernel) outcome option" where
  "on_timer_tick B GA c clock w =
     Option.bind (check_events B GA c clock 0 w) (\<lambda>out.
       case out of Panic \<Rightarrow> Some Panic | Ret (_, w) \<Rightarrow> with_rq B GA c (no_value (rq_scheduler_timer_tick B c)) w)"

text \<open>A timer interrupt: \<open>handle_irq\<close> runs the handler under a \<open>NoPreempt\<close> guard.\<close>

definition handle_irq :: "(tref, 's) BaseScheduler \<Rightarrow> 'g GlobalAllocIf \<Rightarrow> nat \<Rightarrow> (nat \<Rightarrow> TimeValue) \<Rightarrow> ('s, 'g) Kernel
    \<Rightarrow> (unit \<times> ('s, 'g) Kernel) outcome option" where
  "handle_irq B GA c clock w =
     Option.bind (on_timer_tick B GA c clock (guard_acquire c w)) (\<lambda>out.
       case out of
         Panic \<Rightarrow> Some Panic
       | Ret (_, w) \<Rightarrow> Option.bind (guard_release B GA c w) (\<lambda>out. Some (out_then out (\<lambda>w. Ret ((), w)))))"

end
