(* ===== verification/AxTaskInv.thy ===== *)
theory AxTaskInv
  imports AxTask
begin

text \<open>
  The invariant of the run queue (\<open>rq_inv\<close>) and the lemmas that each operation of the model of axtask keeps it, for any
  scheduler that meets the contract \<open>base_scheduler\<close>: every CPU runs a task of its own, the scheduler holds exactly the other
  tasks that can run, and every reference is counted. \<open>rq_mid E R L\<close> is the invariant in the middle of an operation, with the
  CPUs \<open>E\<close> whose task has stopped, the tasks \<open>R\<close> that have been set to run and the references \<open>L\<close> of local variables.
\<close>

section \<open>The invariant of the run queue\<close>

text \<open>The references that the kernel holds: in wait queues, timers, the exited tasks, the CPUs and the scheduler.\<close>

definition somes :: "'a option list \<Rightarrow> 'a list" where
  "somes xs = concat (map (\<lambda>x. case x of None \<Rightarrow> [] | Some y \<Rightarrow> [y]) xs)"

definition held :: "('s \<Rightarrow> tref set) \<Rightarrow> ('s, 'g) Kernel \<Rightarrow> tref multiset" where
  "held queued w = mset (concat (k_wqs w)) + (case k_timers w of None \<Rightarrow> {#} | Some l \<Rightarrow> mset (map event (events l)))
     + mset (k_exited w) + mset (somes (k_current w)) + mset (somes (k_idle w))
     + (case k_sched w of None \<Rightarrow> {#} | Some s \<Rightarrow> mset_set (queued s))"

text \<open>
  Every CPU runs a task of its own, which is running unless the CPU is one of \<open>E\<close>; no other task but those of \<open>R\<close> is running; an idle task
  is on its own CPU only and is running or ready.
\<close>

definition cpus_ok :: "nat set \<Rightarrow> tref set \<Rightarrow> ('s, 'g) Kernel \<Rightarrow> bool" where
  "cpus_ok E R w \<longleftrightarrow> length (k_idle w) = length (k_current w) \<and> distinct (somes (k_current w)) \<and> distinct (somes (k_idle w)) \<and>
     (\<forall>t < length (k_tasks w). is_running t w \<longrightarrow> t \<in> R \<or> Some t \<in> set (k_current w)) \<and>
     (\<forall>t < length (k_tasks w). ti_is_idle (task_at t w) \<longrightarrow> Some t \<in> set (k_idle w)) \<and>
     (\<forall>c < length (k_current w). \<forall>t. k_current w ! c = Some t \<longrightarrow>
        (c \<notin> E \<longrightarrow> is_running t w) \<and> k_idle w ! c \<noteq> None \<and> (ti_is_idle (task_at t w) \<longrightarrow> k_idle w ! c = Some t)) \<and>
     (\<forall>i. Some i \<in> set (k_idle w) \<longrightarrow> ti_is_idle (task_at i w) \<and> (is_running i w \<or> is_ready i w))"

definition objs_ok :: "('s, 'g) Kernel \<Rightarrow> bool" where
  "objs_ok w \<longleftrightarrow> (\<forall>t < length (k_tasks w). ti_wait_for_exit (task_at t w) < length (k_wqs w)) \<and> k_wqs w \<noteq> [] \<and>
     (\<exists>l. k_timers w = Some l \<and> tl_sorted l)"

text \<open>The scheduler holds exactly the tasks that are ready and not idle.\<close>

definition sched_ok :: "('s \<Rightarrow> bool) \<Rightarrow> ('s \<Rightarrow> tref set) \<Rightarrow> ('s, 'g) Kernel \<Rightarrow> bool" where
  "sched_ok sinv queued w \<longleftrightarrow> (\<exists>s. k_sched w = Some s \<and> sinv s \<and> finite (queued s) \<and>
     queued s = {t. t < length (k_tasks w) \<and> is_ready t w \<and> \<not> ti_is_idle (task_at t w)})"

text \<open>Every reference that is held, by the kernel or in a local variable \<open>L\<close>, is counted.\<close>

definition owned :: "('s, 'g) Kernel \<Rightarrow> tref \<Rightarrow> nat" where
  "owned w t = (if t < length (k_tasks w) then strong_count t w else 0)"

definition refs_ok :: "('s \<Rightarrow> tref set) \<Rightarrow> tref multiset \<Rightarrow> ('s, 'g) Kernel \<Rightarrow> bool" where
  "refs_ok queued L w \<longleftrightarrow> (\<forall>t. count (held queued w + L) t \<le> owned w t)"

definition rq_mid :: "('s \<Rightarrow> bool) \<Rightarrow> ('s \<Rightarrow> tref set) \<Rightarrow> nat set \<Rightarrow> tref set \<Rightarrow> tref multiset \<Rightarrow> ('s, 'g) Kernel \<Rightarrow> bool" where
  "rq_mid sinv queued E R L w \<longleftrightarrow> sched_ok sinv queued w \<and> refs_ok queued L w \<and> cpus_ok E R w \<and> objs_ok w"

definition rq_inv :: "('s \<Rightarrow> bool) \<Rightarrow> ('s \<Rightarrow> tref set) \<Rightarrow> ('s, 'g) Kernel \<Rightarrow> bool" where
  "rq_inv sinv queued w \<longleftrightarrow> rq_mid sinv queued {} {} {#} w"

subsection \<open>Updates of a task\<close>

lemmas task_defs = set_task_def task_at_def is_running_def is_ready_def is_blocked_def strong_count_def

lemma set_task_simps [simp]:
  "k_ids (set_task t f w) = k_ids w" "length (k_tasks (set_task t f w)) = length (k_tasks w)" "k_wqs (set_task t f w) = k_wqs w"
  "k_timers (set_task t f w) = k_timers w" "k_sched (set_task t f w) = k_sched w" "k_exited (set_task t f w) = k_exited w"
  "k_current (set_task t f w) = k_current w" "k_idle (set_task t f w) = k_idle w" "k_heap (set_task t f w) = k_heap w"
  by (simp_all add: set_task_def)

lemma held_set_task [simp]: "held queued (set_task t f w) = held queued w"
  by (simp add: held_def)

lemma task_at_set: "task_at u (set_task t f w) = (if u = t \<and> t < length (k_tasks w) then f (task_at t w) else task_at u w)"
  by (cases "t < length (k_tasks w)") (auto simp: task_defs nth_list_update list_update_beyond)

lemma mid_valid: "refs_ok queued L w \<Longrightarrow> t \<in># held queued w + L \<Longrightarrow> t < length (k_tasks w) \<and> 0 < strong_count t w"
  unfolding refs_ok_def owned_def by (metis count_greater_zero_iff le_zero_eq not_gr0)

text \<open>An update that keeps the state, the kind, the count and the wait queue of the task keeps the invariant.\<close>

lemma mid_set_task:
  assumes "rq_mid sinv queued E R L w"
    and "\<And>x. ti_state (f x) = ti_state x \<and> ti_is_idle (f x) = ti_is_idle x \<and> ti_strong (f x) = ti_strong x \<and>
      ti_wait_for_exit (f x) = ti_wait_for_exit x"
  shows "rq_mid sinv queued E R L (set_task t f w)"
proof -
  have st: "is_ready u (set_task t f w) = is_ready u w" "is_running u (set_task t f w) = is_running u w"
    "ti_is_idle (task_at u (set_task t f w)) = ti_is_idle (task_at u w)" "owned (set_task t f w) u = owned w u"
    "ti_wait_for_exit (task_at u (set_task t f w)) = ti_wait_for_exit (task_at u w)" for u
    using assms(2) by (simp_all add: is_ready_def is_running_def strong_count_def task_at_set owned_def)
  show ?thesis using assms(1)
    by (simp add: rq_mid_def sched_ok_def refs_ok_def cpus_ok_def objs_ok_def st)
qed

lemma mid_clone:
  assumes "rq_mid sinv queued E R L w" "t < length (k_tasks w)"
  shows "rq_mid sinv queued E R (add_mset t L) (arc_clone t w)"
proof -
  let ?w = "arc_clone t w"
  have st: "is_ready u ?w = is_ready u w" "is_running u ?w = is_running u w" "ti_is_idle (task_at u ?w) = ti_is_idle (task_at u w)"
    "ti_wait_for_exit (task_at u ?w) = ti_wait_for_exit (task_at u w)"
    "owned ?w u = owned w u + (if u = t then 1 else 0)" "held queued ?w = held queued w" for u
    using assms(2) by (simp_all add: is_ready_def is_running_def strong_count_def task_at_set arc_clone_def owned_def)
  have "refs_ok queued (add_mset t L) ?w"
    using assms unfolding rq_mid_def refs_ok_def by (simp add: st)
  moreover have "sched_ok sinv queued ?w" "cpus_ok E R ?w" "objs_ok ?w"
    using assms(1) unfolding rq_mid_def sched_ok_def cpus_ok_def objs_ok_def st by (simp_all add: arc_clone_def)
  ultimately show ?thesis by (simp add: rq_mid_def)
qed

subsection \<open>Dropping references\<close>

lemma mset_concat_update:
  "q < length xs \<Longrightarrow> mset (concat (xs[q := ys])) + mset (xs ! q) = mset (concat xs) + mset ys"
proof (induction xs arbitrary: q)
  case (Cons x xs)
  then show ?case by (cases q) (auto simp: union_ac)
qed simp

definition core :: "TaskInner \<Rightarrow> TaskInner" where
  "core x = x\<lparr>ti_strong := 0, ti_kstack := None\<rparr>"

text \<open>Dropping changes counts and stacks only, and may empty wait queues of tasks that are gone.\<close>

definition drop_frame :: "('s, 'g) Kernel \<Rightarrow> ('s, 'g) Kernel \<Rightarrow> bool" where
  "drop_frame w w' \<longleftrightarrow> map core (k_tasks w') = map core (k_tasks w) \<and> k_sched w' = k_sched w \<and> k_timers w' = k_timers w \<and>
     k_exited w' = k_exited w \<and> k_current w' = k_current w \<and> k_idle w' = k_idle w \<and> length (k_wqs w') = length (k_wqs w) \<and>
     (\<forall>q < length (k_wqs w). k_wqs w' ! q = k_wqs w ! q \<or> k_wqs w' ! q = [])"

lemma drop_frame_refl [simp]: "drop_frame w w"
  by (simp add: drop_frame_def)

lemma drop_frame_trans: "drop_frame w w' \<Longrightarrow> drop_frame w' w'' \<Longrightarrow> drop_frame w w''"
  unfolding drop_frame_def by metis

definition dropped :: "drop_item list \<Rightarrow> tref multiset" where
  "dropped xs = mset (concat (map (\<lambda>i. case i of DropRef t \<Rightarrow> [t] | DropStack _ \<Rightarrow> []) xs))"

lemma dropped_simps [simp]:
  "dropped [] = {#}" "dropped (DropRef t # xs) = add_mset t (dropped xs)" "dropped (DropStack st # xs) = dropped xs"
  "dropped (xs @ ys) = dropped xs + dropped ys" "dropped (map DropRef ts) = mset ts"
  by (simp_all add: dropped_def o_def)

lemma set_task_core: "(\<And>x. core (f x) = core x) \<Longrightarrow> map core (k_tasks (set_task t f w)) = map core (k_tasks w)"
  by (cases "t < length (k_tasks w)") (auto simp: set_task_def task_at_def nth_list_update intro!: nth_equalityI)

lemma mid_drop_one:
  assumes mid: "rq_mid sinv queued E R (add_mset t L) w" and n: "1 < ti_strong (task_at t w)"
  defines "w' \<equiv> set_task t (\<lambda>x. x\<lparr>ti_strong := ti_strong x - 1\<rparr>) w"
  shows "rq_mid sinv queued E R L w' \<and> drop_frame w w'"
proof -
  have t: "t < length (k_tasks w)" using mid mid_valid [of queued "add_mset t L" w t] by (simp add: rq_mid_def)
  have st: "is_ready u w' = is_ready u w" "is_running u w' = is_running u w" "ti_is_idle (task_at u w') = ti_is_idle (task_at u w)"
    "ti_wait_for_exit (task_at u w') = ti_wait_for_exit (task_at u w)" "owned w' u + (if u = t then 1 else 0) = owned w u" for u
    using t n by (simp_all add: is_ready_def is_running_def strong_count_def task_at_set w'_def owned_def)
  have "refs_ok queued L w'"
    unfolding refs_ok_def
  proof
    fix u
    have "count (held queued w + add_mset t L) u \<le> owned w u" using mid by (simp add: rq_mid_def refs_ok_def)
    then show "count (held queued w' + L) u \<le> owned w' u" using st(5) [of u] by (auto simp: w'_def split: if_splits)
  qed
  moreover have "sched_ok sinv queued w'" "cpus_ok E R w'" "objs_ok w'"
    using mid unfolding rq_mid_def sched_ok_def cpus_ok_def objs_ok_def st by (simp_all add: w'_def)
  moreover have "drop_frame w w'" unfolding drop_frame_def w'_def by (simp add: set_task_core core_def)
  ultimately show ?thesis by (simp add: rq_mid_def)
qed

lemma mid_drop_last:
  assumes mid: "rq_mid sinv queued E R (add_mset t L) w" and n: "ti_strong (task_at t w) = 1"
  defines "q \<equiv> ti_wait_for_exit (task_at t w)"
  defines "w' \<equiv> set_task t (\<lambda>x. x\<lparr>ti_strong := 0, ti_kstack := None\<rparr>) (w\<lparr>k_wqs := (k_wqs w)[q := []]\<rparr>)"
  shows "rq_mid sinv queued E R (mset (k_wqs w ! q) + L) w' \<and> drop_frame w w'"
proof -
  have t: "t < length (k_tasks w)" using mid mid_valid [of queued "add_mset t L" w t] by (simp add: rq_mid_def)
  then have q: "q < length (k_wqs w)" using mid by (simp add: rq_mid_def objs_ok_def q_def)
  have st: "is_ready u w' = is_ready u w" "is_running u w' = is_running u w" "ti_is_idle (task_at u w') = ti_is_idle (task_at u w)"
    "ti_wait_for_exit (task_at u w') = ti_wait_for_exit (task_at u w)" "owned w' u + (if u = t then 1 else 0) = owned w u" for u
    using t n by (simp_all add: is_ready_def is_running_def strong_count_def task_at_set w'_def owned_def) (simp_all add: task_at_def)
  have held: "held queued w' + mset (k_wqs w ! q) = held queued w"
    using mset_concat_update [OF q, of "[]"] by (simp add: held_def w'_def union_ac)
  have "refs_ok queued (mset (k_wqs w ! q) + L) w'"
    unfolding refs_ok_def
  proof
    fix u
    have "count (held queued w + add_mset t L) u \<le> owned w u" using mid by (simp add: rq_mid_def refs_ok_def)
    then show "count (held queued w' + (mset (k_wqs w ! q) + L)) u \<le> owned w' u"
      using st(5) [of u] unfolding held [symmetric] by (auto split: if_splits)
  qed
  moreover have "sched_ok sinv queued w'" "cpus_ok E R w'" "objs_ok w'"
    using mid unfolding rq_mid_def sched_ok_def cpus_ok_def objs_ok_def st by (auto simp: w'_def)
  moreover have "drop_frame w w'" unfolding drop_frame_def w'_def using q by (auto simp: set_task_core core_def nth_list_update)
  ultimately show ?thesis by (simp add: rq_mid_def)
qed

lemma drop_all_ok:
  "rq_mid sinv queued E R (dropped xs + L) w \<Longrightarrow> \<exists>w'. drop_all GA xs w = Ret w' \<and> rq_mid sinv queued E R L w' \<and> drop_frame w w'"
proof (induction GA xs w arbitrary: L rule: drop_all.induct)
  case (2 GA st xs w)
  let ?w = "w\<lparr>k_heap := task_stack_drop GA st (k_heap w)\<rparr>"
  have st: "task_at u ?w = task_at u w" "owned ?w u = owned w u" "is_ready u ?w = is_ready u w" "is_running u ?w = is_running u w" for u
    by (simp_all add: task_defs owned_def)
  have "rq_mid sinv queued E R (dropped xs + L) ?w"
    using 2(2) unfolding rq_mid_def sched_ok_def cpus_ok_def objs_ok_def refs_ok_def held_def by (simp add: st)
  from 2(1) [OF this] obtain w' where "drop_all GA xs ?w = Ret w'" "rq_mid sinv queued E R L w'" "drop_frame ?w w'" by blast
  then show ?case by (auto simp: drop_frame_def)
next
  case (3 GA t xs w)
  let ?x = "task_at t w"
  have mid: "rq_mid sinv queued E R (add_mset t (dropped xs + L)) w" using 3(3) by simp
  then have t: "t < length (k_tasks w)" "0 < ti_strong ?x"
    using mid_valid [of queued _ w t] by (auto simp: rq_mid_def strong_count_def)
  show ?case
  proof (cases "1 < ti_strong ?x")
    case True
    note one = mid_drop_one [OF mid True]
    from 3(1) [OF refl _ True conjunct1 [OF one]] t obtain w' where
      "drop_all GA xs (set_task t (\<lambda>x. x\<lparr>ti_strong := ti_strong x - 1\<rparr>) w) = Ret w'" "rq_mid sinv queued E R L w'"
      "drop_frame (set_task t (\<lambda>x. x\<lparr>ti_strong := ti_strong x - 1\<rparr>) w) w'" by auto
    then show ?thesis using True t one drop_frame_trans by (auto simp: Let_def drop_all.simps(3))
  next
    case False
    then have n: "ti_strong ?x = 1" using t by simp
    let ?st = "case ti_kstack ?x of None \<Rightarrow> [] | Some st \<Rightarrow> [DropStack st]"
    have st: "dropped ?st = {#}" by (simp split: option.splits)
    note last = mid_drop_last [OF mid n]
    from 3(2) [OF refl _ False, of L] t last st obtain w' where
      "drop_all GA (map DropRef (k_wqs w ! ti_wait_for_exit ?x) @ ?st @ xs)
         (set_task t (\<lambda>x. x\<lparr>ti_strong := 0, ti_kstack := None\<rparr>) (w\<lparr>k_wqs := (k_wqs w)[ti_wait_for_exit ?x := []]\<rparr>)) = Ret w'"
      "rq_mid sinv queued E R L w'" "drop_frame w w'"
      by (auto simp: union_ac intro: drop_frame_trans)
    then show ?thesis using False t by (auto simp: Let_def drop_all.simps(3))
  qed
qed simp

subsection \<open>Scheduling\<close>

lemma somes_set: "set (somes xs) = {x. Some x \<in> set xs}"
  by (auto simp: somes_def split: option.splits)

lemma somes_update:
  "c < length xs \<Longrightarrow> mset (somes (xs[c := Some y])) + (case xs ! c of None \<Rightarrow> {#} | Some x \<Rightarrow> {#x#}) = add_mset y (mset (somes xs))"
proof (induction xs arbitrary: c)
  case (Cons x xs)
  then show ?case by (cases c) (auto simp: somes_def split: option.splits)
qed simp

lemma somes_count: "distinct (somes xs) \<Longrightarrow> count (mset (somes xs)) x = (if Some x \<in> set xs then 1 else 0)"
  using somes_set [of xs] by (simp add: distinct_count_atmost_1)

lemma somes_distinct_nth:
  "distinct (somes xs) \<Longrightarrow> i < length xs \<Longrightarrow> j < length xs \<Longrightarrow> xs ! i = Some x \<Longrightarrow> xs ! j = Some x \<Longrightarrow> i = j"
proof (induction xs arbitrary: i j)
  case (Cons y xs)
  have tl: "distinct (somes xs)" "y = Some x \<Longrightarrow> Some x \<notin> set xs"
    using Cons.prems(1) somes_set [of xs] by (auto simp: somes_def split: option.splits)
  show ?case
  proof (cases i)
    case 0
    then show ?thesis using Cons.prems tl by (cases j) (auto simp: in_set_conv_nth)
  next
    case (Suc k)
    then have k: "k < length xs" "xs ! k = Some x" using Cons.prems by simp_all
    then have "Some x \<in> set xs" by (metis nth_mem)
    then obtain m where m: "j = Suc m" using tl(2) Cons.prems by (cases j) auto
    have "k = m" by (rule Cons.IH [OF tl(1) k(1) _ k(2)]) (use Cons.prems m in simp_all)
    then show ?thesis using m Suc by simp
  qed
qed simp

lemma cpus_okD:
  assumes "cpus_ok E R w"
  shows "length (k_idle w) = length (k_current w)" "distinct (somes (k_current w))" "distinct (somes (k_idle w))"
    and "\<And>t. t < length (k_tasks w) \<Longrightarrow> is_running t w \<Longrightarrow> t \<in> R \<or> Some t \<in> set (k_current w)"
    and "\<And>t. t < length (k_tasks w) \<Longrightarrow> ti_is_idle (task_at t w) \<Longrightarrow> Some t \<in> set (k_idle w)"
    and "\<And>c t. c < length (k_current w) \<Longrightarrow> k_current w ! c = Some t \<Longrightarrow> c \<notin> E \<Longrightarrow> is_running t w"
    and "\<And>c t. c < length (k_current w) \<Longrightarrow> k_current w ! c = Some t \<Longrightarrow> k_idle w ! c \<noteq> None"
    and "\<And>c t. c < length (k_current w) \<Longrightarrow> k_current w ! c = Some t \<Longrightarrow> ti_is_idle (task_at t w) \<Longrightarrow> k_idle w ! c = Some t"
    and "\<And>i. Some i \<in> set (k_idle w) \<Longrightarrow> ti_is_idle (task_at i w)"
    and "\<And>i. Some i \<in> set (k_idle w) \<Longrightarrow> is_running i w \<or> is_ready i w"
  using assms unfolding cpus_ok_def by simp_all

lemma cpus_okI:
  assumes "length (k_idle w) = length (k_current w)" "distinct (somes (k_current w))" "distinct (somes (k_idle w))"
    and "\<And>t. t < length (k_tasks w) \<Longrightarrow> is_running t w \<Longrightarrow> t \<in> R \<or> Some t \<in> set (k_current w)"
    and "\<And>t. t < length (k_tasks w) \<Longrightarrow> ti_is_idle (task_at t w) \<Longrightarrow> Some t \<in> set (k_idle w)"
    and "\<And>c t. c < length (k_current w) \<Longrightarrow> k_current w ! c = Some t \<Longrightarrow>
      (c \<notin> E \<longrightarrow> is_running t w) \<and> k_idle w ! c \<noteq> None \<and> (ti_is_idle (task_at t w) \<longrightarrow> k_idle w ! c = Some t)"
    and "\<And>i. Some i \<in> set (k_idle w) \<Longrightarrow> ti_is_idle (task_at i w) \<and> (is_running i w \<or> is_ready i w)"
  shows "cpus_ok E R w"
  unfolding cpus_ok_def using assms(4-7) by (intro conjI allI impI assms(1-3)) blast+

lemma refs_ok_eq:
  "refs_ok queued L w \<Longrightarrow> held queued w' + L' = held queued w + L \<Longrightarrow> (\<And>u. owned w' u = owned w u) \<Longrightarrow> refs_ok queued L' w'"
  unfolding refs_ok_def by metis

locale run_queue = base_scheduler B sinv queued "\<lambda>s t. t \<notin> queued s"
  for B :: "(tref, 's) BaseScheduler" and sinv queued
begin

abbreviation mid :: "nat set \<Rightarrow> tref set \<Rightarrow> tref multiset \<Rightarrow> ('s, 'g) Kernel \<Rightarrow> bool" where
  "mid \<equiv> rq_mid sinv queued"

text \<open>A task that is not running elsewhere becomes ready and goes into the scheduler.\<close>

lemma mid_enqueue:
  assumes m: "mid E R (add_mset t L) w" and t: "\<not> is_ready t w" "\<not> ti_is_idle (task_at t w)"
    and cur: "\<forall>c < length (k_current w). c \<notin> E \<longrightarrow> k_current w ! c \<noteq> Some t"
    and s: "k_sched w = Some s" "sinv s'" "queued s' = insert t (queued s)"
  shows "mid E R L (set_state Ready t w\<lparr>k_sched := Some s'\<rparr>)"
proof -
  let ?w = "set_state Ready t w\<lparr>k_sched := Some s'\<rparr>"
  have tl: "t < length (k_tasks w)" using m mid_valid [of queued "add_mset t L" w t] by (simp add: rq_mid_def)
  have q: "finite (queued s)" "queued s = {t. t < length (k_tasks w) \<and> is_ready t w \<and> \<not> ti_is_idle (task_at t w)}"
    using m s(1) by (auto simp: rq_mid_def sched_ok_def)
  have st: "is_ready u ?w = (u = t \<or> is_ready u w)" "is_running u ?w = (u \<noteq> t \<and> is_running u w)"
    "ti_is_idle (task_at u ?w) = ti_is_idle (task_at u w)" "ti_wait_for_exit (task_at u ?w) = ti_wait_for_exit (task_at u w)"
    "owned ?w u = owned w u" for u
    using tl by (simp_all add: is_ready_def is_running_def strong_count_def owned_def set_state_def task_at_set task_at_def nth_list_update set_task_def)
  have "t \<notin> queued s" using q t by simp
  then have "held queued ?w = add_mset t (held queued w)"
    using q(1) s by (simp add: held_def set_state_def)
  then have rf: "refs_ok queued L ?w" using m unfolding rq_mid_def refs_ok_def by (simp add: st)
  have "queued s' = {u. u < length (k_tasks w) \<and> (u = t \<or> is_ready u w) \<and> \<not> ti_is_idle (task_at u w)}"
    unfolding s(3) q(2) using t tl by blast
  then have sc: "sched_ok sinv queued ?w" unfolding sched_ok_def st using s(2,3) q(1) by (simp add: set_state_def)
  have "cpus_ok E R ?w"
  proof -
    have cp: "cpus_ok E R w" using m by (simp add: rq_mid_def)
    have k: "k_current ?w = k_current w" "k_idle ?w = k_idle w" "length (k_tasks ?w) = length (k_tasks w)"
      by (simp_all add: set_state_def)
    show ?thesis
    proof (rule cpus_okI, unfold st k)
      fix c u assume "c < length (k_current w)" "k_current w ! c = Some u"
      then show "(c \<notin> E \<longrightarrow> u \<noteq> t \<and> is_running u w) \<and> k_idle w ! c \<noteq> None \<and> (ti_is_idle (task_at u w) \<longrightarrow> k_idle w ! c = Some u)"
        using cpus_okD(6,7,8) [OF cp, of c u] cur by auto
    next
      fix i assume "Some i \<in> set (k_idle w)"
      then show "ti_is_idle (task_at i w) \<and> (i \<noteq> t \<and> is_running i w \<or> i = t \<or> is_ready i w)"
        using cpus_okD(9,10) [OF cp] by blast
    qed (rule cpus_okD(1-3) [OF cp] | blast dest: cpus_okD(4,5) [OF cp])+
  qed
  moreover have "objs_ok ?w" using m unfolding rq_mid_def objs_ok_def st by (simp add: set_state_def)
  ultimately show ?thesis using rf sc by (simp add: rq_mid_def)
qed

lemma mid_sched:
  assumes "mid E R L w"
  obtains s where "k_sched w = Some s" "sinv s" "finite (queued s)"
    "queued s = {t. t < length (k_tasks w) \<and> is_ready t w \<and> \<not> ti_is_idle (task_at t w)}"
  using assms by (auto simp: rq_mid_def sched_ok_def)

text \<open>A task of a CPU of \<open>E\<close> stops running without becoming ready.\<close>

lemma mid_stop:
  assumes m: "mid E R L w" and t: "\<not> is_ready t w" "\<not> ti_is_idle (task_at t w)" and x: "x \<noteq> Running" "x \<noteq> Ready"
    and cur: "\<forall>c < length (k_current w). c \<notin> E \<longrightarrow> k_current w ! c \<noteq> Some t"
  shows "mid E R L (set_state x t w)"
proof -
  let ?w = "set_state x t w"
  have st: "is_ready u ?w = is_ready u w" "is_running u ?w = ((u \<noteq> t \<or> t \<ge> length (k_tasks w)) \<and> is_running u w)"
    "ti_is_idle (task_at u ?w) = ti_is_idle (task_at u w)" "ti_wait_for_exit (task_at u ?w) = ti_wait_for_exit (task_at u w)"
    "owned ?w u = owned w u" for u
    using t x by (auto simp add: is_ready_def is_running_def strong_count_def owned_def set_state_def task_at_set)
  have k: "k_current ?w = k_current w" "k_idle ?w = k_idle w" "length (k_tasks ?w) = length (k_tasks w)" "held queued ?w = held queued w"
    "k_wqs ?w = k_wqs w" "k_timers ?w = k_timers w" "k_sched ?w = k_sched w"
    by (simp_all add: set_state_def)
  have cp: "cpus_ok E R w" using m by (simp add: rq_mid_def)
  have "cpus_ok E R ?w"
  proof (rule cpus_okI, unfold st k)
    fix c u assume "c < length (k_current w)" "k_current w ! c = Some u"
    then show "(c \<notin> E \<longrightarrow> (u \<noteq> t \<or> t \<ge> length (k_tasks w)) \<and> is_running u w) \<and> k_idle w ! c \<noteq> None \<and>
        (ti_is_idle (task_at u w) \<longrightarrow> k_idle w ! c = Some u)"
      using cpus_okD(6,7,8) [OF cp, of c u] cur by auto
  next
    fix i assume i: "Some i \<in> set (k_idle w)"
    then show "ti_is_idle (task_at i w) \<and> ((i \<noteq> t \<or> t \<ge> length (k_tasks w)) \<and> is_running i w \<or> is_ready i w)"
      using cpus_okD(9,10) [OF cp i] t by auto
  qed (rule cpus_okD(1-3) [OF cp] | blast dest: cpus_okD(4,5) [OF cp])+
  then show ?thesis using m unfolding rq_mid_def sched_ok_def refs_ok_def objs_ok_def st k by simp
qed

text \<open>The next task of a CPU, taken out of the scheduler or the idle task, is set to run.\<close>

lemma mid_start:
  assumes m: "mid E R L w" and t: "is_ready t w" "t < length (k_tasks w)"
    and s: "k_sched w = Some s" "sinv s'" "queued s' = queued s - {t}"
  defines "w' \<equiv> set_state Running t (set_preempt_pending False t (w\<lparr>k_sched := Some s'\<rparr>))"
  shows "mid E (insert t R) ((if ti_is_idle (task_at t w) then {#} else {#t#}) + L) w' \<and>
    held queued w' + (if ti_is_idle (task_at t w) then {#} else {#t#}) = held queued w"
proof -
  have st: "is_ready u w' = (u \<noteq> t \<and> is_ready u w)" "is_running u w' = (u = t \<or> is_running u w)"
    "ti_is_idle (task_at u w') = ti_is_idle (task_at u w)" "ti_wait_for_exit (task_at u w') = ti_wait_for_exit (task_at u w)"
    "owned w' u = owned w u" for u
    using t by (simp_all add: w'_def is_ready_def is_running_def strong_count_def owned_def set_state_def set_preempt_pending_def task_at_set)
      (simp_all add: task_at_def)
  have k: "k_current w' = k_current w" "k_idle w' = k_idle w" "length (k_tasks w') = length (k_tasks w)"
    "k_wqs w' = k_wqs w" "k_timers w' = k_timers w" "k_sched w' = Some s'"
    by (simp_all add: w'_def set_state_def set_preempt_pending_def)
  have q: "finite (queued s)" "queued s = {t. t < length (k_tasks w) \<and> is_ready t w \<and> \<not> ti_is_idle (task_at t w)}"
    using m s(1) by (auto simp: rq_mid_def sched_ok_def)
  have "queued s' = {u. u < length (k_tasks w) \<and> (u \<noteq> t \<and> is_ready u w) \<and> \<not> ti_is_idle (task_at u w)}"
    unfolding s(3) q(2) by blast
  then have sc: "sched_ok sinv queued w'" unfolding sched_ok_def st k using s(2,3) q(1) by simp
  have hd: "held queued w' + (if ti_is_idle (task_at t w) then {#} else {#t#}) = held queued w"
  proof (cases "ti_is_idle (task_at t w)")
    case True
    then have "queued s' = queued s" unfolding s(3) using q(2) by blast
    then show ?thesis using True s(1) by (simp add: held_def k) (simp add: w'_def set_state_def set_preempt_pending_def)
  next
    case False
    then have "t \<in> queued s" using q(2) t by blast
    then have "mset_set (queued s) = add_mset t (mset_set (queued s'))" unfolding s(3) by (rule mset_set.remove [OF q(1)])
    then show ?thesis using False s(1) by (simp add: held_def k) (simp add: w'_def set_state_def set_preempt_pending_def)
  qed
  then have "held queued w' + ((if ti_is_idle (task_at t w) then {#} else {#t#}) + L) = held queued w + L"
    by (metis union_assoc)
  then have rf: "refs_ok queued ((if ti_is_idle (task_at t w) then {#} else {#t#}) + L) w'"
    using m st(5) unfolding rq_mid_def by (blast intro: refs_ok_eq)
  have cp: "cpus_ok E R w" using m by (simp add: rq_mid_def)
  have "cpus_ok E (insert t R) w'"
  proof (rule cpus_okI, unfold st k)
    fix c u assume "c < length (k_current w)" "k_current w ! c = Some u"
    then show "(c \<notin> E \<longrightarrow> u = t \<or> is_running u w) \<and> k_idle w ! c \<noteq> None \<and> (ti_is_idle (task_at u w) \<longrightarrow> k_idle w ! c = Some u)"
      using cpus_okD(6,7,8) [OF cp, of c u] by auto
  next
    fix i assume i: "Some i \<in> set (k_idle w)"
    then show "ti_is_idle (task_at i w) \<and> ((i = t \<or> is_running i w) \<or> i \<noteq> t \<and> is_ready i w)"
      using cpus_okD(9,10) [OF cp i] by auto
  qed (rule cpus_okD(1-3) [OF cp] | blast dest: cpus_okD(4,5) [OF cp])+
  then have "mid E (insert t R) ((if ti_is_idle (task_at t w) then {#} else {#t#}) + L) w'"
    using sc rf m unfolding rq_mid_def objs_ok_def st k by simp
  then show ?thesis using hd ..
qed

end

lemma somes_update_distinct: "distinct (somes xs) \<Longrightarrow> Some y \<notin> set xs \<Longrightarrow> distinct (somes (xs[c := Some y]))"
proof (induction xs arbitrary: c)
  case (Cons x xs)
  have s: "somes (z # zs) = (case z of None \<Rightarrow> [] | Some v \<Rightarrow> [v]) @ somes zs" for z zs by (simp add: somes_def)
  have "set (somes (xs[d := Some y])) \<subseteq> insert y (set (somes xs))" for d
    using set_update_subset_insert [of xs d "Some y"] by (auto simp: somes_set)
  then show ?case using Cons somes_set [of xs] by (cases c) (force simp: s split: option.splits)+
qed (simp add: somes_def)

context run_queue
begin

lemma mid_set_current:
  assumes m: "mid {c} {nxt} (add_mset nxt L) w" and c: "c < length (k_current w)" "k_current w ! c = Some prev"
    and n: "is_running nxt w" "Some nxt \<notin> set (k_current w)" "ti_is_idle (task_at nxt w) \<Longrightarrow> k_idle w ! c = Some nxt"
    and p: "\<not> is_running prev w" "1 < strong_count prev w"
  defines "w' \<equiv> set_task prev (\<lambda>x. x\<lparr>ti_ctx := CtxSaved\<rparr>)
    (set_task prev (\<lambda>x. x\<lparr>ti_strong := ti_strong x - 1\<rparr>) w\<lparr>k_current := (k_current w)[c := Some nxt]\<rparr>)"
  shows "mid {} {} L w'"
proof -
  have cp: "cpus_ok {c} {nxt} w" using m by (simp add: rq_mid_def)
  have pl: "prev < length (k_tasks w)"
  proof -
    have "prev \<in># held queued w + add_mset nxt L"
      using nth_mem [OF c(1)] c(2) somes_set [of "k_current w"] by (auto simp: held_def)
    then show ?thesis using m mid_valid by (auto simp: rq_mid_def)
  qed
  have st: "is_ready u w' = is_ready u w" "is_running u w' = is_running u w" "ti_is_idle (task_at u w') = ti_is_idle (task_at u w)"
    "ti_wait_for_exit (task_at u w') = ti_wait_for_exit (task_at u w)" "owned w' u + (if u = prev then 1 else 0) = owned w u" for u
    using pl p(2) by (simp_all add: w'_def is_ready_def is_running_def strong_count_def owned_def task_at_set)
      (simp_all add: task_at_def set_task_def nth_list_update)
  have k: "k_current w' = (k_current w)[c := Some nxt]" "k_idle w' = k_idle w" "length (k_tasks w') = length (k_tasks w)"
    "k_wqs w' = k_wqs w" "k_timers w' = k_timers w" "k_sched w' = k_sched w"
    by (simp_all add: w'_def)
  have sm: "add_mset prev (mset (somes ((k_current w)[c := Some nxt]))) = add_mset nxt (mset (somes (k_current w)))"
    using somes_update [OF c(1), of nxt] c(2) by simp
  define H where "H = mset (concat (k_wqs w)) + (case k_timers w of None \<Rightarrow> {#} | Some l \<Rightarrow> mset (map event (events l)))
     + mset (k_exited w) + mset (somes (k_idle w)) + (case k_sched w of None \<Rightarrow> {#} | Some s \<Rightarrow> mset_set (queued s))"
  then have H: "held queued w = H + mset (somes (k_current w))"
    "held queued w' = H + mset (somes ((k_current w)[c := Some nxt]))"
    unfolding held_def k by (simp_all add: w'_def union_ac)
  from sm H have h: "add_mset prev (held queued w') = add_mset nxt (held queued w)"
    by (metis union_mset_add_mset_right)
  have rf: "refs_ok queued L w'"
    unfolding refs_ok_def
  proof
    fix u
    have "count (add_mset prev (held queued w') + L) u \<le> owned w u"
      using m unfolding h rq_mid_def refs_ok_def by simp
    then show "count (held queued w' + L) u \<le> owned w' u" using st(5) [of u] by (auto split: if_splits)
  qed
  have "insert prev {x. Some x \<in> set ((k_current w)[c := Some nxt])} = insert nxt {x. Some x \<in> set (k_current w)}"
    using arg_cong [OF sm, of set_mset] somes_set [of "k_current w"] somes_set [of "(k_current w)[c := Some nxt]"] by simp
  moreover have "Some prev \<in> set (k_current w)" using nth_mem [OF c(1)] c(2) by simp
  ultimately have cur: "Some u \<in> set (k_current w) \<longleftrightarrow> u = prev \<or> Some u \<in> set ((k_current w)[c := Some nxt]) \<and> u \<noteq> nxt" for u
    using n(2) by blast
  have d: "distinct (somes ((k_current w)[c := Some nxt]))" by (rule somes_update_distinct [OF cpus_okD(2) [OF cp] n(2)])
  have "cpus_ok {} {} w'"
  proof (rule cpus_okI, unfold st k)
    fix d u assume du: "d < length ((k_current w)[c := Some nxt])" "(k_current w)[c := Some nxt] ! d = Some u"
    show "(d \<notin> {} \<longrightarrow> is_running u w) \<and> k_idle w ! d \<noteq> None \<and> (ti_is_idle (task_at u w) \<longrightarrow> k_idle w ! d = Some u)"
    proof (cases "d = c")
      case True
      then show ?thesis using du c n cpus_okD(7) [OF cp c] by auto
    next
      case False
      then show ?thesis using du cpus_okD(6,7,8) [OF cp, of d u] by auto
    qed
  next
    fix u assume "u < length (k_tasks w)" "is_running u w"
    then show "u \<in> {} \<or> Some u \<in> set ((k_current w)[c := Some nxt])"
      using cpus_okD(4) [OF cp] cur [of u] p(1) set_update_memI [OF c(1), of "Some nxt"] by auto
  qed (use cpus_okD(1) [OF cp] in simp, rule d, rule cpus_okD(3) [OF cp], blast dest: cpus_okD(5) [OF cp], blast dest: cpus_okD(9,10) [OF cp])
  then show ?thesis using m rf unfolding rq_mid_def sched_ok_def objs_ok_def st k by simp
qed

end

text \<open>What a switch on CPU \<open>c\<close> keeps: everything but who is running and who is ready, preemption, counts and contexts.\<close>

definition calm :: "TaskInner \<Rightarrow> TaskInner" where
  "calm x = x\<lparr>ti_state := (if ti_state x = Blocked \<or> ti_state x = Exited then ti_state x else Ready), ti_need_resched := False,
     ti_preempt_disable_count := 0, ti_strong := 0, ti_kstack := None, ti_ctx := CtxNew\<rparr>"

definition sched_frame :: "nat \<Rightarrow> ('s, 'g) Kernel \<Rightarrow> ('s, 'g) Kernel \<Rightarrow> bool" where
  "sched_frame c w w' \<longleftrightarrow> map calm (k_tasks w') = map calm (k_tasks w) \<and> k_wqs w' = k_wqs w \<and> k_timers w' = k_timers w \<and>
     k_exited w' = k_exited w \<and> k_idle w' = k_idle w \<and> length (k_current w') = length (k_current w) \<and>
     (\<forall>d. d \<noteq> c \<longrightarrow> k_current w' ! d = k_current w ! d)"

lemma sched_frame_refl [simp]: "sched_frame c w w"
  by (simp add: sched_frame_def)

lemma sched_frame_trans: "sched_frame c w w' \<Longrightarrow> sched_frame c w' w'' \<Longrightarrow> sched_frame c w w''"
  by (simp add: sched_frame_def)

lemma calm_set_task: "calm (f (task_at t w)) = calm (task_at t w) \<Longrightarrow> map calm (k_tasks (set_task t f w)) = map calm (k_tasks w)"
  by (cases "t < length (k_tasks w)") (auto simp: set_task_def task_at_def nth_list_update intro!: nth_equalityI)

lemma sched_frame_set_task: "calm (f (task_at t w)) = calm (task_at t w) \<Longrightarrow> sched_frame c w (set_task t f w)"
  by (simp add: sched_frame_def calm_set_task)

lemma arc_drop_more:
  "t < length (k_tasks w) \<Longrightarrow> 1 < strong_count t w \<Longrightarrow> arc_drop GA t w = Ret (set_task t (\<lambda>x. x\<lparr>ti_strong := ti_strong x - 1\<rparr>) w)"
  by (simp add: strong_count_def Let_def drop_all.simps(3))

lemma set_task_twice: "set_task t f (set_task t g w) = set_task t (\<lambda>x. f (g x)) w"
  by (cases "t < length (k_tasks w)") (simp_all add: set_task_def task_at_def list_update_beyond)

lemma clone_set_state: "arc_clone t (set_state x t w) = set_state x t (arc_clone t w)"
  unfolding arc_clone_def set_state_def set_task_twice by (rule arg_cong [where f = "\<lambda>f. set_task t f w"]) (rule ext, simp)

context run_queue
begin

lemma mid_ref: "mid E R L w \<Longrightarrow> n \<le> count (held queued w + L) t \<Longrightarrow> 0 < n \<Longrightarrow> t < length (k_tasks w) \<and> n \<le> strong_count t w"
  using le_trans [of n "count (held queued w + L) t" "owned w t"] by (auto simp: rq_mid_def refs_ok_def owned_def split: if_splits)

lemma held_current: "c < length (k_current w) \<Longrightarrow> k_current w ! c = Some t \<Longrightarrow> t \<in># mset (somes (k_current w))"
  using nth_mem [of c "k_current w"] somes_set [of "k_current w"] by auto

lemma switch_ok:
  assumes m: "mid {c} {nxt} (add_mset nxt L) w1"
    and w1: "w1 = set_state Running nxt (set_preempt_pending False nxt w)"
    and c: "c < length (k_current w)" "k_current w ! c = Some prev"
    and n: "nxt \<noteq> prev \<Longrightarrow> Some nxt \<notin> set (k_current w)" "ti_is_idle (task_at nxt w) \<Longrightarrow> k_idle w ! c = Some nxt"
      "is_ready nxt w" "nxt < length (k_tasks w)"
    and p: "nxt \<noteq> prev \<Longrightarrow> \<not> is_running prev w" "nxt \<noteq> prev \<Longrightarrow> 1 < count (held queued w1) prev"
  shows "\<exists>w'. rq_switch_to GA c prev nxt w = Ret w' \<and> mid {} {} L w' \<and> sched_frame c w w'
    \<and> k_current w' = (k_current w)[c := Some nxt] \<and> \<not> ti_need_resched (task_at nxt w')"
proof -
  have k: "k_current w1 = k_current w" "k_idle w1 = k_idle w" "length (k_tasks w1) = length (k_tasks w)"
    by (simp_all add: w1 set_state_def set_preempt_pending_def)
  have st: "is_running u w1 = (u = nxt \<or> is_running u w)" "ti_is_idle (task_at u w1) = ti_is_idle (task_at u w)" for u
    using n(4) by (simp_all add: w1 is_running_def set_state_def set_preempt_pending_def task_at_set)
  have sw: "rq_switch_to GA c prev nxt w = (if prev = nxt then arc_drop GA nxt w1 else if \<not> strong_count prev w1 > 1 then Panic
      else if \<not> strong_count nxt w1 \<ge> 1 then Panic
      else out_then (set_current GA c prev nxt w1) (\<lambda>w. Ret (set_task prev (\<lambda>x. x\<lparr>ti_ctx := CtxSaved\<rparr>) w)))"
    by (simp add: rq_switch_to_def w1 Let_def)
  have nr: "\<not> ti_need_resched (task_at nxt w1)" using n(4) by (simp add: w1 set_state_def set_preempt_pending_def task_at_set)
  have f1: "sched_frame c w w1"
    unfolding w1 set_state_def set_preempt_pending_def using n(3)
    by (intro sched_frame_trans [OF sched_frame_set_task sched_frame_set_task]) (auto simp: calm_def task_at_set is_ready_def)
  show ?thesis
  proof (cases "nxt = prev")
    case True
    have cp: "cpus_ok {c} {nxt} w1" using m by (simp add: rq_mid_def)
    have "cpus_ok {} {} w1"
    proof (rule cpus_okI)
      fix d u assume "d < length (k_current w1)" "k_current w1 ! d = Some u"
      then show "(d \<notin> {} \<longrightarrow> is_running u w1) \<and> k_idle w1 ! d \<noteq> None \<and> (ti_is_idle (task_at u w1) \<longrightarrow> k_idle w1 ! d = Some u)"
        using cpus_okD(6,7,8) [OF cp, of d u] c True st k by (cases "d = c") auto
    next
      fix u assume "u < length (k_tasks w1)" "is_running u w1"
      then show "u \<in> {} \<or> Some u \<in> set (k_current w1)"
        using cpus_okD(4) [OF cp, of u] nth_mem [OF c(1)] c(2) True k by auto
    qed (rule cpus_okD(1-3) [OF cp] | blast dest: cpus_okD(5,9,10) [OF cp])+
    then have m': "mid {} {} (add_mset nxt L) w1" using m by (simp add: rq_mid_def)
    have "0 < count (held queued w1) nxt"
      using held_current [of c w1 nxt] c True k by (simp add: held_def)
    then have "2 \<le> count (held queued w1 + add_mset nxt L) nxt" unfolding count_union count_add_mset if_P [OF refl] by linarith
    from mid_ref [OF m' this] have s: "2 \<le> strong_count nxt w1" "nxt < length (k_tasks w1)" by auto
    then have "arc_drop GA nxt w1 = Ret (set_task nxt (\<lambda>x. x\<lparr>ti_strong := ti_strong x - 1\<rparr>) w1)" by (intro arc_drop_more) simp_all
    moreover have "mid {} {} L (set_task nxt (\<lambda>x. x\<lparr>ti_strong := ti_strong x - 1\<rparr>) w1)"
      using mid_drop_one [OF m'] s by (simp add: strong_count_def)
    moreover have "sched_frame c w1 (set_task nxt (\<lambda>x. x\<lparr>ti_strong := ti_strong x - 1\<rparr>) w1)"
      by (rule sched_frame_set_task) (simp add: calm_def)
    ultimately show ?thesis
      unfolding sw using True c f1 nr s k list_update_id [of "k_current w" c] by (auto simp: task_at_set intro: sched_frame_trans)
  next
    case False
    note np = False n(1) [OF False] p [OF False]
    have "1 < strong_count prev w1" using mid_ref [OF m, of 2 prev] np(4) False by auto
    moreover have "1 \<le> strong_count nxt w1" using mid_ref [OF m, of 1 nxt] by simp
    moreover have pl: "prev < length (k_tasks w1)" using mid_ref [OF m, of 2 prev] np(4) False by auto
    moreover define w2 where "w2 = set_task prev (\<lambda>x. x\<lparr>ti_strong := ti_strong x - 1\<rparr>) w1\<lparr>k_current := (k_current w1)[c := Some nxt]\<rparr>"
    moreover have "mid {} {} L (set_task prev (\<lambda>x. x\<lparr>ti_ctx := CtxSaved\<rparr>) w2)"
      unfolding w2_def using np n(2) c st k calculation(1) by (intro mid_set_current [OF m]) auto
    moreover have "sched_frame c w1 w2"
      using calm_set_task [of "\<lambda>x. x\<lparr>ti_strong := ti_strong x - 1\<rparr>" prev w1] by (simp add: w2_def sched_frame_def calm_def)
    then have "sched_frame c w (set_task prev (\<lambda>x. x\<lparr>ti_ctx := CtxSaved\<rparr>) w2)"
      by (intro sched_frame_trans [OF sched_frame_trans [OF f1] sched_frame_set_task]) (simp_all add: calm_def)
    moreover have "\<not> ti_need_resched (task_at nxt (set_task prev (\<lambda>x. x\<lparr>ti_ctx := CtxSaved\<rparr>) w2))"
      using nr False by (simp add: w2_def task_at_set task_at_def set_task_def)
    ultimately show ?thesis
      unfolding sw using False k by (auto simp: set_current_def arc_drop_more)
  qed
qed

lemma current_eq: "c < length (k_current w) \<Longrightarrow> k_current w ! c = Some t \<Longrightarrow> current c w = Ret t"
  by (simp add: current_def current_may_uninit_def)

lemma mid_mono_E: "mid E R L w \<Longrightarrow> E \<subseteq> E' \<Longrightarrow> mid E' R L w"
  unfolding rq_mid_def cpus_ok_def by blast

lemma mid_current_valid: "mid E R L w \<Longrightarrow> c < length (k_current w) \<Longrightarrow> k_current w ! c = Some t \<Longrightarrow> t < length (k_tasks w)"
  using mid_valid [of queued L w t] held_current [of c w t] by (auto simp: rq_mid_def held_def)

text \<open>The task of another CPU is not that of this one.\<close>

lemma mid_current_other:
  "mid E R L w \<Longrightarrow> c < length (k_current w) \<Longrightarrow> k_current w ! c = Some t \<Longrightarrow>
   \<forall>d < length (k_current w). d \<notin> {c} \<longrightarrow> k_current w ! d \<noteq> Some t"
  using somes_distinct_nth [of "k_current w"] by (auto simp: rq_mid_def cpus_ok_def)

text \<open>The first part of \<open>resched\<close>: the task of the CPU is ready in the scheduler, or it was stopped.\<close>

lemma put_prev_ok:
  assumes m: "mid {c} {} L w" and c: "c < length (k_current w)" "k_current w ! c = Some prev"
    and p: "\<not> is_ready prev w" "is_running prev w \<or> 2 \<le> count (held queued w) prev"
  shows "\<exists>w'. (if is_running prev w
        then (let w = set_state Ready prev w
              in if \<not> ti_is_idle (task_at prev w) then sched_upd (put_prev_task B prev preempt) (arc_clone prev w)
                 else Ret w)
        else Ret w) = Ret w' \<and> mid {c} {} L w' \<and> sched_frame c w w' \<and> k_current w' = k_current w \<and> \<not> is_running prev w' \<and>
      2 \<le> count (held queued w') prev"
proof -
  have pl: "prev < length (k_tasks w)" using mid_current_valid [OF m c] .
  have h: "0 < count (mset (somes (k_current w))) prev" using held_current [OF c] by simp
  consider (stopped) "\<not> is_running prev w" | (idle) "is_running prev w" "ti_is_idle (task_at prev w)"
    | (busy) "is_running prev w" "\<not> ti_is_idle (task_at prev w)" by blast
  then show ?thesis
  proof cases
    case stopped
    then show ?thesis using m p by simp
  next
    case idle
    let ?w = "set_state Ready prev w"
    have k: "k_current ?w = k_current w" "k_idle ?w = k_idle w" "length (k_tasks ?w) = length (k_tasks w)" "held queued ?w = held queued w"
      "k_wqs ?w = k_wqs w" "k_timers ?w = k_timers w" "k_sched ?w = k_sched w" by (simp_all add: set_state_def)
    have st: "is_ready u ?w = (u = prev \<or> is_ready u w)" "is_running u ?w = (u \<noteq> prev \<and> is_running u w)"
      "ti_is_idle (task_at u ?w) = ti_is_idle (task_at u w)" "ti_wait_for_exit (task_at u ?w) = ti_wait_for_exit (task_at u w)"
      "owned ?w u = owned w u" for u
      using pl by (simp_all add: is_ready_def is_running_def strong_count_def owned_def set_state_def task_at_set)
    have cp: "cpus_ok {c} {} w" using m by (simp add: rq_mid_def)
    have "cpus_ok {c} {} ?w"
    proof (rule cpus_okI, unfold st k)
      fix d u assume "d < length (k_current w)" "k_current w ! d = Some u"
      then show "(d \<notin> {c} \<longrightarrow> u \<noteq> prev \<and> is_running u w) \<and> k_idle w ! d \<noteq> None \<and> (ti_is_idle (task_at u w) \<longrightarrow> k_idle w ! d = Some u)"
        using cpus_okD(6,7,8) [OF cp, of d u] mid_current_other [OF m c] by auto
    next
      fix i assume i: "Some i \<in> set (k_idle w)"
      then show "ti_is_idle (task_at i w) \<and> (i \<noteq> prev \<and> is_running i w \<or> i = prev \<or> is_ready i w)"
        using cpus_okD(9,10) [OF cp i] by auto
    qed (rule cpus_okD(1-3) [OF cp] | blast dest: cpus_okD(4,5) [OF cp])+
    moreover have "{t. t < length (k_tasks w) \<and> (t = prev \<or> is_ready t w) \<and> \<not> ti_is_idle (task_at t w)}
        = {t. t < length (k_tasks w) \<and> is_ready t w \<and> \<not> ti_is_idle (task_at t w)}" using idle(2) by blast
    ultimately have "mid {c} {} L ?w" using m unfolding rq_mid_def sched_ok_def refs_ok_def objs_ok_def st k by simp
    moreover have "sched_frame c w ?w"
      unfolding set_state_def using idle(1) by (intro sched_frame_set_task) (simp add: calm_def is_running_def)
    moreover have "Some prev \<in> set (k_idle w)" using cpus_okD(1,8) [OF cp] c idle(2) by (metis nth_mem)
    then have "0 < count (mset (somes (k_idle w))) prev" using somes_set [of "k_idle w"] by simp
    then have "2 \<le> count (held queued w) prev" using h unfolding held_def count_union by linarith
    ultimately show ?thesis using idle st k by (auto simp: Let_def)
  next
    case busy
    have pc: "prev < length (k_tasks (set_state Ready prev w))" using pl by (simp add: set_state_def)
    obtain s where s: "k_sched w = Some s" "sinv s" "queued s = {t. t < length (k_tasks w) \<and> is_ready t w \<and> \<not> ti_is_idle (task_at t w)}"
      using mid_sched [OF m] by metis
    then have "prev \<notin> queued s" using p by simp
    from put_ok [OF s(2) this] obtain s' where s': "put_prev_task B prev preempt s = Ret s'" "sinv s'" "queued s' = insert prev (queued s)" by blast
    let ?w = "set_state Ready prev (arc_clone prev w)\<lparr>k_sched := Some s'\<rparr>"
    have eq: "sched_upd (put_prev_task B prev preempt) (arc_clone prev (set_state Ready prev w)) = Ret ?w"
      unfolding clone_set_state using s(1) s'(1) by (simp add: sched_upd_def sched_do_def set_state_def arc_clone_def)
    have cl: "mid {c} {} (add_mset prev L) (arc_clone prev w)" by (rule mid_clone [OF m pl])
    have m': "mid {c} {} L ?w"
      using p busy(2) s(1) s'(2,3) mid_current_other [OF m c]
      by (intro mid_enqueue [OF cl]) (simp_all add: arc_clone_def is_ready_def task_at_set)
    have f: "sched_frame c w ?w"
    proof -
      have "sched_frame c w (arc_clone prev w)" unfolding arc_clone_def by (rule sched_frame_set_task) (simp add: calm_def)
      moreover have "sched_frame c (arc_clone prev w) (set_state Ready prev (arc_clone prev w))"
        unfolding set_state_def using busy(1) by (intro sched_frame_set_task) (simp add: calm_def is_running_def arc_clone_def task_at_set)
      ultimately show ?thesis using sched_frame_trans by (fastforce simp: sched_frame_def)
    qed
    have "finite (queued s')" using s'(2) by (rule queued_finite)
    then have "0 < count (mset_set (queued s')) prev" using s'(3) by simp
    moreover have "count (mset (somes (k_current w))) prev + count (mset_set (queued s')) prev \<le> count (held queued ?w) prev"
      by (simp add: held_def set_state_def arc_clone_def)
    ultimately have "2 \<le> count (held queued ?w) prev" using h by linarith
    moreover have "\<not> is_running prev ?w" using pl by (simp add: is_running_def set_state_def arc_clone_def task_at_def set_task_def)
    ultimately show ?thesis using busy eq m' f by (auto simp: Let_def set_state_def arc_clone_def task_at_set)
  qed
qed

lemma resched_ok:
  assumes m: "mid {c} {} L w" and c: "c < length (k_current w)" "k_current w ! c = Some prev"
    and p: "\<not> is_ready prev w" "is_running prev w \<or> 2 \<le> count (held queued w) prev"
  shows "\<exists>w' nxt. rq_resched B GA c preempt w = Ret w' \<and> mid {} {} L w' \<and> sched_frame c w w' \<and>
    k_current w' = (k_current w)[c := Some nxt] \<and> \<not> ti_need_resched (task_at nxt w')"
proof -
  obtain w2 where w2: "(if is_running prev w
        then (let w = set_state Ready prev w
              in if \<not> ti_is_idle (task_at prev w) then sched_upd (put_prev_task B prev preempt) (arc_clone prev w)
                 else Ret w)
        else Ret w) = Ret w2" "mid {c} {} L w2" "sched_frame c w w2" "k_current w2 = k_current w" "\<not> is_running prev w2"
      "2 \<le> count (held queued w2) prev"
    using put_prev_ok [OF assms] by blast
  have cp: "cpus_ok {c} {} w2" using w2(2) by (simp add: rq_mid_def)
  note c2 = c [folded w2(4)]
  obtain s where s: "k_sched w2 = Some s" "sinv s" "queued s = {t. t < length (k_tasks w2) \<and> is_ready t w2 \<and> \<not> ti_is_idle (task_at t w2)}"
    using mid_sched [OF w2(2)] by metis
  obtain r s' where pick: "pick_next_task B s = Ret (r, s')" "sinv s'"
    "case r of None \<Rightarrow> queued s = {} \<and> s' = s | Some t \<Rightarrow> t \<in> queued s \<and> queued s' = queued s - {t}"
    using pick_ok [OF s(2)] by blast
  define w3 where "w3 = w2\<lparr>k_sched := Some s'\<rparr>"
  have k3: "k_current w3 = k_current w2" "k_idle w3 = k_idle w2" "length (k_tasks w3) = length (k_tasks w2)"
    "is_ready u w3 = is_ready u w2" "is_running u w3 = is_running u w2" "task_at u w3 = task_at u w2" for u
    by (simp_all add: w3_def task_defs)
  have f3: "sched_frame c w w3" using w2(3) by (simp add: sched_frame_def w3_def)
  have not_cur: "Some t \<notin> set (k_current w2)" if t: "is_ready t w2" "t \<noteq> prev" for t
  proof
    assume "Some t \<in> set (k_current w2)"
    then obtain d where d: "d < length (k_current w2)" "k_current w2 ! d = Some t" by (auto simp: in_set_conv_nth)
    then have "d \<noteq> c" using c2 t(2) by auto
    then have "is_running t w2" using cpus_okD(6) [OF cp d] by simp
    then show False using t(1) by (simp add: is_running_def is_ready_def)
  qed
  have sched: "rq_resched B GA c preempt w = (case r of Some t \<Rightarrow> rq_switch_to GA c prev t w3
      | None \<Rightarrow> (case k_idle w3 ! c of None \<Rightarrow> Panic | Some t \<Rightarrow> rq_switch_to GA c prev t (arc_clone t w3)))"
    unfolding rq_resched_def current_eq [OF c] out_then.simps(1) w2(1) by (simp add: sched_do_def s(1) pick(1) w3_def [symmetric] cong: option.case_cong)
  show ?thesis
  proof (cases r)
    case (Some t)
    then have t: "t \<in> queued s" "queued s' = queued s - {t}" using pick(3) by simp_all
    then have t': "is_ready t w2" "t < length (k_tasks w2)" "\<not> ti_is_idle (task_at t w2)" using s(3) by simp_all
    let ?w1 = "set_state Running t (set_preempt_pending False t w3)"
    have st: "mid {c} {t} (add_mset t L) ?w1" "held queued ?w1 + {#t#} = held queued w2"
      using mid_start [OF w2(2) t'(1,2) s(1) pick(2) t(2)] t'(3) by (simp_all add: w3_def)
    have "1 < count (held queued ?w1) prev" if "t \<noteq> prev"
      using w2(6) arg_cong [OF st(2), of "\<lambda>M. count M prev"] that by simp
    then show ?thesis
      using switch_ok [OF st(1) refl, of prev GA] not_cur [OF t'(1)] t' c2 w2(5) f3 sched Some k3 w2(4)
      by (fastforce intro: sched_frame_trans)
  next
    case None
    then have q: "queued s = {}" "s' = s" using pick(3) by simp_all
    obtain i where i: "k_idle w2 ! c = Some i" using cpus_okD(7) [OF cp c2] by blast
    have cl: "c < length (k_idle w2)" using c2 cpus_okD(1) [OF cp] by simp
    have ii: "Some i \<in> set (k_idle w2)" using i cl by (metis nth_mem)
    have idle: "ti_is_idle (task_at i w2)" using cpus_okD(9) [OF cp ii] .
    have il: "i < length (k_tasks w2)"
    proof -
      have "i \<in># held queued w2 + L" using ii somes_set [of "k_idle w2"] by (auto simp: held_def)
      then show ?thesis using mid_valid w2(2) by (auto simp: rq_mid_def)
    qed
    have ready: "is_ready i w2"
    proof (rule ccontr)
      assume "\<not> is_ready i w2"
      then have run: "is_running i w2" using cpus_okD(10) [OF cp ii] by blast
      then obtain d where d: "d < length (k_current w2)" "k_current w2 ! d = Some i"
        using cpus_okD(4) [OF cp il] by (auto simp: in_set_conv_nth)
      then have "k_idle w2 ! d = Some i" using cpus_okD(8) [OF cp] idle by blast
      then have "d = c" using somes_distinct_nth [OF cpus_okD(3) [OF cp]] d cl i cpus_okD(1) [OF cp] by metis
      then show False using d c2 w2(5) run by simp
    qed
    let ?w4 = "arc_clone i w3" let ?w1 = "set_state Running i (set_preempt_pending False i ?w4)"
    have w3: "w3 = w2" using q(2) s(1) by (simp add: w3_def)
    then have m4: "mid {c} {} (add_mset i L) ?w4" "k_sched ?w4 = Some s" "held queued ?w4 = held queued w2"
      using mid_clone [OF w2(2) il] s(1) by (simp_all add: arc_clone_def)
    have w4: "?w4\<lparr>k_sched := Some s\<rparr> = ?w4" using m4(2) by simp
    have k4: "is_ready i ?w4" "i < length (k_tasks ?w4)" "ti_is_idle (task_at i ?w4)" "k_current ?w4 = k_current w2" "k_idle ?w4 = k_idle w2"
      "is_running u ?w4 = is_running u w2" for u
      using ready il idle k3 by (auto simp: arc_clone_def is_ready_def is_running_def task_at_set)
    have st: "mid {c} {i} (add_mset i L) ?w1" "held queued ?w1 = held queued ?w4"
      using mid_start [OF m4(1) k4(1,2) m4(2) s(2), of ] q(1) k4(3) by (simp_all add: w4)
    have "1 < count (held queued ?w1) prev" if "i \<noteq> prev"
      using w2(6) unfolding st(2) m4(3) by simp
    moreover have "sched_frame c w ?w4"
      unfolding arc_clone_def by (rule sched_frame_trans [OF f3 sched_frame_set_task]) (simp add: calm_def)
    ultimately show ?thesis
      using switch_ok [OF st(1) refl, of prev GA] not_cur [OF ready] i c2 w2(5) sched None k3 k4 w2(4)
      by (fastforce intro: sched_frame_trans)
  qed
qed

end

subsection \<open>Waking up\<close>

definition still :: "TaskInner \<Rightarrow> TaskInner" where
  "still x = (calm x)\<lparr>ti_in_wait_queue := False, ti_in_timer_list := False\<rparr>"

text \<open>The tasks of \<open>S\<close> that are blocked become ready; queues of tasks may only shrink.\<close>

definition wake_frame :: "tref set \<Rightarrow> ('s, 'g) Kernel \<Rightarrow> ('s, 'g) Kernel \<Rightarrow> bool" where
  "wake_frame S w w' \<longleftrightarrow> length (k_tasks w') = length (k_tasks w) \<and>
     (\<forall>u < length (k_tasks w). still (task_at u w') =
        still ((task_at u w)\<lparr>ti_state := if u \<in> S \<and> is_blocked u w then Ready else ti_state (task_at u w)\<rparr>)) \<and>
     k_current w' = k_current w \<and> k_idle w' = k_idle w \<and> k_exited w' = k_exited w \<and> k_timers w' = k_timers w \<and>
     length (k_wqs w') = length (k_wqs w) \<and> (\<forall>q < length (k_wqs w). length (k_wqs w' ! q) \<le> length (k_wqs w ! q) \<and>
       set (k_wqs w' ! q) \<subseteq> set (k_wqs w ! q))"

lemma still_state: "still x = still y \<Longrightarrow> ti_state x \<in> {Blocked, Exited} \<or> ti_state y \<in> {Blocked, Exited} \<Longrightarrow> ti_state x = ti_state y"
  by (cases x; cases y) (auto simp: still_def calm_def split: if_splits)

lemma still_fields:
  "still x = still y \<Longrightarrow> ti_is_idle x = ti_is_idle y \<and> ti_is_init x = ti_is_init y \<and> ti_wait_for_exit x = ti_wait_for_exit y
     \<and> ti_exit_code x = ti_exit_code y \<and> ti_id x = ti_id y \<and> ti_name x = ti_name y"
  by (cases x; cases y) (auto simp: still_def calm_def)

lemma wake_frame_refl [simp]: "wake_frame {} w w"
  by (simp add: wake_frame_def)

lemma wake_frame_blocked:
  "wake_frame S w w' \<Longrightarrow> u < length (k_tasks w) \<Longrightarrow> is_blocked u w' \<longleftrightarrow> is_blocked u w \<and> u \<notin> S"
  unfolding wake_frame_def is_blocked_def
  using still_state [of "task_at u w'" "(task_at u w)\<lparr>ti_state := if u \<in> S \<and> is_blocked u w then Ready else ti_state (task_at u w)\<rparr>"]
  by (auto simp: is_blocked_def split: if_splits)

lemma wake_frame_trans:
  assumes "wake_frame S w w'" "wake_frame T w' w''"
  shows "wake_frame (S \<union> T) w w''"
proof -
  have "still (task_at u w'') =
      still ((task_at u w)\<lparr>ti_state := if u \<in> S \<union> T \<and> is_blocked u w then Ready else ti_state (task_at u w)\<rparr>)"
    if u: "u < length (k_tasks w)" for u
  proof -
    have 1: "still (task_at u w') = still ((task_at u w)\<lparr>ti_state := if u \<in> S \<and> is_blocked u w then Ready else ti_state (task_at u w)\<rparr>)"
      and 2: "still (task_at u w'') = still ((task_at u w')\<lparr>ti_state := if u \<in> T \<and> is_blocked u w' then Ready else ti_state (task_at u w')\<rparr>)"
      using assms u by (simp_all add: wake_frame_def)
    have r: "still (x\<lparr>ti_state := Ready\<rparr>) = still (y\<lparr>ti_state := Ready\<rparr>)" if "still x = still y" for x y
      using that by (cases x; cases y) (auto simp: still_def calm_def)
    note b = wake_frame_blocked [OF assms(1) u]
    show ?thesis
    proof (cases "u \<in> T \<and> is_blocked u w'")
      case True
      then have "still (task_at u w'') = still ((task_at u w')\<lparr>ti_state := Ready\<rparr>)" using 2 by simp
      also have "... = still (((task_at u w)\<lparr>ti_state := if u \<in> S \<and> is_blocked u w then Ready else ti_state (task_at u w)\<rparr>)\<lparr>ti_state := Ready\<rparr>)"
        by (rule r [OF 1])
      finally show ?thesis using True b by simp
    next
      case False
      then show ?thesis using 1 2 b by auto
    qed
  qed
  then show ?thesis using assms unfolding wake_frame_def by (simp add: subset_eq) (meson le_trans)
qed

lemma wake_frameD:
  assumes "wake_frame S w w'"
  shows "length (k_tasks w') = length (k_tasks w)" "k_current w' = k_current w" "k_idle w' = k_idle w" "k_exited w' = k_exited w"
    "k_timers w' = k_timers w" "length (k_wqs w') = length (k_wqs w)"
    "q < length (k_wqs w) \<Longrightarrow> length (k_wqs w' ! q) \<le> length (k_wqs w ! q)"
    "q < length (k_wqs w) \<Longrightarrow> set (k_wqs w' ! q) \<subseteq> set (k_wqs w ! q)"
  using assms by (simp_all add: wake_frame_def)

lemma wake_frame_set_task:
  "still (f (task_at t w)) = still (task_at t w) \<Longrightarrow> wake_frame {} w (set_task t f w)"
  by (auto simp: wake_frame_def task_at_set)

lemma wake_frame_drop: "drop_frame w w' \<Longrightarrow> wake_frame {} w w'"
proof -
  assume d: "drop_frame w w'"
  then have l: "length (k_tasks w') = length (k_tasks w)" unfolding drop_frame_def by (metis length_map)
  have "still (task_at u w') = still (task_at u w)" if "u < length (k_tasks w)" for u
  proof -
    have "core (task_at u w') = core (task_at u w)"
      using d that l unfolding drop_frame_def task_at_def by (metis nth_map)
    then show ?thesis by (cases "task_at u w'"; cases "task_at u w") (simp add: core_def still_def calm_def)
  qed
  then show ?thesis using d l by (auto simp: wake_frame_def drop_frame_def)
qed

context run_queue
begin

lemma mid_ref_valid: "mid E R (add_mset t L) w \<Longrightarrow> t < length (k_tasks w)"
  using mid_valid [of queued "add_mset t L" w t] by (simp add: rq_mid_def)

lemma mid_blocked:
  assumes m: "mid E R L w" and t: "t < length (k_tasks w)" "is_blocked t w"
  shows "\<not> is_ready t w" "\<not> ti_is_idle (task_at t w)" "\<forall>c < length (k_current w). c \<notin> E \<longrightarrow> k_current w ! c \<noteq> Some t"
proof -
  have cp: "cpus_ok E R w" using m by (simp add: rq_mid_def)
  have n: "\<not> is_ready t w" "\<not> is_running t w" using t(2) by (simp_all add: is_blocked_def is_ready_def is_running_def)
  then show "\<not> is_ready t w" by simp
  show "\<not> ti_is_idle (task_at t w)" using cpus_okD(5,10) [OF cp] t(1) n by blast
  show "\<forall>c < length (k_current w). c \<notin> E \<longrightarrow> k_current w ! c \<noteq> Some t" using cpus_okD(6) [OF cp] n by blast
qed

lemma unblock_ok:
  assumes m: "mid E R (add_mset t L) w" and c: "c < length (k_current w)" "k_current w ! c = Some cur"
  shows "\<exists>w'. rq_unblock_task B GA c t resched w = Ret w' \<and> mid E R L w' \<and> wake_frame {t} w w' \<and>
    (is_blocked t w \<longrightarrow> k_wqs w' = k_wqs w)"
proof (cases "is_blocked t w")
  case True
  note tl = mid_ref_valid [OF m]
  note b = mid_blocked [OF m tl True]
  obtain s where s: "k_sched w = Some s" "sinv s" "queued s = {t. t < length (k_tasks w) \<and> is_ready t w \<and> \<not> ti_is_idle (task_at t w)}"
    using mid_sched [OF m] by metis
  then have "t \<notin> queued s" using b by simp
  from add_ok [OF s(2) this] obtain s' where s': "add_task B t s = Ret s'" "sinv s'" "queued s' = insert t (queued s)" by blast
  let ?w = "set_state Ready t w\<lparr>k_sched := Some s'\<rparr>"
  have m': "mid E R L ?w" by (rule mid_enqueue [OF m b s(1) s'(2,3)])
  have f: "wake_frame {t} w ?w"
    using True tl by (auto simp: wake_frame_def set_state_def task_at_set set_task_def task_at_def nth_list_update)
  have eq: "sched_upd (add_task B t) (set_state Ready t w) = Ret ?w"
    using s(1) s'(1) by (simp add: sched_upd_def sched_do_def set_state_def)
  show ?thesis
  proof (cases resched)
    case True
    have "current c ?w = Ret cur" using c by (intro current_eq) (simp_all add: set_state_def)
    moreover have "mid E R L (set_preempt_pending True cur ?w)" unfolding set_preempt_pending_def by (rule mid_set_task [OF m']) simp
    moreover have "wake_frame ({t} \<union> {}) w (set_preempt_pending True cur ?w)"
      unfolding set_preempt_pending_def by (rule wake_frame_trans [OF f wake_frame_set_task]) (simp add: still_def calm_def)
    ultimately show ?thesis using \<open>is_blocked t w\<close> eq True by (simp add: rq_unblock_task_def set_preempt_pending_def set_state_def)
  qed (use \<open>is_blocked t w\<close> eq m' f in \<open>simp add: rq_unblock_task_def set_state_def\<close>)
next
  case False
  from m have "mid E R (dropped [DropRef t] + L) w" by simp
  from drop_all_ok [OF this] obtain w' where w': "arc_drop GA t w = Ret w'" "mid E R L w'" "drop_frame w w'" by blast
  have "wake_frame {t} w w'"
    using wake_frame_drop [OF w'(3)] False by (auto simp: wake_frame_def)
  then show ?thesis using False w' by (simp add: rq_unblock_task_def)
qed

lemma pop_ok:
  assumes m: "mid E R L w" and q: "q < length (k_wqs w)" "k_wqs w ! q = t # ts"
  shows "mid E R (add_mset t L) (w\<lparr>k_wqs := (k_wqs w)[q := ts]\<rparr>)" "wake_frame {} w (w\<lparr>k_wqs := (k_wqs w)[q := ts]\<rparr>)"
proof -
  let ?w = "w\<lparr>k_wqs := (k_wqs w)[q := ts]\<rparr>"
  have st: "task_at u ?w = task_at u w" "owned ?w u = owned w u" "is_ready u ?w = is_ready u w" "is_running u ?w = is_running u w" for u
    by (simp_all add: task_defs owned_def)
  have "mset (concat ((k_wqs w)[q := ts])) + {#t#} = mset (concat (k_wqs w))"
    using mset_concat_update [OF q(1), of ts] q(2) by (simp add: union_ac)
  then have "held queued ?w + add_mset t L = held queued w + L" unfolding held_def by (simp add: union_ac)
  then have "refs_ok queued (add_mset t L) ?w" using m st(2) refs_ok_eq unfolding rq_mid_def by metis
  then show "mid E R (add_mset t L) ?w"
    using m unfolding rq_mid_def sched_ok_def cpus_ok_def objs_ok_def st by simp
  show "wake_frame {} w ?w" using q by (auto simp: wake_frame_def st nth_list_update)
qed

lemma pop_unblock_ok:
  assumes m: "mid E R L w" and c: "c < length (k_current w)" "k_current w ! c = Some cur"
    and q: "q < length (k_wqs w)" "k_wqs w ! q = t # ts"
  shows "\<exists>w'. rq_unblock_task B GA c t resched (set_in_wait_queue False t (w\<lparr>k_wqs := (k_wqs w)[q := ts]\<rparr>)) = Ret w' \<and> mid E R L w' \<and>
    wake_frame {t} w w' \<and> length (k_wqs w' ! q) \<le> length ts \<and> set (k_wqs w' ! q) \<subseteq> set ts \<and> (is_blocked t w \<longrightarrow> k_wqs w' ! q = ts)"
proof -
  let ?w = "set_in_wait_queue False t (w\<lparr>k_wqs := (k_wqs w)[q := ts]\<rparr>)"
  have m': "mid E R (add_mset t L) ?w" unfolding set_in_wait_queue_def by (rule mid_set_task [OF pop_ok(1) [OF m q]]) simp
  have f: "wake_frame {} w ?w" unfolding set_in_wait_queue_def
    using wake_frame_trans [OF pop_ok(2) [OF m q] wake_frame_set_task, of "\<lambda>x. x\<lparr>ti_in_wait_queue := False\<rparr>" t]
    by (simp add: still_def calm_def)
  have c': "c < length (k_current ?w)" "k_current ?w ! c = Some cur" using c by (simp_all add: set_in_wait_queue_def)
  obtain w' where w': "rq_unblock_task B GA c t resched ?w = Ret w'" "mid E R L w'" "wake_frame {t} ?w w'"
    "is_blocked t ?w \<longrightarrow> k_wqs w' = k_wqs ?w"
    using unblock_ok [OF m' c'] by blast
  have k: "k_wqs ?w = (k_wqs w)[q := ts]" by (simp add: set_in_wait_queue_def)
  have "length (k_wqs w' ! q) \<le> length ts" "set (k_wqs w' ! q) \<subseteq> set ts"
    using wake_frameD(7,8) [OF w'(3), of q] q(1) by (simp_all add: k)
  moreover have "is_blocked t ?w = is_blocked t w"
    by (simp add: is_blocked_def set_in_wait_queue_def task_at_set) (simp add: task_at_def)
  moreover have "wake_frame {t} w w'" using wake_frame_trans [OF f w'(3)] by simp
  ultimately show ?thesis using w' k q(1) by auto
qed

lemma notify_one_locked_ok:
  assumes m: "mid E R L w" and c: "c < length (k_current w)" "k_current w ! c = Some cur" and q: "q < length (k_wqs w)"
  shows "\<exists>w'. notify_one_locked B GA c q resched w = Ret (k_wqs w ! q \<noteq> [], w') \<and> mid E R L w' \<and>
    wake_frame (set (take 1 (k_wqs w ! q))) w w'"
proof (cases "k_wqs w ! q")
  case (Cons t ts)
  then show ?thesis
    using pop_unblock_ok [OF m c q Cons, of GA resched] by (auto simp: notify_one_locked_def wq_pop_front_def)
qed (use m in \<open>simp add: notify_one_locked_def wq_pop_front_def\<close>)

text \<open>A loop over a wait queue empties it; when all the waiting tasks are blocked, it wakes each of them.\<close>

lemma notify_all_loop_ok:
  assumes "mid E R L w" "c < length (k_current w)" "k_current w ! c = Some cur" "q < length (k_wqs w)" "length (k_wqs w ! q) \<le> n"
  shows "\<exists>w' S. notify_all_loop B GA c q resched n w = Ret w' \<and> mid E R L w' \<and> wake_frame S w w' \<and> k_wqs w' ! q = [] \<and>
    S \<subseteq> set (k_wqs w ! q) \<and> (distinct (k_wqs w ! q) \<and> (\<forall>t \<in> set (k_wqs w ! q). is_blocked t w) \<longrightarrow> S = set (k_wqs w ! q))"
  using assms
proof (induction n arbitrary: w)
  case 0
  then show ?case using wake_frame_refl by force
next
  case (Suc n)
  note m = Suc.prems(1) and c = Suc.prems(2,3) and q = Suc.prems(4)
  show ?case
  proof (cases "k_wqs w ! q")
    case (Cons t ts)
    obtain w1 where w1: "rq_unblock_task B GA c t resched (set_in_wait_queue False t (w\<lparr>k_wqs := (k_wqs w)[q := ts]\<rparr>)) = Ret w1"
      "mid E R L w1" "wake_frame {t} w w1" "length (k_wqs w1 ! q) \<le> length ts" "set (k_wqs w1 ! q) \<subseteq> set ts"
      "is_blocked t w \<longrightarrow> k_wqs w1 ! q = ts"
      using pop_unblock_ok [OF m c q Cons, of GA resched] by blast
    have k: "k_current w1 = k_current w" "length (k_wqs w1) = length (k_wqs w)" using w1(3) by (simp_all add: wake_frameD)
    obtain w2 S where w2: "notify_all_loop B GA c q resched n w1 = Ret w2" "mid E R L w2" "wake_frame S w1 w2" "k_wqs w2 ! q = []"
      "S \<subseteq> set (k_wqs w1 ! q)" "distinct (k_wqs w1 ! q) \<and> (\<forall>t \<in> set (k_wqs w1 ! q). is_blocked t w1) \<longrightarrow> S = set (k_wqs w1 ! q)"
      using Suc.IH [OF w1(2)] Suc.prems Cons k w1(4) by auto
    have "insert t S = set (t # ts)" if b: "distinct (t # ts)" "\<forall>u \<in> set (t # ts). is_blocked u w"
    proof -
      have "u < length (k_tasks w)" if "u \<in> set (t # ts)" for u
      proof -
        have "u \<in> set (concat (k_wqs w))" using that Cons nth_mem [OF q] by (auto intro!: bexI [of _ "k_wqs w ! q"])
        then have "u \<in># held queued w + L" by (simp add: held_def)
        then show ?thesis using m mid_valid by (auto simp: rq_mid_def)
      qed
      then have "is_blocked u w1" if "u \<in> set ts" for u using wake_frame_blocked [OF w1(3)] that b by auto
      then show ?thesis using w1(6) w2(6) b by auto
    qed
    moreover have "wake_frame (insert t S) w w2" using wake_frame_trans [OF w1(3) w2(3)] by simp
    ultimately show ?thesis using w1 w2 Cons by (auto simp: wq_pop_front_def intro!: exI [of _ "insert t S"])
  qed (use m wake_frame_refl in \<open>force simp: wq_pop_front_def\<close>)
qed

end

subsection \<open>Critical sections\<close>

lemma guard_release_old:
  assumes "current_may_uninit c w = Some cur" "\<forall>sp. ti_ctx (task_at cur w) \<noteq> CtxInit sp"
    and w1: "w1 = set_task cur (\<lambda>x. x\<lparr>ti_preempt_disable_count := ti_preempt_disable_count (task_at cur w) - 1\<rparr>) w"
  shows "guard_release B GA c w =
    (if ti_preempt_disable_count (task_at cur w) = 1 \<and> ti_need_resched (task_at cur w1) \<and> can_preempt 0 cur w1
     then (if k_sched w1 = None then Some Panic
           else case (if ti_need_resched (task_at cur (guard_acquire c w1)) then rq_preempt_resched B GA c (guard_acquire c w1)
                      else Ret (guard_acquire c w1)) of
                  Panic \<Rightarrow> Some Panic | Ret w \<Rightarrow> guard_release B GA c w)
     else Some (Ret w1))"
  unfolding w1 using assms(2)
  by (subst guard_release.simps, cases "ti_ctx (task_at cur w)") (simp_all only: assms(1) option.case TaskContext.case Let_def TaskContext.inject simp_thms)

context run_queue
begin

lemma guard_release_no_pending:
  assumes m: "mid {} {} L w" and c: "c < length (k_current w)" "k_current w ! c = Some cur" and n: "\<not> ti_need_resched (task_at cur w)"
  shows "\<exists>w'. guard_release B GA c w = Some (Ret w') \<and> mid {} {} L w' \<and> sched_frame c w w' \<and> k_current w' = k_current w"
proof -
  have cm: "current_may_uninit c w = Some cur" using c by (simp add: current_may_uninit_def)
  define w1 where "w1 = set_task cur (\<lambda>x. x\<lparr>ti_preempt_disable_count := ti_preempt_disable_count (task_at cur w) - 1\<rparr>) w"
  have 1: "mid {} {} L (set_task cur (\<lambda>x. x\<lparr>ti_ctx := CtxLive\<rparr>) w)" "mid {} {} L w1"
    unfolding w1_def by (rule mid_set_task [OF m]; simp)+
  have 2: "sched_frame c w (set_task cur (\<lambda>x. x\<lparr>ti_ctx := CtxLive\<rparr>) w)" "sched_frame c w w1"
    unfolding w1_def by (rule sched_frame_set_task; simp add: calm_def)+
  have 3: "\<not> ti_need_resched (task_at cur w1)" using n by (simp add: w1_def task_at_set)
  have 4: "k_current w1 = k_current w" by (simp add: w1_def)
  show ?thesis
    using 1 2 3 4 by (subst guard_release.simps) (auto simp: cm Let_def w1_def [symmetric] split: TaskContext.splits)
qed

lemma guard_acquire_ok:
  assumes m: "mid E R L w" and c: "c < length (k_current w)" "k_current w ! c = Some cur"
  shows "mid E R L (guard_acquire c w)" "sched_frame c w (guard_acquire c w)" "k_current (guard_acquire c w) = k_current w"
    "k_sched (guard_acquire c w) = k_sched w" "is_running t (guard_acquire c w) = is_running t w"
    "held queued (guard_acquire c w) = held queued w"
proof -
  have cm: "guard_acquire c w = disable_preempt cur w" using c by (simp add: guard_acquire_def current_may_uninit_def)
  show "mid E R L (guard_acquire c w)" unfolding cm disable_preempt_def by (rule mid_set_task [OF m]) simp
  show "sched_frame c w (guard_acquire c w)" unfolding cm disable_preempt_def by (rule sched_frame_set_task) (simp add: calm_def)
  show "k_current (guard_acquire c w) = k_current w" "k_sched (guard_acquire c w) = k_sched w"
    "is_running t (guard_acquire c w) = is_running t w" "held queued (guard_acquire c w) = held queued w"
    by (simp_all add: cm disable_preempt_def is_running_def task_at_set)
qed

lemma mid_running: "mid {} R L w \<Longrightarrow> c < length (k_current w) \<Longrightarrow> k_current w ! c = Some cur \<Longrightarrow> is_running cur w \<and> \<not> is_ready cur w"
  unfolding rq_mid_def cpus_ok_def by (auto simp: is_running_def is_ready_def)

lemma guard_release_ok:
  assumes m: "mid {} {} L w" and c: "c < length (k_current w)" "k_current w ! c = Some cur"
  shows "\<exists>w'. guard_release B GA c w = Some (Ret w') \<and> mid {} {} L w' \<and> sched_frame c w w' \<and> (\<exists>nxt. k_current w' = (k_current w)[c := Some nxt])"
proof (cases "ti_need_resched (task_at cur w)")
  case False
  then show ?thesis using guard_release_no_pending [OF m c] c by (metis list_update_id)
next
  case True
  have cm: "current_may_uninit c w = Some cur" using c by (simp add: current_may_uninit_def)
  define w1 where "w1 = set_task cur (\<lambda>x. x\<lparr>ti_preempt_disable_count := ti_preempt_disable_count (task_at cur w) - 1\<rparr>) w"
  have m1: "mid {} {} L (set_task cur (\<lambda>x. x\<lparr>ti_ctx := CtxLive\<rparr>) w)" "mid {} {} L w1"
    unfolding w1_def by (rule mid_set_task [OF m]; simp)+
  have f1: "sched_frame c w (set_task cur (\<lambda>x. x\<lparr>ti_ctx := CtxLive\<rparr>) w)" "sched_frame c w w1"
    unfolding w1_def by (rule sched_frame_set_task; simp add: calm_def)+
  have c1: "c < length (k_current w1)" "k_current w1 ! c = Some cur" "k_current w1 = k_current w" using c by (simp_all add: w1_def)
  have n1: "ti_need_resched (task_at cur w1)" using True by (simp add: w1_def task_at_set)
  define w2 where "w2 = guard_acquire c w1"
  note g = guard_acquire_ok [OF m1(2) c1(1,2), folded w2_def]
  have c2: "c < length (k_current w2)" "k_current w2 ! c = Some cur" using c1 g(3) by simp_all
  have s1: "k_sched w1 \<noteq> None" using mid_sched [OF m1(2)] by (metis option.distinct(1))
  have a: "\<exists>w' nxt. rq_preempt_resched B GA c w2 = Ret w' \<and> mid {} {} L w' \<and> sched_frame c w2 w' \<and>
      k_current w' = (k_current w2)[c := Some nxt] \<and> \<not> ti_need_resched (task_at nxt w')" if "can_preempt 0 cur w1"
  proof -
    have "can_preempt 1 cur w2"
      using that mid_current_valid [OF m1(2) c1(1,2)] c1
      by (simp add: w2_def can_preempt_def guard_acquire_def current_may_uninit_def disable_preempt_def task_at_set)
    then show ?thesis
      using resched_ok [OF mid_mono_E [OF g(1), of "{c}"] c2, of GA True] mid_running [OF g(1) c2] current_eq [OF c2]
      by (simp add: rq_preempt_resched_def)
  qed
  have n2: "ti_need_resched (task_at cur w2)"
    using n1 c1 by (simp add: w2_def guard_acquire_def current_may_uninit_def disable_preempt_def task_at_set)
  show ?thesis
  proof (cases "(\<exists>sp. ti_ctx (task_at cur w) = CtxInit sp) \<or> \<not> (ti_preempt_disable_count (task_at cur w) = 1 \<and> can_preempt 0 cur w1)")
    case True
    then show ?thesis using m1 f1 c1 c list_update_id [of "k_current w" c]
      by (subst guard_release.simps) (auto simp: cm Let_def w1_def [symmetric] split: TaskContext.splits intro: exI [of _ cur])
  next
    case False
    then obtain w3 nxt where w3: "rq_preempt_resched B GA c w2 = Ret w3" "mid {} {} L w3" "sched_frame c w2 w3"
      "k_current w3 = (k_current w2)[c := Some nxt]" "\<not> ti_need_resched (task_at nxt w3)" using a by blast
    have c3: "c < length (k_current w3)" "k_current w3 ! c = Some nxt" using w3(4) c2 by simp_all
    obtain w4 where w4: "guard_release B GA c w3 = Some (Ret w4)" "mid {} {} L w4" "sched_frame c w3 w4" "k_current w4 = k_current w3"
      using guard_release_no_pending [OF w3(2) c3 w3(5)] by blast
    have "sched_frame c w w4" using f1(2) g(2) w3(3) w4(3) by (blast intro: sched_frame_trans)
    moreover have "guard_release B GA c w = Some (Ret w4)"
      using False n1 n2 w3(1) w4(1) s1 guard_release_old [OF cm _ w1_def, of B GA, folded w2_def] by simp
    ultimately show ?thesis using w4 w3(4) g(3) c1(3) by auto
  qed
qed

end

end
