(* ===== verification/AxTaskOps.thy ===== *)
theory AxTaskOps
  imports AxTaskInv
begin

text \<open>
  Every call of the interface of axtask keeps the invariant of the run queue and returns: none of the assertions of
  run_queue.rs fails, whatever the scheduler. AxTaskNew adds the calls that create tasks, and AxTaskCalls puts them together.
\<close>

section \<open>Moving references\<close>

lemma mid_move:
  assumes m: "rq_mid sinv queued E R L w"
    and k: "k_tasks w' = k_tasks w" "k_sched w' = k_sched w" "k_current w' = k_current w" "k_idle w' = k_idle w"
      "length (k_wqs w) \<le> length (k_wqs w')" "\<exists>l. k_timers w' = Some l \<and> tl_sorted l"
    and h: "held queued w' + L' = held queued w + L"
  shows "rq_mid sinv queued E R L' w'"
proof -
  have st: "task_at u w' = task_at u w" "owned w' u = owned w u" "is_ready u w' = is_ready u w" "is_running u w' = is_running u w" for u
    using k by (simp_all add: task_defs owned_def)
  have "refs_ok queued L' w'" using m h st(2) refs_ok_eq unfolding rq_mid_def by metis
  moreover have "sched_ok sinv queued w'" "cpus_ok E R w'"
    using m k unfolding rq_mid_def sched_ok_def cpus_ok_def st by simp_all
  moreover have "objs_ok w'"
    using m k(1,5,6) unfolding rq_mid_def objs_ok_def st by (metis le_trans length_0_conv less_le_trans le_zero_eq)
  ultimately show ?thesis by (simp add: rq_mid_def)
qed

lemma mid_timers: "rq_mid sinv queued E R L w \<Longrightarrow> \<exists>l. k_timers w = Some l \<and> tl_sorted l"
  by (simp add: rq_mid_def objs_ok_def)

lemma mid_push:
  assumes m: "rq_mid sinv queued E R (add_mset t L) w" and q: "q < length (k_wqs w)"
  shows "rq_mid sinv queued E R L (w\<lparr>k_wqs := (k_wqs w)[q := k_wqs w ! q @ [t]]\<rparr>)"
proof (rule mid_move [OF m])
  have "mset (concat ((k_wqs w)[q := k_wqs w ! q @ [t]])) = add_mset t (mset (concat (k_wqs w)))"
    using mset_concat_update [OF q, of "k_wqs w ! q @ [t]"] by simp
  then show "held queued (w\<lparr>k_wqs := (k_wqs w)[q := k_wqs w ! q @ [t]]\<rparr>) + L = held queued w + add_mset t L"
    by (simp add: held_def)
qed (use mid_timers [OF m] in simp_all)

lemma mid_exited:
  assumes m: "rq_mid sinv queued E R (add_mset t L) w"
  shows "rq_mid sinv queued E R L (w\<lparr>k_exited := k_exited w @ [t]\<rparr>)"
  by (rule mid_move [OF m]) (use mid_timers [OF m] in \<open>simp_all add: held_def\<close>)

lemma mid_set_timer:
  assumes m: "rq_mid sinv queued E R (add_mset t L) w" and l: "k_timers w = Some l"
  shows "rq_mid sinv queued E R L (w\<lparr>k_timers := Some (tl_set d t l)\<rparr>)"
proof (rule mid_move [OF m])
  have "mset (map event (events (tl_set d t l))) = add_mset t (mset (map event (events l)))" by (simp add: tl_set_def)
  then show "held queued (w\<lparr>k_timers := Some (tl_set d t l)\<rparr>) + L = held queued w + add_mset t L"
    using l by (simp add: held_def)
qed (use mid_timers [OF m] l in \<open>simp_all add: tl_set_sorted\<close>)

lemma wq_push_eq: "wq_push q t w = (set_in_wait_queue True t w)\<lparr>k_wqs := (k_wqs w)[q := k_wqs w ! q @ [t]]\<rparr>"
  by (simp add: wq_push_def set_in_wait_queue_def)

lemma current_update_id: "k_current w ! c = Some t \<Longrightarrow> (k_current w)[c := Some t] = k_current w"
  by (metis list_update_id)

lemma sched_frame_still:
  assumes "sched_frame c w w'"
  shows "length (k_tasks w') = length (k_tasks w)" "u < length (k_tasks w) \<Longrightarrow> still (task_at u w') = still (task_at u w)"
proof -
  have m: "map calm (k_tasks w') = map calm (k_tasks w)" using assms by (simp add: sched_frame_def)
  then show l: "length (k_tasks w') = length (k_tasks w)" by (metis length_map)
  show "still (task_at u w') = still (task_at u w)" if "u < length (k_tasks w)"
    using that l m by (simp add: still_def task_at_def) (metis nth_map)
qed

lemma sched_frame_blocked: "sched_frame c w w' \<Longrightarrow> u < length (k_tasks w) \<Longrightarrow> is_blocked u w' \<longleftrightarrow> is_blocked u w"
  using still_state [OF sched_frame_still(2) [of c w w' u]] by (auto simp: is_blocked_def)

lemma sched_frame_exited:
  "sched_frame c w w' \<Longrightarrow> u < length (k_tasks w) \<Longrightarrow> ti_state (task_at u w') = Exited \<longleftrightarrow> ti_state (task_at u w) = Exited"
  using still_state [OF sched_frame_still(2) [of c w w' u]] by auto

section \<open>Calls inside the run queue\<close>

context run_queue
begin

lemma held_current_ge: "c < length (k_current w) \<Longrightarrow> k_current w ! c = Some t \<Longrightarrow> 1 \<le> count (mset (somes (k_current w))) t"
  using held_current [of c w t] by (metis Suc_leI count_greater_zero_iff One_nat_def)

lemma held_two:
  assumes c: "c < length (k_current w)" "k_current w ! c = Some t"
    and "t \<in> set (concat (k_wqs w)) \<or> t \<in> set (k_exited w) \<or> (\<exists>l. k_timers w = Some l \<and> t \<in> event ` set (events l))"
  shows "2 \<le> count (held queued w) t"
proof -
  have "1 \<le> count (mset (concat (k_wqs w))) t + count (mset (k_exited w)) t
      + count (case k_timers w of None \<Rightarrow> {#} | Some l \<Rightarrow> mset (map event (events l))) t"
  proof -
    have "t \<in># mset (concat (k_wqs w)) + mset (k_exited w) + (case k_timers w of None \<Rightarrow> {#} | Some l \<Rightarrow> mset (map event (events l)))"
      using assms(3) by auto
    then show ?thesis by (metis Suc_leI count_greater_zero_iff count_union One_nat_def)
  qed
  then show ?thesis using held_current_ge [OF c] unfolding held_def count_union by linarith
qed

lemma waiting_queue: "mid E R L w \<Longrightarrow> c < length (k_current w) \<Longrightarrow> k_current w ! c = Some t \<Longrightarrow> ti_wait_for_exit (task_at t w) < length (k_wqs w)"
  using mid_current_valid [of E R L w c t] by (simp add: rq_mid_def objs_ok_def)

lemma waiting_valid:
  assumes m: "mid E R L w" and q: "q < length (k_wqs w)" "u \<in> set (k_wqs w ! q)"
  shows "u < length (k_tasks w)"
proof -
  have "u \<in> set (concat (k_wqs w))" using q nth_mem by auto
  then have "u \<in># held queued w + L" by (simp add: held_def)
  then show ?thesis using m mid_valid unfolding rq_mid_def by blast
qed

lemma timer_valid:
  assumes m: "mid E R L w" and l: "k_timers w = Some l" "(d, u) \<in># pending l"
  shows "u < length (k_tasks w)"
proof -
  have "u \<in># held queued w + L" using l by (auto simp: held_def pending_def)
  then show ?thesis using m mid_valid unfolding rq_mid_def by blast
qed

text \<open>The task of a CPU stops and another one comes in.\<close>

lemma stop_resched:
  assumes m: "mid {c} {} L w" and c: "c < length (k_current w)" "k_current w ! c = Some cur" and s: "is_blocked cur w \<or> ti_state (task_at cur w) = Exited"
    and h: "cur \<in> set (concat (k_wqs w)) \<or> cur \<in> set (k_exited w) \<or> (\<exists>l. k_timers w = Some l \<and> cur \<in> event ` set (events l))"
  shows "\<exists>w' nxt. rq_resched B GA c preempt w = Ret w' \<and> mid {} {} L w' \<and> sched_frame c w w' \<and>
    k_current w' = (k_current w)[c := Some nxt] \<and> \<not> ti_need_resched (task_at nxt w')"
  using resched_ok [OF m c] held_two [OF c h] s by (auto simp: is_blocked_def is_ready_def)

lemma block_current_ok:
  assumes m: "mid {} {} L w" and c: "c < length (k_current w)" "k_current w ! c = Some cur" and q: "q < length (k_wqs w)"
    and a: "\<not> ti_is_idle (task_at cur w)" "can_preempt 1 cur w"
  shows "\<exists>w' nxt. rq_block_current B GA c (wq_push q) w = Ret w' \<and> mid {} {} L w' \<and> k_current w' = (k_current w)[c := Some nxt] \<and>
    sched_frame c (wq_push q cur (set_state Blocked cur w)) w'"
proof -
  note run = mid_running [OF m c]
  define w1 where "w1 = set_state Blocked cur w"
  have c1: "c < length (k_current w1)" "k_current w1 ! c = Some cur" using c by (simp_all add: w1_def set_state_def)
  have m1: "mid {c} {} L w1" unfolding w1_def
    using run a(1) mid_current_other [OF m c] by (intro mid_stop [OF mid_mono_E [OF m]]) auto
  have l1: "cur < length (k_tasks w1)" using mid_current_valid [OF m1 c1] .
  let ?w2 = "arc_clone cur w1" let ?w3 = "wq_push q cur ?w2"
  have m3: "mid {c} {} L ?w3"
  proof -
    have "mid {c} {} (add_mset cur L) (set_in_wait_queue True cur ?w2)" unfolding set_in_wait_queue_def
      by (rule mid_set_task [OF mid_clone [OF m1 l1]]) simp
    from mid_push [OF this, of q] show ?thesis using q by (simp add: wq_push_eq w1_def set_in_wait_queue_def arc_clone_def set_state_def)
  qed
  have c3: "c < length (k_current ?w3)" "k_current ?w3 ! c = Some cur" using c1 by (simp_all add: wq_push_eq set_in_wait_queue_def arc_clone_def)
  have b3: "is_blocked cur ?w3"
    using l1 by (simp add: is_blocked_def wq_push_eq set_in_wait_queue_def arc_clone_def w1_def set_state_def task_at_def set_task_def)
  have "cur \<in> set (concat (k_wqs ?w3))"
    using q by (auto simp: wq_push_eq arc_clone_def w1_def set_state_def set_in_wait_queue_def intro!: bexI [OF _ set_update_memI [of q]])
  then obtain w' nxt where w': "rq_resched B GA c False ?w3 = Ret w'" "mid {} {} L w'" "sched_frame c ?w3 w'" "k_current w' = (k_current ?w3)[c := Some nxt]"
    using stop_resched [OF m3 c3, of GA False] b3 by blast
  have k: "k_current ?w3 = k_current w" by (simp add: wq_push_eq set_in_wait_queue_def arc_clone_def w1_def set_state_def)
  have "sched_frame c (wq_push q cur w1) ?w3"
  proof -
    have "map calm (k_tasks ?w3) = map calm (k_tasks (wq_push q cur w1))"
      using l1 by (auto simp: wq_push_eq set_in_wait_queue_def arc_clone_def set_task_def task_at_def calm_def nth_list_update intro!: nth_equalityI)
    then show ?thesis by (simp add: sched_frame_def wq_push_eq set_in_wait_queue_def arc_clone_def)
  qed
  then show ?thesis
    using w' run a current_eq [OF c] k sched_frame_trans [of c "wq_push q cur w1" ?w3 w'] by (auto simp: rq_block_current_def w1_def)
qed

lemma sleep_ok:
  assumes m: "mid {} {} L w" and c: "c < length (k_current w)" "k_current w ! c = Some cur" and a: "\<not> ti_is_idle (task_at cur w)"
  shows "\<exists>w' nxt. rq_sleep_until B GA c now ddl w = Ret w' \<and> mid {} {} L w' \<and> k_current w' = (k_current w)[c := Some nxt] \<and>
    (now < ddl \<longrightarrow> is_blocked cur w' \<and> (\<exists>l l'. k_timers w = Some l \<and> k_timers w' = Some l' \<and> pending l' = add_mset (ddl, cur) (pending l)))"
proof (cases "now < ddl")
  case False
  then show ?thesis
    using mid_running [OF m c] a current_eq [OF c] m current_update_id [OF c(2)] by (auto simp: rq_sleep_until_def intro!: exI [of _ cur])
next
  case True
  note run = mid_running [OF m c]
  have cl: "cur < length (k_tasks w)" using mid_current_valid [OF m c] .
  obtain l where l: "k_timers w = Some l" using mid_timers [OF m] by blast
  define w1 where "w1 = (set_in_timer_list True cur (arc_clone cur w))\<lparr>k_timers := Some (tl_set ddl cur l)\<rparr>"
  have m1: "mid {} {} L w1"
  proof -
    have "mid {} {} (add_mset cur L) (set_in_timer_list True cur (arc_clone cur w))" unfolding set_in_timer_list_def
      by (rule mid_set_task [OF mid_clone [OF m cl]]) simp
    from mid_set_timer [OF this, of l ddl] show ?thesis using l by (simp add: w1_def set_in_timer_list_def arc_clone_def)
  qed
  have c1: "c < length (k_current w1)" "k_current w1 ! c = Some cur" "k_current w1 = k_current w"
    using c by (simp_all add: w1_def set_in_timer_list_def arc_clone_def)
  have a1: "\<not> ti_is_idle (task_at cur w1)" "cur < length (k_tasks w1)"
    using a cl by (simp_all add: w1_def set_in_timer_list_def arc_clone_def task_at_def set_task_def)
  have m2: "mid {c} {} L (set_state Blocked cur w1)"
    using mid_running [OF m1 c1(1,2)] a1 mid_current_other [OF m1 c1(1,2)] by (intro mid_stop [OF mid_mono_E [OF m1]]) auto
  have c2: "c < length (k_current (set_state Blocked cur w1))" "k_current (set_state Blocked cur w1) ! c = Some cur"
    using c1 by (simp_all add: set_state_def)
  have b2: "is_blocked cur (set_state Blocked cur w1)" using a1 by (simp add: is_blocked_def set_state_def task_at_set)
  obtain w' nxt where w': "rq_resched B GA c False (set_state Blocked cur w1) = Ret w'" "mid {} {} L w'"
    "sched_frame c (set_state Blocked cur w1) w'" "k_current w' = (k_current (set_state Blocked cur w1))[c := Some nxt]"
    using stop_resched [OF m2 c2, of GA False] b2 by (auto simp: set_state_def w1_def tl_set_def)
  have "is_blocked cur w'" using sched_frame_blocked [OF w'(3), of cur] a1(2) b2 by (simp add: set_state_def)
  moreover have "k_timers w' = Some (tl_set ddl cur l)" using w'(3) by (simp add: sched_frame_def set_state_def w1_def)
  moreover have "set_alarm ddl cur (arc_clone cur w) = Ret ((), w1)"
    using l by (simp add: set_alarm_def timers_do_def w1_def set_in_timer_list_def arc_clone_def)
  ultimately show ?thesis using w' run a current_eq [OF c] True l c1(3) by (auto simp: rq_sleep_until_def set_state_def)
qed

lemma notify_exit_ok:
  assumes m: "mid E R L w" and c: "c < length (k_current w)" "k_current w ! c = Some cur" and t: "t < length (k_tasks w)"
  defines "q \<equiv> ti_wait_for_exit (task_at t w)"
  shows "\<exists>w' S. notify_exit B GA c t code w = Ret w' \<and> mid E R L w' \<and>
    wake_frame S (set_task t (\<lambda>x. x\<lparr>ti_exit_code := code\<rparr>) w) w' \<and> S \<subseteq> set (k_wqs w ! q) \<and>
    (distinct (k_wqs w ! q) \<and> (\<forall>u \<in> set (k_wqs w ! q). is_blocked u w) \<longrightarrow> S = set (k_wqs w ! q))"
proof -
  let ?w = "set_task t (\<lambda>x. x\<lparr>ti_exit_code := code\<rparr>) w"
  have m': "mid E R L ?w" by (rule mid_set_task [OF m]) simp
  have q: "q < length (k_wqs ?w)" using m t by (simp add: rq_mid_def objs_ok_def q_def)
  have c': "c < length (k_current ?w)" "k_current ?w ! c = Some cur" using c by simp_all
  have b: "is_blocked u ?w = is_blocked u w" for u by (simp add: is_blocked_def task_at_set)
  have e: "notify_exit B GA c t code w = notify_all_loop B GA c q False (length (k_wqs w ! q)) ?w"
    by (simp add: notify_exit_def notify_all_locked_def q_def)
  show ?thesis
    using notify_all_loop_ok [OF m' c' q, of "length (k_wqs w ! q)" GA False] unfolding e b set_task_simps by blast
qed

lemma wake_frame_task: "wake_frame S w w' \<Longrightarrow> u < length (k_tasks w) \<Longrightarrow> still (task_at u w') =
    still ((task_at u w)\<lparr>ti_state := if u \<in> S \<and> is_blocked u w then Ready else ti_state (task_at u w)\<rparr>)"
  by (simp add: wake_frame_def)

lemma wake_frame_same:
  "wake_frame S w w' \<Longrightarrow> u < length (k_tasks w) \<Longrightarrow> \<not> is_blocked u w \<Longrightarrow> still (task_at u w') = still (task_at u w)"
  by (simp add: wake_frame_task)

text \<open>
  The exit of a task that is neither idle nor the first one: the task is over, with its exit code, it is among the exited
  tasks, and those that were blocked in its wait queue are not blocked any more.
\<close>

lemma exit_current_ok:
  assumes m: "mid {} {} {#} w" and c: "c < length (k_current w)" "k_current w ! c = Some cur" and a: "\<not> ti_is_idle (task_at cur w)"
  defines "q \<equiv> ti_wait_for_exit (task_at cur w)"
  shows "if ti_is_init (task_at cur w) then rq_exit_current B GA c code w = Ret None
    else \<exists>w' nxt. rq_exit_current B GA c code w = Ret (Some w') \<and> mid {} {} {#} w' \<and> k_current w' = (k_current w)[c := Some nxt] \<and>
      length (k_tasks w') = length (k_tasks w) \<and>
      ti_state (task_at cur w') = Exited \<and> ti_exit_code (task_at cur w') = code \<and> cur \<in> set (k_exited w') \<and>
      (distinct (k_wqs w ! q) \<and> (\<forall>u \<in> set (k_wqs w ! q). is_blocked u w) \<longrightarrow> (\<forall>u \<in> set (k_wqs w ! q). \<not> is_blocked u w'))"
proof (cases "ti_is_init (task_at cur w)")
  case True
  have "mid {} {} (dropped (map DropRef (k_exited w)) + {#}) (w\<lparr>k_exited := []\<rparr>)"
    by (rule mid_move [OF m]) (use mid_timers [OF m] in \<open>simp_all add: held_def union_ac\<close>)
  from drop_all_ok [OF this, of GA] show ?thesis
    using True mid_running [OF m c] a current_eq [OF c] by (auto simp: rq_exit_current_def)
next
  case False
  note run = mid_running [OF m c]
  define w1 where "w1 = set_state Exited cur w"
  have m1: "mid {c} {} {#} w1" unfolding w1_def
    using run a mid_current_other [OF m c] by (intro mid_stop [OF mid_mono_E [OF m]]) auto
  have c1: "c < length (k_current w1)" "k_current w1 ! c = Some cur" using c by (simp_all add: w1_def set_state_def)
  have l1: "cur < length (k_tasks w1)" using mid_current_valid [OF m1 c1] .
  have q1: "k_wqs w1 = k_wqs w" "ti_wait_for_exit (task_at cur w1) = q" by (simp_all add: w1_def set_state_def q_def task_at_set)
  have b1: "is_blocked u w1 \<longleftrightarrow> is_blocked u w \<and> u \<noteq> cur" for u
    using run l1 by (auto simp: w1_def set_state_def is_blocked_def is_running_def task_at_set)
  obtain w2 S where w2: "notify_exit B GA c cur code w1 = Ret w2" "mid {c} {} {#} w2"
    "wake_frame S (set_task cur (\<lambda>x. x\<lparr>ti_exit_code := code\<rparr>) w1) w2" "S \<subseteq> set (k_wqs w ! q)"
    "distinct (k_wqs w ! q) \<and> (\<forall>u \<in> set (k_wqs w ! q). is_blocked u w1) \<longrightarrow> S = set (k_wqs w ! q)"
    using notify_exit_ok [OF m1 c1 l1, of GA code] unfolding q1 by blast
  have l2: "length (k_tasks w2) = length (k_tasks w)" "k_current w2 = k_current w" using w2(3) by (simp_all add: wake_frameD w1_def set_state_def)
  have x2: "still (task_at cur w2) = still ((task_at cur w1)\<lparr>ti_exit_code := code\<rparr>)"
    using wake_frame_task [OF w2(3), of cur] l1 by (simp add: is_blocked_def task_at_set) (simp add: w1_def set_state_def task_at_set)
  then have s2: "ti_state (task_at cur w2) = Exited" "ti_exit_code (task_at cur w2) = code"
    using still_state [OF x2] still_fields [OF x2] l1 by (auto simp: w1_def set_state_def task_at_set)
  define w3 where "w3 = (arc_clone cur w2)\<lparr>k_exited := k_exited w2 @ [cur]\<rparr>"
  have m3: "mid {c} {} {#} w3"
    using mid_exited [OF mid_clone [OF w2(2), of cur]] l1 l2 by (simp add: w3_def arc_clone_def w1_def set_state_def)
  have c3: "c < length (k_current w3)" "k_current w3 ! c = Some cur" "WAIT_FOR_EXIT < length (k_wqs w3)"
    using c l2 m3 by (auto simp: w3_def arc_clone_def WAIT_FOR_EXIT_def rq_mid_def objs_ok_def)
  obtain w4 where w4: "notify_one_locked B GA c WAIT_FOR_EXIT False w3 = Ret (k_wqs w3 ! WAIT_FOR_EXIT \<noteq> [], w4)" "mid {c} {} {#} w4"
    "wake_frame (set (take 1 (k_wqs w3 ! WAIT_FOR_EXIT))) w3 w4"
    using notify_one_locked_ok [OF m3 c3] by blast
  have t3: "length (k_tasks w3) = length (k_tasks w)" "still (task_at u w3) = still (task_at u w2)" for u
  proof -
    have "task_at u w3 = task_at u (arc_clone cur w2)" by (simp add: w3_def task_at_def)
    then show "still (task_at u w3) = still (task_at u w2)" by (simp add: arc_clone_def task_at_set still_def calm_def)
  qed (simp add: w3_def arc_clone_def l2)
  have lw: "cur < length (k_tasks w)" using l1 by (simp add: w1_def set_state_def)
  have x4: "ti_state (task_at cur w4) = Exited" "ti_exit_code (task_at cur w4) = code"
  proof -
    have s3: "ti_state (task_at cur w3) = Exited" using still_state [OF t3(2) [of cur]] s2(1) by auto
    then have e: "still (task_at cur w4) = still (task_at cur w3)"
      using wake_frame_same [OF w4(3), of cur] t3(1) lw by (simp add: is_blocked_def)
    then show "ti_state (task_at cur w4) = Exited" using still_state [OF e] s3 by auto
    show "ti_exit_code (task_at cur w4) = code" using still_fields [OF e] still_fields [OF t3(2) [of cur]] s2(2) by simp
  qed
  have k4: "k_current w4 = k_current w" "length (k_tasks w4) = length (k_tasks w)" "k_exited w4 = k_exited w2 @ [cur]"
    using wake_frameD [OF w4(3)] l2 t3(1) by (simp_all add: w3_def arc_clone_def)
  have c4: "c < length (k_current w4)" "k_current w4 ! c = Some cur" using c k4 by simp_all
  obtain w' nxt where w': "rq_resched B GA c False w4 = Ret w'" "mid {} {} {#} w'" "sched_frame c w4 w'" "k_current w' = (k_current w4)[c := Some nxt]"
    using stop_resched [OF w4(2) c4, of GA False] x4(1) k4(3) by auto
  have blocked: "\<not> is_blocked u w'" if d: "distinct (k_wqs w ! q) \<and> (\<forall>u \<in> set (k_wqs w ! q). is_blocked u w)" and u: "u \<in> set (k_wqs w ! q)" for u
  proof -
    have ul: "u < length (k_tasks w)" using waiting_valid [OF m _ u] waiting_queue [OF m c] q_def by simp
    have "cur \<notin> set (k_wqs w ! q)" using d run by (auto simp: is_blocked_def is_running_def)
    then have "S = set (k_wqs w ! q)" using w2(5) d b1 by metis
    then have "\<not> is_blocked u w2" using wake_frame_blocked [OF w2(3), of u] u ul by (simp add: w1_def set_state_def)
    then have "\<not> is_blocked u w3" using still_state [OF t3(2) [of u]] by (auto simp: is_blocked_def)
    then have "\<not> is_blocked u w4" using wake_frame_blocked [OF w4(3), of u] ul t3(1) by simp
    then show ?thesis using sched_frame_blocked [OF w'(3)] ul k4(2) by simp
  qed
  have "ti_state (task_at cur w') = Exited" "ti_exit_code (task_at cur w') = code" "cur \<in> set (k_exited w')"
    using sched_frame_exited [OF w'(3), of cur] still_fields [OF sched_frame_still(2) [OF w'(3), of cur]] x4 k4 lw w'(3)
    by (simp_all add: sched_frame_def)
  moreover have "arc_clone cur w2\<lparr>k_exited := k_exited (arc_clone cur w2) @ [cur]\<rparr> = w3" by (simp add: w3_def arc_clone_def)
  then have "rq_exit_current B GA c code w = Ret (Some w')"
    using False run a current_eq [OF c] w2(1) w4(1) w'(1) by (simp add: rq_exit_current_def Let_def w1_def [symmetric])
  moreover have "length (k_tasks w') = length (k_tasks w)" using sched_frame_still(1) [OF w'(3)] k4(2) by simp
  ultimately show ?thesis using False w'(2,4) k4(1) blocked by auto
qed

end

section \<open>The calls of the interface\<close>

text \<open>What a call made on CPU \<open>c\<close> leaves, with the references \<open>L\<close> in local variables: the invariant holds and the CPU runs a task.\<close>

definition leaves_ok :: "('s \<Rightarrow> bool) \<Rightarrow> ('s \<Rightarrow> nat set) \<Rightarrow> tref multiset \<Rightarrow> nat \<Rightarrow> ('s, 'g) Kernel \<Rightarrow> ('s, 'g) Kernel \<Rightarrow> bool" where
  "leaves_ok sinv queued L c w w' \<longleftrightarrow> rq_mid sinv queued {} {} L w' \<and> (\<exists>nxt. k_current w' = (k_current w)[c := Some nxt])"

context run_queue
begin

abbreviation leaves :: "tref multiset \<Rightarrow> nat \<Rightarrow> ('s, 'g) Kernel \<Rightarrow> ('s, 'g) Kernel \<Rightarrow> bool" where
  "leaves \<equiv> leaves_ok sinv queued"

abbreviation good :: "nat \<Rightarrow> ('s, 'g) Kernel \<Rightarrow> ('s, 'g) Kernel \<Rightarrow> bool" where
  "good \<equiv> leaves_ok sinv queued {#}"

lemma with_lock_ok:
  assumes c: "c < length (k_current w)"
    and f: "f (guard_acquire c w) = Ret (x, w1)" "mid {} {} L w1" "k_current w1 = (k_current w)[c := Some n]"
  shows "\<exists>w'. with_lock B GA c f w = Some (Ret (x, w')) \<and> leaves L c w w' \<and> sched_frame c w1 w'"
proof -
  have "c < length (k_current w1)" "k_current w1 ! c = Some n" using c f(3) by simp_all
  from guard_release_ok [OF f(2) this, of GA] f show ?thesis by (auto simp: with_lock_def leaves_ok_def)
qed

lemma mid_sched_init: "mid E R L w \<Longrightarrow> k_sched w \<noteq> None"
  by (auto elim: mid_sched)

lemma with_rq_ok:
  assumes m: "mid {} {} L0 w" and c: "c < length (k_current w)"
    and f: "f (guard_acquire c w) = Ret (x, w1)" "mid {} {} L w1" "k_current w1 = (k_current w)[c := Some n]"
  shows "\<exists>w'. with_rq B GA c f w = Some (Ret (x, w')) \<and> leaves L c w w' \<and> sched_frame c w1 w'"
  using with_lock_ok [where f = f and c = c and w = w, OF c f] mid_sched_init [OF m] by (simp add: with_rq_def)

text \<open>The state behind the lock.\<close>

lemma entered:
  assumes m: "mid {} {} L0 w" and c: "c < length (k_current w)" "k_current w ! c = Some cur"
  defines "v \<equiv> guard_acquire c w"
  shows "mid {} {} L0 v" "c < length (k_current v)" "k_current v ! c = Some cur" "k_current v = k_current w" "k_wqs v = k_wqs w"
    "k_timers v = k_timers w" "k_exited v = k_exited w" "length (k_tasks v) = length (k_tasks w)" "current c v = Ret cur" "is_running cur v"
    "ti_is_idle (task_at t v) = ti_is_idle (task_at t w)" "ti_is_init (task_at t v) = ti_is_init (task_at t w)"
    "can_preempt 1 cur v = can_preempt 0 cur w" "ti_state (task_at t v) = ti_state (task_at t w)"
    "ti_wait_for_exit (task_at t v) = ti_wait_for_exit (task_at t w)" "is_blocked t v = is_blocked t w"
proof -
  note g = guard_acquire_ok [OF m c, folded v_def]
  have v: "v = disable_preempt cur w" using c by (simp add: v_def guard_acquire_def current_may_uninit_def)
  show mv: "mid {} {} L0 v" "c < length (k_current v)" "k_current v ! c = Some cur" "k_current v = k_current w" using g c by simp_all
  show "current c v = Ret cur" "is_running cur v" using current_eq [OF mv(2,3)] mid_running [OF mv(1-3)] by simp_all
  have l: "cur < length (k_tasks w)" using mid_current_valid [OF m c] .
  show "k_wqs v = k_wqs w" "k_timers v = k_timers w" "k_exited v = k_exited w" "length (k_tasks v) = length (k_tasks w)"
    "ti_is_idle (task_at t v) = ti_is_idle (task_at t w)" "ti_is_init (task_at t v) = ti_is_init (task_at t w)"
    "can_preempt 1 cur v = can_preempt 0 cur w" "ti_state (task_at t v) = ti_state (task_at t w)"
    "ti_wait_for_exit (task_at t v) = ti_wait_for_exit (task_at t w)" "is_blocked t v = is_blocked t w"
    using l by (simp_all add: v disable_preempt_def task_at_set can_preempt_def is_blocked_def)
qed

lemma yield_now_ok:
  assumes m: "mid {} {} {#} w" and c: "c < length (k_current w)" "k_current w ! c = Some cur"
  shows "\<exists>w'. yield_now B GA c w = Some (Ret ((), w')) \<and> good c w w'"
proof -
  note e = entered [OF m c]
  obtain w1 nxt where w1: "rq_resched B GA c False (guard_acquire c w) = Ret w1" "mid {} {} {#} w1"
    "k_current w1 = (k_current w)[c := Some nxt]"
    using resched_ok [OF mid_mono_E [OF e(1), of "{c}"] e(2,3), of GA False] mid_running [OF e(1-3)] e(4) by auto
  have "no_value (rq_yield_current B GA c) (guard_acquire c w) = Ret ((), w1)"
    using w1(1) e(9,10) by (simp add: no_value_def rq_yield_current_def)
  from with_rq_ok [where f = "no_value (rq_yield_current B GA c)", OF m c(1) this w1(2,3), of GA] show ?thesis by (auto simp: yield_now_def)
qed

lemma block_ok:
  assumes m: "mid {} {} {#} w" and c: "c < length (k_current w)" "k_current w ! c = Some cur" and q: "q < length (k_wqs w)"
    and a: "\<not> ti_is_idle (task_at cur w)" "can_preempt 0 cur w"
  obtains w1 nxt where "rq_block_current B GA c (wq_push q) (guard_acquire c w) = Ret w1" "mid {} {} {#} w1"
    "k_current w1 = (k_current w)[c := Some nxt]" "sched_frame c (wq_push q cur (set_state Blocked cur (guard_acquire c w))) w1"
proof -
  note e = entered [OF m c]
  show thesis using block_current_ok [OF e(1-3), of q GA] that q a e(4,5,11,13) by auto
qed

lemma wait_until_once_ok:
  assumes m: "mid {} {} {#} w" and c: "c < length (k_current w)" "k_current w ! c = Some cur" and q: "q < length (k_wqs w)"
    and a: "\<not> ti_is_idle (task_at cur w)" "can_preempt 0 cur w"
  shows "\<exists>w'. wait_until_once B GA c q condition w = Some (Ret (condition (guard_acquire c w), w')) \<and> good c w w'"
proof (cases "condition (guard_acquire c w)")
  case True
  have "k_current (guard_acquire c w) = (k_current w)[c := Some cur]" using entered(4) [OF m c] current_update_id [OF c(2)] by simp
  from with_rq_ok [where f = "\<lambda>w. if condition w then Ret (True, w) else out_then (rq_block_current B GA c (wq_push q) w) (\<lambda>w. Ret (False, w))",
      OF m c(1) _ entered(1) [OF m c] this, of True GA]
  show ?thesis using True by (auto simp: wait_until_once_def)
next
  case False
  obtain w1 nxt where w1: "rq_block_current B GA c (wq_push q) (guard_acquire c w) = Ret w1" "mid {} {} {#} w1"
    "k_current w1 = (k_current w)[c := Some nxt]" by (rule block_ok [OF assms, of GA])
  from with_rq_ok [where f = "\<lambda>w. if condition w then Ret (True, w) else out_then (rq_block_current B GA c (wq_push q) w) (\<lambda>w. Ret (False, w))",
      OF m c(1) _ w1(2,3), of False GA]
  show ?thesis using False w1(1) by (auto simp: wait_until_once_def)
qed

lemma wq_block_ok:
  assumes m: "mid {} {} {#} w" and c: "c < length (k_current w)" "k_current w ! c = Some cur" and q: "q < length (k_wqs w)"
    and a: "\<not> ti_is_idle (task_at cur w)" "can_preempt 0 cur w"
  shows "\<exists>w'. wq_block B GA c q w = Some (Ret ((), w')) \<and> good c w w' \<and> sched_frame c (wq_push q cur (set_state Blocked cur (guard_acquire c w))) w'"
proof -
  obtain w1 nxt where w1: "rq_block_current B GA c (wq_push q) (guard_acquire c w) = Ret w1" "mid {} {} {#} w1"
    "k_current w1 = (k_current w)[c := Some nxt]" "sched_frame c (wq_push q cur (set_state Blocked cur (guard_acquire c w))) w1"
    by (rule block_ok [OF assms, of GA])
  from with_rq_ok [where f = "no_value (rq_block_current B GA c (wq_push q))", OF m c(1) _ w1(2,3), of "()" GA] w1(1)
  show ?thesis using w1(4) sched_frame_trans by (auto simp: wq_block_def no_value_def)
qed

text \<open>Calls that do not switch.\<close>

lemma quiet_ok:
  assumes m: "mid {} {} L0 w" and c: "c < length (k_current w)" "k_current w ! c = Some cur"
    and f: "f (guard_acquire c w) = Ret (x, w1)" "mid {} {} L w1" "k_current w1 = k_current w"
  shows "\<exists>w'. with_rq B GA c f w = Some (Ret (x, w')) \<and> leaves L c w w' \<and> sched_frame c w1 w'"
    "\<exists>w'. with_lock B GA c f w = Some (Ret (x, w')) \<and> leaves L c w w' \<and> sched_frame c w1 w'"
proof -
  have k: "k_current w1 = (k_current w)[c := Some cur]" using f(3) current_update_id [OF c(2)] by simp
  show "\<exists>w'. with_rq B GA c f w = Some (Ret (x, w')) \<and> leaves L c w w' \<and> sched_frame c w1 w'"
    by (rule with_rq_ok [where f = f, OF m c(1) f(1,2) k])
  show "\<exists>w'. with_lock B GA c f w = Some (Ret (x, w')) \<and> leaves L c w w' \<and> sched_frame c w1 w'"
    by (rule with_lock_ok [where f = f, OF c(1) f(1,2) k])
qed

lemma notify_one_ok:
  assumes m: "mid {} {} {#} w" and c: "c < length (k_current w)" "k_current w ! c = Some cur" and q: "q < length (k_wqs w)"
  shows "\<exists>w'. notify_one B GA c q resched w = Some (Ret (k_wqs w ! q \<noteq> [], w')) \<and> good c w w'"
    "\<exists>w'. notify_all_once B GA c q resched w = Some (Ret (k_wqs w ! q \<noteq> [], w')) \<and> good c w w'"
proof -
  note e = entered [OF m c]
  obtain w1 where w1: "notify_one_locked B GA c q resched (guard_acquire c w) = Ret (k_wqs w ! q \<noteq> [], w1)" "mid {} {} {#} w1"
    "wake_frame (set (take 1 (k_wqs w ! q))) (guard_acquire c w) w1"
    using notify_one_locked_ok [OF e(1-3), of q GA resched] q e(5) by auto
  have k: "k_current w1 = k_current w" using wake_frameD(2) [OF w1(3)] e(4) by simp
  have k0: "k_current (guard_acquire c w) = k_current w" by (rule e(4))
  let ?f = "\<lambda>w. if k_wqs w ! q \<noteq> [] then notify_one_locked B GA c q resched w else Ret (False, w)"
  show "\<exists>w'. notify_one B GA c q resched w = Some (Ret (k_wqs w ! q \<noteq> [], w')) \<and> good c w w'"
  proof (cases "k_wqs w ! q = []")
    case True
    then have "?f (guard_acquire c w) = Ret (False, guard_acquire c w)" using e(5) by simp
    from quiet_ok(1) [where f = ?f, OF m c this e(1) k0, of GA] True show ?thesis by (auto simp: notify_one_def)
  next
    case False
    then have "?f (guard_acquire c w) = Ret (True, w1)" using e(5) w1(1) by simp
    from quiet_ok(1) [where f = ?f, OF m c this w1(2) k, of GA] False show ?thesis by (auto simp: notify_one_def)
  qed
  show "\<exists>w'. notify_all_once B GA c q resched w = Some (Ret (k_wqs w ! q \<noteq> [], w')) \<and> good c w w'"
    using quiet_ok(1) [where f = "notify_one_locked B GA c q resched", OF m c w1(1,2) k, of GA] by (auto simp: notify_all_once_def)
qed

lemma notify_one_wakes:
  assumes m: "mid {} {} {#} w" and c: "c < length (k_current w)" "k_current w ! c = Some cur" and q: "q < length (k_wqs w)" "k_wqs w ! q = u # us"
  shows "\<exists>w'. notify_one B GA c q resched w = Some (Ret (True, w')) \<and> good c w w' \<and> \<not> is_blocked u w'"
proof -
  note e = entered [OF m c]
  obtain w1 where w1: "notify_one_locked B GA c q resched (guard_acquire c w) = Ret (True, w1)" "mid {} {} {#} w1"
    "wake_frame {u} (guard_acquire c w) w1"
    using notify_one_locked_ok [OF e(1-3), of q GA resched] q e(5) by auto
  have k: "k_current w1 = k_current w" using wake_frameD(2) [OF w1(3)] e(4) by simp
  let ?f = "\<lambda>w. if k_wqs w ! q \<noteq> [] then notify_one_locked B GA c q resched w else Ret (False, w)"
  have "?f (guard_acquire c w) = Ret (True, w1)" using e(5) w1(1) q by simp
  from quiet_ok(1) [where f = ?f, OF m c this w1(2) k, of GA] obtain w' where
    w': "notify_one B GA c q resched w = Some (Ret (True, w'))" "good c w w'" "sched_frame c w1 w'" by (auto simp: notify_one_def)
  have "u < length (k_tasks w)" using waiting_valid [OF m q(1)] q(2) by simp
  then have "\<not> is_blocked u w'"
    using sched_frame_blocked [OF w'(3), of u] wake_frame_blocked [OF w1(3), of u] wake_frameD(1) [OF w1(3)] e(8) by simp
  then show ?thesis using w' by blast
qed

lemma sleep_until_ok:
  assumes m: "mid {} {} {#} w" and c: "c < length (k_current w)" "k_current w ! c = Some cur" and a: "\<not> ti_is_idle (task_at cur w)"
  shows "\<exists>w'. sleep_until B GA c now ddl w = Some (Ret ((), w')) \<and> good c w w' \<and>
    (now < ddl \<longrightarrow> is_blocked cur w' \<and> (\<exists>l l'. k_timers w = Some l \<and> k_timers w' = Some l' \<and> pending l' = add_mset (ddl, cur) (pending l)))"
proof -
  note e = entered [OF m c]
  obtain w1 nxt where w1: "rq_sleep_until B GA c now ddl (guard_acquire c w) = Ret w1" "mid {} {} {#} w1"
    "k_current w1 = (k_current w)[c := Some nxt]"
    "now < ddl \<longrightarrow> is_blocked cur w1 \<and> (\<exists>l l'. k_timers w = Some l \<and> k_timers w1 = Some l' \<and> pending l' = add_mset (ddl, cur) (pending l))"
    using sleep_ok [OF e(1-3), of GA now ddl] a e(4,6,11) by auto
  have "no_value (rq_sleep_until B GA c now ddl) (guard_acquire c w) = Ret ((), w1)" using w1(1) by (simp add: no_value_def)
  from with_rq_ok [where f = "no_value (rq_sleep_until B GA c now ddl)", OF m c(1) this w1(2,3), of GA]
  obtain w' where w': "sleep_until B GA c now ddl w = Some (Ret ((), w'))" "good c w w'" "sched_frame c w1 w'"
    by (auto simp: sleep_until_def)
  have "k_timers w' = k_timers w1" using w'(3) by (simp add: sched_frame_def)
  moreover have "is_blocked cur w'" if "now < ddl"
  proof -
    obtain l' l where l': "k_timers w1 = Some l'" "pending l' = add_mset (ddl, cur) (pending l)" "is_blocked cur w1" using w1(4) \<open>now < ddl\<close> by auto
    then have "cur < length (k_tasks w1)" using timer_valid [OF w1(2) l'(1), of ddl] by simp
    then show ?thesis using sched_frame_blocked [OF w'(3)] l'(3) by simp
  qed
  ultimately show ?thesis using w'(1,2) w1(4) by auto
qed

lemma sched_call_ok:
  assumes m: "mid E R L w" and f: "\<And>s. sinv s \<Longrightarrow> \<exists>r s'. f s = Ret (r, s') \<and> sinv s' \<and> queued s' = queued s"
  shows "\<exists>r w'. sched_do f w = Ret (r, w') \<and> mid E R L w' \<and> sched_frame c w w' \<and> k_current w' = k_current w"
proof -
  obtain s where s: "k_sched w = Some s" "sinv s" using m by (auto elim: mid_sched)
  obtain r s' where f': "f s = Ret (r, s')" "sinv s'" "queued s' = queued s" using f [OF s(2)] by blast
  let ?w = "w\<lparr>k_sched := Some s'\<rparr>"
  have st: "task_at u ?w = task_at u w" "owned ?w u = owned w u" "is_ready u ?w = is_ready u w" "is_running u ?w = is_running u w" for u
    by (simp_all add: task_defs owned_def)
  have "held queued ?w = held queued w" using s(1) f'(3) by (simp add: held_def)
  then have "mid E R L ?w"
    using m s f' unfolding rq_mid_def sched_ok_def cpus_ok_def objs_ok_def refs_ok_def st by simp
  then show ?thesis using s f' by (simp add: sched_do_def sched_frame_def)
qed

lemma set_priority_now_ok:
  assumes m: "mid {} {} {#} w" and c: "c < length (k_current w)" "k_current w ! c = Some cur"
  shows "\<exists>r w'. set_priority_now B GA c prio w = Some (Ret (r, w')) \<and> good c w w'"
proof -
  note e = entered [OF m c]
  obtain r w1 where w1: "sched_do (set_priority B cur prio) (guard_acquire c w) = Ret (r, w1)" "mid {} {} {#} w1"
    "k_current w1 = k_current (guard_acquire c w)"
    using sched_call_ok [OF e(1), of "set_priority B cur prio" c] prio_ok by blast
  have "rq_set_current_priority B c prio (guard_acquire c w) = Ret (r, w1)" using w1(1) e(9) by (simp add: rq_set_current_priority_def)
  from quiet_ok(1) [where f = "rq_set_current_priority B c prio", OF m c this w1(2), of GA] show ?thesis
    using w1(3) e(4) by (auto simp: set_priority_now_def)
qed

lemma exit_task_ok:
  assumes m: "mid {} {} {#} w" and c: "c < length (k_current w)" "k_current w ! c = Some cur" and a: "\<not> ti_is_idle (task_at cur w)"
  defines "q \<equiv> ti_wait_for_exit (task_at cur w)"
  shows "if ti_is_init (task_at cur w) then exit_task B GA c code w = Some (Ret None)
    else \<exists>w'. exit_task B GA c code w = Some (Ret (Some w')) \<and> good c w w' \<and>
      ti_state (task_at cur w') = Exited \<and> ti_exit_code (task_at cur w') = code \<and> cur \<in> set (k_exited w') \<and>
      (distinct (k_wqs w ! q) \<and> (\<forall>u \<in> set (k_wqs w ! q). is_blocked u w) \<longrightarrow> (\<forall>u \<in> set (k_wqs w ! q). \<not> is_blocked u w'))"
proof -
  note e = entered [OF m c]
  note x = exit_current_ok [OF e(1-3), of GA code, unfolded e(4,5,11,12,15,16), folded q_def, OF a]
  show ?thesis
  proof (cases "ti_is_init (task_at cur w)")
    case True
    then show ?thesis using x mid_sched_init [OF m] by (simp add: exit_task_def)
  next
    case False
    then obtain w1 nxt where w1: "rq_exit_current B GA c code (guard_acquire c w) = Ret (Some w1)" "mid {} {} {#} w1"
      "k_current w1 = (k_current w)[c := Some nxt]" "ti_state (task_at cur w1) = Exited" "ti_exit_code (task_at cur w1) = code"
      "cur \<in> set (k_exited w1)" "distinct (k_wqs w ! q) \<and> (\<forall>u \<in> set (k_wqs w ! q). is_blocked u w) \<longrightarrow> (\<forall>u \<in> set (k_wqs w ! q). \<not> is_blocked u w1)"
      "length (k_tasks w1) = length (k_tasks w)"
      using x e(8) by auto
    have c1: "c < length (k_current w1)" "k_current w1 ! c = Some nxt" using c w1(3) by simp_all
    obtain w' n' where w': "guard_release B GA c w1 = Some (Ret w')" "mid {} {} {#} w'" "sched_frame c w1 w'" "k_current w' = (k_current w1)[c := Some n']"
      using guard_release_ok [OF w1(2) c1, of GA] by auto
    have "cur \<in># held queued w1" using w1(6) by (simp add: held_def)
    then have l: "cur < length (k_tasks w1)" using w1(2) mid_valid [of queued "{#}" w1 cur] by (simp add: rq_mid_def)
    have "\<not> is_blocked u w'" if "\<not> is_blocked u w1" "u \<in> set (k_wqs w ! q)" for u
      using sched_frame_blocked [OF w'(3), of u] that(1) waiting_valid [OF m _ that(2)] waiting_queue [OF m c] w1(8) q_def by simp
    then show ?thesis
      using False mid_sched_init [OF m] w1 w' sched_frame_exited [OF w'(3) l] still_fields [OF sched_frame_still(2) [OF w'(3) l]]
      by (auto simp: exit_task_def leaves_ok_def sched_frame_def)
  qed
qed

text \<open>A round of \<open>check_events\<close>.\<close>

lemma mid_expire:
  assumes m: "mid E R L w" and l: "k_timers w = Some l" and x: "tl_expire_one now l = (r, l')"
  shows "mid E R ((case r of None \<Rightarrow> {#} | Some (d, e) \<Rightarrow> {#e#}) + L) (w\<lparr>k_timers := Some l'\<rparr>)"
proof -
  have so: "tl_sorted l" using mid_timers [OF m] l by simp
  have p: "image_mset snd (pending v) = mset (map event (events v))" for v :: "tref TimerList"
    by (simp add: pending_def image_mset.compositionality o_def)
  show ?thesis
  proof (rule mid_move [OF m])
    show "held queued (w\<lparr>k_timers := Some l'\<rparr>) + ((case r of None \<Rightarrow> {#} | Some (d, e) \<Rightarrow> {#e#}) + L) = held queued w + L"
    proof (cases r)
      case None
      then show ?thesis using tl_expire_one_none [OF so, of now l'] x l by (simp add: held_def)
    next
      case (Some de)
      obtain d e where de: "de = (d, e)" by (cases de)
      then have "pending l = add_mset (d, e) (pending l')" using tl_expire_one_some [OF so] x Some by simp
      then have "mset (map event (events l)) = add_mset e (mset (map event (events l')))" using p [of l] p [of l'] by simp
      then show ?thesis using l Some de by (simp add: held_def)
    qed
    have "tl_sorted l'"
    proof (cases r)
      case None
      then show ?thesis using tl_expire_one_none [OF so, of now l'] x so by simp
    next
      case (Some de)
      then show ?thesis using tl_expire_one_some [OF so, of now "fst de" "snd de" l'] x by simp
    qed
    then show "\<exists>la. k_timers (w\<lparr>k_timers := Some l'\<rparr>) = Some la \<and> tl_sorted la" by simp
  qed simp_all
qed

lemma wakeup_callback_ok:
  assumes m: "mid {} {} {#t#} w" and c: "c < length (k_current w)" "k_current w ! c = Some cur"
  shows "\<exists>w'. wakeup_callback B GA c t w = Some (Ret ((), w')) \<and> good c w w' \<and> k_timers w' = k_timers w \<and>
    length (k_tasks w') = length (k_tasks w) \<and> (\<forall>u < length (k_tasks w). is_blocked u w' \<longleftrightarrow> is_blocked u w \<and> u \<noteq> t)"
proof -
  note e = entered [OF m c]
  let ?v = "set_in_timer_list False t (guard_acquire c w)"
  have m1: "mid {} {} (add_mset t {#}) ?v" unfolding set_in_timer_list_def by (rule mid_set_task [OF e(1)]) simp
  have c1: "c < length (k_current ?v)" "k_current ?v ! c = Some cur" using e(2,3) by (simp_all add: set_in_timer_list_def)
  obtain w1 where w1: "rq_unblock_task B GA c t True ?v = Ret w1" "mid {} {} {#} w1" "wake_frame {t} ?v w1"
    using unblock_ok [OF m1 c1, of GA True] by auto
  have k: "k_current w1 = k_current w" "length (k_tasks w1) = length (k_tasks w)" "k_timers w1 = k_timers w"
    using wake_frameD [OF w1(3)] e(4,6,8) by (simp_all add: set_in_timer_list_def)
  have "no_value (\<lambda>w. rq_unblock_task B GA c t True (set_in_timer_list False t w)) (guard_acquire c w) = Ret ((), w1)"
    using w1(1) by (simp add: no_value_def)
  from quiet_ok(1) [where f = "no_value (\<lambda>w. rq_unblock_task B GA c t True (set_in_timer_list False t w))", OF m c this w1(2) k(1), of GA]
  obtain w' where w': "wakeup_callback B GA c t w = Some (Ret ((), w'))" "good c w w'" "sched_frame c w1 w'" by (auto simp: wakeup_callback_def)
  have bv: "is_blocked u ?v = is_blocked u w" for u using e(16) by (simp add: is_blocked_def set_in_timer_list_def task_at_set)
  have "is_blocked u w' \<longleftrightarrow> is_blocked u w \<and> u \<noteq> t" if "u < length (k_tasks w)" for u
    using sched_frame_blocked [OF w'(3), of u] wake_frame_blocked [OF w1(3), of u] bv k(2) e(8) that by (simp add: set_in_timer_list_def)
  then show ?thesis using w' k sched_frame_still(1) [OF w'(3)] by (simp add: sched_frame_def)
qed

lemma good_trans: "leaves L c w w1 \<Longrightarrow> leaves L' c w1 w2 \<Longrightarrow> leaves L' c w w2"
  by (auto simp: leaves_ok_def)

lemma leaves_current: "leaves L c w w' \<Longrightarrow> c < length (k_current w) \<Longrightarrow>
    mid {} {} L w' \<and> c < length (k_current w') \<and> (\<exists>n. k_current w' ! c = Some n)"
  by (auto simp: leaves_ok_def)

lemma expire_round:
  assumes m: "mid {} {} {#} w" and c: "c < length (k_current w)" "k_current w ! c = Some cur"
    and l: "k_timers w = Some l" and x: "tl_expire_one now l = (r, l')"
  shows "\<exists>w'. with_lock B GA c (timers_do (tl_expire_one now)) w = Some (Ret (r, w')) \<and>
    leaves (case r of None \<Rightarrow> {#} | Some (d, e) \<Rightarrow> {#e#}) c w w' \<and> k_timers w' = Some l' \<and>
    length (k_tasks w') = length (k_tasks w) \<and> (\<forall>u < length (k_tasks w). is_blocked u w' \<longleftrightarrow> is_blocked u w)"
proof -
  note e = entered [OF m c]
  let ?w = "(guard_acquire c w)\<lparr>k_timers := Some l'\<rparr>"
  have l0: "k_timers (guard_acquire c w) = Some l" using e(6) l by simp
  have m1: "mid {} {} (case r of None \<Rightarrow> {#} | Some (d, e) \<Rightarrow> {#e#}) ?w" using mid_expire [OF e(1) l0 x] by simp
  have f: "timers_do (tl_expire_one now) (guard_acquire c w) = Ret (r, ?w)" using l0 x by (simp add: timers_do_def)
  have k: "k_current ?w = k_current w" using e(4) by simp
  obtain w' where w': "with_lock B GA c (timers_do (tl_expire_one now)) w = Some (Ret (r, w'))"
    "leaves (case r of None \<Rightarrow> {#} | Some (d, e) \<Rightarrow> {#e#}) c w w'" "sched_frame c ?w w'"
    using quiet_ok(2) [where f = "timers_do (tl_expire_one now)", OF m c f m1 k, of GA] by blast
  have "is_blocked u ?w = is_blocked u (guard_acquire c w)" for u by (simp add: is_blocked_def task_at_def)
  then have "is_blocked u w' \<longleftrightarrow> is_blocked u w" if "u < length (k_tasks w)" for u
    using sched_frame_blocked [OF w'(3), of u] e(8,16) that by simp
  then show ?thesis using w' sched_frame_still(1) [OF w'(3)] e(8) by (simp add: sched_frame_def)
qed

text \<open>
  \<open>check_events\<close> ends; what is left then is later than the time of its last round, and exactly the tasks of the events that are gone
  have been woken up.
\<close>

lemma check_events_ok:
  assumes "mid {} {} {#} w" "c < length (k_current w)" "k_current w ! c = Some cur" "k_timers w = Some l" "mono clock"
  shows "\<exists>n w' l'. k \<le> n \<and> check_events B GA c clock k w = Some (Ret ((), w')) \<and> good c w w' \<and> k_timers w' = Some l' \<and>
    pending l' = filter_mset (\<lambda>(d, e). clock n < d) (pending l) \<and> length (k_tasks w') = length (k_tasks w) \<and>
    (\<forall>u < length (k_tasks w). is_blocked u w' \<longleftrightarrow> is_blocked u w \<and> (\<forall>d. (d, u) \<in># pending l \<longrightarrow> clock n < d))"
  using assms
proof (induction "length (events l)" arbitrary: w l cur k rule: less_induct)
  case less
  note m = less.prems(1) and c = less.prems(2,3) and l = less.prems(4)
  have so: "tl_sorted l" using mid_timers [OF m] l by simp
  obtain r l1 where x: "tl_expire_one (clock k) l = (r, l1)" by (cases "tl_expire_one (clock k) l")
  obtain w1 where w1: "with_lock B GA c (timers_do (tl_expire_one (clock k))) w = Some (Ret (r, w1))"
    "leaves (case r of None \<Rightarrow> {#} | Some (d, e) \<Rightarrow> {#e#}) c w w1" "k_timers w1 = Some l1"
    "length (k_tasks w1) = length (k_tasks w)" "\<forall>u < length (k_tasks w). is_blocked u w1 \<longleftrightarrow> is_blocked u w"
    using expire_round [OF m c l x, of GA] by blast
  show ?case
  proof (cases r)
    case None
    have n: "l1 = l" "\<forall>(d, e) \<in># pending l. clock k < d" using tl_expire_one_none [OF so, of "clock k" l1] x None by simp_all
    have "check_events B GA c clock k w = Some (Ret ((), w1))" using w1(1) None by (simp add: check_events.simps)
    moreover have "pending l1 = filter_mset (\<lambda>(d, e). clock k < d) (pending l)"
      using n filter_mset_cong [of "pending l" "pending l" "\<lambda>_. True" "\<lambda>(d, e). clock k < d"] by auto
    ultimately show ?thesis using w1 None n by (intro exI [of _ k] exI [of _ w1] exI [of _ l1]) auto
  next
    case (Some de)
    obtain d e where de: "de = (d, e)" by (cases de)
    have sm: "d \<le> clock k" "pending l = add_mset (d, e) (pending l1)" "length (events l1) < length (events l)"
      using tl_expire_one_some [OF so, of "clock k" d e l1] x Some de by simp_all
    have m1: "mid {} {} {#e#} w1" and c1: "c < length (k_current w1)" and "\<exists>n. k_current w1 ! c = Some n"
      using leaves_current [OF w1(2) c(1)] Some de by simp_all
    then obtain n1 where "k_current w1 ! c = Some n1" by blast
    from wakeup_callback_ok [OF m1 c1 this, of GA] obtain w2 where w2: "wakeup_callback B GA c e w1 = Some (Ret ((), w2))" "good c w1 w2"
      "k_timers w2 = k_timers w1" "length (k_tasks w2) = length (k_tasks w1)" "\<forall>u < length (k_tasks w1). is_blocked u w2 \<longleftrightarrow> is_blocked u w1 \<and> u \<noteq> e"
      by blast
    obtain n2 where c2: "mid {} {} {#} w2" "c < length (k_current w2)" "k_current w2 ! c = Some n2" using leaves_current [OF w2(2) c1] by blast
    have l2: "k_timers w2 = Some l1" using w2(3) w1(3) by simp
    obtain n w' l' where ih: "Suc k \<le> n" "check_events B GA c clock (Suc k) w2 = Some (Ret ((), w'))" "good c w2 w'" "k_timers w' = Some l'"
      "pending l' = filter_mset (\<lambda>(d, e). clock n < d) (pending l1)" "length (k_tasks w') = length (k_tasks w2)"
      "\<forall>u < length (k_tasks w2). is_blocked u w' \<longleftrightarrow> is_blocked u w2 \<and> (\<forall>d. (d, u) \<in># pending l1 \<longrightarrow> clock n < d)"
      using less.hyps [OF sm(3) c2 l2 less.prems(5), of "Suc k"] by blast
    have dn: "d \<le> clock n" using sm(1) monoD [OF less.prems(5), of k n] ih(1) by simp
    have "check_events B GA c clock k w = Some (Ret ((), w'))" using w1(1) w2(1) ih(2) Some de by (simp add: check_events.simps [of B GA c clock k])
    moreover have "is_blocked u w' \<longleftrightarrow> is_blocked u w \<and> (\<forall>d. (d, u) \<in># pending l \<longrightarrow> clock n < d)" if "u < length (k_tasks w)" for u
      using ih(7) w2(4,5) w1(4,5) that sm(2) dn by auto
    moreover have "good c w w'" using good_trans [OF w1(2) good_trans [OF w2(2) ih(3)]] .
    ultimately show ?thesis using ih(1,4,5,6) w2(4) w1(4) sm(2) dn by (intro exI [of _ n] exI [of _ w'] exI [of _ l']) auto
  qed
qed

end

text \<open>What the handler of the timer does with the timers: \<open>l\<close> has the events of the state before.\<close>

definition expired :: "tref TimerList \<Rightarrow> TimeValue \<Rightarrow> ('s, 'g) Kernel \<Rightarrow> ('s, 'g) Kernel \<Rightarrow> bool" where
  "expired l now w w' \<longleftrightarrow> (\<exists>l'. k_timers w' = Some l' \<and> pending l' = filter_mset (\<lambda>(d, e). now < d) (pending l)) \<and>
     length (k_tasks w') = length (k_tasks w) \<and>
     (\<forall>u < length (k_tasks w). is_blocked u w' \<longleftrightarrow> is_blocked u w \<and> (\<forall>d. (d, u) \<in># pending l \<longrightarrow> now < d))"

lemma expired_frame:
  assumes "expired l now w w1" "sched_frame c w1 w'"
  shows "expired l now w w'"
  using assms(1) sched_frame_still(1) [OF assms(2)] sched_frame_blocked [OF assms(2)] assms(2) by (auto simp: expired_def sched_frame_def)

context run_queue
begin

lemma tick_scheduler_ok:
  assumes m: "mid {} {} {#} w" and c: "c < length (k_current w)" "k_current w ! c = Some cur"
  shows "\<exists>w'. with_rq B GA c (no_value (rq_scheduler_timer_tick B c)) w = Some (Ret ((), w')) \<and> good c w w' \<and> sched_frame c w w'"
proof -
  note e = entered [OF m c]
  note fr = guard_acquire_ok(2) [OF m c]
  have "\<exists>w1. rq_scheduler_timer_tick B c (guard_acquire c w) = Ret w1 \<and> mid {} {} {#} w1 \<and> k_current w1 = k_current w \<and> sched_frame c w w1"
  proof (cases "ti_is_idle (task_at cur w)")
    case True
    then show ?thesis using e(1,4,9,11) fr by (simp add: rq_scheduler_timer_tick_def)
  next
    case False
    obtain r w1 where w1: "sched_do (task_tick B cur) (guard_acquire c w) = Ret (r, w1)" "mid {} {} {#} w1" "sched_frame c (guard_acquire c w) w1"
      "k_current w1 = k_current (guard_acquire c w)"
      using sched_call_ok [OF e(1), of "task_tick B cur" c] tick_ok by blast
    have "mid {} {} {#} (set_preempt_pending True cur w1)" unfolding set_preempt_pending_def by (rule mid_set_task [OF w1(2)]) simp
    moreover have "sched_frame c w1 (set_preempt_pending True cur w1)"
      unfolding set_preempt_pending_def by (rule sched_frame_set_task) (simp add: calm_def)
    moreover note sched_frame_trans [OF fr w1(3)]
    ultimately show ?thesis using w1 e(4,9,11) False
      by (cases r) (auto simp: rq_scheduler_timer_tick_def set_preempt_pending_def intro: sched_frame_trans)
  qed
  then obtain w1 where w1: "no_value (rq_scheduler_timer_tick B c) (guard_acquire c w) = Ret ((), w1)" "mid {} {} {#} w1" "k_current w1 = k_current w"
    "sched_frame c w w1" by (auto simp: no_value_def)
  show ?thesis using quiet_ok(1) [where f = "no_value (rq_scheduler_timer_tick B c)", OF m c w1(1-3), of GA] sched_frame_trans [OF w1(4)] by blast
qed

lemma on_timer_tick_ok:
  assumes m: "mid {} {} {#} w" and c: "c < length (k_current w)" "k_current w ! c = Some cur" and k: "mono clock" and l: "k_timers w = Some l"
  shows "\<exists>w' n. on_timer_tick B GA c clock w = Some (Ret ((), w')) \<and> good c w w' \<and> expired l (clock n) w w'"
proof -
  obtain w1 n where w1: "check_events B GA c clock 0 w = Some (Ret ((), w1))" "good c w w1" "expired l (clock n) w w1"
    using check_events_ok [OF m c l k, of 0 GA] unfolding expired_def by blast
  obtain n where c1: "mid {} {} {#} w1" "c < length (k_current w1)" "k_current w1 ! c = Some n" using leaves_current [OF w1(2) c(1)] by blast
  obtain w' where w': "with_rq B GA c (no_value (rq_scheduler_timer_tick B c)) w1 = Some (Ret ((), w'))" "good c w1 w'" "sched_frame c w1 w'"
    using tick_scheduler_ok [OF c1, of GA] by blast
  then show ?thesis using w1 good_trans [OF w1(2) w'(2)] expired_frame [OF w1(3) w'(3)] by (auto simp: on_timer_tick_def)
qed

lemma handle_irq_ok:
  assumes m: "mid {} {} {#} w" and c: "c < length (k_current w)" "k_current w ! c = Some cur" and k: "mono clock" and l: "k_timers w = Some l"
  shows "\<exists>w' n. handle_irq B GA c clock w = Some (Ret ((), w')) \<and> good c w w' \<and> expired l (clock n) w w'"
proof -
  note e = entered [OF m c]
  have l': "k_timers (guard_acquire c w) = Some l" using e(6) l by simp
  obtain w1 n where w1: "on_timer_tick B GA c clock (guard_acquire c w) = Some (Ret ((), w1))" "good c (guard_acquire c w) w1"
    "expired l (clock n) (guard_acquire c w) w1"
    using on_timer_tick_ok [OF e(1-3) k l', of GA] by blast
  have x: "expired l (clock n) w w1" using w1(3) e(8,16) by (simp add: expired_def)
  obtain u where c1: "mid {} {} {#} w1" "c < length (k_current w1)" "k_current w1 ! c = Some u" using leaves_current [OF w1(2) e(2)] by blast
  obtain w' where w': "guard_release B GA c w1 = Some (Ret w')" "mid {} {} {#} w'" "sched_frame c w1 w'" "\<exists>nxt. k_current w' = (k_current w1)[c := Some nxt]"
    using guard_release_ok [OF c1, of GA] by blast
  then have "good c w w'" using w1(2) e(4) by (auto simp: leaves_ok_def)
  then show ?thesis using w1(1) w'(1) expired_frame [OF x w'(3)] by (auto simp: handle_irq_def)
qed

end

end
