(* ===== verification/AxTaskNew.thy ===== *)
theory AxTaskNew
  imports AxTaskOps
begin

text \<open>
  Tasks that are created, references that are given up and the start of the system: the lemmas that \<open>spawn_raw\<close>,
  \<open>notify_task\<close>, the alarms, the collector of exited tasks, \<open>init_scheduler\<close> and \<open>init_scheduler_secondary\<close> keep or
  establish the invariant of the run queue.
\<close>

section \<open>Creation of tasks\<close>

text \<open>A new task at the end of the task objects, with the references \<open>add_mset t L'\<close> to it.\<close>

lemma new_task_at:
  assumes "k_tasks w' = k_tasks w @ [x]"
  shows "t < length (k_tasks w) \<Longrightarrow> task_at t w' = task_at t w" "task_at (length (k_tasks w)) w' = x"
    "t < length (k_tasks w) \<Longrightarrow> owned w' t = owned w t" "owned w' (length (k_tasks w)) = ti_strong x"
    "t < length (k_tasks w) \<Longrightarrow> is_ready t w' = is_ready t w" "t < length (k_tasks w) \<Longrightarrow> is_running t w' = is_running t w"
    "is_ready (length (k_tasks w)) w' = (ti_state x = Ready)" "is_running (length (k_tasks w)) w' = (ti_state x = Running)"
  using assms by (simp_all add: task_at_def owned_def strong_count_def is_ready_def is_running_def nth_append)

context run_queue
begin

lemma mid_forget: "mid E R (add_mset t L) w \<Longrightarrow> mid E R L w"
  by (auto simp: rq_mid_def refs_ok_def intro: order_trans [rotated])

lemma held_new: "mid E R L w \<Longrightarrow> length (k_tasks w) \<notin># held queued w + L"
  using mid_valid [of queued L w "length (k_tasks w)"] by (auto simp: rq_mid_def)

lemma mid_spawn:
  assumes m: "mid E R L w" and s: "k_sched w = Some s" "sinv s'" "queued s' = insert (length (k_tasks w)) (queued s)"
    and x: "ti_state x = Ready" "\<not> ti_is_idle x" "ti_strong x = 2" "ti_wait_for_exit x = length (k_wqs w)"
    and k: "k_tasks w' = k_tasks w @ [x]" "k_wqs w' = k_wqs w @ [[]]" "k_timers w' = k_timers w" "k_sched w' = Some s'"
      "k_exited w' = k_exited w" "k_current w' = k_current w" "k_idle w' = k_idle w"
  shows "mid E R (add_mset (length (k_tasks w)) L) w'"
proof -
  let ?t = "length (k_tasks w)"
  note st = new_task_at [OF k(1)]
  have less: "u < length (k_tasks w') \<longleftrightarrow> u < ?t \<or> u = ?t" for u using k(1) by auto
  obtain s0 where s0: "k_sched w = Some s0" "sinv s0" "finite (queued s0)"
    "queued s0 = {t. t < length (k_tasks w) \<and> is_ready t w \<and> \<not> ti_is_idle (task_at t w)}" using mid_sched [OF m] by blast
  then have q: "queued s = {t. t < length (k_tasks w) \<and> is_ready t w \<and> \<not> ti_is_idle (task_at t w)}" "finite (queued s)" using s(1) by simp_all
  have "queued s' = {t. t < length (k_tasks w') \<and> is_ready t w' \<and> \<not> ti_is_idle (task_at t w')}"
    unfolding s(3) q(1) less using st x(1,2) by auto
  then have "sched_ok sinv queued w'" using s q(2) k(4) by (simp add: sched_ok_def)
  moreover have "refs_ok queued (add_mset ?t L) w'"
  proof -
    have h: "held queued w' = add_mset ?t (held queued w)"
      using s q k by (simp add: held_def)
    have "count (held queued w' + add_mset ?t L) u \<le> owned w' u" for u
    proof (cases "u = ?t")
      case True
      have "count (held queued w + L) ?t = 0" using held_new [OF m] by (simp only: not_in_iff)
      then show ?thesis using True h st(4) x(3) by simp
    next
      case False
      then have "count (held queued w' + add_mset ?t L) u = count (held queued w + L) u" using h by simp
      also have "\<dots> \<le> owned w u" using m unfolding rq_mid_def refs_ok_def by blast
      also have "\<dots> \<le> owned w' u" using st(3) [of u] by (cases "u < ?t") (simp_all add: owned_def)
      finally show ?thesis .
    qed
    then show ?thesis unfolding refs_ok_def by blast
  qed
  moreover have "cpus_ok E R w'"
  proof -
    have cp: "cpus_ok E R w" using m by (simp add: rq_mid_def)
    have cv: "t < ?t" if "Some t \<in> set (k_current w)" for t
    proof -
      have "t \<in># held queued w + L" using that somes_set [of "k_current w"] by (simp add: held_def)
      then show ?thesis using m mid_valid unfolding rq_mid_def by blast
    qed
    have iv: "t < ?t" if "Some t \<in> set (k_idle w)" for t
    proof -
      have "t \<in># held queued w + L" using that somes_set [of "k_idle w"] by (simp add: held_def)
      then show ?thesis using m mid_valid unfolding rq_mid_def by blast
    qed
    show ?thesis
    proof (rule cpus_okI)
      show "length (k_idle w') = length (k_current w')" "distinct (somes (k_current w'))" "distinct (somes (k_idle w'))"
        using cpus_okD(1-3) [OF cp] k by simp_all
      show "t \<in> R \<or> Some t \<in> set (k_current w')" if "t < length (k_tasks w')" "is_running t w'" for t
        using that cpus_okD(4) [OF cp, of t] st(6) [of t] st(8) x(1) k(6) unfolding less by auto
      show "Some t \<in> set (k_idle w')" if "t < length (k_tasks w')" "ti_is_idle (task_at t w')" for t
        using that cpus_okD(5) [OF cp, of t] st(1) [of t] st(2) x(2) k(7) unfolding less by auto
      show "(c \<notin> E \<longrightarrow> is_running t w') \<and> k_idle w' ! c \<noteq> None \<and> (ti_is_idle (task_at t w') \<longrightarrow> k_idle w' ! c = Some t)"
        if a: "c < length (k_current w')" "k_current w' ! c = Some t" for c t
      proof -
        have a': "c < length (k_current w)" "k_current w ! c = Some t" using a k by simp_all
        then have "t < ?t" using cv nth_mem by metis
        then show ?thesis using cpus_okD(6-8) [OF cp a'] st(1,6) [of t] k(7) by auto
      qed
      show "ti_is_idle (task_at i w') \<and> (is_running i w' \<or> is_ready i w')" if "Some i \<in> set (k_idle w')" for i
        using that iv [of i] cpus_okD(9,10) [OF cp, of i] st(1,5,6) [of i] k(7) by auto
    qed
  qed
  moreover have "objs_ok w'"
    using m st(1,2) x(4) k(2,3) unfolding rq_mid_def objs_ok_def less by (auto simp: less_Suc_eq)
  ultimately show ?thesis by (simp add: rq_mid_def)
qed

lemma task_new_cases:
  assumes "name \<noteq> ''idle''"
  shows "task_new GA entry name sz w = Panic \<or> (\<exists>x g. ti_state x = Ready \<and> \<not> ti_is_idle x \<and> ti_strong x = 1 \<and>
    ti_wait_for_exit x = length (k_wqs w) \<and> ti_need_resched x = False \<and>
    task_new GA entry name sz w = Ret (length (k_tasks w), w\<lparr>k_ids := k_ids w + 1, k_wqs := k_wqs w @ [[]], k_heap := g, k_tasks := k_tasks w @ [x]\<rparr>))"
proof (cases "task_stack_alloc GA (align_up_4k sz) (k_heap w)")
  case (Ret r)
  obtain st g where r: "r = (st, g)" by (cases r)
  let ?x = "(fst (new_common (k_ids w) name w))\<lparr>ti_entry := Some entry, ti_ctx := CtxInit (task_stack_top st), ti_kstack := Some st, ti_strong := 1\<rparr>"
  show ?thesis using assms Ret r
    by (intro disjI2 exI [of _ ?x] exI [of _ g]) (simp add: task_new_def task_id_new_def new_common_def wait_queue_new_def arc_new_def Let_def)
qed (simp add: task_new_def task_id_new_def new_common_def wait_queue_new_def Let_def)

lemma spawn_raw_ok:
  assumes m: "mid {} {} {#} w" and c: "c < length (k_current w)" "k_current w ! c = Some cur" and n: "name \<noteq> ''idle''"
  shows "spawn_raw B GA c f name sz w = Some Panic \<or>
    (\<exists>w'. spawn_raw B GA c f name sz w = Some (Ret (length (k_tasks w), w')) \<and> leaves {#length (k_tasks w)#} c w w')"
proof (cases "task_new GA f name sz w = Panic")
  case False
  let ?t = "length (k_tasks w)"
  obtain x g where x: "ti_state x = Ready" "\<not> ti_is_idle x" "ti_strong x = 1" "ti_wait_for_exit x = length (k_wqs w)"
    and new: "task_new GA f name sz w = Ret (?t, w\<lparr>k_ids := k_ids w + 1, k_wqs := k_wqs w @ [[]], k_heap := g, k_tasks := k_tasks w @ [x]\<rparr>)"
    using task_new_cases [OF n, of GA f sz w] False by blast
  define w1 where "w1 = w\<lparr>k_ids := k_ids w + 1, k_wqs := k_wqs w @ [[]], k_heap := g, k_tasks := k_tasks w @ [x]\<rparr>"
  note e = entered [OF m c]
  let ?v = "guard_acquire c w"
  obtain s where s: "k_sched ?v = Some s" "sinv s" "queued s = {t. t < length (k_tasks ?v) \<and> is_ready t ?v \<and> \<not> ti_is_idle (task_at t ?v)}"
    using mid_sched [OF e(1)] by blast
  have "?t \<notin> queued s" using s(3) e(8) by simp
  then obtain s' where s': "add_task B ?t s = Ret s'" "sinv s'" "queued s' = insert ?t (queued s)" using add_ok [OF s(2)] by blast
  define w2 where "w2 = arc_clone ?t (guard_acquire c w1)"
  have cl: "cur < length (k_tasks w)" using mid_current_valid [OF m c] .
  have ga: "?v = disable_preempt cur w" "guard_acquire c w1 = disable_preempt cur w1"
    using c by (simp_all add: guard_acquire_def current_may_uninit_def w1_def)
  have k2: "k_tasks w2 = k_tasks ?v @ [x\<lparr>ti_strong := 2\<rparr>]" "k_wqs w2 = k_wqs ?v @ [[]]" "k_timers w2 = k_timers ?v" "k_sched w2 = k_sched ?v"
    "k_exited w2 = k_exited ?v" "k_current w2 = k_current ?v" "k_idle w2 = k_idle ?v"
    unfolding w2_def ga using cl x(3) by (simp_all add: disable_preempt_def arc_clone_def w1_def set_task_def task_at_def nth_append list_update_append numeral_2_eq_2)
  have m2: "mid {} {} (add_mset (length (k_tasks ?v)) {#}) (w2\<lparr>k_sched := Some s'\<rparr>)"
    by (rule mid_spawn [OF e(1) s(1) s'(2), where x = "x\<lparr>ti_strong := 2\<rparr>"]) (use s' x k2 e(5,8) in simp_all)
  have "is_ready ?t w2" using k2(1) x(1) e(8) by (simp add: is_ready_def task_at_def nth_append)
  then have f': "(\<lambda>w. out_then (rq_add_task B ?t (arc_clone ?t w)) (\<lambda>w. Ret (?t, w))) (guard_acquire c w1) = Ret (?t, w2\<lparr>k_sched := Some s'\<rparr>)"
    using s(1) s'(1) k2(4) by (simp add: rq_add_task_def w2_def [symmetric] sched_upd_def sched_do_def)
  have c1: "c < length (k_current w1)" "k_current w1 = k_current w" using c by (simp_all add: w1_def)
  have k: "k_current (w2\<lparr>k_sched := Some s'\<rparr>) = (k_current w1)[c := Some cur]" using k2(6) e(4) c1 current_update_id [OF c(2)] by simp
  have "k_sched w1 \<noteq> None" using mid_sched_init [OF m] by (simp add: w1_def)
  then show ?thesis
    using with_lock_ok [where f = "\<lambda>w. out_then (rq_add_task B ?t (arc_clone ?t w)) (\<lambda>w. Ret (?t, w))", OF c1(1) f' m2 k, of GA] new e(8) c1(2)
    by (auto simp: spawn_raw_def w1_def [symmetric] with_rq_def leaves_ok_def)
qed (simp add: spawn_raw_def)

end

section \<open>References that the kernel gives up\<close>

lemma position_remove_cases:
  "(position (\<lambda>u. u = t) xs = None \<and> t \<notin> set xs) \<or>
   (\<exists>i ts. position (\<lambda>u. u = t) xs = Some i \<and> vec_remove i xs = (Some t, ts) \<and> mset xs = add_mset t (mset ts))"
proof (cases "t \<in> set xs")
  case True
  then show ?thesis using position_remove [of xs t] by (cases "position (\<lambda>u. u = t) xs") auto
next
  case False
  then have "position (\<lambda>u. u = t) xs = None" by (induction xs) auto
  then show ?thesis using False by simp
qed

context run_queue
begin

lemma mid_take:
  assumes m: "mid E R L w" and q: "q < length (k_wqs w)" "mset (k_wqs w ! q) = mset us + mset ts"
  shows "mid E R (mset us + L) (w\<lparr>k_wqs := (k_wqs w)[q := ts]\<rparr>)"
proof (rule mid_move [OF m])
  have "mset (concat ((k_wqs w)[q := ts])) + mset us = mset (concat (k_wqs w))"
    using mset_concat_update [OF q(1), of ts] q(2) by (simp add: union_assoc [symmetric])
  from this [symmetric] show "held queued (w\<lparr>k_wqs := (k_wqs w)[q := ts]\<rparr>) + (mset us + L) = held queued w + L"
    by (simp add: held_def union_ac)
qed (use mid_timers [OF m] in simp_all)

lemma notify_task_ok:
  assumes m: "mid {} {} {#} w" and c: "c < length (k_current w)" "k_current w ! c = Some cur" and q: "q < length (k_wqs w)"
  shows "\<exists>w'. notify_task B GA c q resched t w = Some (Ret (t \<in> set (k_wqs w ! q), w')) \<and> good c w w'"
proof -
  note e = entered [OF m c]
  let ?v = "guard_acquire c w"
  let ?f = "\<lambda>w. case position (\<lambda>u. u = t) (k_wqs w ! q) of
       Some i \<Rightarrow> (let w = set_in_wait_queue False t w in case vec_remove i (k_wqs w ! q) of (None, _) \<Rightarrow> Panic
             | (Some u, ts) \<Rightarrow> out_then (rq_unblock_task B GA c u resched (w\<lparr>k_wqs := (k_wqs w)[q := ts]\<rparr>)) (\<lambda>w. Ret (True, w)))
     | None \<Rightarrow> Ret (False, w)"
  consider "position (\<lambda>u. u = t) (k_wqs ?v ! q) = None" "t \<notin> set (k_wqs w ! q)"
    | i ts where "position (\<lambda>u. u = t) (k_wqs ?v ! q) = Some i" "vec_remove i (k_wqs ?v ! q) = (Some t, ts)" "mset (k_wqs ?v ! q) = mset [t] + mset ts"
    using position_remove_cases [of t "k_wqs ?v ! q"] e(5) by auto
  then show ?thesis
  proof cases
    case 1
    then have "?f ?v = Ret (False, ?v)" by simp
    from quiet_ok(1) [where f = ?f, OF m c this e(1,4), of GA] 1 show ?thesis by (auto simp: notify_task_def)
  next
    case 2
    let ?w = "(set_in_wait_queue False t ?v)\<lparr>k_wqs := (k_wqs ?v)[q := ts]\<rparr>"
    have "set_in_wait_queue False t (?v\<lparr>k_wqs := (k_wqs ?v)[q := ts]\<rparr>) = ?w" by (simp add: set_in_wait_queue_def set_task_def task_at_def)
    moreover have "mid {} {} (add_mset t {#}) (set_in_wait_queue False t (?v\<lparr>k_wqs := (k_wqs ?v)[q := ts]\<rparr>))" unfolding set_in_wait_queue_def
      by (rule mid_set_task) (use mid_take [OF e(1) _ 2(3)] q e(5) in simp_all)
    ultimately have m1: "mid {} {} (add_mset t {#}) ?w" by simp
    have c1: "c < length (k_current ?w)" "k_current ?w ! c = Some cur" using e(2,3) by (simp_all add: set_in_wait_queue_def)
    obtain w1 where w1: "rq_unblock_task B GA c t resched ?w = Ret w1" "mid {} {} {#} w1" "wake_frame {t} ?w w1"
      using unblock_ok [OF m1 c1, of GA resched] by auto
    have "?f ?v = Ret (True, w1)" using 2 w1(1) by (simp add: set_in_wait_queue_def)
    moreover have "k_current w1 = k_current w" using wake_frameD(2) [OF w1(3)] e(4) by (simp add: set_in_wait_queue_def)
    moreover have "t \<in> set (k_wqs w ! q)" using 2(3) e(5) by (metis add_mset_add_single mset.simps union_single_eq_member union_commute set_mset_mset)
    ultimately show ?thesis using quiet_ok(1) [where f = ?f, OF m c _ w1(2), of True GA] by (auto simp: notify_task_def)
  qed
qed

lemma set_alarm_ok:
  assumes m: "mid {} {} {#} w" and c: "c < length (k_current w)" "k_current w ! c = Some cur"
  shows "duration_add now dur = Panic \<and> wait_timeout_alarm B GA c now dur w = Some Panic \<or>
    (\<exists>w' l l'. wait_timeout_alarm B GA c now dur w = Some (Ret (now + dur, w')) \<and> good c w w' \<and>
      k_timers w = Some l \<and> k_timers w' = Some l' \<and> pending l' = add_mset (now + dur, cur) (pending l))"
proof (cases "duration_add now dur")
  case (Ret ddl)
  have d: "ddl = now + dur" using Ret by (simp add: duration_add_def split: if_splits)
  have cl: "cur < length (k_tasks w)" using mid_current_valid [OF m c] .
  let ?u = "arc_clone cur w" let ?v = "guard_acquire c ?u"
  have mu: "mid {} {} {#cur#} ?u" using mid_clone [OF m cl] .
  have cu: "c < length (k_current ?u)" "k_current ?u ! c = Some cur" "k_current ?u = k_current w" "k_timers ?u = k_timers w"
    using c by (simp_all add: arc_clone_def)
  note e = entered [OF mu cu(1,2)]
  obtain l where l: "k_timers ?v = Some l" using mid_timers [OF e(1)] by blast
  let ?w = "(set_in_timer_list True cur ?v)\<lparr>k_timers := Some (tl_set ddl cur l)\<rparr>"
  have "mid {} {} (add_mset cur {#}) (set_in_timer_list True cur ?v)" unfolding set_in_timer_list_def by (rule mid_set_task [OF e(1)]) simp
  from mid_set_timer [OF this, of l ddl] l have m1: "mid {} {} {#} ?w" by (simp add: set_in_timer_list_def)
  have f: "set_alarm ddl cur ?v = Ret ((), ?w)" using l by (simp add: set_alarm_def timers_do_def set_in_timer_list_def)
  have k: "k_current ?w = k_current ?u" using e(4) by (simp add: set_in_timer_list_def)
  obtain w' where w': "set_alarm_wakeup B GA c ddl cur ?u = Some (Ret ((), w'))" "good c ?u w'" "sched_frame c ?w w'"
    using quiet_ok(2) [where f = "set_alarm ddl cur", OF mu cu(1,2) f m1 k, of GA] by (auto simp: set_alarm_wakeup_def)
  have "k_timers w' = Some (tl_set ddl cur l)" using w'(3) by (simp add: sched_frame_def)
  moreover have "k_timers w = Some l" using l e(6) cu(4) by simp
  moreover have "good c w w'" using w'(2) cu(3) by (simp add: leaves_ok_def)
  moreover have "wait_timeout_alarm B GA c now dur w = Some (Ret (now + dur, w'))"
    using w'(1) Ret d current_eq [OF c] by (simp add: wait_timeout_alarm_def)
  ultimately show ?thesis by (auto simp: d)
qed (use current_eq [OF c] in \<open>simp add: wait_timeout_alarm_def\<close>)

lemma drop_held_ok:
  assumes "mid E R (mset us + L) w"
  shows "\<exists>w'. drop_all GA (map DropRef us) w = Ret w' \<and> mid E R L w' \<and> drop_frame w w'"
  using drop_all_ok [of sinv queued E R "map DropRef us" L w GA] assms by simp

lemma cancel_alarm_ok:
  assumes m: "mid {} {} {#} w" and c: "c < length (k_current w)" "k_current w ! c = Some cur"
  shows "\<exists>w'. cancel_alarm B GA c t w = Some (Ret ((), w')) \<and> good c w w' \<and> (\<exists>l'. k_timers w' = Some l' \<and> (\<forall>d. (d, t) \<notin># pending l'))"
proof -
  note e = entered [OF m c]
  let ?v = "set_in_timer_list False t (guard_acquire c w)"
  have m0: "mid {} {} {#} ?v" unfolding set_in_timer_list_def by (rule mid_set_task [OF e(1)]) simp
  obtain l where l: "k_timers ?v = Some l" "tl_sorted l" using mid_timers [OF m0] by blast
  let ?gone = "filter (\<lambda>u. u = t) (map event (events l))"
  let ?w = "?v\<lparr>k_timers := Some (tl_cancel (\<lambda>u. u = t) l)\<rparr>"
  have "mset (map event (filter (\<lambda>x. event x \<noteq> t) es)) + mset (filter (\<lambda>u. u = t) (map event es)) = mset (map event es)"
    for es :: "tref TimerEventWrapper list" by (induction es) auto
  then have "mset (map event (events (tl_cancel (\<lambda>u. u = t) l))) + mset ?gone = mset (map event (events l))" by (simp add: tl_cancel_def)
  then have "held queued ?w + (mset ?gone + {#}) = held queued ?v + {#}" using l(1) by (simp add: held_def union_ac)
  from mid_move [OF m0 _ _ _ _ _ _ this] have "mid {} {} (mset ?gone + {#}) ?w" using l(1) tl_cancel_sorted [OF l(2)] by simp
  then obtain w1 where w1: "drop_all GA (map DropRef ?gone) ?w = Ret w1" "mid {} {} {#} w1" "drop_frame ?w w1"
    using drop_held_ok by blast
  let ?f = "\<lambda>w. out_then (timers_do (\<lambda>l. (filter (\<lambda>u. u = t) (map event (events l)), tl_cancel (\<lambda>u. u = t) l)) (set_in_timer_list False t w))
       (\<lambda>(gone, w). no_value (drop_all GA (map DropRef gone)) w)"
  have f: "?f (guard_acquire c w) = Ret ((), w1)" using l(1) w1(1) by (simp add: timers_do_def no_value_def)
  have k: "k_current w1 = k_current w" using w1(3) e(4) by (simp add: drop_frame_def set_in_timer_list_def)
  obtain w' where w': "cancel_alarm B GA c t w = Some (Ret ((), w'))" "good c w w'" "sched_frame c w1 w'"
    using quiet_ok(2) [where f = ?f, OF m c f w1(2) k, of GA] by (auto simp: cancel_alarm_def)
  have "k_timers w' = Some (tl_cancel (\<lambda>u. u = t) l)" using w'(3) w1(3) by (simp add: sched_frame_def drop_frame_def)
  then show ?thesis using w' by (auto simp: pending_cancel)
qed

lemma cancel_events_ok:
  assumes m: "mid {} {} {#} w" and c: "c < length (k_current w)" "k_current w ! c = Some cur" and q: "q < length (k_wqs w)"
  shows "\<exists>w'. cancel_events B GA c q cur w = Some (Ret ((), w')) \<and> good c w w'"
proof -
  let ?w = "w\<lparr>k_wqs := (k_wqs w)[q := filter (\<lambda>t. t \<noteq> cur) (k_wqs w ! q)]\<rparr>"
  have "mset (k_wqs w ! q) = mset (filter (\<lambda>t. t = cur) (k_wqs w ! q)) + mset (filter (\<lambda>t. t \<noteq> cur) (k_wqs w ! q))"
    by (metis mset_filter multiset_partition)
  from mid_take [OF m q this] obtain w1 where w1: "drop_all GA (map DropRef (filter (\<lambda>t. t = cur) (k_wqs w ! q))) ?w = Ret w1"
    "mid {} {} {#} w1" "drop_frame ?w w1" using drop_held_ok by blast
  have m2: "mid {} {} {#} (set_in_wait_queue False cur w1)" unfolding set_in_wait_queue_def by (rule mid_set_task [OF w1(2)]) simp
  have k2: "k_current (set_in_wait_queue False cur w1) = k_current w" using w1(3) by (simp add: set_in_wait_queue_def drop_frame_def)
  have fin: "\<exists>w'. (if ti_in_timer_list (task_at cur v) then cancel_alarm B GA c cur v else Some (Ret ((), v))) = Some (Ret ((), w')) \<and> good c w w'"
    if v: "mid {} {} {#} v" "k_current v = k_current w" for v
    using cancel_alarm_ok [OF v(1), of c cur GA cur] c v current_update_id [OF c(2)] by (auto simp: leaves_ok_def intro: exI [of _ cur])
  show ?thesis
    using fin [OF m2 k2] fin [OF m refl] w1(1) by (auto simp: cancel_events_def)
qed

lemma gc_once_ok:
  assumes m: "mid {} {} {#} w" and c: "c < length (k_current w)" "k_current w ! c = Some cur"
  shows "\<exists>w'. gc_once B GA c w = Some (Ret ((), w')) \<and> good c w w'"
proof -
  note e = entered [OF m c]
  let ?v = "guard_acquire c w"
  let ?f = "\<lambda>w :: ('s, 'g) Kernel. Ret (case k_exited w of [] \<Rightarrow> (None, w) | t # ts \<Rightarrow> (Some t, w\<lparr>k_exited := ts\<rparr>)) :: (tref option \<times> ('s, 'g) Kernel) outcome"
  show ?thesis
  proof (cases "k_exited w")
    case Nil
    then have "?f ?v = Ret (None, ?v)" using e(7) by simp
    from quiet_ok(2) [where f = ?f, OF m c this e(1,4), of GA] show ?thesis by (auto simp: gc_once_def)
  next
    case (Cons t ts)
    let ?w = "?v\<lparr>k_exited := ts\<rparr>"
    have f: "?f ?v = Ret (Some t, ?w)" using e(7) Cons by simp
    have "mid {} {} {#t#} ?w" by (rule mid_move [OF e(1)]) (use mid_timers [OF e(1)] e(7) Cons in \<open>simp_all add: held_def\<close>)
    moreover have "k_current ?w = k_current w" using e(4) by simp
    ultimately obtain w1 where w1: "with_lock B GA c ?f w = Some (Ret (Some t, w1))" "leaves {#t#} c w w1"
      using quiet_ok(2) [where f = ?f, OF m c f, of "{#t#}" GA] by auto
    obtain n where c1: "mid {} {} (add_mset t {#}) w1" "c < length (k_current w1)" "k_current w1 ! c = Some n" using leaves_current [OF w1(2) c(1)] by blast
    show ?thesis
    proof (cases "strong_count t w1 = 1")
      case True
      obtain w' where w': "arc_drop GA t w1 = Ret w'" "mid {} {} {#} w'" "drop_frame w1 w'" using drop_held_ok [of "{}" "{}" "[t]" "{#}" w1 GA] c1(1) by auto
      then have "good c w w'" using w1(2) by (auto simp: leaves_ok_def drop_frame_def)
      then show ?thesis using w1(1) w'(1) True by (simp add: gc_once_def no_value_def)
    next
      case False
      note e1 = entered [OF c1]
      let ?g = "\<lambda>w :: ('s, 'g) Kernel. Ret ((), w\<lparr>k_exited := k_exited w @ [t]\<rparr>)"
      have "mid {} {} {#} (guard_acquire c w1\<lparr>k_exited := k_exited (guard_acquire c w1) @ [t]\<rparr>)" using mid_exited [OF e1(1)] .
      moreover have "k_current (guard_acquire c w1\<lparr>k_exited := k_exited (guard_acquire c w1) @ [t]\<rparr>) = k_current w1" using e1(4) by simp
      ultimately obtain w' where "with_lock B GA c ?g w1 = Some (Ret ((), w'))" "good c w1 w'"
        using quiet_ok(2) [where f = ?g, OF c1, of "()" _ "{#}" GA] by auto
      then show ?thesis using w1(1) False good_trans [OF w1(2)] by (auto simp: gc_once_def)
    qed
  qed
qed

end

section \<open>Start of the system\<close>

lemma somes_one: "c < n \<Longrightarrow> somes ((replicate n None)[c := Some t]) = [t]"
proof -
  assume c: "c < n"
  have "somes (replicate m None) = []" for m by (induction m) (simp_all add: somes_def)
  moreover have "(replicate n None)[c := Some t] = replicate c None @ Some t # replicate (n - Suc c) None"
    using c by (simp add: upd_conv_take_nth_drop min_def)
  ultimately show ?thesis by (simp add: somes_def)
qed

lemma somes_mem: "Some x \<in> set xs \<longleftrightarrow> x \<in> set (somes xs)"
  by (simp add: somes_set)

lemma started_inv:
  assumes c: "c < n" and s: "sinv s" "queued s = {2}"
    and x: "ti_state x0 = Ready" "ti_is_idle x0" "ti_wait_for_exit x0 < 4" "0 < ti_strong x0"
      "ti_state x1 = Running" "\<not> ti_is_idle x1" "ti_wait_for_exit x1 < 4" "0 < ti_strong x1"
      "ti_state x2 = Ready" "\<not> ti_is_idle x2" "ti_wait_for_exit x2 < 4" "0 < ti_strong x2"
    and k: "k_tasks w = [x0, x1, x2]" "k_wqs w = [[], [], [], []]" "k_timers w = Some tl_new" "k_sched w = Some s" "k_exited w = []"
      "k_current w = (replicate n None)[c := Some 1]" "k_idle w = (replicate n None)[c := Some 0]"
  shows "rq_inv sinv queued w"
proof -
  have l: "t < length (k_tasks w) \<longleftrightarrow> t = 0 \<or> t = 1 \<or> t = 2" for t using k(1) by auto
  have a: "task_at 0 w = x0" "task_at 1 w = x1" "task_at 2 w = x2" using k(1) by (simp_all add: task_at_def)
  have cur: "Some t \<in> set (k_current w) \<longleftrightarrow> t = 1" "Some t \<in> set (k_idle w) \<longleftrightarrow> t = 0" for t
    unfolding somes_mem k(6,7) somes_one [OF c] by simp_all
  have st: "is_ready 0 w" "\<not> is_ready 1 w" "is_ready 2 w" "\<not> is_running 0 w" "is_running 1 w" "\<not> is_running 2 w"
    "ti_is_idle (task_at 0 w)" "\<not> ti_is_idle (task_at 1 w)" "\<not> ti_is_idle (task_at 2 w)"
    unfolding is_ready_def is_running_def a using x by simp_all
  have "{t. t < length (k_tasks w) \<and> is_ready t w \<and> \<not> ti_is_idle (task_at t w)} = {2}" unfolding l using st by blast
  then have "sched_ok sinv queued w" using s k(4) by (simp add: sched_ok_def)
  moreover have "refs_ok queued {#} w"
  proof -
    have h: "held queued w = {#0, 1, 2#}" using somes_one [OF c, of "1 :: nat"] somes_one [OF c, of "0 :: nat"] by (simp add: held_def k s(2) tl_new_def)
    have "owned w 0 \<ge> 1" "owned w 1 \<ge> 1" "owned w 2 \<ge> 1" unfolding owned_def l strong_count_def a using x by simp_all
    then show ?thesis unfolding refs_ok_def h by simp
  qed
  moreover have "cpus_ok {} {} w"
  proof (rule cpus_okI)
    show "length (k_idle w) = length (k_current w)" "distinct (somes (k_current w))" "distinct (somes (k_idle w))"
      unfolding k(6,7) somes_one [OF c] by simp_all
    show "t \<in> {} \<or> Some t \<in> set (k_current w)" if "t < length (k_tasks w)" "is_running t w" for t
      using that st unfolding l cur by blast
    show "Some t \<in> set (k_idle w)" if "t < length (k_tasks w)" "ti_is_idle (task_at t w)" for t
      using that st unfolding l cur by blast
    show "(d \<notin> {} \<longrightarrow> is_running t w) \<and> k_idle w ! d \<noteq> None \<and> (ti_is_idle (task_at t w) \<longrightarrow> k_idle w ! d = Some t)"
      if "d < length (k_current w)" "k_current w ! d = Some t" for d t
    proof -
      have "d = c \<and> t = 1" using that k(6) by (cases "d = c") simp_all
      then show ?thesis using st k(7) c by simp
    qed
    show "ti_is_idle (task_at i w) \<and> (is_running i w \<or> is_ready i w)" if "Some i \<in> set (k_idle w)" for i
      using that st unfolding cur by blast
  qed
  moreover have "objs_ok w" unfolding objs_ok_def l using k(2,3) a [unfolded One_nat_def] x(3,7,11) by auto
  ultimately show ?thesis by (simp add: rq_inv_def rq_mid_def)
qed

context run_queue
begin

lemma init_scheduler_ok:
  assumes c: "c < n" and s0: "sinv s0" "queued s0 = {}"
  shows "init_scheduler B s0 GA run_idle gc_entry TASK_STACK_SIZE c (boot_kernel n g) = Panic \<or>
    (\<exists>w. init_scheduler B s0 GA run_idle gc_entry TASK_STACK_SIZE c (boot_kernel n g) = Ret w \<and> rq_inv sinv queued w \<and>
      k_current w = (replicate n None)[c := Some 1])"
proof (cases "task_stack_alloc GA (align_up_4k 4096) g")
  case Panic
  then show ?thesis by (simp add: init_scheduler_def rq_init_def task_new_def task_id_new_def new_common_def wait_queue_new_def boot_kernel_def Let_def)
next
  case (Ret r)
  obtain st1 g1 where r: "r = (st1, g1)" by (cases r)
  obtain s where s: "add_task B 2 s0 = Ret s" "sinv s" "queued s = {2}" using add_ok [OF s0(1), of 2] s0(2) by auto
  show ?thesis
  proof (cases "task_stack_alloc GA (align_up_4k TASK_STACK_SIZE) g1")
    case Panic
    then show ?thesis using Ret r c
      by (simp add: init_scheduler_def rq_init_def task_new_def task_new_init_def rq_new_def task_id_new_def new_common_def wait_queue_new_def
          boot_kernel_def Let_def arc_new_def arc_clone_def set_state_def set_task_def)
  next
    case (Ret r2)
    obtain st2 g2 where r2: "r2 = (st2, g2)" by (cases r2)
    have "\<exists>w. init_scheduler B s0 GA run_idle gc_entry TASK_STACK_SIZE c (boot_kernel n g) = Ret w \<and>
      (\<exists>x0 x1 x2. ti_state x0 = Ready \<and> ti_is_idle x0 \<and> ti_wait_for_exit x0 < 4 \<and> 0 < ti_strong x0 \<and>
      ti_state x1 = Running \<and> \<not> ti_is_idle x1 \<and> ti_wait_for_exit x1 < 4 \<and> 0 < ti_strong x1 \<and>
      ti_state x2 = Ready \<and> \<not> ti_is_idle x2 \<and> ti_wait_for_exit x2 < 4 \<and> 0 < ti_strong x2 \<and>
      k_tasks w = [x0, x1, x2]) \<and> k_wqs w = [[], [], [], []] \<and> k_timers w = Some tl_new \<and> k_sched w = Some s \<and> k_exited w = [] \<and>
      k_current w = (replicate n None)[c := Some 1] \<and> k_idle w = (replicate n None)[c := Some 0]"
      using \<open>task_stack_alloc GA (align_up_4k 4096) g = Ret r\<close> r Ret r2 c s(1)
      by (simp add: init_scheduler_def rq_init_def task_new_def task_new_init_def rq_new_def task_id_new_def new_common_def wait_queue_new_def
          boot_kernel_def Let_def arc_new_def arc_clone_def set_state_def set_task_def task_at_def drop_all.simps(3) init_current_def timers_init_def
          numeral_2_eq_2)
    then show ?thesis using started_inv [where sinv = sinv and queued = queued, OF c s(2,3)] by blast
  qed
qed

text \<open>Another CPU starts: its idle task is running on it.\<close>

lemma mid_secondary:
  assumes m: "mid {} {} {#} w" and c: "c < length (k_current w)" "k_current w ! c = None" "k_idle w ! c = None"
    and x: "ti_state x = Running" "ti_is_idle x" "ti_strong x = 2" "ti_wait_for_exit x = length (k_wqs w)"
    and k: "k_tasks w' = k_tasks w @ [x]" "k_wqs w' = k_wqs w @ [[]]" "k_timers w' = k_timers w" "k_sched w' = k_sched w"
      "k_exited w' = k_exited w" "k_current w' = (k_current w)[c := Some (length (k_tasks w))]" "k_idle w' = (k_idle w)[c := Some (length (k_tasks w))]"
  shows "mid {} {} {#} w'"
proof -
  let ?t = "length (k_tasks w)"
  note st = new_task_at [OF k(1)]
  have cp: "cpus_ok {} {} w" using m by (simp add: rq_mid_def)
  have less: "u < length (k_tasks w') \<longleftrightarrow> u < ?t \<or> u = ?t" for u using k(1) by auto
  have ci: "c < length (k_idle w)" using cpus_okD(1) [OF cp] c(1) by simp
  have valid: "t < ?t" if "t \<in># held queued w" for t using that m mid_valid [of queued "{#}" w t] by (simp add: rq_mid_def)
  have cv: "Some t \<in> set (k_current w) \<Longrightarrow> t < ?t" "Some t \<in> set (k_idle w) \<Longrightarrow> t < ?t" for t
    using valid [of t] by (simp_all add: held_def somes_mem)
  have new: "Some ?t \<notin> set (k_current w)" "Some ?t \<notin> set (k_idle w)" using cv [of ?t] by auto
  obtain s where s: "k_sched w = Some s" "sinv s" "finite (queued s)"
    "queued s = {t. t < length (k_tasks w) \<and> is_ready t w \<and> \<not> ti_is_idle (task_at t w)}" using mid_sched [OF m] by blast
  have "queued s = {t. t < length (k_tasks w') \<and> is_ready t w' \<and> \<not> ti_is_idle (task_at t w')}"
    unfolding s(4) less using st x(1,2) by auto
  then have "sched_ok sinv queued w'" using s k(4) by (simp add: sched_ok_def)
  moreover have "refs_ok queued {#} w'"
  proof -
    have h: "held queued w' = add_mset ?t (add_mset ?t (held queued w))"
      using somes_update [OF c(1), of ?t] somes_update [OF ci, of ?t] c(2,3) k(2-7) by (simp add: held_def)
    have "count (held queued w') u \<le> owned w' u" for u
    proof (cases "u = ?t")
      case True
      have "count (held queued w) ?t = 0" using valid [of ?t] by (metis not_in_iff less_irrefl)
      then show ?thesis using True h st(4) x(3) by simp
    next
      case False
      have "count (held queued w) u \<le> owned w u" using m unfolding rq_mid_def refs_ok_def by (metis add.right_neutral)
      also have "\<dots> \<le> owned w' u" using st(3) [of u] by (cases "u < ?t") (simp_all add: owned_def)
      finally show ?thesis using False h by simp
    qed
    then show ?thesis unfolding refs_ok_def by simp
  qed
  moreover have "cpus_ok {} {} w'"
  proof (rule cpus_okI)
    show "length (k_idle w') = length (k_current w')" using cpus_okD(1) [OF cp] k by simp
    show "distinct (somes (k_current w'))" "distinct (somes (k_idle w'))"
      using somes_update_distinct cpus_okD(2,3) [OF cp] new k(6,7) by simp_all
    have cs: "Some t \<in> set (k_current w') \<longleftrightarrow> Some t \<in> set (k_current w) \<or> t = ?t" "Some t \<in> set (k_idle w') \<longleftrightarrow> Some t \<in> set (k_idle w) \<or> t = ?t" for t
      using somes_update [OF c(1), of ?t] somes_update [OF ci, of ?t] c(2,3) k(6,7) unfolding somes_mem
      by (auto simp: set_mset_mset [symmetric] simp del: set_mset_mset)
    show "t \<in> {} \<or> Some t \<in> set (k_current w')" if "t < length (k_tasks w')" "is_running t w'" for t
      using that cpus_okD(4) [OF cp, of t] st(6) [of t] unfolding less cs by auto
    show "Some t \<in> set (k_idle w')" if "t < length (k_tasks w')" "ti_is_idle (task_at t w')" for t
      using that cpus_okD(5) [OF cp, of t] st(1) [of t] unfolding less cs by auto
    show "(d \<notin> {} \<longrightarrow> is_running t w') \<and> k_idle w' ! d \<noteq> None \<and> (ti_is_idle (task_at t w') \<longrightarrow> k_idle w' ! d = Some t)"
      if a: "d < length (k_current w')" "k_current w' ! d = Some t" for d t
    proof (cases "d = c")
      case True
      then show ?thesis using a k(6,7) c(1) ci st(8) x(1) by simp
    next
      case False
      then have a': "d < length (k_current w)" "k_current w ! d = Some t" using a k(6) by simp_all
      then have "t < ?t" using cv(1) nth_mem by metis
      then show ?thesis using cpus_okD(6-8) [OF cp a'] st(1,6) [of t] k(7) False by auto
    qed
    show "ti_is_idle (task_at i w') \<and> (is_running i w' \<or> is_ready i w')" if "Some i \<in> set (k_idle w')" for i
      using that cv(2) [of i] cpus_okD(9,10) [OF cp, of i] st(1,5,6) [of i] st(2,8) x(1,2) unfolding cs by auto
  qed
  moreover have "objs_ok w'"
    using m st(1,2) x(4) k(2,3) unfolding rq_mid_def objs_ok_def less by (auto simp: less_Suc_eq)
  ultimately show ?thesis by (simp add: rq_mid_def)
qed

lemma init_secondary_ok:
  assumes m: "mid {} {} {#} w" and c: "c < length (k_current w)" "k_current w ! c = None" "k_idle w ! c = None"
  shows "\<exists>w'. rq_init_secondary GA c w = Ret w' \<and> mid {} {} {#} w' \<and> (\<exists>t. k_current w' = (k_current w)[c := Some t])"
proof -
  let ?x = "(fst (new_common (k_ids w) ''idle'' w))\<lparr>ti_is_init := True, ti_is_idle := True, ti_state := Running, ti_strong := 2\<rparr>"
  obtain w' where w': "rq_init_secondary GA c w = Ret w'" "k_tasks w' = k_tasks w @ [?x]" "k_wqs w' = k_wqs w @ [[]]" "k_timers w' = k_timers w" "k_sched w' = k_sched w"
      "k_exited w' = k_exited w" "k_current w' = (k_current w)[c := Some (length (k_tasks w))]" "k_idle w' = (k_idle w)[c := Some (length (k_tasks w))]"
    using c(3) by (simp add: rq_init_secondary_def task_new_init_def task_id_new_def new_common_def wait_queue_new_def arc_new_def arc_clone_def
        set_state_def set_task_def task_at_def init_current_def Let_def)
  have "mid {} {} {#} w'" by (rule mid_secondary [OF m c, where x = ?x]) (use w' in \<open>simp_all add: new_common_def wait_queue_new_def\<close>)
  then show ?thesis using w'(1,7) by blast
qed

end

end
