(* ===== verification/AxTaskCalls.thy ===== *)
theory AxTaskCalls
  imports AxTaskNew
begin

text \<open>
  The system as a whole: its CPUs make calls of axtask, one critical section after the other and in any order. Every state that
  is reached satisfies the invariant of the run queue, and every call that meets its precondition comes back: no assertion of
  the module fails, whatever the scheduler. On top of it, what the calls do to the tasks that wait.
\<close>

section \<open>The calls\<close>

datatype ('s, 'g) call =
    Yield
  | Wait nat
  | WaitUntil nat "('s, 'g) Kernel \<Rightarrow> bool"
  | Alarm TimeValue TimeValue
  | CancelEvents nat
  | NotifyOne nat bool
  | NotifyAll nat bool
  | NotifyTask nat bool tref
  | SleepUntil TimeValue TimeValue
  | SetPriority int
  | Exit u32
  | TimerIrq "nat \<Rightarrow> TimeValue"
  | Spawn usize string usize
  | GcRound
  | NewWaitQueue
  | CloneRef tref
  | DropRefOf tref

text \<open>The state after a call, or none when the system is shut down.\<close>

definition state_of :: "('a \<times> 'w) outcome option \<Rightarrow> 'w option outcome option" where
  "state_of r = map_option (\<lambda>out. out_then out (\<lambda>(_, w). Ret (Some w))) r"

fun do_call :: "(tref, 's) BaseScheduler \<Rightarrow> 'g GlobalAllocIf \<Rightarrow> nat \<Rightarrow> ('s, 'g) call \<Rightarrow> ('s, 'g) Kernel
    \<Rightarrow> ('s, 'g) Kernel option outcome option" where
  "do_call B GA c Yield w = state_of (yield_now B GA c w)"
| "do_call B GA c (Wait q) w = state_of (wq_block B GA c q w)"
| "do_call B GA c (WaitUntil q condition) w = state_of (wait_until_once B GA c q condition w)"
| "do_call B GA c (Alarm now dur) w = state_of (wait_timeout_alarm B GA c now dur w)"
| "do_call B GA c (CancelEvents q) w =
     (case current c w of Panic \<Rightarrow> Some Panic | Ret cur \<Rightarrow> state_of (cancel_events B GA c q cur w))"
| "do_call B GA c (NotifyOne q resched) w = state_of (notify_one B GA c q resched w)"
| "do_call B GA c (NotifyAll q resched) w = state_of (notify_all_once B GA c q resched w)"
| "do_call B GA c (NotifyTask q resched t) w = state_of (notify_task B GA c q resched t w)"
| "do_call B GA c (SleepUntil now ddl) w = state_of (sleep_until B GA c now ddl w)"
| "do_call B GA c (SetPriority prio) w = state_of (set_priority_now B GA c prio w)"
| "do_call B GA c (Exit code) w = exit_task B GA c code w"
| "do_call B GA c (TimerIrq clock) w = state_of (handle_irq B GA c clock w)"
| "do_call B GA c (Spawn f name sz) w = state_of (spawn_raw B GA c f name sz w)"
| "do_call B GA c GcRound w = state_of (gc_once B GA c w)"
| "do_call B GA c NewWaitQueue w = Some (Ret (Some (snd (wait_queue_new w))))"
| "do_call B GA c (CloneRef t) w = Some (Ret (Some (arc_clone t w)))"
| "do_call B GA c (DropRefOf t) w = Some (out_then (arc_drop GA t w) (\<lambda>w. Ret (Some w)))"

text \<open>
  When a call may be made: an idle task does not block, sleep or exit; a task that blocks holds no spin lock; a wait queue
  exists; a clock does not go back; the name of a new task is not that of the idle tasks; a reference that is dropped is not
  one that the kernel holds.
\<close>

fun may_call :: "('s \<Rightarrow> tref set) \<Rightarrow> tref \<Rightarrow> ('s, 'g) call \<Rightarrow> ('s, 'g) Kernel \<Rightarrow> bool" where
  "may_call queued cur (Wait q) w \<longleftrightarrow> q < length (k_wqs w) \<and> \<not> ti_is_idle (task_at cur w) \<and> can_preempt 0 cur w"
| "may_call queued cur (WaitUntil q condition) w \<longleftrightarrow> q < length (k_wqs w) \<and> \<not> ti_is_idle (task_at cur w) \<and> can_preempt 0 cur w"
| "may_call queued cur (CancelEvents q) w \<longleftrightarrow> q < length (k_wqs w)"
| "may_call queued cur (NotifyOne q resched) w \<longleftrightarrow> q < length (k_wqs w)"
| "may_call queued cur (NotifyAll q resched) w \<longleftrightarrow> q < length (k_wqs w)"
| "may_call queued cur (NotifyTask q resched t) w \<longleftrightarrow> q < length (k_wqs w)"
| "may_call queued cur (SleepUntil now ddl) w \<longleftrightarrow> \<not> ti_is_idle (task_at cur w)"
| "may_call queued cur (Exit code) w \<longleftrightarrow> \<not> ti_is_idle (task_at cur w)"
| "may_call queued cur (TimerIrq clock) w \<longleftrightarrow> mono clock"
| "may_call queued cur (Spawn f name sz) w \<longleftrightarrow> name \<noteq> ''idle''"
| "may_call queued cur (CloneRef t) w \<longleftrightarrow> t < length (k_tasks w)"
| "may_call queued cur (DropRefOf t) w \<longleftrightarrow> t < length (k_tasks w) \<and> count (held queued w) t < strong_count t w"
| "may_call queued cur _ w \<longleftrightarrow> True"

text \<open>The calls that can end in a panic of their own: the stack of a new task is not allocated, a deadline is beyond the range of times.\<close>

fun may_panic :: "('s, 'g) call \<Rightarrow> bool" where
  "may_panic (Spawn f name sz) = True"
| "may_panic (Alarm now dur) = (duration_add now dur = Panic)"
| "may_panic _ = False"

text \<open>The states that are reached from the start of the system.\<close>

inductive reached :: "(tref, 's) BaseScheduler \<Rightarrow> 'g GlobalAllocIf \<Rightarrow> ('s \<Rightarrow> tref set) \<Rightarrow> 's \<Rightarrow> ('s, 'g) Kernel \<Rightarrow> bool"
  for B GA queued s0 where
  reached_init: "c < n \<Longrightarrow> init_scheduler B s0 GA run_idle gc_entry TASK_STACK_SIZE c (boot_kernel n g) = Ret w \<Longrightarrow> reached B GA queued s0 w"
| reached_secondary: "reached B GA queued s0 w \<Longrightarrow> c < length (k_current w) \<Longrightarrow> k_current w ! c = None \<Longrightarrow>
    rq_init_secondary GA c w = Ret w' \<Longrightarrow> reached B GA queued s0 w'"
| reached_call: "reached B GA queued s0 w \<Longrightarrow> c < length (k_current w) \<Longrightarrow> k_current w ! c = Some cur \<Longrightarrow> may_call queued cur a w \<Longrightarrow>
    do_call B GA c a w = Some (Ret (Some w')) \<Longrightarrow> reached B GA queued s0 w'"

section \<open>Every call keeps the invariant\<close>

lemma state_of_simps [simp]:
  "state_of (Some Panic) = Some Panic" "state_of (Some (Ret (x, w))) = Some (Ret (Some w))"
  by (simp_all add: state_of_def)

context run_queue
begin

lemma mid_new_wait_queue: "mid E R L w \<Longrightarrow> mid E R L (snd (wait_queue_new w))"
  by (rule mid_move, assumption) (auto simp: wait_queue_new_def held_def dest: mid_timers)

lemma drop_ref_ok:
  assumes m: "mid {} {} {#} w" and t: "t < length (k_tasks w)" "count (held queued w) t < strong_count t w"
  shows "\<exists>w'. arc_drop GA t w = Ret w' \<and> mid {} {} {#} w' \<and> k_current w' = k_current w"
proof -
  have "count (held queued w + {#t#}) u \<le> owned w u" for u
    using m t unfolding rq_mid_def refs_ok_def by (cases "u = t") (auto simp: owned_def)
  then have "mid {} {} (add_mset t {#}) w" using m by (simp add: rq_mid_def refs_ok_def)
  then show ?thesis using drop_held_ok [of "{}" "{}" "[t]" "{#}" w GA] by (auto simp: drop_frame_def)
qed

lemma good_leaves: "leaves L c w w' \<Longrightarrow> good c w w'"
  by (auto simp: leaves_ok_def rq_mid_def refs_ok_def intro: order_trans [rotated])

lemma same_good: "mid {} {} {#} w' \<Longrightarrow> k_current w' = k_current w \<Longrightarrow> k_current w ! c = Some cur \<Longrightarrow> good c w w'"
  using current_update_id [of w c cur] by (auto simp: leaves_ok_def intro: exI [of _ cur])

lemma do_call_ok:
  assumes m: "mid {} {} {#} w" and c: "c < length (k_current w)" "k_current w ! c = Some cur" and a: "may_call queued cur a w"
  shows "(do_call B GA c a w = Some Panic \<and> may_panic a) \<or> (do_call B GA c a w = Some (Ret None) \<and> (\<exists>code. a = Exit code)) \<or>
    (\<exists>w'. do_call B GA c a w = Some (Ret (Some w')) \<and> good c w w')"
proof (cases a)
  case (Wait q)
  then show ?thesis using wq_block_ok [OF m c, of q GA] a by auto
next
  case (WaitUntil q condition)
  then show ?thesis using wait_until_once_ok [OF m c, of q GA condition] a by auto
next
  case (Alarm now dur)
  then show ?thesis using set_alarm_ok [OF m c, of now dur GA] by auto
next
  case (CancelEvents q)
  then show ?thesis using cancel_events_ok [OF m c, of q GA] a current_eq [OF c] by auto
next
  case (NotifyOne q resched)
  then show ?thesis using notify_one_ok(1) [OF m c, of q GA resched] a by auto
next
  case (NotifyAll q resched)
  then show ?thesis using notify_one_ok(2) [OF m c, of q GA resched] a by auto
next
  case (NotifyTask q resched t)
  then show ?thesis using notify_task_ok [OF m c, of q GA resched t] a by auto
next
  case (SleepUntil now ddl)
  then show ?thesis using sleep_until_ok [OF m c, of GA now ddl] a by auto
next
  case (SetPriority prio)
  then show ?thesis using set_priority_now_ok [OF m c, of GA prio] by auto
next
  case (Exit code)
  then show ?thesis using exit_task_ok [OF m c, of GA code] a by (auto split: if_splits)
next
  case (TimerIrq clock)
  obtain l where "k_timers w = Some l" using mid_timers [OF m] by blast
  then show ?thesis using handle_irq_ok [OF m c, of clock l GA] TimerIrq a by auto
next
  case (Spawn f name sz)
  then show ?thesis using spawn_raw_ok [OF m c, of name GA f sz] a good_leaves [of "{#length (k_tasks w)#}" c w] by auto
next
  case NewWaitQueue
  then show ?thesis using same_good [OF mid_new_wait_queue [OF m] _ c(2)] by (simp add: wait_queue_new_def)
next
  case (CloneRef t)
  then show ?thesis using same_good [OF mid_forget [OF mid_clone [OF m, of t]] _ c(2)] a by (simp add: arc_clone_def)
next
  case (DropRefOf t)
  then show ?thesis using drop_ref_ok [OF m, of t GA] same_good [OF _ _ c(2)] a by fastforce
qed (use yield_now_ok [OF m c, of GA] gc_once_ok [OF m c, of GA] a in auto)

lemma reached_ok:
  assumes "reached B GA queued s0 w" "sinv s0" "queued s0 = {}"
  shows "mid {} {} {#} w"
  using assms
proof (induction rule: reached.induct)
  case (reached_init c n run_idle gc_entry TASK_STACK_SIZE g w)
  then show ?case using init_scheduler_ok [of c n s0 GA run_idle gc_entry TASK_STACK_SIZE g] by (auto simp: rq_inv_def)
next
  case (reached_secondary w c w')
  have "k_idle w ! c = None"
    using reached_secondary.hyps(4) by (auto simp: rq_init_secondary_def task_new_init_def task_id_new_def new_common_def wait_queue_new_def
        arc_new_def set_state_def Let_def split: if_splits)
  then show ?case using reached_secondary init_secondary_ok [of w c GA] by auto
next
  case (reached_call w c cur a w')
  then show ?case using do_call_ok [of w c cur a GA] by (auto simp: leaves_ok_def)
qed

end


section \<open>The schedulers of the crate\<close>

interpretation fifo_rq: run_queue FIFO fifo_inv fifo_queued
  by (rule run_queue.intro) (rule fifo.base_scheduler_axioms)

interpretation rr_rq: run_queue "RR S" "\<lambda>s. distinct (rr_queue s)" "\<lambda>s. set (rr_queue s)"
  by (rule run_queue.intro) (rule rr.base_scheduler_axioms)

section \<open>Properties\<close>

text \<open>An allocator that hands out one address after the other, and a system with one CPU under the round-robin scheduler.\<close>

definition demo_alloc :: "usize GlobalAllocIf" where
  "demo_alloc = \<lparr>gl_alloc = (\<lambda>l g. Ret (g, g + lay_size l)), gl_dealloc = (\<lambda>p l g. g)\<rparr>"

definition demo_task :: "u64 \<Rightarrow> string \<Rightarrow> usize option \<Rightarrow> TaskState \<Rightarrow> TaskStack option \<Rightarrow> nat \<Rightarrow> TaskInner" where
  "demo_task tid name entry st stack q =
     \<lparr>ti_id = tid, ti_name = name, ti_is_idle = (name = ''idle''), ti_is_init = (name = ''main''), ti_entry = entry, ti_state = st,
      ti_in_wait_queue = False, ti_in_timer_list = False, ti_need_resched = False, ti_preempt_disable_count = 0, ti_exit_code = 0,
      ti_wait_for_exit = q, ti_kstack = stack,
      ti_ctx = (case stack of None \<Rightarrow> CtxNew | Some s \<Rightarrow> CtxInit (task_stack_top s)), ti_strong = 1\<rparr>"

definition demo_kernel :: "(nat RRScheduler, usize) Kernel" where
  "demo_kernel =
     \<lparr>k_ids = 4,
      k_tasks = [demo_task 1 ''idle'' (Some 0x1000) Ready (Some \<lparr>ts_ptr = 0x100000, ts_layout = \<lparr>lay_size = 0x1000, lay_align = 16\<rparr>\<rparr>) 1,
                 demo_task 2 ''main'' None Running None 2,
                 demo_task 3 ''gc'' (Some 0x2000) Ready (Some \<lparr>ts_ptr = 0x101000, ts_layout = \<lparr>lay_size = 0x40000, lay_align = 16\<rparr>\<rparr>) 3],
      k_wqs = [[], [], [], []], k_timers = Some tl_new, k_sched = Some \<lparr>rr_queue = [2], time_slices = (\<lambda>_. 5)\<rparr>, k_exited = [],
      k_current = [Some 1], k_idle = [Some 0], k_heap = 0x141000\<rparr>"

lemma demo_stack:
  "task_stack_alloc demo_alloc (align_up_4k 4096) 0x100000 = Ret (\<lparr>ts_ptr = 0x100000, ts_layout = \<lparr>lay_size = 0x1000, lay_align = 16\<rparr>\<rparr>, 0x101000)"
  "task_stack_alloc demo_alloc (align_up_4k 0x40000) 0x101000 = Ret (\<lparr>ts_ptr = 0x101000, ts_layout = \<lparr>lay_size = 0x40000, lay_align = 16\<rparr>\<rparr>, 0x141000)"
  by code_simp+

lemma demo_start:
  "init_scheduler (RR 5) (rr_new (\<lambda>_. 5)) demo_alloc 0x1000 0x2000 0x40000 0 (boot_kernel 1 0x100000) = Ret demo_kernel"
  using demo_stack
  by (simp add: init_scheduler_def rq_init_def task_new_def task_new_init_def rq_new_def task_id_new_def new_common_def wait_queue_new_def
          boot_kernel_def Let_def arc_new_def arc_clone_def set_state_def set_task_def task_at_def drop_all.simps(3) init_current_def timers_init_def
          RR_def rr_add_task_def rr_new_def demo_kernel_def demo_task_def)

lemma demo_reached: "reached (RR 5) demo_alloc (\<lambda>s. set (rr_queue s)) (rr_new (\<lambda>_. 5)) demo_kernel"
  by (rule reached_init [of 0 1, OF _ demo_start]) simp

lemma demo_rr: "run_queue (RR 5 :: (nat, nat RRScheduler) BaseScheduler) (\<lambda>s. distinct (rr_queue s)) (\<lambda>s. set (rr_queue s))"
  by (rule rr_rq.run_queue_axioms)

lemma demo_new: "distinct (rr_queue (rr_new (\<lambda>_. 5)))" "set (rr_queue (rr_new (\<lambda>_. 5))) = {}"
  by (simp_all add: rr_new_def)

lemma demo_current: "0 < length (k_current demo_kernel)" "k_current demo_kernel ! 0 = Some 1" "\<not> ti_is_idle (task_at 1 demo_kernel)"
    "can_preempt 0 1 demo_kernel" "k_timers demo_kernel = Some tl_new" "length (k_wqs demo_kernel) = 4"
  by (simp_all add: demo_kernel_def demo_task_def task_at_def can_preempt_def)

lemma demo_inv: "rq_inv (\<lambda>s. distinct (rr_queue s)) (\<lambda>s. set (rr_queue s)) demo_kernel"
  unfolding rq_inv_def by (rule run_queue.reached_ok [OF demo_rr demo_reached demo_new])

lemmas demo_state = demo_kernel_def demo_task_def set_task_def task_at_def

lemmas demo_rq = RR_def rr_add_task_def rr_put_prev_task_def rr_reset_time_slice_def rr_pick_next_task_def rr_task_tick_def rr_time_slice_def

lemmas demo_ops = guard_acquire_def current_may_uninit_def current_def disable_preempt_def is_running_def is_ready_def is_blocked_def can_preempt_def
  set_state_def set_preempt_pending_def set_in_wait_queue_def set_in_timer_list_def arc_clone_def strong_count_def drop_all.simps(3)
  sched_do_def sched_upd_def no_value_def with_lock_def with_rq_def timers_do_def rq_resched_def rq_switch_to_def set_current_def Let_def

definition demo_join :: "(nat RRScheduler, usize) Kernel" where
  "demo_join = demo_kernel\<lparr>
     k_tasks := [k_tasks demo_kernel ! 0,
       (k_tasks demo_kernel ! 1)\<lparr>ti_state := Blocked, ti_in_wait_queue := True, ti_preempt_disable_count := 1, ti_ctx := CtxSaved\<rparr>,
       (k_tasks demo_kernel ! 2)\<lparr>ti_state := Running, ti_ctx := CtxLive\<rparr>],
     k_wqs := [[], [], [], [1]], k_sched := Some \<lparr>rr_queue = [], time_slices = (\<lambda>_. 5)\<rparr>, k_current := [Some 2]\<rparr>"

lemma demo_join_eval: "wq_block (RR 5) demo_alloc 0 3 demo_kernel = Some (Ret ((), demo_join))"
  by (simp add: wq_block_def rq_block_current_def wq_push_def demo_ops demo_rq demo_state demo_join_def guard_release.simps)

definition demo_sleep :: "(nat RRScheduler, usize) Kernel" where
  "demo_sleep = demo_kernel\<lparr>
     k_tasks := [k_tasks demo_kernel ! 0,
       (k_tasks demo_kernel ! 1)\<lparr>ti_state := Blocked, ti_in_timer_list := True, ti_preempt_disable_count := 1, ti_ctx := CtxSaved\<rparr>,
       (k_tasks demo_kernel ! 2)\<lparr>ti_state := Running, ti_ctx := CtxLive\<rparr>],
     k_timers := Some \<lparr>events = [\<lparr>deadline = 10, event = 1\<rparr>]\<rparr>,
     k_sched := Some \<lparr>rr_queue = [], time_slices = (\<lambda>_. 5)\<rparr>, k_current := [Some 2]\<rparr>"

lemma demo_sleep_eval: "sleep_until (RR 5) demo_alloc 0 3 10 demo_kernel = Some (Ret ((), demo_sleep))"
  by (simp add: sleep_until_def rq_sleep_until_def set_alarm_def tl_set_def tl_new_def demo_ops demo_rq demo_state demo_sleep_def guard_release.simps)

definition demo_alarm :: "(nat RRScheduler, usize) Kernel" where
  "demo_alarm = demo_kernel\<lparr>
     k_tasks := (k_tasks demo_kernel)[1 := (k_tasks demo_kernel ! 1)\<lparr>ti_in_timer_list := True, ti_strong := 2\<rparr>],
     k_timers := Some \<lparr>events = [\<lparr>deadline = 10, event = 1\<rparr>]\<rparr>\<rparr>"

lemma demo_alarm_eval: "wait_timeout_alarm (RR 5) demo_alloc 0 3 7 demo_kernel = Some (Ret (10, demo_alarm))"
  by (simp add: wait_timeout_alarm_def duration_add_def set_alarm_wakeup_def set_alarm_def tl_set_def tl_new_def demo_ops demo_rq demo_state demo_alarm_def guard_release.simps)

definition demo_late :: "(nat RRScheduler, usize) Kernel" where
  "demo_late = demo_kernel\<lparr>k_sched := Some \<lparr>rr_queue = [2], time_slices = (\<lambda>_. 5)(1 := 4)\<rparr>\<rparr>"

lemma demo_late_events: "check_events (RR 5) demo_alloc 0 (\<lambda>_. 20) 0 (guard_acquire 0 demo_alarm) = Some (Ret ((), guard_acquire 0 demo_kernel))"
  unfolding check_events.simps [of _ _ _ _ 0] check_events.simps [of _ _ _ _ 1]
  by (simp add: demo_alarm_def wakeup_callback_def rq_unblock_task_def tl_expire_one_def heap_peek_def heap_pop_def tl_new_def check_events.simps [of _ _ _ _ "Suc 0"]
     demo_ops demo_rq demo_state guard_release.simps)

lemma demo_late_eval: "handle_irq (RR 5) demo_alloc 0 (\<lambda>_. 20) demo_alarm = Some (Ret ((), demo_late))"
  unfolding handle_irq_def on_timer_tick_def demo_late_events
  by (simp add: demo_late_def demo_alarm_def rq_scheduler_timer_tick_def wrap_isize_def demo_ops demo_rq demo_state guard_release.simps)

lemma demo_reached_join: "rq_inv (\<lambda>s. distinct (rr_queue s)) (\<lambda>s. set (rr_queue s)) demo_join"
  using run_queue.wq_block_ok [OF demo_rr demo_inv [unfolded rq_inv_def] demo_current(1,2), of 3 demo_alloc] demo_current(3,4,6) demo_join_eval
  by (simp add: leaves_ok_def rq_inv_def)

lemma demo_reached_sleep: "rq_inv (\<lambda>s. distinct (rr_queue s)) (\<lambda>s. set (rr_queue s)) demo_sleep"
  using run_queue.sleep_until_ok [OF demo_rr demo_inv [unfolded rq_inv_def] demo_current(1-3), of demo_alloc 3 10] demo_sleep_eval
  by (simp add: leaves_ok_def rq_inv_def)

lemma run_queue_lost_alarm:
  assumes r: "run_queue B sinv queued" and m: "rq_mid sinv queued {} {} {#} w" and c: "c < length (k_current w)" "k_current w ! c = Some cur"
    and l: "k_timers w = Some l" "\<forall>d. (d, cur) \<notin># pending l"
    and a: "wait_timeout_alarm B GA c now dur w = Some (Ret (ddl, w1))"
    and i: "handle_irq B GA c clock w1 = Some (Ret ((), w2))" "mono clock" "ddl \<le> clock 0"
  shows "rq_mid sinv queued {} {} {#} w2 \<and> c < length (k_current w2) \<and> (\<exists>l2. k_timers w2 = Some l2 \<and> (\<forall>d. (d, cur) \<notin># pending l2))"
proof -
  obtain l1 where w1: "leaves_ok sinv queued {#} c w w1" "ddl = now + dur" "k_timers w1 = Some l1" "pending l1 = add_mset (ddl, cur) (pending l)"
    using run_queue.set_alarm_ok [OF r m c, of now dur GA] a l(1) by auto
  obtain n where c1: "rq_mid sinv queued {} {} {#} w1" "c < length (k_current w1)" "k_current w1 ! c = Some n"
    using run_queue.leaves_current [OF r w1(1) c(1)] by blast
  obtain k where w2: "leaves_ok sinv queued {#} c w1 w2" "expired l1 (clock k) w1 w2"
    using run_queue.handle_irq_ok [OF r c1 i(2) w1(3), of GA] i(1) by auto
  have "ddl \<le> clock k" using i(3) monoD [OF i(2), of 0 k] by simp
  then show ?thesis using w2 w1(4) l(2) run_queue.leaves_current [OF r w2(1) c1(2)] by (auto simp: expired_def)
qed

text \<open>
  C1: in every state that the system reaches, under any scheduler that meets its contract, each CPU that has been started runs a task of its
  own, the scheduler holds exactly the ready tasks that are not idle, no other task is running, and every reference that the kernel holds is counted.
\<close>

theorem reached_invariant:
  assumes "run_queue B sinv queued" "sinv s0" "queued s0 = {}" "reached B GA queued s0 w"
  shows "rq_inv sinv queued w"
  unfolding rq_inv_def by (rule run_queue.reached_ok [OF assms(1,4,2,3)])

theorem reached_invariant_witness: "rq_inv (\<lambda>s. distinct (rr_queue s)) (\<lambda>s. set (rr_queue s)) demo_kernel"
  by (rule reached_invariant [OF demo_rr demo_new demo_reached])



text \<open>
  C30: when a task other than the first one exits, it ends up exited with its exit code and among the exited tasks, and all tasks
  that are blocked in its wait queue (those that join it) are not blocked any more.
\<close>

theorem exit_wakes_joiners:
  assumes "run_queue B sinv queued" "rq_inv sinv queued w" "c < length (k_current w)" "k_current w ! c = Some cur"
    and "\<not> ti_is_idle (task_at cur w)" "\<not> ti_is_init (task_at cur w)"
    and "distinct (k_wqs w ! ti_wait_for_exit (task_at cur w))" "\<forall>u \<in> set (k_wqs w ! ti_wait_for_exit (task_at cur w)). is_blocked u w"
  shows "\<exists>w'. exit_task B GA c code w = Some (Ret (Some w')) \<and> ti_state (task_at cur w') = Exited \<and> join_result cur w' = Some code \<and>
    cur \<in> set (k_exited w') \<and> (\<forall>u \<in> set (k_wqs w ! ti_wait_for_exit (task_at cur w)). \<not> is_blocked u w')"
  using run_queue.exit_task_ok [OF assms(1) assms(2) [unfolded rq_inv_def] assms(3-5), of GA code] assms(6-8) by (auto simp: join_result_def)

theorem exit_wakes_joiners_witness:
  "is_blocked 1 demo_join \<and> (\<exists>w'. exit_task (RR 5) demo_alloc 0 7 demo_join = Some (Ret (Some w')) \<and> join_result 2 w' = Some 7 \<and> \<not> is_blocked 1 w')"
proof -
  have k: "0 < length (k_current demo_join)" "k_current demo_join ! 0 = Some 2" "\<not> ti_is_idle (task_at 2 demo_join)" "\<not> ti_is_init (task_at 2 demo_join)"
    "k_wqs demo_join ! ti_wait_for_exit (task_at 2 demo_join) = [1]" "is_blocked 1 demo_join"
    by (simp_all add: demo_join_def demo_state is_blocked_def)
  show ?thesis using exit_wakes_joiners [OF demo_rr demo_reached_join k(1-4), of demo_alloc 7] k(5,6) by auto
qed



text \<open>
  C32: \<open>wait_timeout\<close> sets its alarm before it blocks. If the alarm goes off in between, the wake-up finds a task that is not
  blocked and is lost: the task then blocks in the wait queue without any alarm, and no timer wakes it up.
\<close>

theorem wait_timeout_lost_alarm:
  assumes "run_queue B sinv queued" "rq_inv sinv queued w" "c < length (k_current w)" "k_current w ! c = Some cur"
    and "k_timers w = Some l" "\<forall>d. (d, cur) \<notin># pending l"
    and "wait_timeout_alarm B GA c now dur w = Some (Ret (ddl, w1))"
    and "handle_irq B GA c clock w1 = Some (Ret ((), w2))" "mono clock" "ddl \<le> clock 0"
    and "k_current w2 ! c = Some cur" "q < length (k_wqs w2)" "\<not> ti_is_idle (task_at cur w2)" "can_preempt 0 cur w2"
  shows "\<exists>w3 l3. wq_block B GA c q w2 = Some (Ret ((), w3)) \<and> is_blocked cur w3 \<and> k_timers w3 = Some l3 \<and> (\<forall>d. (d, cur) \<notin># pending l3)"
proof -
  note r = assms(1)
  obtain l2 where m2: "rq_mid sinv queued {} {} {#} w2" "c < length (k_current w2)" "k_timers w2 = Some l2" "\<forall>d. (d, cur) \<notin># pending l2"
    using run_queue_lost_alarm [OF r assms(2) [unfolded rq_inv_def] assms(3-10)] by blast
  let ?v = "wq_push q cur (set_state Blocked cur (guard_acquire c w2))"
  obtain w3 where w3: "wq_block B GA c q w2 = Some (Ret ((), w3))" "sched_frame c ?v w3"
    using run_queue.wq_block_ok [OF r m2(1,2) assms(11-14), of GA] by blast
  note e = run_queue.entered [OF r m2(1,2) assms(11)]
  have cl: "cur < length (k_tasks w2)" using run_queue.mid_current_valid [OF r m2(1,2) assms(11)] .
  have v: "k_timers ?v = Some l2" "cur < length (k_tasks ?v)" using e(6,8) m2(3) cl by (simp_all add: wq_push_eq set_in_wait_queue_def set_state_def)
  have "is_blocked cur ?v"
    using cl e(8) by (simp add: is_blocked_def wq_push_eq set_in_wait_queue_def set_state_def task_at_def set_task_def)
  then have "is_blocked cur w3" using sched_frame_blocked [OF w3(2) v(2)] by simp
  then show ?thesis using w3 v(1) m2(4) by (auto simp: sched_frame_def)
qed

theorem wait_timeout_lost_alarm_witness:
  "\<exists>w3 l3. wq_block (RR 5) demo_alloc 0 3 demo_late = Some (Ret ((), w3)) \<and> is_blocked 1 w3 \<and> k_timers w3 = Some l3 \<and> (\<forall>d. (d, 1) \<notin># pending l3)"
proof -
  have k: "k_current demo_late ! 0 = Some 1" "3 < length (k_wqs demo_late)" "\<not> ti_is_idle (task_at 1 demo_late)" "can_preempt 0 1 demo_late"
    by (simp_all add: demo_late_def demo_state can_preempt_def)
  have "mono (\<lambda>_. 20 :: nat)" by (simp add: mono_def)
  then show ?thesis
    using wait_timeout_lost_alarm [OF demo_rr demo_inv demo_current(1,2,5) _ demo_alarm_eval demo_late_eval _ _ k] by simp
qed

end
