(* ===== verification/AxSync.thy ===== *)
theory AxSync
  imports AxTaskCalls "HOL-Library.Sublist"
begin

text \<open>
  Model of the sleeping mutex of the module \<open>axsync\<close> (src/modules/axsync/src/mutex.rs) over the model of axtask. The atomic
  operations on \<open>owner_id\<close> and the critical sections of the run queue are the steps, and everything else that the system
  does may happen in between. The theorem of the theory is mutual exclusion: there is at most one guard.
\<close>

section \<open>The mutex\<close>

record 'd Mutex =
  mx_wq :: nat
  mx_owner_id :: u64
  mx_data :: 'd

definition mutex_new :: "'d \<Rightarrow> ('s, 'g) Kernel \<Rightarrow> 'd Mutex \<times> ('s, 'g) Kernel" where
  "mutex_new data w = (let (q, w) = wait_queue_new w in (\<lparr>mx_wq = q, mx_owner_id = 0, mx_data = data\<rparr>, w))"

definition mutex_is_locked :: "'d Mutex \<Rightarrow> bool" where
  "mutex_is_locked m \<longleftrightarrow> mx_owner_id m \<noteq> 0"

text \<open>\<open>AtomicU64::compare_exchange\<close>; the weak form may also fail when the values are equal (\<open>spurious\<close>).\<close>

definition compare_exchange :: "bool \<Rightarrow> u64 \<Rightarrow> u64 \<Rightarrow> u64 \<Rightarrow> (u64, u64) result \<times> u64" where
  "compare_exchange spurious expected new v = (if v = expected \<and> \<not> spurious then (Ok v, new) else (Err v, v))"

text \<open>
  One round of the loop of \<open>lock\<close>, up to the end of one round of the wait in it, with the value True when the task has the guard.
\<close>

definition mutex_lock_once :: "(tref, 's) BaseScheduler \<Rightarrow> 'g GlobalAllocIf \<Rightarrow> nat \<Rightarrow> bool \<Rightarrow> 'd Mutex \<Rightarrow> ('s, 'g) Kernel
    \<Rightarrow> (bool \<times> 'd Mutex \<times> ('s, 'g) Kernel) outcome option" where
  "mutex_lock_once B GA c spurious m w =
     (case current c w of
        Panic \<Rightarrow> Some Panic
      | Ret cur \<Rightarrow>
          let current_id = ti_id (task_at cur w)
          in case compare_exchange spurious 0 current_id (mx_owner_id m) of
               (Inr _, v) \<Rightarrow> Some (Ret (True, m\<lparr>mx_owner_id := v\<rparr>, w))
             | (Inl owner_id, _) \<Rightarrow>
                 if owner_id = current_id then Some Panic
                 else Option.bind (wait_until_once B GA c (mx_wq m) (\<lambda>_. \<not> mutex_is_locked m) w) (\<lambda>out.
                        Some (out_then out (\<lambda>(_, w). Ret (False, m, w)))))"

definition mutex_try_lock :: "nat \<Rightarrow> 'd Mutex \<Rightarrow> ('s, 'g) Kernel \<Rightarrow> (bool \<times> 'd Mutex) outcome" where
  "mutex_try_lock c m w =
     out_then (current c w) (\<lambda>cur.
       case compare_exchange False 0 (ti_id (task_at cur w)) (mx_owner_id m) of
         (Inr _, v) \<Rightarrow> Ret (True, m\<lparr>mx_owner_id := v\<rparr>)
       | (Inl _, _) \<Rightarrow> Ret (False, m))"

text \<open>\<open>force_unlock\<close>: the exchange with its check, and the whole, which then wakes up a waiting task.\<close>

definition mutex_release :: "nat \<Rightarrow> 'd Mutex \<Rightarrow> ('s, 'g) Kernel \<Rightarrow> 'd Mutex outcome" where
  "mutex_release c m w =
     out_then (current c w) (\<lambda>cur.
       if mx_owner_id m = ti_id (task_at cur w) then Ret (m\<lparr>mx_owner_id := 0\<rparr>) else Panic)"

definition mutex_force_unlock :: "(tref, 's) BaseScheduler \<Rightarrow> 'g GlobalAllocIf \<Rightarrow> nat \<Rightarrow> 'd Mutex \<Rightarrow> ('s, 'g) Kernel
    \<Rightarrow> ('d Mutex \<times> ('s, 'g) Kernel) outcome option" where
  "mutex_force_unlock B GA c m w =
     (case mutex_release c m w of
        Panic \<Rightarrow> Some Panic
      | Ret m \<Rightarrow> Option.bind (notify_one B GA c (mx_wq m) True w) (\<lambda>out. Some (out_then out (\<lambda>(_, w). Ret (m, w)))))"

text \<open>Access to the data: \<open>Deref\<close> and \<open>DerefMut\<close> of the guard, \<open>get_mut\<close> and \<open>into_inner\<close>.\<close>

definition guard_deref :: "'d Mutex \<Rightarrow> 'd" where
  "guard_deref m = mx_data m"

definition guard_deref_mut :: "('d \<Rightarrow> 'd) \<Rightarrow> 'd Mutex \<Rightarrow> 'd Mutex" where
  "guard_deref_mut f m = m\<lparr>mx_data := f (mx_data m)\<rparr>"

section \<open>The mutex in the running system\<close>

text \<open>
  The states of the system with a mutex and the tasks \<open>G\<close> that have a guard. Any call of axtask may happen between two
  operations on the mutex.
\<close>

inductive mutex_run :: "(tref, 's) BaseScheduler \<Rightarrow> 'g GlobalAllocIf \<Rightarrow> ('s \<Rightarrow> tref set) \<Rightarrow> 's \<Rightarrow> ('s, 'g) Kernel \<Rightarrow> 'd Mutex \<Rightarrow> tref multiset \<Rightarrow> bool"
  for B GA queued s0 where
  run_new: "reached B GA queued s0 w \<Longrightarrow> c < length (k_current w) \<Longrightarrow> k_current w ! c = Some cur \<Longrightarrow> mutex_new data w = (m, w') \<Longrightarrow>
    mutex_run B GA queued s0 w' m {#}"
| run_secondary: "mutex_run B GA queued s0 w m G \<Longrightarrow> c < length (k_current w) \<Longrightarrow> k_current w ! c = None \<Longrightarrow>
    rq_init_secondary GA c w = Ret w' \<Longrightarrow> mutex_run B GA queued s0 w' m G"
| run_call: "mutex_run B GA queued s0 w m G \<Longrightarrow> c < length (k_current w) \<Longrightarrow> k_current w ! c = Some cur \<Longrightarrow> may_call queued cur a w \<Longrightarrow>
    do_call B GA c a w = Some (Ret (Some w')) \<Longrightarrow> mutex_run B GA queued s0 w' m G"
| run_lock: "mutex_run B GA queued s0 w m G \<Longrightarrow> c < length (k_current w) \<Longrightarrow> k_current w ! c = Some cur \<Longrightarrow>
    may_call queued cur (Wait (mx_wq m)) w \<Longrightarrow> mutex_lock_once B GA c spurious m w = Some (Ret (got, m', w')) \<Longrightarrow>
    mutex_run B GA queued s0 w' m' (if got then add_mset cur G else G)"
| run_try_lock: "mutex_run B GA queued s0 w m G \<Longrightarrow> c < length (k_current w) \<Longrightarrow> k_current w ! c = Some cur \<Longrightarrow>
    mutex_try_lock c m w = Ret (got, m') \<Longrightarrow> mutex_run B GA queued s0 w m' (if got then add_mset cur G else G)"
| run_access: "mutex_run B GA queued s0 w m G \<Longrightarrow> c < length (k_current w) \<Longrightarrow> k_current w ! c = Some cur \<Longrightarrow> cur \<in># G \<Longrightarrow>
    mutex_run B GA queued s0 w (guard_deref_mut f m) G"
| run_unlock: "mutex_run B GA queued s0 w m G \<Longrightarrow> c < length (k_current w) \<Longrightarrow> k_current w ! c = Some cur \<Longrightarrow> cur \<in># G \<Longrightarrow>
    mutex_release c m w = Ret m' \<Longrightarrow> mutex_run B GA queued s0 w m' (G - {#cur#})"

section \<open>Task ids do not change\<close>

definition ids :: "('s, 'g) Kernel \<Rightarrow> u64 list" where
  "ids w = map ti_id (k_tasks w)"

lemma ids_set_task [simp]: "(\<And>x. ti_id (f x) = ti_id x) \<Longrightarrow> ids (set_task t f w) = ids w"
  by (cases "t < length (k_tasks w)") (auto simp: ids_def set_task_def task_at_def nth_list_update intro!: nth_equalityI)

lemma ids_simps [simp]:
  "ids (set_state x t w) = ids w" "ids (set_in_wait_queue b t w) = ids w" "ids (set_in_timer_list b t w) = ids w"
  "ids (set_preempt_pending b t w) = ids w" "ids (disable_preempt t w) = ids w" "ids (arc_clone t w) = ids w"
  "ids (w\<lparr>k_wqs := q\<rparr>) = ids w" "ids (w\<lparr>k_timers := l\<rparr>) = ids w" "ids (w\<lparr>k_sched := s\<rparr>) = ids w" "ids (w\<lparr>k_exited := e\<rparr>) = ids w"
  "ids (w\<lparr>k_current := cs\<rparr>) = ids w" "ids (w\<lparr>k_idle := cs\<rparr>) = ids w" "ids (w\<lparr>k_heap := g\<rparr>) = ids w" "ids (w\<lparr>k_ids := n\<rparr>) = ids w"
  by (simp_all add: set_state_def set_in_wait_queue_def set_in_timer_list_def set_preempt_pending_def disable_preempt_def arc_clone_def)
    (simp_all add: ids_def)

lemma ids_guard_acquire [simp]: "ids (guard_acquire c w) = ids w"
  by (simp add: guard_acquire_def split: option.splits)

lemma out_then_ret: "out_then r f = Ret y \<longleftrightarrow> (\<exists>x. r = Ret x \<and> f x = Ret y)"
  by (cases r) simp_all

lemma bind_ret:
  "Option.bind r (\<lambda>out. case out of Panic \<Rightarrow> Some Panic | Ret x \<Rightarrow> f x) = Some (Ret y) \<longleftrightarrow> (\<exists>x. r = Some (Ret x) \<and> f x = Some (Ret y))"
  "Option.bind r (\<lambda>out. Some (out_then out g)) = Some (Ret y) \<longleftrightarrow> (\<exists>x. r = Some (Ret x) \<and> g x = Ret y)"
  by (cases r; auto simp: out_then_ret split: outcome.splits)+

lemma ids_drop_all: "drop_all GA xs w = Ret w' \<Longrightarrow> ids w' = ids w"
proof (induction GA xs w rule: drop_all.induct)
  case (3 GA t xs w)
  then show ?case by (simp add: drop_all.simps(3) Let_def split: if_splits)
qed simp_all

lemma ids_sched: "sched_do f w = Ret (x, w') \<Longrightarrow> ids w' = ids w" "sched_upd g w = Ret w' \<Longrightarrow> ids w' = ids w"
  by (auto simp: sched_do_def sched_upd_def out_then_ret split: option.splits)

lemma ids_switch: "rq_switch_to GA c p n w = Ret w' \<Longrightarrow> ids w' = ids w"
  by (auto simp: rq_switch_to_def set_current_def out_then_ret Let_def split: if_splits dest!: ids_drop_all)

lemma ids_resched: "rq_resched B GA c p w = Ret w' \<Longrightarrow> ids w' = ids w"
  by (auto simp: rq_resched_def out_then_ret Let_def split: if_splits option.splits dest!: ids_switch ids_sched)

lemma ids_unblock: "rq_unblock_task B GA c t r w = Ret w' \<Longrightarrow> ids w' = ids w"
  by (auto simp: rq_unblock_task_def out_then_ret split: if_splits dest!: ids_sched ids_drop_all)

lemma ids_block: "rq_block_current B GA c (wq_push q) w = Ret w' \<Longrightarrow> ids w' = ids w"
  by (auto simp: rq_block_current_def wq_push_def out_then_ret Let_def split: if_splits dest!: ids_resched)

lemma ids_preempt: "rq_preempt_resched B GA c w = Ret w' \<Longrightarrow> ids w' = ids w"
  by (auto simp: rq_preempt_resched_def out_then_ret split: if_splits dest!: ids_resched)

lemma ids_notify_one_locked: "notify_one_locked B GA c q r w = Ret (x, w') \<Longrightarrow> ids w' = ids w"
  by (auto simp: notify_one_locked_def wq_pop_front_def out_then_ret split: list.splits dest!: ids_unblock)

lemma ids_notify_all_loop: "notify_all_loop B GA c q r n w = Ret w' \<Longrightarrow> ids w' = ids w"
  by (induction n arbitrary: w) (auto simp: wq_pop_front_def out_then_ret split: list.splits dest!: ids_unblock)

lemma ids_exit: "rq_exit_current B GA c code w = Ret (Some w') \<Longrightarrow> ids w' = ids w"
  by (auto simp: rq_exit_current_def notify_exit_def notify_all_locked_def out_then_ret Let_def split: if_splits
      dest!: ids_notify_all_loop ids_notify_one_locked ids_resched)

lemma ids_sleep: "rq_sleep_until B GA c now ddl w = Ret w' \<Longrightarrow> ids w' = ids w"
  by (auto simp: rq_sleep_until_def set_alarm_def timers_do_def out_then_ret split: if_splits option.splits dest!: ids_resched)

lemma ids_guard_release_all:
  assumes "guard_release B GA c w = Some r"
  shows "\<forall>w'. r = Ret w' \<longrightarrow> ids w' = ids w"
proof (rule guard_release.raw_induct [where P = "\<lambda>B GA c w r. \<forall>w'. r = Ret w' \<longrightarrow> ids w' = ids w", OF _ assms], goal_cases)
  case (1 rel B GA c w r)
  note body = 1(2)
  have step: "\<forall>w'. r = Ret w' \<longrightarrow> ids w' = ids w" if "rel B GA c v = Some r" "ids v = ids w" for v
    using 1(1) [OF that(1)] that(2) by simp
  show ?case
  proof (cases "current_may_uninit c w")
    case (Some cur)
    let ?w1 = "set_task cur (\<lambda>x. x\<lparr>ti_preempt_disable_count := ti_preempt_disable_count (task_at cur w) - 1\<rparr>) w"
    let ?v = "guard_acquire c ?w1"
    let ?out = "if ti_need_resched (task_at cur ?v) then rq_preempt_resched B GA c ?v else Ret ?v"
    consider (fin) w' where "r = Ret w'" "ids w' = ids w" | (panic) "r = Panic" | (again) u where "?out = Ret u" "rel B GA c u = Some r"
      using body Some by (auto simp: Let_def split: TaskContext.splits if_splits outcome.splits)
    then show ?thesis
    proof cases
      case again
      have "ids u = ids ?v" using again(1) ids_preempt [of B GA c ?v u] by (auto split: if_splits)
      then have "ids u = ids w" by simp
      then show ?thesis using step again(2) by blast
    qed simp_all
  qed (use body in auto)
qed

lemma ids_guard_release: "guard_release B GA c w = Some (Ret w') \<Longrightarrow> ids w' = ids w"
  using ids_guard_release_all by blast

lemma ids_with_lock:
  assumes "with_lock B GA c f w = Some (Ret (x, w'))" "\<And>v w1. f v = Ret (x, w1) \<Longrightarrow> prefix (ids v) (ids w1)"
  shows "prefix (ids w) (ids w')"
proof -
  obtain w1 where w1: "f (guard_acquire c w) = Ret (x, w1)" "guard_release B GA c w1 = Some (Ret w')"
    using assms(1) by (auto simp: with_lock_def out_then_ret bind_eq_Some_conv split: outcome.splits)
  then show ?thesis using assms(2) [OF w1(1)] ids_guard_release [OF w1(2)] by simp
qed

lemma ids_with_rq:
  assumes "with_rq B GA c f w = Some (Ret (x, w'))" "\<And>v w1. f v = Ret (x, w1) \<Longrightarrow> prefix (ids v) (ids w1)"
  shows "prefix (ids w) (ids w')"
  by (rule ids_with_lock [OF _ assms(2)]) (use assms(1) in \<open>auto simp: with_rq_def split: if_splits\<close>)

lemma ids_check_events:
  assumes "check_events B GA c clock k w = Some r"
  shows "\<forall>x w'. r = Ret (x, w') \<longrightarrow> prefix (ids w) (ids w')"
proof (rule check_events.raw_induct [where P = "\<lambda>B GA c clock k w r. \<forall>x w'. r = Ret (x, w') \<longrightarrow> prefix (ids w) (ids w')", OF _ assms], goal_cases)
  case (1 rel B GA c clock k w r)
  obtain out where out: "with_lock B GA c (timers_do (tl_expire_one (clock k))) w = Some out"
    and b: "(case out of Panic \<Rightarrow> Some Panic | Ret (r, w) \<Rightarrow> (case r of None \<Rightarrow> Some (Ret ((), w)) | Some de \<Rightarrow>
      Option.bind (wakeup_callback B GA c (snd de) w) (\<lambda>out. case out of Panic \<Rightarrow> Some Panic | Ret uw \<Rightarrow> rel B GA c clock (Suc k) (snd uw)))) = Some r"
    using 1(2) by (auto simp: bind_eq_Some_conv)
  show ?case
  proof (cases out)
    case (Ret y)
    obtain ev w1 where y: "y = (ev, w1)" by (cases y)
    have p1: "prefix (ids w) (ids w1)"
      by (rule ids_with_lock [OF out [unfolded Ret y]]) (auto simp: timers_do_def split: option.splits prod.splits)
    show ?thesis
    proof (cases ev)
      case None
      then show ?thesis using b Ret y p1 by auto
    next
      case (Some de)
      then obtain out2 where out2: "wakeup_callback B GA c (snd de) w1 = Some out2"
        and b2: "(case out2 of Panic \<Rightarrow> Some Panic | Ret uw \<Rightarrow> rel B GA c clock (Suc k) (snd uw)) = Some r"
        using b Ret y by (auto simp: bind_eq_Some_conv)
      show ?thesis
      proof (cases out2)
        case (Ret z)
        obtain u w2 where z: "z = (u, w2)" by (cases z)
        have "prefix (ids w1) (ids w2)"
          by (rule ids_with_rq [OF out2 [unfolded wakeup_callback_def Ret z]]) (auto simp: no_value_def out_then_ret dest!: ids_unblock)
        moreover have "rel B GA c clock (Suc k) w2 = Some r" using b2 Ret z by simp
        ultimately show ?thesis using 1(1) p1 by (metis prefix_order.trans)
      qed (use b2 in simp)
    qed
  qed (use b in simp)
qed

lemma ids_handle_irq:
  assumes "handle_irq B GA c clock w = Some (Ret (x, w'))"
  shows "prefix (ids w) (ids w')"
proof -
  obtain w2 where w2: "on_timer_tick B GA c clock (guard_acquire c w) = Some (Ret ((), w2))" "guard_release B GA c w2 = Some (Ret w')"
    using assms by (auto simp: handle_irq_def bind_ret)
  obtain w1 where w1: "check_events B GA c clock 0 (guard_acquire c w) = Some (Ret ((), w1))"
    "with_rq B GA c (no_value (rq_scheduler_timer_tick B c)) w1 = Some (Ret ((), w2))"
    using w2(1) by (auto simp: on_timer_tick_def bind_ret)
  have "prefix (ids w1) (ids w2)"
    by (rule ids_with_rq [OF w1(2)]) (auto simp: no_value_def rq_scheduler_timer_tick_def out_then_ret split: if_splits dest!: ids_sched)
  moreover have "prefix (ids w) (ids w1)" using ids_check_events [OF w1(1)] by simp
  ultimately show ?thesis using ids_guard_release [OF w2(2)] by (metis prefix_order.trans)
qed

lemma ids_wait_until: "wait_until_once B GA c q condition w = Some (Ret (x, w')) \<Longrightarrow> prefix (ids w) (ids w')"
  unfolding wait_until_once_def by (erule ids_with_rq) (auto simp: out_then_ret split: if_splits dest!: ids_block)

lemma ids_cancel_alarm: "cancel_alarm B GA c t w = Some (Ret (x, w')) \<Longrightarrow> prefix (ids w) (ids w')"
  unfolding cancel_alarm_def by (erule ids_with_lock) (auto simp: timers_do_def no_value_def out_then_ret split: option.splits dest!: ids_drop_all)

lemma ids_cancel_events: "cancel_events B GA c q t w = Some (Ret (x, w')) \<Longrightarrow> prefix (ids w) (ids w')"
  by (auto simp: cancel_events_def out_then_ret split: outcome.splits if_splits dest!: ids_drop_all ids_cancel_alarm)

lemma ids_spawn:
  assumes "spawn_raw B GA c f name sz w = Some (Ret (x, w'))"
  shows "prefix (ids w) (ids w')"
proof -
  obtain t w1 where w1: "task_new GA f name sz w = Ret (t, w1)"
    "with_rq B GA c (\<lambda>w. out_then (rq_add_task B t (arc_clone t w)) (\<lambda>w. Ret (t, w))) w1 = Some (Ret (x, w'))"
    using assms by (auto simp: spawn_raw_def split: outcome.splits)
  have "prefix (ids w) (ids w1)"
    using w1(1) by (auto simp: task_new_def task_id_new_def new_common_def wait_queue_new_def arc_new_def Let_def out_then_ret ids_def)
  moreover have "prefix (ids w1) (ids w')"
    by (rule ids_with_rq [OF w1(2)]) (auto simp: rq_add_task_def out_then_ret split: if_splits dest!: ids_sched)
  ultimately show ?thesis by (metis prefix_order.trans)
qed

lemma ids_gc_once:
  assumes "gc_once B GA c w = Some (Ret (x, w'))"
  shows "prefix (ids w) (ids w')"
proof -
  let ?f = "\<lambda>w. Ret (case k_exited w of [] \<Rightarrow> (None, w) | t # ts \<Rightarrow> (Some t, w\<lparr>k_exited := ts\<rparr>))"
  obtain ev w1 where w1: "with_lock B GA c ?f w = Some (Ret (ev, w1))"
    and r: "case ev of None \<Rightarrow> w1 = w' | Some t \<Rightarrow> ids w' = ids w1 \<or> with_lock B GA c (\<lambda>w. Ret ((), w\<lparr>k_exited := k_exited w @ [t]\<rparr>)) w1 = Some (Ret ((), w'))"
    using assms by (auto simp: gc_once_def bind_ret no_value_def out_then_ret split: option.splits if_splits dest!: ids_drop_all)
  have "prefix (ids w) (ids w1)" by (rule ids_with_lock [OF w1]) (auto split: list.splits)
  moreover have "prefix (ids w1) (ids w')" using r by (auto split: option.splits elim!: ids_with_lock)
  ultimately show ?thesis by (metis prefix_order.trans)
qed

lemma state_of_ret: "state_of r = Some (Ret (Some w')) \<longleftrightarrow> (\<exists>x. r = Some (Ret (x, w')))"
  by (auto simp: state_of_def out_then_ret)

lemma ids_notify_task:
  "notify_task B GA c q r t w = Some (Ret (x, w')) \<Longrightarrow> prefix (ids w) (ids w')"
  unfolding notify_task_def
  by (erule ids_with_rq) (auto simp: out_then_ret Let_def vec_remove_def split: option.splits if_splits dest!: ids_unblock)

lemma ids_alarm: "wait_timeout_alarm B GA c now dur w = Some (Ret (x, w')) \<Longrightarrow> prefix (ids w) (ids w')"
  by (auto simp: wait_timeout_alarm_def set_alarm_wakeup_def set_alarm_def timers_do_def bind_ret split: outcome.splits option.splits
      dest!: ids_with_lock)

lemma ids_do_call: "do_call B GA c a w = Some (Ret (Some w')) \<Longrightarrow> prefix (ids w) (ids w')"
proof (cases a)
  case Yield
  assume "do_call B GA c a w = Some (Ret (Some w'))"
  then have "with_rq B GA c (no_value (rq_yield_current B GA c)) w = Some (Ret ((), w'))" using Yield by (simp add: state_of_ret yield_now_def)
  then show ?thesis by (rule ids_with_rq) (auto simp: no_value_def rq_yield_current_def out_then_ret split: if_splits dest!: ids_resched)
next
  case (Wait q)
  assume "do_call B GA c a w = Some (Ret (Some w'))"
  then have "with_rq B GA c (no_value (rq_block_current B GA c (wq_push q))) w = Some (Ret ((), w'))" using Wait by (simp add: state_of_ret wq_block_def)
  then show ?thesis by (rule ids_with_rq) (auto simp: no_value_def out_then_ret dest!: ids_block)
next
  case (NotifyOne q r)
  assume "do_call B GA c a w = Some (Ret (Some w'))"
  then obtain x where "with_rq B GA c (\<lambda>w. if k_wqs w ! q \<noteq> [] then notify_one_locked B GA c q r w else Ret (False, w)) w = Some (Ret (x, w'))"
    using NotifyOne by (auto simp: state_of_ret notify_one_def)
  then show ?thesis by (rule ids_with_rq) (auto split: if_splits dest!: ids_notify_one_locked)
next
  case (NotifyAll q r)
  assume "do_call B GA c a w = Some (Ret (Some w'))"
  then obtain x where "with_rq B GA c (notify_one_locked B GA c q r) w = Some (Ret (x, w'))" using NotifyAll by (auto simp: state_of_ret notify_all_once_def)
  then show ?thesis by (rule ids_with_rq) (auto dest!: ids_notify_one_locked)
next
  case (SleepUntil now ddl)
  assume "do_call B GA c a w = Some (Ret (Some w'))"
  then have "with_rq B GA c (no_value (rq_sleep_until B GA c now ddl)) w = Some (Ret ((), w'))" using SleepUntil by (simp add: state_of_ret sleep_until_def)
  then show ?thesis by (rule ids_with_rq) (auto simp: no_value_def out_then_ret dest!: ids_sleep)
next
  case (SetPriority p)
  assume "do_call B GA c a w = Some (Ret (Some w'))"
  then obtain x where "with_rq B GA c (rq_set_current_priority B c p) w = Some (Ret (x, w'))" using SetPriority by (auto simp: state_of_ret set_priority_now_def)
  then show ?thesis by (rule ids_with_rq) (auto simp: rq_set_current_priority_def out_then_ret dest!: ids_sched)
next
  case (Exit code)
  assume "do_call B GA c a w = Some (Ret (Some w'))"
  then show ?thesis using Exit
    by (auto simp: exit_task_def bind_ret split: if_splits outcome.splits option.splits dest!: ids_exit ids_guard_release)
qed (auto simp: state_of_ret wait_queue_new_def out_then_ret split: outcome.splits
    dest: ids_wait_until ids_alarm ids_cancel_events ids_notify_task ids_handle_irq ids_spawn ids_gc_once ids_drop_all)

section \<open>Mutual exclusion\<close>

lemma current_ret: "c < length (k_current w) \<Longrightarrow> k_current w ! c = Some cur \<Longrightarrow> current c w = Ret cur"
  by (simp add: current_def current_may_uninit_def)

lemma lock_once_cases:
  assumes "mutex_lock_once B GA c spurious m w = Some (Ret (got, m', w'))" "current c w = Ret cur"
  shows "(got \<and> mx_owner_id m = 0 \<and> m' = m\<lparr>mx_owner_id := ti_id (task_at cur w)\<rparr> \<and> w' = w) \<or>
    (\<not> got \<and> m' = m \<and> (\<exists>x. wait_until_once B GA c (mx_wq m) (\<lambda>_. \<not> mutex_is_locked m) w = Some (Ret (x, w'))))"
  using assms by (auto simp: mutex_lock_once_def compare_exchange_def Let_def bind_ret split: if_splits)

lemma mutex_run_reached: "mutex_run B GA queued s0 w m G \<Longrightarrow> reached B GA queued s0 w"
proof (induction rule: mutex_run.induct)
  case (run_new w c cur data m w')
  then show ?case using reached_call [of B GA queued s0 w c cur NewWaitQueue w'] by (auto simp: mutex_new_def Let_def split: prod.splits)
next
  case (run_lock w m G c cur spurious got m' w')
  then have "current c w = Ret cur" by (simp add: current_ret)
  from lock_once_cases [OF run_lock.hyps(5) this] show ?case
  proof
    assume "\<not> got \<and> m' = m \<and> (\<exists>x. wait_until_once B GA c (mx_wq m) (\<lambda>_. \<not> mutex_is_locked m) w = Some (Ret (x, w')))"
    then have "do_call B GA c (WaitUntil (mx_wq m) (\<lambda>_. \<not> mutex_is_locked m)) w = Some (Ret (Some w'))" by auto
    from reached_call [OF run_lock.IH run_lock.hyps(2,3) _ this] show ?thesis using run_lock.hyps(4) by simp
  qed (use run_lock.IH in simp)
qed (auto intro: reached_secondary reached_call)

definition guards_ok :: "('s, 'g) Kernel \<Rightarrow> 'd Mutex \<Rightarrow> tref multiset \<Rightarrow> bool" where
  "guards_ok w m G \<longleftrightarrow> (mx_owner_id m = 0 \<and> G = {#}) \<or> (\<exists>t < length (k_tasks w). G = {#t#} \<and> mx_owner_id m = ids w ! t)"

lemma guards_ok_mono: "guards_ok w m G \<Longrightarrow> prefix (ids w) (ids w') \<Longrightarrow> guards_ok w' m G"
proof -
  assume a: "guards_ok w m G" "prefix (ids w) (ids w')"
  then obtain xs where xs: "ids w' = ids w @ xs" by (auto simp: prefix_def)
  then have "length (k_tasks w) \<le> length (k_tasks w')" by (metis ids_def le_add1 length_append length_map)
  moreover have "ids w' ! t = ids w ! t" if "t < length (k_tasks w)" for t using xs that by (simp add: nth_append ids_def)
  ultimately show ?thesis using a(1) by (auto simp: guards_ok_def intro: less_le_trans)
qed

definition ids_ok :: "('s, 'g) Kernel \<Rightarrow> bool" where
  "ids_ok w \<longleftrightarrow> distinct (ids w) \<and> 0 \<notin> set (ids w)"

lemma ids_ok_prefix: "ids_ok w' \<Longrightarrow> prefix (ids w) (ids w') \<Longrightarrow> ids_ok w"
  by (auto simp: ids_ok_def prefix_def)

lemma ids_nth: "t < length (k_tasks w) \<Longrightarrow> ti_id (task_at t w) = ids w ! t"
  by (simp add: ids_def task_at_def)

lemma ids_secondary: "rq_init_secondary GA c w = Ret w' \<Longrightarrow> prefix (ids w) (ids w')"
  by (auto simp: rq_init_secondary_def task_new_init_def task_id_new_def new_common_def wait_queue_new_def arc_new_def Let_def
      init_current_def split: if_splits) (simp add: ids_def)

lemma guards_free: "guards_ok w m G \<Longrightarrow> ids_ok w \<Longrightarrow> mx_owner_id m = 0 \<Longrightarrow> G = {#}"
  by (auto simp: guards_ok_def ids_ok_def ids_def)

lemma mutex_run_guards:
  assumes "mutex_run B GA queued s0 w m G" "run_queue B sinv queued" "sinv s0" "queued s0 = {}" "ids_ok w"
  shows "guards_ok w m G"
  using assms
proof (induction rule: mutex_run.induct)
  case (run_new w c cur data m w')
  then show ?case by (auto simp: mutex_new_def guards_ok_def Let_def split: prod.splits)
next
  case (run_secondary w m G c w')
  then show ?case using ids_secondary ids_ok_prefix guards_ok_mono by metis
next
  case (run_call w m G c cur a w')
  then show ?case using ids_do_call ids_ok_prefix guards_ok_mono by metis
next
  case (run_lock w m G c cur spurious got m' w')
  have cur: "current c w = Ret cur" using run_lock by (simp add: current_ret)
  have cl: "cur < length (k_tasks w)"
    using run_queue.mid_current_valid [OF run_lock.prems(1) run_queue.reached_ok [OF run_lock.prems(1) mutex_run_reached [OF run_lock.hyps(1)] run_lock.prems(2,3)]]
      run_lock.hyps(2,3) by blast
  from lock_once_cases [OF run_lock.hyps(5) cur] show ?case
  proof
    assume a: "got \<and> mx_owner_id m = 0 \<and> m' = m\<lparr>mx_owner_id := ti_id (task_at cur w)\<rparr> \<and> w' = w"
    then have "G = {#}" using guards_free run_lock by metis
    then show ?thesis using a cl by (auto simp: guards_ok_def ids_nth)
  next
    assume a: "\<not> got \<and> m' = m \<and> (\<exists>x. wait_until_once B GA c (mx_wq m) (\<lambda>_. \<not> mutex_is_locked m) w = Some (Ret (x, w')))"
    then have p: "prefix (ids w) (ids w')" using ids_wait_until by blast
    then have "guards_ok w m G" using run_lock.IH run_lock.prems ids_ok_prefix by blast
    then show ?thesis using a guards_ok_mono [OF _ p] by simp
  qed
next
  case (run_try_lock w m G c cur got m')
  have cl: "cur < length (k_tasks w)"
    using run_queue.mid_current_valid [OF run_try_lock.prems(1) run_queue.reached_ok [OF run_try_lock.prems(1) mutex_run_reached [OF run_try_lock.hyps(1)] run_try_lock.prems(2,3)]]
      run_try_lock.hyps(2,3) by blast
  have g: "guards_ok w m G" using run_try_lock by blast
  then have "mx_owner_id m = 0 \<Longrightarrow> G = {#}" using guards_free run_try_lock.prems(4) by metis
  then show ?case using run_try_lock.hyps(4) cl g current_ret [OF run_try_lock.hyps(2,3)]
    by (auto simp: mutex_try_lock_def compare_exchange_def guards_ok_def ids_nth split: if_splits)
next
  case (run_access w m G c cur f)
  then show ?case by (simp add: guards_ok_def guard_deref_mut_def)
next
  case (run_unlock w m G c cur m')
  then show ?case by (auto simp: guards_ok_def mutex_release_def out_then_ret split: if_splits)
qed

lemma release_ok:
  assumes "guards_ok w m G" "t \<in># G" "c < length (k_current w)" "k_current w ! c = Some t"
  shows "mutex_release c m w = Ret (m\<lparr>mx_owner_id := 0\<rparr>)"
  using assms by (auto simp: guards_ok_def mutex_release_def current_ret ids_nth)

section \<open>Properties\<close>

definition demo_mutex :: "nat Mutex" where
  "demo_mutex = \<lparr>mx_wq = 4, mx_owner_id = 2, mx_data = 0\<rparr>"

definition demo_world :: "(nat RRScheduler, usize) Kernel" where
  "demo_world = demo_kernel\<lparr>k_wqs := [[], [], [], [], []]\<rparr>"

lemma demo_world_current: "0 < length (k_current demo_world)" "k_current demo_world ! 0 = Some 1" "ids_ok demo_world"
  by (simp_all add: demo_world_def demo_state ids_ok_def ids_def)

lemma demo_run: "mutex_run (RR 5) demo_alloc (\<lambda>s. set (rr_queue s)) (rr_new (\<lambda>_. 5)) demo_world demo_mutex {#1#}"
proof -
  let ?run = "mutex_run (RR 5) demo_alloc (\<lambda>s. set (rr_queue s)) (rr_new (\<lambda>_. 5))"
  let ?m = "\<lparr>mx_wq = 4, mx_owner_id = 0, mx_data = 0\<rparr> :: nat Mutex"
  have "mutex_new 0 demo_kernel = (?m, demo_world)" by (simp add: mutex_new_def wait_queue_new_def demo_world_def demo_state)
  then have r: "?run demo_world ?m {#}" by (rule run_new [OF demo_reached demo_current(1,2)])
  have "mutex_try_lock 0 ?m demo_world = Ret (True, demo_mutex)"
    using current_ret [OF demo_world_current(1,2)]
    by (simp add: mutex_try_lock_def compare_exchange_def demo_mutex_def) (simp add: demo_world_def demo_state)
  from run_try_lock [OF r demo_world_current(1,2) this] show ?thesis by simp
qed

text \<open>The task with the guard yields, and the next one waits for the mutex.\<close>

definition demo_other :: "(nat RRScheduler, usize) Kernel" where
  "demo_other = demo_world\<lparr>
     k_tasks := [k_tasks demo_world ! 0,
       (k_tasks demo_world ! 1)\<lparr>ti_state := Ready, ti_preempt_disable_count := 1, ti_ctx := CtxSaved\<rparr>,
       (k_tasks demo_world ! 2)\<lparr>ti_state := Running, ti_ctx := CtxLive\<rparr>],
     k_sched := Some \<lparr>rr_queue = [1], time_slices = (\<lambda>_. 5)\<rparr>, k_current := [Some 2]\<rparr>"

definition demo_waits :: "(nat RRScheduler, usize) Kernel" where
  "demo_waits = demo_world\<lparr>
     k_tasks := [k_tasks demo_world ! 0,
       (k_tasks demo_world ! 1)\<lparr>ti_ctx := CtxSaved\<rparr>,
       (k_tasks demo_world ! 2)\<lparr>ti_state := Blocked, ti_in_wait_queue := True, ti_preempt_disable_count := 1, ti_ctx := CtxSaved\<rparr>],
     k_wqs := [[], [], [], [], [2]], k_sched := Some \<lparr>rr_queue = [], time_slices = (\<lambda>_. 5)\<rparr>\<rparr>"

lemma demo_other_eval: "yield_now (RR 5) demo_alloc 0 demo_world = Some (Ret ((), demo_other))"
  by (simp add: yield_now_def rq_yield_current_def demo_ops demo_rq demo_world_def demo_state demo_other_def guard_release.simps fun_upd_idem)

lemma demo_waits_eval: "mutex_lock_once (RR 5) demo_alloc 0 False demo_mutex demo_other = Some (Ret (False, demo_mutex, demo_waits))"
  by (simp add: mutex_lock_once_def compare_exchange_def wait_until_once_def mutex_is_locked_def demo_mutex_def rq_block_current_def wq_push_def
      demo_ops demo_rq demo_world_def demo_state demo_other_def demo_waits_def guard_release.simps)

lemma demo_run_waits: "mutex_run (RR 5) demo_alloc (\<lambda>s. set (rr_queue s)) (rr_new (\<lambda>_. 5)) demo_waits demo_mutex {#1#}"
proof -
  have y: "do_call (RR 5) demo_alloc 0 Yield demo_world = Some (Ret (Some demo_other))" by (simp add: demo_other_eval)
  have m: "may_call (\<lambda>s. set (rr_queue s)) 1 Yield demo_world" by simp
  have o: "0 < length (k_current demo_other)" "k_current demo_other ! 0 = Some 2" "may_call (\<lambda>s. set (rr_queue s)) 2 (Wait (mx_wq demo_mutex)) demo_other"
    by (simp_all add: demo_other_def demo_world_def demo_state demo_mutex_def can_preempt_def)
  show ?thesis using run_lock [OF run_call [OF demo_run demo_world_current(1,2) m y] o demo_waits_eval] by simp
qed

text \<open>
  C3: mutual exclusion. As long as task ids are distinct and not zero (they come from a 64-bit counter that starts at one), at most one task has a
  guard of the mutex in every state that is reached by any interleaving of calls, the mutex is locked exactly while there is one, and the task that
  holds it can always release it: the check of \<open>force_unlock\<close> does not fail.
\<close>

theorem mutex_exclusion:
  assumes "run_queue B sinv queued" "sinv s0" "queued s0 = {}" "mutex_run B GA queued s0 w m G" "ids_ok w"
  shows "size G \<le> 1 \<and> (mutex_is_locked m \<longleftrightarrow> G \<noteq> {#}) \<and>
    (\<forall>c t. c < length (k_current w) \<and> k_current w ! c = Some t \<and> t \<in># G \<longrightarrow> mutex_release c m w \<noteq> Panic)"
proof -
  have g: "guards_ok w m G" by (rule mutex_run_guards [OF assms(4,1,2,3,5)])
  then have "mutex_is_locked m \<longleftrightarrow> G \<noteq> {#}" using assms(5) by (auto simp: guards_ok_def mutex_is_locked_def ids_ok_def ids_def)
  then show ?thesis using g release_ok [OF g] by (auto simp: guards_ok_def)
qed

theorem mutex_exclusion_witness: "mutex_is_locked demo_mutex \<and> mutex_release 0 demo_mutex demo_world \<noteq> Panic"
  using mutex_exclusion [OF demo_rr demo_new demo_run demo_world_current(3)] demo_world_current(1,2) by auto

text \<open>
  C33: when the holder unlocks the mutex, the call returns, the mutex is free and the first task of its wait queue is not blocked any more.
\<close>

theorem mutex_unlock_wakes:
  assumes "run_queue B sinv queued" "sinv s0" "queued s0 = {}" "mutex_run B GA queued s0 w m G" "ids_ok w"
    and "c < length (k_current w)" "k_current w ! c = Some t" "t \<in># G" "mx_wq m < length (k_wqs w)" "k_wqs w ! mx_wq m = u # us"
  shows "\<exists>w'. mutex_force_unlock B GA c m w = Some (Ret (m\<lparr>mx_owner_id := 0\<rparr>, w')) \<and> \<not> is_blocked u w'"
proof -
  have "mutex_release c m w = Ret (m\<lparr>mx_owner_id := 0\<rparr>)"
    by (rule release_ok [OF mutex_run_guards [OF assms(4,1,2,3,5)] assms(8,6,7)])
  moreover have "rq_mid sinv queued {} {} {#} w" by (rule run_queue.reached_ok [OF assms(1) mutex_run_reached [OF assms(4)] assms(2,3)])
  ultimately show ?thesis
    using run_queue.notify_one_wakes [OF assms(1) _ assms(6,7,9,10), of GA True] by (auto simp: mutex_force_unlock_def)
qed

theorem mutex_unlock_wakes_witness:
  "is_blocked 2 demo_waits \<and> (\<exists>w'. mutex_force_unlock (RR 5) demo_alloc 0 demo_mutex demo_waits = Some (Ret (demo_mutex\<lparr>mx_owner_id := 0\<rparr>, w')) \<and>
     \<not> is_blocked 2 w')"
proof -
  have k: "0 < length (k_current demo_waits)" "k_current demo_waits ! 0 = Some 1" "mx_wq demo_mutex < length (k_wqs demo_waits)"
    "k_wqs demo_waits ! mx_wq demo_mutex = [2]" "is_blocked 2 demo_waits" "ids_ok demo_waits"
    by (simp_all add: demo_waits_def demo_world_def demo_state demo_mutex_def is_blocked_def ids_ok_def ids_def)
  show ?thesis using mutex_unlock_wakes [OF demo_rr demo_new demo_run_waits k(6,1,2) _ k(3,4)] k(5) by simp
qed

end
