(* ===== verification/Vfs.thy ===== *)
theory Vfs
  imports AxErrno Bitflags
begin

text \<open>
  Model of the crate \<open>axfs_vfs\<close> (src/crates/axfs_vfs/src: path.rs, structs.rs, lib.rs, macros.rs): paths, the attributes
  of nodes, directory entries, and the traits \<open>VfsOps\<close> and \<open>VfsNodeOps\<close> as records of functions, with their default methods.

  A string is the sequence of its bytes; every function on paths cuts it at ASCII characters only. A call works on the state of the
  file systems and gives a result of its own type, or panics.
\<close>

section \<open>Calls\<close>

type_synonym ('s, 'a) vfs = "'s \<Rightarrow> ('a AxResult \<times> 's) outcome"

definition vret :: "'a \<Rightarrow> ('s, 'a) vfs" where
  "vret x s = Ret (Ok x, s)"

definition verr :: "AxError \<Rightarrow> ('s, 'a) vfs" where
  "verr e s = Ret (Err e, s)"

text \<open>The operator \<open>?\<close> between two calls, and \<open>ok_or\<close>.\<close>

definition vthen :: "('s, 'a) vfs \<Rightarrow> ('a \<Rightarrow> ('s, 'b) vfs) \<Rightarrow> ('s, 'b) vfs" where
  "vthen m f s = out_then (m s) (\<lambda>(r, s). case r of Inl e \<Rightarrow> Ret (Inl e, s) | Inr x \<Rightarrow> f x s)"

definition ok_or :: "AxError \<Rightarrow> 'a option \<Rightarrow> ('s, 'a) vfs" where
  "ok_or e x = (case x of None \<Rightarrow> verr e | Some y \<Rightarrow> vret y)"

lemma vfs_simps [simp]:
  "vthen (vret x) f s = f x s" "vthen (verr e) f s = Ret (Err e, s)" "ok_or e None = verr e" "ok_or e (Some y) = vret y"
  "vret x s = Ret (Ok x, s)" "verr e s = Ret (Err e, s)"
  by (simp_all add: vthen_def vret_def verr_def ok_or_def)

section \<open>Paths\<close>

definition SLASH :: char where "SLASH = CHR ''/''"

text \<open>\<open>str::split('/')\<close>: one part more than there are separators.\<close>

fun split_slash :: "string \<Rightarrow> string list" where
  "split_slash [] = [[]]"
| "split_slash (c # cs) =
     (if c = SLASH then [] # split_slash cs
      else (case split_slash cs of [] \<Rightarrow> [[c]] | p # ps \<Rightarrow> (c # p) # ps))"

text \<open>The loop for a part \<open>..\<close>: characters are popped up to and including a slash, but not the leading one of \<open>/\<close>.\<close>

function pop_part :: "string \<Rightarrow> string" where
  "pop_part buf =
     (if buf = [] then buf
      else if buf = [SLASH] then buf
      else if last buf = SLASH then butlast buf
      else pop_part (butlast buf))"
  by auto
termination by (relation "measure length") auto

declare pop_part.simps [simp del]

definition canon_part :: "bool \<Rightarrow> string \<Rightarrow> string \<Rightarrow> string" where
  "canon_part is_absolute part buf =
     (if part = [] \<or> part = ''.'' then buf
      else if part = ''..'' then pop_part buf
      else (let buf = (if buf = [] then (if is_absolute then [SLASH] else buf)
                       else if last buf \<noteq> SLASH then buf @ [SLASH] else buf)
            in buf @ part))"

definition canonicalize :: "string \<Rightarrow> string" where
  "canonicalize path =
     (let is_absolute = (path \<noteq> [] \<and> hd path = SLASH);
          buf = fold (canon_part is_absolute) (split_slash path) []
      in if is_absolute \<and> buf = [] then [SLASH] else buf)"

section \<open>Attributes and directory entries\<close>

datatype VfsNodeType = Fifo | CharDevice | Dir | BlockDevice | File | SymLink | Socket

fun node_is_file :: "VfsNodeType \<Rightarrow> bool" where
  "node_is_file File = True"
| "node_is_file _ = False"

fun node_is_dir :: "VfsNodeType \<Rightarrow> bool" where
  "node_is_dir Dir = True"
| "node_is_dir _ = False"

fun node_as_char :: "VfsNodeType \<Rightarrow> char" where
  "node_as_char Fifo = CHR ''p''"
| "node_as_char CharDevice = CHR ''c''"
| "node_as_char Dir = CHR ''d''"
| "node_as_char BlockDevice = CHR ''b''"
| "node_as_char File = CHR ''-''"
| "node_as_char SymLink = CHR ''l''"
| "node_as_char Socket = CHR ''s''"

text \<open>Permissions are bits; \<open>P\<close> is what the \<open>bitflags\<close> macro generates for them.\<close>

type_synonym VfsNodePerm = u16

definition OWNER_READ :: VfsNodePerm where "OWNER_READ = 0x100"
definition OWNER_WRITE :: VfsNodePerm where "OWNER_WRITE = 0x80"
definition OWNER_EXEC :: VfsNodePerm where "OWNER_EXEC = 0x40"
definition GROUP_READ :: VfsNodePerm where "GROUP_READ = 0x20"
definition GROUP_WRITE :: VfsNodePerm where "GROUP_WRITE = 0x10"
definition GROUP_EXEC :: VfsNodePerm where "GROUP_EXEC = 0x8"
definition OTHER_READ :: VfsNodePerm where "OTHER_READ = 0x4"
definition OTHER_WRITE :: VfsNodePerm where "OTHER_WRITE = 0x2"
definition OTHER_EXEC :: VfsNodePerm where "OTHER_EXEC = 0x1"

definition default_file :: "VfsNodePerm bitflags \<Rightarrow> VfsNodePerm" where
  "default_file P = bf_from_bits_truncate P 0x1B6"

definition default_dir :: "VfsNodePerm bitflags \<Rightarrow> VfsNodePerm" where
  "default_dir P = bf_from_bits_truncate P 0x1ED"

definition rwx_buf :: "VfsNodePerm bitflags \<Rightarrow> VfsNodePerm \<Rightarrow> string" where
  "rwx_buf P self =
     (let perm = replicate 9 (CHR ''-'');
          perm = (if bf_contains P self OWNER_READ then perm[0 := CHR ''r''] else perm);
          perm = (if bf_contains P self OWNER_WRITE then perm[1 := CHR ''w''] else perm);
          perm = (if bf_contains P self OWNER_EXEC then perm[2 := CHR ''x''] else perm);
          perm = (if bf_contains P self GROUP_READ then perm[3 := CHR ''r''] else perm);
          perm = (if bf_contains P self GROUP_WRITE then perm[4 := CHR ''w''] else perm);
          perm = (if bf_contains P self GROUP_EXEC then perm[5 := CHR ''x''] else perm);
          perm = (if bf_contains P self OTHER_READ then perm[6 := CHR ''r''] else perm);
          perm = (if bf_contains P self OTHER_WRITE then perm[7 := CHR ''w''] else perm)
      in if bf_contains P self OTHER_EXEC then perm[8 := CHR ''x''] else perm)"

definition owner_readable :: "VfsNodePerm bitflags \<Rightarrow> VfsNodePerm \<Rightarrow> bool" where
  "owner_readable P self = bf_contains P self OWNER_READ"

definition owner_writable :: "VfsNodePerm bitflags \<Rightarrow> VfsNodePerm \<Rightarrow> bool" where
  "owner_writable P self = bf_contains P self OWNER_WRITE"

definition owner_executable :: "VfsNodePerm bitflags \<Rightarrow> VfsNodePerm \<Rightarrow> bool" where
  "owner_executable P self = bf_contains P self OWNER_EXEC"

record VfsNodeAttr =
  attr_mode :: VfsNodePerm
  attr_ty :: VfsNodeType
  attr_size :: u64
  attr_blocks :: u64

definition attr_new :: "VfsNodePerm \<Rightarrow> VfsNodeType \<Rightarrow> u64 \<Rightarrow> u64 \<Rightarrow> VfsNodeAttr" where
  "attr_new mode ty sz blocks = \<lparr>attr_mode = mode, attr_ty = ty, attr_size = sz, attr_blocks = blocks\<rparr>"

definition attr_new_file :: "VfsNodePerm bitflags \<Rightarrow> u64 \<Rightarrow> u64 \<Rightarrow> VfsNodeAttr" where
  "attr_new_file P sz blocks = \<lparr>attr_mode = default_file P, attr_ty = File, attr_size = sz, attr_blocks = blocks\<rparr>"

definition attr_new_dir :: "VfsNodePerm bitflags \<Rightarrow> u64 \<Rightarrow> u64 \<Rightarrow> VfsNodeAttr" where
  "attr_new_dir P sz blocks = \<lparr>attr_mode = default_dir P, attr_ty = Dir, attr_size = sz, attr_blocks = blocks\<rparr>"

definition attr_set_perm :: "VfsNodePerm \<Rightarrow> VfsNodeAttr \<Rightarrow> VfsNodeAttr" where
  "attr_set_perm perm self = self\<lparr>attr_mode := perm\<rparr>"

definition attr_is_file :: "VfsNodeAttr \<Rightarrow> bool" where
  "attr_is_file self = node_is_file (attr_ty self)"

definition attr_is_dir :: "VfsNodeAttr \<Rightarrow> bool" where
  "attr_is_dir self = node_is_dir (attr_ty self)"

text \<open>The name of an entry is an array of 63 bytes; a longer name is out of range of the copy.\<close>

record VfsDirEntry =
  d_type :: VfsNodeType
  d_name :: string

definition dirent_default :: VfsDirEntry where
  "dirent_default = \<lparr>d_type = File, d_name = replicate 63 (CHR 0x00)\<rparr>"

definition dirent_new :: "string \<Rightarrow> VfsNodeType \<Rightarrow> VfsDirEntry outcome" where
  "dirent_new name ty =
     (if length name > 63 then Panic
      else Ret \<lparr>d_type = ty, d_name = name @ replicate (63 - length name) (CHR 0x00)\<rparr>)"

definition name_as_bytes :: "VfsDirEntry \<Rightarrow> string" where
  "name_as_bytes self =
     (let len = (case position (\<lambda>c. c = CHR 0x00) (d_name self) of None \<Rightarrow> length (d_name self) | Some i \<Rightarrow> i)
      in take len (d_name self))"

section \<open>The traits\<close>

record ('n, 's) VfsNodeOps =
  vn_open :: "'n \<Rightarrow> ('s, unit) vfs"
  vn_release :: "'n \<Rightarrow> ('s, unit) vfs"
  vn_get_attr :: "'n \<Rightarrow> ('s, VfsNodeAttr) vfs"
  vn_read_at :: "'n \<Rightarrow> u64 \<Rightarrow> u8 list \<Rightarrow> ('s, nat \<times> u8 list) vfs"
  vn_write_at :: "'n \<Rightarrow> u64 \<Rightarrow> u8 list \<Rightarrow> ('s, nat) vfs"
  vn_fsync :: "'n \<Rightarrow> ('s, unit) vfs"
  vn_truncate :: "'n \<Rightarrow> u64 \<Rightarrow> ('s, unit) vfs"
  vn_parent :: "'n \<Rightarrow> 's \<Rightarrow> 'n option"
  vn_lookup :: "'n \<Rightarrow> string \<Rightarrow> ('s, 'n) vfs"
  vn_create :: "'n \<Rightarrow> string \<Rightarrow> VfsNodeType \<Rightarrow> ('s, unit) vfs"
  vn_remove :: "'n \<Rightarrow> string \<Rightarrow> ('s, unit) vfs"
  vn_read_dir :: "'n \<Rightarrow> nat \<Rightarrow> VfsDirEntry list \<Rightarrow> ('s, nat \<times> VfsDirEntry list) vfs"

definition node_default :: "('n, 's) VfsNodeOps" where
  "node_default =
     \<lparr>vn_open = (\<lambda>n. vret ()), vn_release = (\<lambda>n. vret ()), vn_get_attr = (\<lambda>n. verr Unsupported),
      vn_read_at = (\<lambda>n offset buf. verr InvalidInput), vn_write_at = (\<lambda>n offset buf. verr InvalidInput),
      vn_fsync = (\<lambda>n. verr InvalidInput), vn_truncate = (\<lambda>n sz. verr InvalidInput), vn_parent = (\<lambda>n s. None),
      vn_lookup = (\<lambda>n path. verr Unsupported), vn_create = (\<lambda>n path ty. verr Unsupported), vn_remove = (\<lambda>n path. verr Unsupported),
      vn_read_dir = (\<lambda>n start_idx dirents. verr Unsupported)\<rparr>"

definition impl_vfs_dir_default :: "('n, 's) VfsNodeOps \<Rightarrow> ('n, 's) VfsNodeOps" where
  "impl_vfs_dir_default N =
     N\<lparr>vn_read_at := (\<lambda>n offset buf. verr IsADirectory), vn_write_at := (\<lambda>n offset buf. verr IsADirectory),
       vn_fsync := (\<lambda>n. verr IsADirectory), vn_truncate := (\<lambda>n sz. verr IsADirectory)\<rparr>"

definition impl_vfs_non_dir_default :: "('n, 's) VfsNodeOps \<Rightarrow> ('n, 's) VfsNodeOps" where
  "impl_vfs_non_dir_default N =
     N\<lparr>vn_lookup := (\<lambda>n path. verr NotADirectory), vn_create := (\<lambda>n path ty. verr NotADirectory),
       vn_remove := (\<lambda>n path. verr NotADirectory), vn_read_dir := (\<lambda>n start_idx dirents. verr NotADirectory)\<rparr>"

record ('n, 's) VfsOps =
  fs_mount :: "string \<Rightarrow> 'n \<Rightarrow> ('s, unit) vfs"
  fs_umount :: "('s, unit) vfs"
  fs_format :: "('s, unit) vfs"
  fs_root_dir :: 'n

definition fs_default :: "'n \<Rightarrow> ('n, 's) VfsOps" where
  "fs_default root = \<lparr>fs_mount = (\<lambda>path mount_point. vret ()), fs_umount = vret (), fs_format = verr Unsupported, fs_root_dir = root\<rparr>"

section \<open>Positions\<close>

lemma position_less: "position p xs = Some n \<Longrightarrow> n < length xs"
  by (induction xs arbitrary: n) (auto split: if_splits)

lemma position_append:
  "position p (xs @ ys) = (case position p xs of Some i \<Rightarrow> Some i | None \<Rightarrow> map_option (\<lambda>i. length xs + i) (position p ys))"
  by (induction xs; cases "position p ys") (auto split: option.splits)

section \<open>Canonical paths\<close>

text \<open>The reference: the stack of the components, where \<open>..\<close> takes the last one away.\<close>

definition norm_part :: "string \<Rightarrow> string list \<Rightarrow> string list" where
  "norm_part p st = (if p = [] \<or> p = ''.'' then st else if p = ''..'' then butlast st else st @ [p])"

fun join_slash :: "string list \<Rightarrow> string" where
  "join_slash [] = []"
| "join_slash [p] = p"
| "join_slash (p # ps) = p @ SLASH # join_slash ps"

definition path_of :: "bool \<Rightarrow> string list \<Rightarrow> string" where
  "path_of is_absolute st = (if is_absolute then SLASH # join_slash st else join_slash st)"

definition plain :: "string \<Rightarrow> bool" where
  "plain p \<longleftrightarrow> p \<noteq> [] \<and> SLASH \<notin> set p"

lemma split_slash_parts: "p \<in> set (split_slash path) \<Longrightarrow> SLASH \<notin> set p"
  by (induction path arbitrary: p) (auto split: list.splits if_splits)

lemma split_slash_ne [simp]: "split_slash path \<noteq> []"
  by (induction path) (auto split: list.splits)

lemma join_slash_snoc: "st \<noteq> [] \<Longrightarrow> join_slash (st @ [p]) = join_slash st @ SLASH # p"
  by (induction st rule: join_slash.induct) auto

lemma join_slash_empty: "\<forall>p \<in> set st. plain p \<Longrightarrow> join_slash st = [] \<longleftrightarrow> st = []"
  by (induction st rule: join_slash.induct) (auto simp: plain_def)

lemma pop_part_sep: "SLASH \<notin> set p \<Longrightarrow> b \<noteq> [] \<Longrightarrow> pop_part (b @ SLASH # p) = b"
proof (induction p rule: rev_induct)
  case (snoc c p)
  then show ?case by (subst pop_part.simps) (auto simp: butlast_append)
qed (subst pop_part.simps, simp)

lemma pop_part_root: "SLASH \<notin> set p \<Longrightarrow> pop_part (SLASH # p) = [SLASH]"
proof (induction p rule: rev_induct)
  case (snoc c p)
  then show ?case by (subst pop_part.simps) auto
qed (subst pop_part.simps, simp)

lemma pop_part_all: "SLASH \<notin> set p \<Longrightarrow> pop_part p = []"
proof (induction p rule: rev_induct)
  case (snoc c p)
  then show ?case by (subst pop_part.simps) auto
qed (subst pop_part.simps, simp)

lemma pop_part_path:
  assumes "\<forall>p \<in> set st. plain p"
  shows "pop_part (path_of is_absolute st) = path_of is_absolute (butlast st)"
proof (cases st rule: rev_cases)
  case Nil
  then show ?thesis by (subst pop_part.simps) (simp add: path_of_def)
next
  case (snoc st' p)
  have p: "SLASH \<notin> set p" using assms snoc by (simp add: plain_def)
  show ?thesis
  proof (cases "st' = []")
    case True
    then show ?thesis using snoc p pop_part_root pop_part_all by (simp add: path_of_def)
  next
    case False
    have "join_slash st' \<noteq> []" using join_slash_empty [of st'] assms snoc False by simp
    then show ?thesis
      using snoc False p pop_part_sep [OF p, of "SLASH # join_slash st'"] pop_part_sep [OF p, of "join_slash st'"]
      by (simp add: path_of_def join_slash_snoc)
  qed
qed

text \<open>The buffer holds the path of the stack; at first it is empty even for an absolute path.\<close>

definition canon_inv :: "bool \<Rightarrow> string list \<Rightarrow> string \<Rightarrow> bool" where
  "canon_inv is_absolute st buf \<longleftrightarrow> (\<forall>p \<in> set st. plain p \<and> p \<noteq> ''.'' \<and> p \<noteq> ''..'') \<and> (buf = path_of is_absolute st \<or> (buf = [] \<and> st = []))"

lemma last_join:
  assumes "st \<noteq> []" "\<forall>p \<in> set st. plain p"
  shows "last (join_slash st) \<noteq> SLASH"
proof (cases st rule: rev_cases)
  case (snoc st' p)
  then have "p \<noteq> []" "SLASH \<notin> set p" using assms by (simp_all add: plain_def)
  moreover have "last (join_slash st) = last p" using snoc \<open>p \<noteq> []\<close> by (cases "st' = []") (simp_all add: join_slash_snoc)
  ultimately show ?thesis by (metis last_in_set)
qed (use assms in simp)

lemma canon_part_inv:
  assumes "canon_inv is_absolute st buf" "SLASH \<notin> set p"
  shows "canon_inv is_absolute (norm_part p st) (canon_part is_absolute p buf)"
proof -
  have pl: "\<forall>p \<in> set st. plain p" and dots: "\<forall>p \<in> set st. p \<noteq> ''.'' \<and> p \<noteq> ''..''" and buf: "buf = path_of is_absolute st \<or> (buf = [] \<and> st = [])"
    using assms(1) by (auto simp: canon_inv_def)
  consider (skip) "p = [] \<or> p = ''.''" | (up) "p = ''..''" | (name) "p \<noteq> []" "p \<noteq> ''.''" "p \<noteq> ''..''" by blast
  then show ?thesis
  proof cases
    case skip
    then show ?thesis using assms(1) by (auto simp: canon_part_def norm_part_def)
  next
    case up
    have "pop_part buf = path_of is_absolute (butlast st) \<or> (pop_part buf = [] \<and> butlast st = [])"
      using buf pop_part_path [OF pl, of is_absolute] pop_part_all [of "[]"] by auto
    then show ?thesis using up pl dots by (auto simp: canon_part_def norm_part_def canon_inv_def dest: in_set_butlastD)
  next
    case name
    have "canon_part is_absolute p buf = path_of is_absolute (st @ [p])"
    proof (cases "st = []")
      case True
      then show ?thesis using buf name by (cases is_absolute) (auto simp: canon_part_def path_of_def Let_def)
    next
      case False
      then have "join_slash st \<noteq> []" "last (join_slash st) \<noteq> SLASH" using join_slash_empty [OF pl] last_join [OF False pl] by simp_all
      then show ?thesis using False buf name by (cases is_absolute) (simp_all add: canon_part_def path_of_def Let_def join_slash_snoc)
    qed
    then show ?thesis using name assms(2) pl dots by (auto simp: canon_inv_def norm_part_def plain_def)
  qed
qed

lemma canon_fold_inv:
  "canon_inv is_absolute st buf \<Longrightarrow> \<forall>p \<in> set ps. SLASH \<notin> set p \<Longrightarrow>
   canon_inv is_absolute (fold norm_part ps st) (fold (canon_part is_absolute) ps buf)"
proof (induction ps arbitrary: st buf)
  case (Cons p ps)
  then show ?case using canon_part_inv [OF Cons.prems(1), of p] by simp
qed simp

definition is_abs :: "string \<Rightarrow> bool" where
  "is_abs path \<longleftrightarrow> path \<noteq> [] \<and> hd path = SLASH"

definition norm :: "string \<Rightarrow> string list" where
  "norm path = fold norm_part (split_slash path) []"

lemma norm_parts: "\<forall>p \<in> set (norm path). plain p \<and> p \<noteq> ''.'' \<and> p \<noteq> ''..''"
  using canon_fold_inv [of True "[]" "[]" "split_slash path"] split_slash_parts [of _ path] by (simp add: canon_inv_def norm_def)

lemma canonicalize_norm: "canonicalize path = path_of (is_abs path) (norm path)"
proof -
  define buf where "buf = fold (canon_part (is_abs path)) (split_slash path) []"
  have "canon_inv (is_abs path) (norm path) buf"
    unfolding norm_def buf_def by (rule canon_fold_inv) (auto simp: canon_inv_def dest: split_slash_parts)
  then have "buf = path_of (is_abs path) (norm path) \<or> (buf = [] \<and> norm path = [])" by (simp add: canon_inv_def)
  moreover have "canonicalize path = (if is_abs path \<and> buf = [] then [SLASH] else buf)"
    unfolding canonicalize_def Let_def buf_def is_abs_def by (rule refl)
  ultimately show ?thesis by (cases "is_abs path") (auto simp: path_of_def)
qed

lemma split_join: "\<forall>p \<in> set st. SLASH \<notin> set p \<Longrightarrow> st \<noteq> [] \<Longrightarrow> split_slash (join_slash st) = st"
proof (induction st rule: join_slash.induct)
  case (2 p)
  then show ?case by (induction p) auto
next
  case (3 p q ps)
  have "SLASH \<notin> set p \<Longrightarrow> split_slash (p @ SLASH # r) = p # split_slash r" for r by (induction p) auto
  then show ?case using 3 by simp
qed simp

lemma norm_id: "\<forall>p \<in> set st. plain p \<and> p \<noteq> ''.'' \<and> p \<noteq> ''..'' \<Longrightarrow> fold norm_part st acc = acc @ st"
  by (induction st arbitrary: acc) (auto simp: norm_part_def plain_def)

lemma norm_path_of:
  assumes "\<forall>p \<in> set st. plain p \<and> p \<noteq> ''.'' \<and> p \<noteq> ''..''"
  shows "norm (path_of a st) = st"
proof -
  have pl: "\<forall>p \<in> set st. SLASH \<notin> set p" using assms by (auto simp: plain_def)
  have "norm (SLASH # q) = norm q" for q by (simp add: norm_def norm_part_def)
  moreover have "norm (join_slash st) = st"
    using split_join [OF pl] norm_id [OF assms, of "[]"] by (cases "st = []") (auto simp: norm_def norm_part_def)
  ultimately show ?thesis by (simp add: path_of_def)
qed

lemma is_abs_path_of: "\<forall>p \<in> set st. plain p \<Longrightarrow> is_abs (path_of a st) = a"
  by (cases st rule: join_slash.cases) (auto simp: path_of_def is_abs_def plain_def dest: hd_in_set)

section \<open>Properties\<close>



end
