(* ===== verification/Capability.thy ===== *)
theory Capability
  imports Bitflags AxErrno
begin

text \<open>
  Model of the crate \<open>capability\<close> (src/crates/capability/src/lib.rs): an object together with a set of access rights. The operations of the
  flag type \<open>Cap\<close>, which the third-party macro \<open>bitflags\<close> generates, are a parameter.
\<close>

type_synonym Cap = u32

definition CAP_READ :: Cap where "CAP_READ = 1"
definition CAP_WRITE :: Cap where "CAP_WRITE = 2"
definition CAP_EXECUTE :: Cap where "CAP_EXECUTE = 4"

definition cap_all :: Cap where
  "cap_all = CAP_READ OR CAP_WRITE OR CAP_EXECUTE"

definition cap_empty :: Cap where
  "cap_empty = 0"

record 'a WithCap =
  wc_inner :: 'a
  wc_cap :: Cap

definition with_cap_new :: "'a \<Rightarrow> Cap \<Rightarrow> 'a WithCap" where
  "with_cap_new inner cap = \<lparr>wc_inner = inner, wc_cap = cap\<rparr>"

definition can_access :: "Cap bitflags \<Rightarrow> Cap \<Rightarrow> 'a WithCap \<Rightarrow> bool" where
  "can_access C cap self = bf_contains C (wc_cap self) cap"

definition access_unchecked :: "'a WithCap \<Rightarrow> 'a" where
  "access_unchecked self = wc_inner self"

definition access_or_err :: "Cap bitflags \<Rightarrow> Cap \<Rightarrow> 'e \<Rightarrow> 'a WithCap \<Rightarrow> ('e, 'a) result" where
  "access_or_err C cap err self = (if can_access C cap self then Ok (wc_inner self) else Err err)"

text \<open>\<open>access\<close> fails with the unit \<open>CapError\<close>, which the operator \<open>?\<close> turns into \<open>PermissionDenied\<close>.\<close>

definition access :: "Cap bitflags \<Rightarrow> Cap \<Rightarrow> 'a WithCap \<Rightarrow> (unit, 'a) result" where
  "access C cap self = (if can_access C cap self then Ok (wc_inner self) else Err ())"

definition from_cap_error :: "unit \<Rightarrow> AxError" where
  "from_cap_error e = PermissionDenied"

lemma cap_bits:
  assumes "bitflags_ok cap_all C"
  shows "can_access C cap self \<longleftrightarrow> wc_cap self AND cap = cap" "bf_union C a b = a OR b"
  using assms by (simp_all add: can_access_def bitflags_ok_def)

lemma cap_empty_access [simp]: "bitflags_ok cap_all C \<Longrightarrow> can_access C cap_empty self"
  by (simp add: cap_bits cap_empty_def)

text \<open>The rights of two parts are the rights they both have.\<close>

lemma can_access_union:
  assumes "bitflags_ok cap_all C"
  shows "can_access C (bf_union C a b) self \<longleftrightarrow> can_access C a self \<and> can_access C b self"
proof -
  have "c AND (a OR b) = a OR b \<longleftrightarrow> c AND a = a \<and> c AND b = b" for c :: Cap
  proof (intro iffI conjI)
    assume e: "c AND (a OR b) = a OR b"
    have n: "bit a n \<or> bit b n \<Longrightarrow> bit c n" for n
      using arg_cong [OF e, of "\<lambda>w. bit w n"] by (auto simp: bit_and_iff bit_or_iff)
    show "c AND a = a" "c AND b = b" using n by (auto intro!: bit_word_eqI simp: bit_and_iff)
  qed (simp add: bit.conj_disj_distrib)
  then show ?thesis using assms by (simp add: cap_bits)
qed

end
