(* ===== verification/AxFsRoot.thy ===== *)
theory AxFsRoot
  imports Vfs Capability "HOL-Library.Sublist"
begin

text \<open>
  Model of the root directory of the module \<open>axfs\<close> (src/modules/axfs/src/root.rs): the table of mounted file systems, the lookup of the file
  system that a path belongs to, the current directory and the calls on paths.

  The file systems are any implementation \<open>N\<close> of \<open>VfsNodeOps\<close> for their nodes, over a state \<open>'s\<close>. The root directory is a node of its own,
  \<open>RootDir\<close>; it is fixed once \<open>init_rootfs\<close> is done. The current directory and its path are part of the state.
\<close>

section \<open>The root directory\<close>

record ('n, 's) MountPoint =
  mp_path :: string
  mp_fs :: "('n, 's) VfsOps"

record ('n, 's) RootDirectory =
  rd_main_fs :: "('n, 's) VfsOps"
  rd_mounts :: "('n, 's) MountPoint list"

datatype 'n fsnode = RootDir | Node 'n

definition mount_point_new :: "string \<Rightarrow> ('n, 's) VfsOps \<Rightarrow> ('n, 's) MountPoint" where
  "mount_point_new path fs = \<lparr>mp_path = path, mp_fs = fs\<rparr>"

definition mount_point_drop :: "('n, 's) MountPoint \<Rightarrow> 's \<Rightarrow> 's outcome" where
  "mount_point_drop mp s = out_then (fs_umount (mp_fs mp) s) (\<lambda>(r, s). Ret s)"

definition root_dir_new :: "('n, 's) VfsOps \<Rightarrow> ('n, 's) RootDirectory" where
  "root_dir_new main_fs = \<lparr>rd_main_fs = main_fs, rd_mounts = []\<rparr>"

definition contains :: "string \<Rightarrow> ('n, 's) RootDirectory \<Rightarrow> bool" where
  "contains path R \<longleftrightarrow> (\<exists>mp \<in> set (rd_mounts R). mp_path mp = path)"

definition starts_with :: "string \<Rightarrow> string \<Rightarrow> bool" where
  "starts_with path p = prefix p path"

definition ends_with :: "string \<Rightarrow> string \<Rightarrow> bool" where
  "ends_with path p = suffix p path"

definition mount :: "('n, 's) VfsNodeOps \<Rightarrow> string \<Rightarrow> ('n, 's) VfsOps \<Rightarrow> ('n, 's) RootDirectory \<Rightarrow> ('s, ('n, 's) RootDirectory) vfs" where
  "mount N path fs R =
     (if path = ''/'' then verr InvalidInput
      else if \<not> starts_with path ''/'' then verr InvalidInput
      else if \<exists>mp \<in> set (rd_mounts R). mp_path mp = path then verr InvalidInput
      else
        vthen (vn_create N (fs_root_dir (rd_main_fs R)) path Dir) (\<lambda>_.
          vthen (vn_lookup N (fs_root_dir (rd_main_fs R)) path) (\<lambda>node.
            vthen (fs_mount fs path node) (\<lambda>_.
              vret (R\<lparr>rd_mounts := rd_mounts R @ [mount_point_new path fs]\<rparr>)))))"

text \<open>A mount point that is not retained is dropped.\<close>

fun retain_mounts :: "string \<Rightarrow> ('n, 's) MountPoint list \<Rightarrow> 's \<Rightarrow> (('n, 's) MountPoint list \<times> 's) outcome" where
  "retain_mounts path [] s = Ret ([], s)"
| "retain_mounts path (mp # mps) s =
     (if mp_path mp \<noteq> path then out_then (retain_mounts path mps s) (\<lambda>(mps, s). Ret (mp # mps, s))
      else out_then (mount_point_drop mp s) (retain_mounts path mps))"

definition umount :: "string \<Rightarrow> ('n, 's) RootDirectory \<Rightarrow> 's \<Rightarrow> (('n, 's) RootDirectory \<times> 's) outcome" where
  "umount path R s = out_then (retain_mounts path (rd_mounts R) s) (\<lambda>(mps, s). Ret (R\<lparr>rd_mounts := mps\<rparr>, s))"

definition trim_slashes :: "string \<Rightarrow> string" where
  "trim_slashes path = rev (dropWhile (\<lambda>c. c = SLASH) (rev (dropWhile (\<lambda>c. c = SLASH) path)))"

lemma trim_slashes_le: "length (trim_slashes path) \<le> length path"
proof -
  have "length (trim_slashes path) \<le> length (dropWhile (\<lambda>c. c = SLASH) path)"
    unfolding trim_slashes_def length_rev by (metis length_dropWhile_le length_rev)
  then show ?thesis using length_dropWhile_le [of "\<lambda>c. c = SLASH" path] by linarith
qed

text \<open>The loop over the mount points; their paths are not empty, they start with a slash.\<close>

fun match_mounts :: "string \<Rightarrow> ('n, 's) MountPoint list \<Rightarrow> nat \<Rightarrow> nat \<times> nat \<Rightarrow> nat \<times> nat" where
  "match_mounts path [] i (idx, max_len) = (idx, max_len)"
| "match_mounts path (mp # mps) i (idx, max_len) =
     (if starts_with path (drop 1 (mp_path mp)) \<and> length (mp_path mp) - 1 > max_len
      then match_mounts path mps (Suc i) (i, length (mp_path mp) - 1)
      else match_mounts path mps (Suc i) (idx, max_len))"

function lookup_mounted_fs :: "('n, 's) RootDirectory \<Rightarrow> string \<Rightarrow> (('n, 's) VfsOps \<Rightarrow> string \<Rightarrow> 'r) \<Rightarrow> 'r" where
  "lookup_mounted_fs R path0 f =
     (let path = trim_slashes path0
      in if starts_with path ''./'' then lookup_mounted_fs R (drop 2 path) f
         else case match_mounts path (rd_mounts R) 0 (0, 0) of
                (idx, max_len) \<Rightarrow>
                  if max_len = 0 then f (rd_main_fs R) path
                  else f (mp_fs (rd_mounts R ! idx)) (drop max_len path))"
  by pat_completeness auto
termination
proof (relation "measure (\<lambda>(R, path, f). length path)")
  fix R :: "('n, 's) RootDirectory" and path path0 and f :: "('n, 's) VfsOps \<Rightarrow> string \<Rightarrow> 'r"
  assume p: "path = trim_slashes path0" "starts_with path ''./''"
  then have "length path \<ge> 2" using prefix_length_le by (fastforce simp: starts_with_def)
  then show "((R, drop 2 path, f), R, path0, f) \<in> measure (\<lambda>(R, path, f). length path)"
    using trim_slashes_le [of path0] p(1) by simp
qed simp

declare lookup_mounted_fs.simps [simp del]

definition root_lookup :: "('n, 's) VfsNodeOps \<Rightarrow> ('n, 's) RootDirectory \<Rightarrow> string \<Rightarrow> ('s, 'n) vfs" where
  "root_lookup N R path = lookup_mounted_fs R path (\<lambda>fs rest_path. vn_lookup N (fs_root_dir fs) rest_path)"

definition root_create :: "('n, 's) VfsNodeOps \<Rightarrow> ('n, 's) RootDirectory \<Rightarrow> string \<Rightarrow> VfsNodeType \<Rightarrow> ('s, unit) vfs" where
  "root_create N R path ty =
     lookup_mounted_fs R path (\<lambda>fs rest_path. if rest_path = [] then vret () else vn_create N (fs_root_dir fs) rest_path ty)"

definition root_remove :: "('n, 's) VfsNodeOps \<Rightarrow> ('n, 's) RootDirectory \<Rightarrow> string \<Rightarrow> ('s, unit) vfs" where
  "root_remove N R path =
     lookup_mounted_fs R path (\<lambda>fs rest_path. if rest_path = [] then verr PermissionDenied else vn_remove N (fs_root_dir fs) rest_path)"

text \<open>The nodes that the module works with: the root directory, and the nodes of the file systems.\<close>

definition vmap :: "('a \<Rightarrow> 'b) \<Rightarrow> ('s, 'a) vfs \<Rightarrow> ('s, 'b) vfs" where
  "vmap f m = vthen m (\<lambda>x. vret (f x))"

definition root_ops :: "('n, 's) VfsNodeOps \<Rightarrow> ('n, 's) RootDirectory \<Rightarrow> ('n fsnode, 's) VfsNodeOps" where
  "root_ops N R =
     (impl_vfs_dir_default node_default)
     \<lparr>vn_get_attr := (\<lambda>n. vn_get_attr N (fs_root_dir (rd_main_fs R))),
      vn_lookup := (\<lambda>n path. vmap Node (root_lookup N R path)),
      vn_create := (\<lambda>n path ty. root_create N R path ty),
      vn_remove := (\<lambda>n path. root_remove N R path)\<rparr>"

definition node_ops :: "('n, 's) VfsNodeOps \<Rightarrow> ('n, 's) RootDirectory \<Rightarrow> ('n fsnode, 's) VfsNodeOps" where
  "node_ops N R =
     (let O' = root_ops N R in
      \<lparr>vn_open = (\<lambda>n. case n of RootDir \<Rightarrow> vn_open O' n | Node m \<Rightarrow> vn_open N m),
       vn_release = (\<lambda>n. case n of RootDir \<Rightarrow> vn_release O' n | Node m \<Rightarrow> vn_release N m),
       vn_get_attr = (\<lambda>n. case n of RootDir \<Rightarrow> vn_get_attr O' n | Node m \<Rightarrow> vn_get_attr N m),
       vn_read_at = (\<lambda>n offset buf. case n of RootDir \<Rightarrow> vn_read_at O' n offset buf | Node m \<Rightarrow> vn_read_at N m offset buf),
       vn_write_at = (\<lambda>n offset buf. case n of RootDir \<Rightarrow> vn_write_at O' n offset buf | Node m \<Rightarrow> vn_write_at N m offset buf),
       vn_fsync = (\<lambda>n. case n of RootDir \<Rightarrow> vn_fsync O' n | Node m \<Rightarrow> vn_fsync N m),
       vn_truncate = (\<lambda>n sz. case n of RootDir \<Rightarrow> vn_truncate O' n sz | Node m \<Rightarrow> vn_truncate N m sz),
       vn_parent = (\<lambda>n s. case n of RootDir \<Rightarrow> vn_parent O' n s | Node m \<Rightarrow> map_option Node (vn_parent N m s)),
       vn_lookup = (\<lambda>n path. case n of RootDir \<Rightarrow> vn_lookup O' n path | Node m \<Rightarrow> vmap Node (vn_lookup N m path)),
       vn_create = (\<lambda>n path ty. case n of RootDir \<Rightarrow> vn_create O' n path ty | Node m \<Rightarrow> vn_create N m path ty),
       vn_remove = (\<lambda>n path. case n of RootDir \<Rightarrow> vn_remove O' n path | Node m \<Rightarrow> vn_remove N m path),
       vn_read_dir = (\<lambda>n start_idx dirents. case n of
           RootDir \<Rightarrow> vn_read_dir O' n start_idx dirents | Node m \<Rightarrow> vn_read_dir N m start_idx dirents)\<rparr>)"

section \<open>Calls on paths\<close>

record ('n, 's) FsState =
  current_dir_path :: string
  current_dir_node :: "'n fsnode"
  fs_world :: 's

definition on_world :: "('s, 'a) vfs \<Rightarrow> (('n, 's) FsState, 'a) vfs" where
  "on_world m st = out_then (m (fs_world st)) (\<lambda>(r, s). Ret (r, st\<lparr>fs_world := s\<rparr>))"

text \<open>
  \<open>init_rootfs\<close>: the main file system, which the features choose, and the file systems that are mounted, \<open>/dev\<close> and \<open>/tmp\<close>, for the features
  that are on; \<open>expect\<close> panics.
\<close>

definition mount_expect :: "('n, 's) VfsNodeOps \<Rightarrow> string \<Rightarrow> ('n, 's) VfsOps option \<Rightarrow> ('n, 's) RootDirectory \<times> 's \<Rightarrow> (('n, 's) RootDirectory \<times> 's) outcome" where
  "mount_expect N path fs Rs =
     (case fs of
        None \<Rightarrow> Ret Rs
      | Some fs \<Rightarrow> out_then (mount N path fs (fst Rs) (snd Rs)) (\<lambda>(r, s). case r of Inl e \<Rightarrow> Panic | Inr R \<Rightarrow> Ret (R, s)))"

definition init_rootfs :: "('n, 's) VfsNodeOps \<Rightarrow> ('n, 's) VfsOps \<Rightarrow> ('n, 's) VfsOps option \<Rightarrow> ('n, 's) VfsOps option \<Rightarrow> 's \<Rightarrow>
    (('n, 's) RootDirectory \<times> ('n, 's) FsState) outcome" where
  "init_rootfs N main_fs devfs ramfs s =
     out_then (mount_expect N ''/dev'' devfs (root_dir_new main_fs, s)) (\<lambda>Rs.
       out_then (mount_expect N ''/tmp'' ramfs Rs) (\<lambda>(R, s).
         Ret (R, \<lparr>current_dir_path = ''/'', current_dir_node = RootDir, fs_world = s\<rparr>)))"

definition parent_node_of :: "'n fsnode option \<Rightarrow> string \<Rightarrow> ('n, 's) FsState \<Rightarrow> 'n fsnode" where
  "parent_node_of dir path st =
     (if starts_with path ''/'' then RootDir
      else case dir of Some d \<Rightarrow> d | None \<Rightarrow> current_dir_node st)"

definition absolute_path :: "string \<Rightarrow> ('n, 's) FsState \<Rightarrow> string" where
  "absolute_path path st =
     (if starts_with path ''/'' then canonicalize path
      else canonicalize (current_dir_path st @ path))"

definition lookup :: "('n, 's) VfsNodeOps \<Rightarrow> ('n, 's) RootDirectory \<Rightarrow> 'n fsnode option \<Rightarrow> string \<Rightarrow> (('n, 's) FsState, 'n fsnode) vfs" where
  "lookup N R dir path st =
     (if path = [] then verr NotFound st
      else
        vthen (on_world (vn_lookup (node_ops N R) (parent_node_of dir path st) path)) (\<lambda>node.
          if ends_with path ''/'' then
            vthen (on_world (vn_get_attr (node_ops N R) node)) (\<lambda>attr. if \<not> attr_is_dir attr then verr NotADirectory else vret node)
          else vret node) st)"

definition create_file :: "('n, 's) VfsNodeOps \<Rightarrow> ('n, 's) RootDirectory \<Rightarrow> 'n fsnode option \<Rightarrow> string \<Rightarrow> (('n, 's) FsState, 'n fsnode) vfs" where
  "create_file N R dir path st =
     (if path = [] then verr NotFound st
      else if ends_with path ''/'' then verr NotADirectory st
      else
        let parent = parent_node_of dir path st
        in vthen (on_world (vn_create (node_ops N R) parent path File)) (\<lambda>_. on_world (vn_lookup (node_ops N R) parent path)) st)"

definition create_dir :: "('n, 's) VfsNodeOps \<Rightarrow> ('n, 's) RootDirectory \<Rightarrow> 'n fsnode option \<Rightarrow> string \<Rightarrow> (('n, 's) FsState, unit) vfs" where
  "create_dir N R dir path st =
     out_then (lookup N R dir path st) (\<lambda>(r, st).
       case r of
         Inr node \<Rightarrow> verr AlreadyExists st
       | Inl e \<Rightarrow>
           if e = NotFound then on_world (vn_create (node_ops N R) (parent_node_of dir path st) path Dir) st
           else verr e st)"

definition remove_file :: "VfsNodePerm bitflags \<Rightarrow> ('n, 's) VfsNodeOps \<Rightarrow> ('n, 's) RootDirectory \<Rightarrow> 'n fsnode option \<Rightarrow> string \<Rightarrow> (('n, 's) FsState, unit) vfs" where
  "remove_file P N R dir path =
     vthen (lookup N R dir path) (\<lambda>node.
       vthen (on_world (vn_get_attr (node_ops N R) node)) (\<lambda>attr st.
         if attr_is_dir attr then verr IsADirectory st
         else if \<not> owner_writable P (attr_mode attr) then verr PermissionDenied st
         else on_world (vn_remove (node_ops N R) (parent_node_of dir path st) path) st))"

definition remove_dir :: "VfsNodePerm bitflags \<Rightarrow> ('n, 's) VfsNodeOps \<Rightarrow> ('n, 's) RootDirectory \<Rightarrow> 'n fsnode option \<Rightarrow> string \<Rightarrow> (('n, 's) FsState, unit) vfs" where
  "remove_dir P N R dir path st =
     (if path = [] then verr NotFound st
      else
        let path_check = trim_slashes path
        in if path_check = [] then verr DirectoryNotEmpty st
           else if path_check = ''.'' \<or> path_check = ''..'' \<or> ends_with path_check ''/.'' \<or> ends_with path_check ''/..'' then verr InvalidInput st
           else if contains (absolute_path path st) R then verr PermissionDenied st
           else
             vthen (lookup N R dir path) (\<lambda>node.
               vthen (on_world (vn_get_attr (node_ops N R) node)) (\<lambda>attr st.
                 if \<not> attr_is_dir attr then verr NotADirectory st
                 else if \<not> owner_writable P (attr_mode attr) then verr PermissionDenied st
                 else on_world (vn_remove (node_ops N R) (parent_node_of dir path st) path) st)) st)"

definition current_dir :: "('n, 's) FsState \<Rightarrow> string" where
  "current_dir st = current_dir_path st"

definition set_current_dir :: "VfsNodePerm bitflags \<Rightarrow> ('n, 's) VfsNodeOps \<Rightarrow> ('n, 's) RootDirectory \<Rightarrow> string \<Rightarrow> (('n, 's) FsState, unit) vfs" where
  "set_current_dir P N R path st =
     (let abs_path = absolute_path path st;
          abs_path = (if \<not> ends_with abs_path ''/'' then abs_path @ ''/'' else abs_path)
      in if abs_path = ''/'' then vret () (st\<lparr>current_dir_node := RootDir, current_dir_path := ''/''\<rparr>)
         else
           vthen (lookup N R None abs_path) (\<lambda>node.
             vthen (on_world (vn_get_attr (node_ops N R) node)) (\<lambda>attr st.
               if \<not> attr_is_dir attr then verr NotADirectory st
               else if \<not> owner_executable P (attr_mode attr) then verr PermissionDenied st
               else vret () (st\<lparr>current_dir_node := node, current_dir_path := abs_path\<rparr>))) st)"

end
