(* ===== verification/Axio.thy ===== *)
theory Axio
  imports Vfs
begin

text \<open>
  Model of the crate \<open>axio\<close> (src/crates/axio/src: lib.rs, impls.rs, buffered/bufreader.rs): the provided methods of the traits \<open>Read\<close>,
  \<open>Write\<close>, \<open>Seek\<close> and \<open>BufRead\<close>, the reader over a slice and \<open>BufReader\<close>.

  An implementation of \<open>Read\<close> is its method \<open>read\<close>: it gets the buffer and gives the number of bytes and the buffer after the call. The
  loops that depend on the reader to make progress are partial; the contract \<open>stream_reader\<close> is what a source of bytes promises, and
  under it they end.
\<close>

section \<open>Readers and writers\<close>

type_synonym 'r Read = "u8 list \<Rightarrow> ('r, nat \<times> u8 list) vfs"
type_synonym 'w Write = "u8 list \<Rightarrow> ('w, nat) vfs"

partial_function (option) read_to_end_loop :: "'r Read \<Rightarrow> nat \<Rightarrow> u8 list \<Rightarrow> u8 list \<Rightarrow> 'r \<Rightarrow> ((nat AxResult \<times> u8 list) \<times> 'r) outcome option" where
  "read_to_end_loop rd start_len probe buf r =
     (case rd probe r of
        Panic \<Rightarrow> Some Panic
      | Ret (Inl e, r) \<Rightarrow> Some (Ret ((Err e, buf), r))
      | Ret (Inr (n, probe), r) \<Rightarrow>
          if n = 0 then Some (Ret ((Ok (length buf - start_len), buf), r))
          else if n > length probe then Some Panic
          else read_to_end_loop rd start_len probe (buf @ take n probe) r)"

definition read_to_end :: "'r Read \<Rightarrow> u8 list \<Rightarrow> 'r \<Rightarrow> ((nat AxResult \<times> u8 list) \<times> 'r) outcome option" where
  "read_to_end rd buf r = read_to_end_loop rd (length buf) (replicate 32 0) buf r"

text \<open>\<open>read_exact\<close>: \<open>got\<close> is the part of the buffer that is filled, \<open>buf\<close> the rest.\<close>

partial_function (option) read_exact_loop :: "'r Read \<Rightarrow> u8 list \<Rightarrow> u8 list \<Rightarrow> 'r \<Rightarrow> ((unit AxResult \<times> u8 list) \<times> 'r) outcome option" where
  "read_exact_loop rd got buf r =
     (if buf = [] then Some (Ret ((Ok (), got), r))
      else
        case rd buf r of
          Panic \<Rightarrow> Some Panic
        | Ret (Inl e, r) \<Rightarrow> Some (Ret ((Err e, got @ buf), r))
        | Ret (Inr (n, buf), r) \<Rightarrow>
            if n = 0 then Some (Ret ((Err UnexpectedEof, got @ buf), r))
            else if n > length buf then Some Panic
            else read_exact_loop rd (got @ take n buf) (drop n buf) r)"

definition read_exact :: "'r Read \<Rightarrow> u8 list \<Rightarrow> 'r \<Rightarrow> ((unit AxResult \<times> u8 list) \<times> 'r) outcome option" where
  "read_exact rd buf r = read_exact_loop rd [] buf r"

function write_all :: "'w Write \<Rightarrow> u8 list \<Rightarrow> ('w, unit) vfs" where
  "write_all wr buf w =
     (if buf = [] then vret () w
      else
        case wr buf w of
          Panic \<Rightarrow> Panic
        | Ret (Inl e, w) \<Rightarrow> verr e w
        | Ret (Inr n, w) \<Rightarrow>
            if n = 0 then verr WriteZero w
            else if n > length buf then Panic
            else write_all wr (drop n buf) w)"
  by pat_completeness auto
termination
  by (relation "measure (\<lambda>(wr, buf, w). length buf)") auto

declare write_all.simps [simp del]

text \<open>\<open>core::str::from_utf8\<close> accepts exactly the well-formed sequences.\<close>

definition cont :: "u8 \<Rightarrow> bool" where
  "cont b \<longleftrightarrow> 0x80 \<le> b \<and> b \<le> 0xBF"

fun valid_utf8 :: "u8 list \<Rightarrow> bool" where
  "valid_utf8 [] = True"
| "valid_utf8 (a # bs) =
     (if a < 0x80 then valid_utf8 bs
      else case bs of
        [] \<Rightarrow> False
      | b # cs \<Rightarrow>
          if 0xC2 \<le> a \<and> a \<le> 0xDF then cont b \<and> valid_utf8 cs
          else case cs of
            [] \<Rightarrow> False
          | c # ds \<Rightarrow>
              if 0xE0 \<le> a \<and> a \<le> 0xEF then
                cont b \<and> (a = 0xE0 \<longrightarrow> 0xA0 \<le> b) \<and> (a = 0xED \<longrightarrow> b \<le> 0x9F) \<and> cont c \<and> valid_utf8 ds
              else case ds of
                [] \<Rightarrow> False
              | d # es \<Rightarrow>
                  0xF0 \<le> a \<and> a \<le> 0xF4 \<and> cont b \<and> (a = 0xF0 \<longrightarrow> 0x90 \<le> b) \<and> (a = 0xF4 \<longrightarrow> b \<le> 0x8F) \<and> cont c \<and> cont d \<and> valid_utf8 es)"

text \<open>\<open>append_to_string\<close>, with the result of the call that appends to the bytes of the string.\<close>

definition append_to_string :: "u8 list \<Rightarrow> (u8 list \<Rightarrow> ((nat AxResult \<times> u8 list) \<times> 'r) outcome option) \<Rightarrow> ((nat AxResult \<times> u8 list) \<times> 'r) outcome option" where
  "append_to_string buf f =
     (case f buf of
        None \<Rightarrow> None
      | Some Panic \<Rightarrow> Some Panic
      | Some (Ret ((Inl e, bytes), r)) \<Rightarrow> Some (Ret ((Err e, bytes), r))
      | Some (Ret ((Inr n, bytes), r)) \<Rightarrow>
          Some (Ret ((if valid_utf8 (drop (length buf) bytes) then Ok n else Err InvalidData, bytes), r)))"

definition read_to_string :: "'r Read \<Rightarrow> u8 list \<Rightarrow> 'r \<Rightarrow> ((nat AxResult \<times> u8 list) \<times> 'r) outcome option" where
  "read_to_string rd buf r = append_to_string buf (\<lambda>b. read_to_end rd b r)"

datatype SeekFrom = Start u64 | End u64 | Current u64

definition rewind :: "(SeekFrom \<Rightarrow> ('r, u64) vfs) \<Rightarrow> ('r, unit) vfs" where
  "rewind seek = vthen (seek (Start 0)) (\<lambda>_. vret ())"

definition stream_position :: "(SeekFrom \<Rightarrow> ('r, u64) vfs) \<Rightarrow> ('r, u64) vfs" where
  "stream_position seek = seek (Current 0)"

section \<open>A slice as a reader\<close>

definition slice_read :: "(u8 list) Read" where
  "slice_read buf self =
     (let amt = min (length buf) (length self)
      in vret (amt, take amt self @ drop amt buf) (drop amt self))"

definition slice_read_exact :: "u8 list \<Rightarrow> u8 list \<Rightarrow> (unit AxResult \<times> u8 list) \<times> u8 list" where
  "slice_read_exact buf self =
     (if length buf > length self then ((Err UnexpectedEof, buf), self)
      else ((Ok (), take (length buf) self), drop (length buf) self))"

definition slice_read_to_end :: "u8 list \<Rightarrow> u8 list \<Rightarrow> (nat AxResult \<times> u8 list) \<times> u8 list" where
  "slice_read_to_end buf self = ((Ok (length self), buf @ self), [])"

section \<open>The buffered reader\<close>

definition DEFAULT_BUF_SIZE :: nat where
  "DEFAULT_BUF_SIZE = 1024"

record 'r BufReader =
  br_inner :: 'r
  br_pos :: nat
  br_filled :: nat
  br_buf :: "u8 list"

definition buf_reader_new :: "'r \<Rightarrow> 'r BufReader" where
  "buf_reader_new inner = \<lparr>br_inner = inner, br_pos = 0, br_filled = 0, br_buf = replicate DEFAULT_BUF_SIZE 0\<rparr>"

text \<open>The slice \<open>buf[pos..filled]\<close> panics out of range.\<close>

definition buffer :: "'r BufReader \<Rightarrow> u8 list outcome" where
  "buffer self =
     (if br_pos self > br_filled self \<or> br_filled self > length (br_buf self) then Panic
      else Ret (take (br_filled self - br_pos self) (drop (br_pos self) (br_buf self))))"

definition discard_buffer :: "'r BufReader \<Rightarrow> 'r BufReader" where
  "discard_buffer self = self\<lparr>br_pos := 0, br_filled := 0\<rparr>"

definition is_empty :: "'r BufReader \<Rightarrow> bool" where
  "is_empty self \<longleftrightarrow> br_pos self \<ge> br_filled self"

text \<open>A call of the inner reader.\<close>

definition on_inner :: "('r, 'a) vfs \<Rightarrow> ('r BufReader, 'a) vfs" where
  "on_inner m self = out_then (m (br_inner self)) (\<lambda>(x, r). Ret (x, self\<lparr>br_inner := r\<rparr>))"

definition fill_buf :: "'r Read \<Rightarrow> ('r BufReader, u8 list) vfs" where
  "fill_buf rd self =
     (if is_empty self then
        vthen (on_inner (rd (br_buf self))) (\<lambda>(read_len, buf) self.
          let self = self\<lparr>br_buf := buf, br_pos := 0, br_filled := read_len\<rparr>
          in out_then (buffer self) (\<lambda>b. vret b self)) self
      else out_then (buffer self) (\<lambda>b. vret b self))"

definition consume :: "nat \<Rightarrow> 'r BufReader \<Rightarrow> 'r BufReader" where
  "consume amt self = self\<lparr>br_pos := min (br_pos self + amt) (br_filled self)\<rparr>"

definition buf_read :: "'r Read \<Rightarrow> ('r BufReader) Read" where
  "buf_read rd buf self =
     (if is_empty self \<and> length buf \<ge> DEFAULT_BUF_SIZE then on_inner (rd buf) (discard_buffer self)
      else
        vthen (fill_buf rd) (\<lambda>rem self.
          out_then (slice_read buf rem) (\<lambda>(x, rem).
            case x of
              Inl e \<Rightarrow> verr e self
            | Inr (nread, buf) \<Rightarrow> vret (nread, buf) (consume nread self))) self)"

definition buf_read_exact :: "'r Read \<Rightarrow> u8 list \<Rightarrow> 'r BufReader \<Rightarrow> ((unit AxResult \<times> u8 list) \<times> 'r BufReader) outcome option" where
  "buf_read_exact rd buf self =
     (let amt = length buf
      in case buffer self of
           Panic \<Rightarrow> Some Panic
         | Ret b \<Rightarrow>
             if amt \<le> length b then Some (Ret ((Ok (), take amt b), self\<lparr>br_pos := br_pos self + amt\<rparr>))
             else map_option (\<lambda>x. out_then x (\<lambda>(res, r). Ret (res, self\<lparr>br_inner := r\<rparr>))) (read_exact rd buf (br_inner self)))"

definition buf_read_to_end :: "'r Read \<Rightarrow> u8 list \<Rightarrow> 'r BufReader \<Rightarrow> ((nat AxResult \<times> u8 list) \<times> 'r BufReader) outcome option" where
  "buf_read_to_end rd buf self =
     (case buffer self of
        Panic \<Rightarrow> Some Panic
      | Ret inner_buf \<Rightarrow>
          map_option (\<lambda>x. out_then x (\<lambda>((res, buf), r).
              Ret ((case res of Inl e \<Rightarrow> Err e | Inr n \<Rightarrow> Ok (length inner_buf + n), buf), (discard_buffer self)\<lparr>br_inner := r\<rparr>)))
            (read_to_end rd (buf @ inner_buf) (br_inner self)))"

definition buf_read_to_string :: "'r Read \<Rightarrow> u8 list \<Rightarrow> 'r BufReader \<Rightarrow> ((nat AxResult \<times> u8 list) \<times> 'r BufReader) outcome option" where
  "buf_read_to_string rd buf self =
     (if buf = [] then append_to_string buf (\<lambda>b. buf_read_to_end rd b self)
      else
        map_option (\<lambda>x. out_then x (\<lambda>((res, bytes), self).
            case res of
              Inl e \<Rightarrow> Ret ((Err e, buf), self)
            | Inr n \<Rightarrow> if valid_utf8 bytes then Ret ((Ok (length bytes), buf @ bytes), self) else Ret ((Err InvalidData, buf), self)))
          (buf_read_to_end rd [] self))"

section \<open>The provided methods of BufRead\<close>

text \<open>For any \<open>fill_buf\<close> and \<open>consume\<close>; a reader that would block is asked again.\<close>

definition has_data_left :: "('b, u8 list) vfs \<Rightarrow> ('b, bool) vfs" where
  "has_data_left fill = vthen fill (\<lambda>b. vret (b \<noteq> []))"

partial_function (option) read_until_loop :: "('b, u8 list) vfs \<Rightarrow> (nat \<Rightarrow> 'b \<Rightarrow> 'b) \<Rightarrow> u8 \<Rightarrow> nat \<Rightarrow> u8 list \<Rightarrow> 'b \<Rightarrow> ((nat AxResult \<times> u8 list) \<times> 'b) outcome option" where
  "read_until_loop fill cons byte rd buf b =
     (case fill b of
        Panic \<Rightarrow> Some Panic
      | Ret (Inl e, b) \<Rightarrow> if e = WouldBlock then read_until_loop fill cons byte rd buf b else Some (Ret ((Err e, buf), b))
      | Ret (Inr available, b) \<Rightarrow>
          (case position (\<lambda>x. x = byte) available of
             Some i \<Rightarrow> Some (Ret ((Ok (rd + (i + 1)), buf @ take (i + 1) available), cons (i + 1) b))
           | None \<Rightarrow>
               let used = length available; b = cons used b
               in if used = 0 then Some (Ret ((Ok (rd + used), buf @ available), b))
                  else read_until_loop fill cons byte (rd + used) (buf @ available) b))"

definition read_until :: "('b, u8 list) vfs \<Rightarrow> (nat \<Rightarrow> 'b \<Rightarrow> 'b) \<Rightarrow> u8 \<Rightarrow> u8 list \<Rightarrow> 'b \<Rightarrow> ((nat AxResult \<times> u8 list) \<times> 'b) outcome option" where
  "read_until fill cons byte buf b = read_until_loop fill cons byte 0 buf b"

definition read_line :: "('b, u8 list) vfs \<Rightarrow> (nat \<Rightarrow> 'b \<Rightarrow> 'b) \<Rightarrow> u8 list \<Rightarrow> 'b \<Rightarrow> ((nat AxResult \<times> u8 list) \<times> 'b) outcome option" where
  "read_line fill cons buf b = append_to_string buf (\<lambda>v. read_until fill cons 0x0A v b)"

section \<open>Sources of bytes\<close>

text \<open>
  A source has the bytes \<open>rest r\<close> still to give. A read gives some of them, at least one if there are any and the buffer is not empty. The
  length of a slice is at most \<open>isize::MAX\<close>.
\<close>

locale stream_reader =
  fixes rd :: "'r Read" and rest :: "'r \<Rightarrow> u8 list" and ok :: "'r \<Rightarrow> bool"
  assumes read_some: "ok r \<Longrightarrow> length buf < 2 ^ 63 \<Longrightarrow> \<exists>n r'. rd buf r = Ret (Ok (n, take n (rest r) @ drop n buf), r') \<and> n \<le> length buf \<and> n \<le> length (rest r) \<and>
      (n = 0 \<longrightarrow> buf = [] \<or> rest r = []) \<and> rest r' = drop n (rest r) \<and> ok r'"
begin

lemma read_to_end_loop_all:
  assumes "ok r" "probe \<noteq> []" "length probe < 2 ^ 63"
  shows "\<exists>r'. read_to_end_loop rd start probe buf r = Some (Ret ((Ok (length (buf @ rest r) - start), buf @ rest r), r')) \<and> ok r' \<and> rest r' = []"
  using assms
proof (induction "length (rest r)" arbitrary: probe buf r rule: less_induct)
  case less
  obtain n r' where n: "rd probe r = Ret (Ok (n, take n (rest r) @ drop n probe), r')" "n \<le> length probe" "n \<le> length (rest r)"
      "n = 0 \<longrightarrow> probe = [] \<or> rest r = []" "rest r' = drop n (rest r)" "ok r'"
    using read_some [OF less.prems(1,3)] by blast
  show ?case
  proof (cases "n = 0")
    case True
    then have "rest r = []" using n(4) less.prems(2) by blast
    then show ?thesis using n(1,5,6) True by (simp add: read_to_end_loop.simps [of rd start probe])
  next
    case False
    let ?p = "take n (rest r) @ drop n probe"
    have lt: "length (rest r') < length (rest r)" using n(3,5) False by simp
    have p: "take n ?p = take n (rest r)" "?p \<noteq> []" "length ?p = length probe" using n(2,3) False less.prems(2) by auto
    have p': "length ?p < 2 ^ 63" using p(3) less.prems(3) by simp
    obtain r'' where "read_to_end_loop rd start ?p (buf @ take n (rest r)) r' =
        Some (Ret ((Ok (length ((buf @ take n (rest r)) @ rest r') - start), (buf @ take n (rest r)) @ rest r'), r''))" "ok r''" "rest r'' = []"
      using less.hyps [OF lt n(6) p(2) p', of "buf @ take n (rest r)"] by blast
    then show ?thesis unfolding read_to_end_loop.simps [of rd start probe] using n(1,2,3,5) p(1,3) False by simp
  qed
qed

lemma read_to_end_all:
  assumes "ok r"
  shows "\<exists>r'. read_to_end rd buf r = Some (Ret ((Ok (length (rest r)), buf @ rest r), r')) \<and> ok r' \<and> rest r' = []"
  using read_to_end_loop_all [OF assms, of "replicate 32 0" "length buf" buf] by (simp add: read_to_end_def)

lemma read_exact_loop_spec:
  assumes "ok r" "length buf < 2 ^ 63"
  shows "\<exists>r'. read_exact_loop rd got buf r =
      Some (Ret ((if length buf \<le> length (rest r) then Ok () else Err UnexpectedEof,
                  got @ take (length buf) (rest r) @ drop (length (rest r)) buf), r')) \<and> ok r' \<and> rest r' = drop (length buf) (rest r)"
  using assms
proof (induction "length buf" arbitrary: got buf r rule: less_induct)
  case less
  show ?case
  proof (cases "buf = []")
    case True
    have "read_exact_loop rd got [] r = Some (Ret ((Ok (), got), r))" by (simp add: read_exact_loop.simps [of rd got "[]"])
    then show ?thesis using less.prems(1) True by simp
  next
    case ne: False
    obtain n r' where n: "rd buf r = Ret (Ok (n, take n (rest r) @ drop n buf), r')" "n \<le> length buf" "n \<le> length (rest r)"
        "n = 0 \<longrightarrow> buf = [] \<or> rest r = []" "rest r' = drop n (rest r)" "ok r'"
      using read_some [OF less.prems] by blast
    show ?thesis
    proof (cases "n = 0")
      case True
      then have "rest r = []" using n(4) ne by blast
      then show ?thesis using n(1,5,6) True ne by (simp add: read_exact_loop.simps [of rd got buf])
    next
      case False
      let ?b = "take n (rest r) @ drop n buf"
      have b: "take n ?b = take n (rest r)" "drop n ?b = drop n buf" "length ?b = length buf" using n(2,3) by auto
      have shorter: "length (drop n buf) < length buf" using False ne by simp
      have small: "length (drop n buf) < 2 ^ 63" using shorter less.prems(2) by linarith
      have t: "take n (rest r) @ take (length buf - n) (drop n (rest r)) = take (length buf) (rest r)"
        using n(2) by (metis le_add_diff_inverse take_add)
      have e1: "length (drop n buf) \<le> length (rest r') \<longleftrightarrow> length buf \<le> length (rest r)" using n(2,3,5) False by simp linarith
      have "drop (length (rest r')) (drop n buf) = drop (length (rest r)) buf" using n(3,5) by simp
      then have e2: "(got @ take n (rest r)) @ take (length (drop n buf)) (rest r') @ drop (length (rest r')) (drop n buf) =
          got @ take (length buf) (rest r) @ drop (length (rest r)) buf"
        using t n(5) by (metis append_assoc length_drop)
      have e3: "drop (length (drop n buf)) (rest r') = drop (length buf) (rest r)" using n(2,5) by simp
      obtain r'' where r'': "read_exact_loop rd (got @ take n (rest r)) (drop n buf) r' =
          Some (Ret ((if length buf \<le> length (rest r) then Ok () else Err UnexpectedEof,
            got @ take (length buf) (rest r) @ drop (length (rest r)) buf), r''))" "ok r''" "rest r'' = drop (length buf) (rest r)"
        using less.hyps [OF shorter n(6) small, of "got @ take n (rest r)"] unfolding e1 e2 e3 by blast
      then show ?thesis unfolding read_exact_loop.simps [of rd got buf] using n(1,2) ne False b by simp
    qed
  qed
qed

end

interpretation slice: stream_reader slice_read "\<lambda>s. s" "\<lambda>s. True"
proof
  fix buf r :: "u8 list"
  let ?n = "min (length buf) (length r)"
  have "?n = 0 \<longrightarrow> buf = [] \<or> r = []" by (simp add: min_def)
  then show "\<exists>n r'. slice_read buf r = Ret (Ok (n, take n r @ drop n buf), r') \<and> n \<le> length buf \<and> n \<le> length r \<and>
      (n = 0 \<longrightarrow> buf = [] \<or> r = []) \<and> r' = drop n r \<and> True"
    by (intro exI [of _ ?n] exI [of _ "drop ?n r"]) (simp add: slice_read_def Let_def)
qed

end
