(* ===== verification/AxFsFops.thy ===== *)
theory AxFsFops
  imports AxFsRoot Axio
begin

text \<open>
  Model of src/modules/axfs/src/fops.rs: open options, open files and open directories. A file or directory object holds its node together with
  the rights it was opened with (\<open>WithCap\<close>). A call with \<open>&mut self\<close> works on the pair of the object and the state of the file systems.
\<close>

section \<open>Open options\<close>

record OpenOptions =
  opt_read :: bool
  opt_write :: bool
  opt_append :: bool
  opt_truncate :: bool
  opt_create :: bool
  opt_create_new :: bool
  custom_flags :: "32 word"
  opt_mode :: u32

definition open_options_new :: OpenOptions where
  "open_options_new =
     \<lparr>opt_read = False, opt_write = False, opt_append = False, opt_truncate = False, opt_create = False, opt_create_new = False,
      custom_flags = 0, opt_mode = 0x1B6\<rparr>"

definition set_read :: "bool \<Rightarrow> OpenOptions \<Rightarrow> OpenOptions" where "set_read b self = self\<lparr>opt_read := b\<rparr>"
definition set_write :: "bool \<Rightarrow> OpenOptions \<Rightarrow> OpenOptions" where "set_write b self = self\<lparr>opt_write := b\<rparr>"
definition set_append :: "bool \<Rightarrow> OpenOptions \<Rightarrow> OpenOptions" where "set_append b self = self\<lparr>opt_append := b\<rparr>"
definition set_truncate :: "bool \<Rightarrow> OpenOptions \<Rightarrow> OpenOptions" where "set_truncate b self = self\<lparr>opt_truncate := b\<rparr>"
definition set_create :: "bool \<Rightarrow> OpenOptions \<Rightarrow> OpenOptions" where "set_create b self = self\<lparr>opt_create := b\<rparr>"
definition set_create_new :: "bool \<Rightarrow> OpenOptions \<Rightarrow> OpenOptions" where "set_create_new b self = self\<lparr>opt_create_new := b\<rparr>"

definition is_valid :: "OpenOptions \<Rightarrow> bool" where
  "is_valid self =
     (if \<not> opt_read self \<and> \<not> opt_write self \<and> \<not> opt_append self then False
      else case (opt_write self, opt_append self) of
             (True, False) \<Rightarrow> True
           | (False, False) \<Rightarrow> \<not> (opt_truncate self \<or> opt_create self \<or> opt_create_new self)
           | (_, True) \<Rightarrow> \<not> (opt_truncate self \<and> \<not> opt_create_new self))"

definition cap_from_opts :: "Cap bitflags \<Rightarrow> OpenOptions \<Rightarrow> Cap" where
  "cap_from_opts C opts =
     (let cap = cap_empty;
          cap = (if opt_read opts then bf_union C cap CAP_READ else cap);
          cap = (if opt_write opts \<or> opt_append opts then bf_union C cap CAP_WRITE else cap)
      in cap)"

definition perm_to_cap :: "Cap bitflags \<Rightarrow> VfsNodePerm bitflags \<Rightarrow> VfsNodePerm \<Rightarrow> Cap" where
  "perm_to_cap C P perm =
     (let cap = cap_empty;
          cap = (if owner_readable P perm then bf_union C cap CAP_READ else cap);
          cap = (if owner_writable P perm then bf_union C cap CAP_WRITE else cap);
          cap = (if owner_executable P perm then bf_union C cap CAP_EXECUTE else cap)
      in cap)"

section \<open>Files\<close>

record 'n File =
  fl_node :: "'n WithCap"
  is_append :: bool
  offset :: u64

text \<open>\<open>node.access(cap)?\<close>, and a call on the node of an object.\<close>

definition acc :: "Cap bitflags \<Rightarrow> Cap \<Rightarrow> 'n WithCap \<Rightarrow> ('s, 'n) vfs" where
  "acc C cap node = (case access C cap node of Inl e \<Rightarrow> verr (from_cap_error e) | Inr n \<Rightarrow> vret n)"

definition on_obj :: "('s, 'a) vfs \<Rightarrow> ('f \<times> 's, 'a) vfs" where
  "on_obj m st = (case st of (self, s) \<Rightarrow> out_then (m s) (\<lambda>(r, s). Ret (r, (self, s))))"

text \<open>\<open>File::_open_at\<close>: the checks on the node, and before them the lookup or the creation of the node.\<close>

definition file_open_node :: "Cap bitflags \<Rightarrow> VfsNodePerm bitflags \<Rightarrow> ('n, 's) VfsNodeOps \<Rightarrow> ('n, 's) RootDirectory \<Rightarrow> OpenOptions \<Rightarrow> 'n fsnode \<Rightarrow>
    (('n, 's) FsState, 'n fsnode File) vfs" where
  "file_open_node C P N R opts node =
     vthen (on_world (vn_get_attr (node_ops N R) node)) (\<lambda>attr.
       if attr_is_dir attr \<and> (opt_create opts \<or> opt_create_new opts \<or> opt_write opts \<or> opt_append opts \<or> opt_truncate opts)
       then verr IsADirectory
       else
         let access_cap = cap_from_opts C opts
         in if \<not> bf_contains C (perm_to_cap C P (attr_mode attr)) access_cap then verr PermissionDenied
            else
              vthen (on_world (vn_open (node_ops N R) node)) (\<lambda>_.
                vthen (if opt_truncate opts then on_world (vn_truncate (node_ops N R) node 0) else vret ()) (\<lambda>_.
                  vret \<lparr>fl_node = with_cap_new node access_cap, is_append = opt_append opts, offset = 0\<rparr>)))"

definition file_open_at :: "Cap bitflags \<Rightarrow> VfsNodePerm bitflags \<Rightarrow> ('n, 's) VfsNodeOps \<Rightarrow> ('n, 's) RootDirectory \<Rightarrow> 'n fsnode option \<Rightarrow> string \<Rightarrow>
    OpenOptions \<Rightarrow> (('n, 's) FsState, 'n fsnode File) vfs" where
  "file_open_at C P N R dir path opts st =
     (if \<not> is_valid opts then verr InvalidInput st
      else
        out_then (lookup N R dir path st) (\<lambda>(node_option, st).
          vthen
            (if opt_create opts \<or> opt_create_new opts then
               (case node_option of
                  Inr node \<Rightarrow> if opt_create_new opts then verr AlreadyExists else vret node
                | Inl e \<Rightarrow> if e = NotFound then create_file N R dir path else verr e)
             else (case node_option of Inl e \<Rightarrow> verr e | Inr node \<Rightarrow> vret node))
            (file_open_node C P N R opts) st))"

definition file_open :: "Cap bitflags \<Rightarrow> VfsNodePerm bitflags \<Rightarrow> ('n, 's) VfsNodeOps \<Rightarrow> ('n, 's) RootDirectory \<Rightarrow> string \<Rightarrow> OpenOptions \<Rightarrow>
    (('n, 's) FsState, 'n fsnode File) vfs" where
  "file_open C P N R path opts = file_open_at C P N R None path opts"

text \<open>The calls on an open file, over the operations \<open>N\<close> of its nodes.\<close>

definition fops_truncate :: "Cap bitflags \<Rightarrow> ('n, 's) VfsNodeOps \<Rightarrow> u64 \<Rightarrow> ('n File \<times> 's, unit) vfs" where
  "fops_truncate C N sz st =
     (case st of (self, s) \<Rightarrow>
        vthen (on_obj (acc C CAP_WRITE (fl_node self))) (\<lambda>node. vthen (on_obj (vn_truncate N node sz)) (\<lambda>_. vret ())) st)"

definition file_get_attr :: "Cap bitflags \<Rightarrow> ('n, 's) VfsNodeOps \<Rightarrow> ('n File \<times> 's, VfsNodeAttr) vfs" where
  "file_get_attr C N st =
     (case st of (self, s) \<Rightarrow> vthen (on_obj (acc C cap_empty (fl_node self))) (\<lambda>node. on_obj (vn_get_attr N node)) st)"

definition file_read :: "Cap bitflags \<Rightarrow> ('n, 's) VfsNodeOps \<Rightarrow> ('n File \<times> 's) Read" where
  "file_read C N buf st =
     (case st of (self, s) \<Rightarrow>
        vthen (on_obj (acc C CAP_READ (fl_node self))) (\<lambda>node.
          vthen (on_obj (vn_read_at N node (offset self) buf)) (\<lambda>(read_len, buf) (self, s).
            vret (read_len, buf) (self\<lparr>offset := offset self + of_nat read_len\<rparr>, s))) st)"

definition file_write :: "Cap bitflags \<Rightarrow> ('n, 's) VfsNodeOps \<Rightarrow> ('n File \<times> 's) Write" where
  "file_write C N buf st =
     (case st of (self, s) \<Rightarrow>
        vthen (on_obj (acc C CAP_WRITE (fl_node self))) (\<lambda>node.
          vthen (if is_append self then vthen (file_get_attr C N) (\<lambda>attr (self, s). vret () (self\<lparr>offset := attr_size attr\<rparr>, s)) else vret ())
            (\<lambda>_ (self, s).
               vthen (on_obj (vn_write_at N node (offset self) buf)) (\<lambda>write_len (self, s).
                 vret write_len (self\<lparr>offset := offset self + of_nat write_len\<rparr>, s)) (self, s))) st)"

definition file_flush :: "Cap bitflags \<Rightarrow> ('n, 's) VfsNodeOps \<Rightarrow> ('n File \<times> 's, unit) vfs" where
  "file_flush C N st =
     (case st of (self, s) \<Rightarrow>
        vthen (on_obj (acc C CAP_WRITE (fl_node self))) (\<lambda>node. vthen (on_obj (vn_fsync N node)) (\<lambda>_. vret ())) st)"

text \<open>\<open>u64::checked_add_signed\<close>; the second argument is an \<open>i64\<close>.\<close>

definition checked_add_signed :: "u64 \<Rightarrow> u64 \<Rightarrow> u64 option" where
  "checked_add_signed a off = (let x = uint a + sint off in if 0 \<le> x \<and> x < 2 ^ 64 then Some (a + off) else None)"

definition file_seek :: "Cap bitflags \<Rightarrow> ('n, 's) VfsNodeOps \<Rightarrow> SeekFrom \<Rightarrow> ('n File \<times> 's, u64) vfs" where
  "file_seek C N pos =
     vthen (file_get_attr C N) (\<lambda>attr (self, s).
       vthen
         (ok_or InvalidInput
            (case pos of
               Start pos \<Rightarrow> Some pos
             | Current off \<Rightarrow> checked_add_signed (offset self) off
             | End off \<Rightarrow> checked_add_signed (attr_size attr) off))
         (\<lambda>new_offset (self, s). vret new_offset (self\<lparr>offset := new_offset\<rparr>, s)) (self, s))"

definition file_drop :: "('n, 's) VfsNodeOps \<Rightarrow> 'n File \<Rightarrow> 's \<Rightarrow> 's outcome" where
  "file_drop N self s = out_then (vn_release N (access_unchecked (fl_node self)) s) (\<lambda>(r, s). Ret s)"

section \<open>Directories\<close>

record 'n Directory =
  dr_node :: "'n WithCap"
  entry_idx :: usize

definition directory_open_at :: "Cap bitflags \<Rightarrow> VfsNodePerm bitflags \<Rightarrow> ('n, 's) VfsNodeOps \<Rightarrow> ('n, 's) RootDirectory \<Rightarrow> 'n fsnode option \<Rightarrow> string \<Rightarrow>
    OpenOptions \<Rightarrow> (('n, 's) FsState, 'n fsnode Directory) vfs" where
  "directory_open_at C P N R dir path opts =
     (if \<not> opt_read opts then verr InvalidInput
      else if opt_create opts \<or> opt_create_new opts \<or> opt_write opts \<or> opt_append opts \<or> opt_truncate opts then verr InvalidInput
      else
        vthen (lookup N R dir path) (\<lambda>node.
          vthen (on_world (vn_get_attr (node_ops N R) node)) (\<lambda>attr.
            if \<not> attr_is_dir attr then verr NotADirectory
            else
              let access_cap = cap_from_opts C opts
              in if \<not> bf_contains C (perm_to_cap C P (attr_mode attr)) access_cap then verr PermissionDenied
                 else
                   vthen (on_world (vn_open (node_ops N R) node)) (\<lambda>_.
                     vret \<lparr>dr_node = with_cap_new node access_cap, entry_idx = 0\<rparr>))))"

definition access_at :: "Cap bitflags \<Rightarrow> 'n fsnode Directory \<Rightarrow> string \<Rightarrow> ('s, 'n fsnode option) vfs" where
  "access_at C self path =
     (if starts_with path ''/'' then vret None
      else vthen (acc C CAP_EXECUTE (dr_node self)) (\<lambda>n. vret (Some n)))"

definition open_dir :: "Cap bitflags \<Rightarrow> VfsNodePerm bitflags \<Rightarrow> ('n, 's) VfsNodeOps \<Rightarrow> ('n, 's) RootDirectory \<Rightarrow> string \<Rightarrow> OpenOptions \<Rightarrow>
    (('n, 's) FsState, 'n fsnode Directory) vfs" where
  "open_dir C P N R path opts = directory_open_at C P N R None path opts"

definition open_dir_at :: "Cap bitflags \<Rightarrow> VfsNodePerm bitflags \<Rightarrow> ('n, 's) VfsNodeOps \<Rightarrow> ('n, 's) RootDirectory \<Rightarrow> 'n fsnode Directory \<Rightarrow> string \<Rightarrow>
    OpenOptions \<Rightarrow> (('n, 's) FsState, 'n fsnode Directory) vfs" where
  "open_dir_at C P N R self path opts = vthen (access_at C self path) (\<lambda>dir. directory_open_at C P N R dir path opts)"

definition open_file_at :: "Cap bitflags \<Rightarrow> VfsNodePerm bitflags \<Rightarrow> ('n, 's) VfsNodeOps \<Rightarrow> ('n, 's) RootDirectory \<Rightarrow> 'n fsnode Directory \<Rightarrow> string \<Rightarrow>
    OpenOptions \<Rightarrow> (('n, 's) FsState, 'n fsnode File) vfs" where
  "open_file_at C P N R self path opts = vthen (access_at C self path) (\<lambda>dir. file_open_at C P N R dir path opts)"

definition directory_create_file :: "Cap bitflags \<Rightarrow> ('n, 's) VfsNodeOps \<Rightarrow> ('n, 's) RootDirectory \<Rightarrow> 'n fsnode Directory \<Rightarrow> string \<Rightarrow>
    (('n, 's) FsState, 'n fsnode) vfs" where
  "directory_create_file C N R self path = vthen (access_at C self path) (\<lambda>dir. create_file N R dir path)"

definition directory_create_dir :: "Cap bitflags \<Rightarrow> ('n, 's) VfsNodeOps \<Rightarrow> ('n, 's) RootDirectory \<Rightarrow> 'n fsnode Directory \<Rightarrow> string \<Rightarrow>
    (('n, 's) FsState, unit) vfs" where
  "directory_create_dir C N R self path = vthen (access_at C self path) (\<lambda>dir. create_dir N R dir path)"

definition directory_remove_file :: "Cap bitflags \<Rightarrow> VfsNodePerm bitflags \<Rightarrow> ('n, 's) VfsNodeOps \<Rightarrow> ('n, 's) RootDirectory \<Rightarrow> 'n fsnode Directory \<Rightarrow>
    string \<Rightarrow> (('n, 's) FsState, unit) vfs" where
  "directory_remove_file C P N R self path = vthen (access_at C self path) (\<lambda>dir. remove_file P N R dir path)"

definition directory_remove_dir :: "Cap bitflags \<Rightarrow> VfsNodePerm bitflags \<Rightarrow> ('n, 's) VfsNodeOps \<Rightarrow> ('n, 's) RootDirectory \<Rightarrow> 'n fsnode Directory \<Rightarrow>
    string \<Rightarrow> (('n, 's) FsState, unit) vfs" where
  "directory_remove_dir C P N R self path = vthen (access_at C self path) (\<lambda>dir. remove_dir P N R dir path)"

definition directory_read_dir :: "Cap bitflags \<Rightarrow> ('n, 's) VfsNodeOps \<Rightarrow> VfsDirEntry list \<Rightarrow> ('n Directory \<times> 's, nat \<times> VfsDirEntry list) vfs" where
  "directory_read_dir C N dirents st =
     (case st of (self, s) \<Rightarrow>
        vthen (on_obj (acc C CAP_READ (dr_node self))) (\<lambda>node.
          vthen (on_obj (vn_read_dir N node (unat (entry_idx self)) dirents)) (\<lambda>(n, dirents) (self, s).
            vret (n, dirents) (self\<lparr>entry_idx := entry_idx self + of_nat n\<rparr>, s))) st)"

definition directory_drop :: "('n, 's) VfsNodeOps \<Rightarrow> 'n Directory \<Rightarrow> 's \<Rightarrow> 's outcome" where
  "directory_drop N self s = out_then (vn_release N (access_unchecked (dr_node self)) s) (\<lambda>(r, s). Ret s)"

section \<open>Rights\<close>

lemma vthen_Ok: "vthen m f s = Ret (Ok x, s') \<longleftrightarrow> (\<exists>y s1. m s = Ret (Ok y, s1) \<and> f y s1 = Ret (Ok x, s'))"
  by (cases "m s") (auto simp: vthen_def split: sum.splits)

lemma on_world_Ok: "on_world m st = Ret (Ok x, st') \<longleftrightarrow> (\<exists>s'. m (fs_world st) = Ret (Ok x, s') \<and> st' = st\<lparr>fs_world := s'\<rparr>)"
  by (cases "m (fs_world st)") (auto simp: on_world_def)

lemma acc_simps:
  "can_access C cap w \<Longrightarrow> acc C cap w s = Ret (Ok (wc_inner w), s)" "\<not> can_access C cap w \<Longrightarrow> acc C cap w s = Ret (Err PermissionDenied, s)"
  by (simp_all add: acc_def access_def from_cap_error_def)

lemma cap_from_opts_bits:
  assumes "bitflags_ok cap_all C"
  shows "cap_from_opts C opts = (if opt_read opts then CAP_READ else 0) OR (if opt_write opts \<or> opt_append opts then CAP_WRITE else 0)"
  by (simp add: cap_from_opts_def cap_bits [OF assms] cap_empty_def Let_def)

lemma opts_rights:
  assumes "bitflags_ok cap_all C"
  shows "can_access C CAP_READ (with_cap_new n (cap_from_opts C opts)) = opt_read opts"
    "can_access C CAP_WRITE (with_cap_new n (cap_from_opts C opts)) = (opt_write opts \<or> opt_append opts)"
    "\<not> can_access C CAP_EXECUTE (with_cap_new n (cap_from_opts C opts))"
  by (simp_all add: cap_bits [OF assms] with_cap_new_def cap_from_opts_bits [OF assms] CAP_READ_def CAP_WRITE_def CAP_EXECUTE_def)

lemma perm_rights:
  assumes C: "bitflags_ok cap_all C" and c: "bf_contains C (perm_to_cap C P perm) (cap_from_opts C opts)"
  shows "opt_read opts \<Longrightarrow> owner_readable P perm" "opt_write opts \<or> opt_append opts \<Longrightarrow> owner_writable P perm"
proof -
  have p: "perm_to_cap C P perm = (if owner_readable P perm then CAP_READ else 0) OR (if owner_writable P perm then CAP_WRITE else 0) OR
      (if owner_executable P perm then CAP_EXECUTE else 0)"
    by (simp add: perm_to_cap_def cap_bits [OF C] cap_empty_def Let_def or.assoc)
  have e: "perm_to_cap C P perm AND cap_from_opts C opts = cap_from_opts C opts" using c C by (simp add: bitflags_ok_def)
  have "bit (cap_from_opts C opts) 0 \<longrightarrow> bit (perm_to_cap C P perm) 0" "bit (cap_from_opts C opts) 1 \<longrightarrow> bit (perm_to_cap C P perm) 1"
    using e by (metis bit_and_iff)+
  moreover have "bit CAP_READ 0" "\<not> bit CAP_WRITE 0" "\<not> bit CAP_EXECUTE 0" "\<not> bit CAP_READ 1" "bit CAP_WRITE 1" "\<not> bit CAP_EXECUTE 1"
    by (simp_all add: CAP_READ_def CAP_WRITE_def CAP_EXECUTE_def bit_iff_odd)
  ultimately show "opt_read opts \<Longrightarrow> owner_readable P perm" "opt_write opts \<or> opt_append opts \<Longrightarrow> owner_writable P perm"
    unfolding p cap_from_opts_bits [OF C] by (simp_all add: bit_or_iff split: if_splits)
qed

lemma file_open_node_Ok:
  assumes "file_open_node C P N R opts node st = Ret (Ok f, st')"
  obtains attr w w' where "f = \<lparr>fl_node = with_cap_new node (cap_from_opts C opts), is_append = opt_append opts, offset = 0\<rparr>"
    "vn_get_attr (node_ops N R) node w = Ret (Ok attr, w')"
    "\<not> (attr_is_dir attr \<and> (opt_create opts \<or> opt_create_new opts \<or> opt_write opts \<or> opt_append opts \<or> opt_truncate opts))"
    "bf_contains C (perm_to_cap C P (attr_mode attr)) (cap_from_opts C opts)"
proof -
  obtain attr w' where a: "vn_get_attr (node_ops N R) node (fs_world st) = Ret (Ok attr, w')"
    and "(if attr_is_dir attr \<and> (opt_create opts \<or> opt_create_new opts \<or> opt_write opts \<or> opt_append opts \<or> opt_truncate opts)
       then verr IsADirectory
       else
         let access_cap = cap_from_opts C opts
         in if \<not> bf_contains C (perm_to_cap C P (attr_mode attr)) access_cap then verr PermissionDenied
            else
              vthen (on_world (vn_open (node_ops N R) node)) (\<lambda>_.
                vthen (if opt_truncate opts then on_world (vn_truncate (node_ops N R) node 0) else vret ()) (\<lambda>_.
                  vret \<lparr>fl_node = with_cap_new node access_cap, is_append = opt_append opts, offset = 0\<rparr>)))
        (st\<lparr>fs_world := w'\<rparr>) = Ret (Ok f, st')"
    using assms unfolding file_open_node_def vthen_Ok on_world_Ok by blast
  then show ?thesis using that [OF _ a] by (auto simp: Let_def vthen_Ok split: if_splits)
qed

lemma file_open_at_Ok:
  assumes "file_open_at C P N R dir path opts st = Ret (Ok f, st')"
  shows "is_valid opts" "\<exists>node st1. file_open_node C P N R opts node st1 = Ret (Ok f, st')"
proof -
  show v: "is_valid opts" using assms by (auto simp: file_open_at_def split: if_splits)
  show "\<exists>node st1. file_open_node C P N R opts node st1 = Ret (Ok f, st')"
  proof (cases "lookup N R dir path st")
    case (Ret r)
    then show ?thesis using assms v unfolding file_open_at_def by (cases r) (simp add: vthen_Ok split del: if_split, blast)
  qed (use assms v in \<open>simp add: file_open_at_def\<close>)
qed

end
