(* ===== verification/AxioBuf.thy ===== *)
theory AxioBuf
  imports Axio
begin

text \<open>
  The buffered reader of \<open>axio\<close> (src/crates/axio/src/buffered/bufreader.rs) over any source of bytes is a source of the same bytes: the
  contract \<open>stream_reader\<close> of the inner reader gives that of the buffered one. \<open>read_exact\<close> is the exception.
\<close>

section \<open>The bytes of a buffered reader\<close>

definition buffered :: "'r BufReader \<Rightarrow> u8 list" where
  "buffered self = take (br_filled self - br_pos self) (drop (br_pos self) (br_buf self))"

definition buf_rest :: "('r \<Rightarrow> u8 list) \<Rightarrow> 'r BufReader \<Rightarrow> u8 list" where
  "buf_rest rest self = buffered self @ rest (br_inner self)"

definition buf_ok :: "('r \<Rightarrow> bool) \<Rightarrow> 'r BufReader \<Rightarrow> bool" where
  "buf_ok ok self \<longleftrightarrow> br_pos self \<le> br_filled self \<and> br_filled self \<le> length (br_buf self) \<and> length (br_buf self) = DEFAULT_BUF_SIZE \<and>
     ok (br_inner self)"

lemma buffer_ret: "buf_ok ok self \<Longrightarrow> buffer self = Ret (buffered self)"
  by (auto simp: buf_ok_def buffer_def buffered_def)

lemma new_reader: "buffered (buf_reader_new r) = []" "buf_rest rest (buf_reader_new r) = rest r" "buf_ok ok (buf_reader_new r) = ok r"
  by (simp_all add: buffered_def buf_rest_def buf_ok_def buf_reader_new_def)

lemma is_empty_buffered: "buf_ok ok self \<Longrightarrow> is_empty self \<longleftrightarrow> buffered self = []"
  by (auto simp: is_empty_def buffered_def buf_ok_def)

lemma consume_rest:
  assumes "buf_ok ok self" "n \<le> length (buffered self)"
  shows "buf_ok ok (consume n self)" "buffered (consume n self) = drop n (buffered self)" "buf_rest rest (consume n self) = drop n (buf_rest rest self)"
proof -
  have n: "br_pos self + n \<le> br_filled self" using assms by (auto simp: buf_ok_def buffered_def)
  show "buf_ok ok (consume n self)" using assms(1) n by (simp add: buf_ok_def consume_def)
  show b: "buffered (consume n self) = drop n (buffered self)" using n by (simp add: buffered_def consume_def drop_take add.commute)
  show "buf_rest rest (consume n self) = drop n (buf_rest rest self)" using b assms(2) by (simp add: buf_rest_def consume_def)
qed

locale buffered_reader = stream_reader rd rest ok
  for rd :: "'r Read" and rest :: "'r \<Rightarrow> u8 list" and ok :: "'r \<Rightarrow> bool"
begin

lemma fill_buf_spec:
  assumes "buf_ok ok self"
  shows "\<exists>self'. fill_buf rd self = Ret (Ok (buffered self'), self') \<and> buf_ok ok self' \<and> buf_rest rest self' = buf_rest rest self \<and>
      (buffered self' = [] \<longrightarrow> buf_rest rest self = [])"
proof (cases "is_empty self")
  case False
  then show ?thesis using assms buffer_ret [OF assms] is_empty_buffered [OF assms] by (simp add: fill_buf_def)
next
  case True
  have inner: "ok (br_inner self)" "length (br_buf self) = 1024" using assms by (simp_all add: buf_ok_def DEFAULT_BUF_SIZE_def)
  then have len: "length (br_buf self) < 2 ^ 63" by simp
  obtain n r' where n: "rd (br_buf self) (br_inner self) = Ret (Ok (n, take n (rest (br_inner self)) @ drop n (br_buf self)), r')"
      "n \<le> length (br_buf self)" "n \<le> length (rest (br_inner self))" "n = 0 \<longrightarrow> br_buf self = [] \<or> rest (br_inner self) = []"
      "rest r' = drop n (rest (br_inner self))" "ok r'"
    using read_some [OF inner(1) len] by blast
  let ?s = "self\<lparr>br_inner := r', br_buf := take n (rest (br_inner self)) @ drop n (br_buf self), br_pos := 0, br_filled := n\<rparr>"
  have k: "buf_ok ok ?s" using n inner by (simp add: buf_ok_def DEFAULT_BUF_SIZE_def)
  have b: "buffered ?s = take n (rest (br_inner self))" using n(3) by (simp add: buffered_def)
  have "buffered self = []" using True is_empty_buffered [OF assms] by simp
  then have r: "buf_rest rest self = rest (br_inner self)" by (simp add: buf_rest_def)
  have "buf_rest rest ?s = rest (br_inner self)" using b n(5) by (simp add: buf_rest_def)
  moreover have "buffered ?s = [] \<longrightarrow> buf_rest rest self = []" using b n(4) inner(2) r by auto
  moreover have "fill_buf rd self = Ret (Ok (buffered ?s), ?s)" using True n(1) buffer_ret [OF k] by (simp add: fill_buf_def on_inner_def vthen_def Let_def)
  ultimately show ?thesis using k r by metis
qed

lemma buf_read_some:
  assumes "buf_ok ok self" "length buf < 2 ^ 63"
  shows "\<exists>n self'. buf_read rd buf self = Ret (Ok (n, take n (buf_rest rest self) @ drop n buf), self') \<and> n \<le> length buf \<and>
      n \<le> length (buf_rest rest self) \<and> (n = 0 \<longrightarrow> buf = [] \<or> buf_rest rest self = []) \<and> buf_rest rest self' = drop n (buf_rest rest self) \<and>
      buf_ok ok self'"
proof (cases "is_empty self \<and> length buf \<ge> DEFAULT_BUF_SIZE")
  case True
  then have r: "buf_rest rest self = rest (br_inner self)" using is_empty_buffered [OF assms(1)] by (simp add: buf_rest_def)
  have "ok (br_inner self)" using assms(1) by (simp add: buf_ok_def)
  then obtain n r' where n: "rd buf (br_inner self) = Ret (Ok (n, take n (rest (br_inner self)) @ drop n buf), r')" "n \<le> length buf"
      "n \<le> length (rest (br_inner self))" "n = 0 \<longrightarrow> buf = [] \<or> rest (br_inner self) = []" "rest r' = drop n (rest (br_inner self))" "ok r'"
    using read_some [OF _ assms(2)] by blast
  let ?s = "(discard_buffer self)\<lparr>br_inner := r'\<rparr>"
  have "buf_read rd buf self = Ret (Ok (n, take n (buf_rest rest self) @ drop n buf), ?s)"
    using True n(1) r by (simp add: buf_read_def on_inner_def discard_buffer_def)
  moreover have "buf_ok ok ?s" "buf_rest rest ?s = rest r'" using assms(1) n(6) by (simp_all add: buf_ok_def buf_rest_def buffered_def discard_buffer_def)
  ultimately show ?thesis using n r by metis
next
  case False
  obtain s where s: "fill_buf rd self = Ret (Ok (buffered s), s)" "buf_ok ok s" "buf_rest rest s = buf_rest rest self"
      "buffered s = [] \<longrightarrow> buf_rest rest self = []"
    using fill_buf_spec [OF assms(1)] by blast
  let ?n = "min (length buf) (length (buffered s))"
  have pre: "take ?n (buffered s) = take ?n (buf_rest rest self)" using s(3) by (simp add: buf_rest_def [symmetric] s(3) [symmetric]) (simp add: buf_rest_def)
  have "buf_read rd buf self = Ret (Ok (?n, take ?n (buf_rest rest self) @ drop ?n buf), consume ?n s)"
    using False s(1) pre by (auto simp: buf_read_def vthen_def slice_read_def Let_def)
  moreover have "buf_ok ok (consume ?n s)" "buf_rest rest (consume ?n s) = drop ?n (buf_rest rest self)"
    using consume_rest [OF s(2), of ?n] s(3) by simp_all
  moreover have "?n \<le> length (buf_rest rest self)" unfolding s(3) [symmetric] by (simp add: buf_rest_def)
  moreover have "?n = 0 \<longrightarrow> buf = [] \<or> buf_rest rest self = []" using s(4) by (simp add: min_def)
  ultimately show ?thesis by (metis min.cobounded1)
qed

end

sublocale buffered_reader \<subseteq> buf: stream_reader "buf_read rd" "buf_rest rest" "buf_ok ok"
  by unfold_locales (rule buf_read_some)

interpretation slice_buf: buffered_reader slice_read "\<lambda>s. s" "\<lambda>s. True"
  by unfold_locales

section \<open>Sequences of reads\<close>

text \<open>Reads with buffers of the given sizes, one after the other: the bytes that were read.\<close>

fun reads :: "'r Read \<Rightarrow> nat list \<Rightarrow> ('r, u8 list) vfs" where
  "reads rd [] = vret []"
| "reads rd (k # ks) = vthen (rd (replicate k 0)) (\<lambda>(n, buf). vthen (reads rd ks) (\<lambda>bytes. vret (take n buf @ bytes)))"

definition line_len :: "u8 \<Rightarrow> u8 list \<Rightarrow> nat" where
  "line_len byte bs = (case position (\<lambda>x. x = byte) bs of Some i \<Rightarrow> i + 1 | None \<Rightarrow> length bs)"

context stream_reader
begin

lemma reads_prefix:
  assumes "ok r" "\<forall>k \<in> set ks. k < 2 ^ 63"
  shows "\<exists>m r'. reads rd ks r = Ret (Ok (take m (rest r)), r') \<and> m \<le> length (rest r) \<and> rest r' = drop m (rest r) \<and> ok r'"
  using assms
proof (induction ks arbitrary: r)
  case Nil
  then show ?case by (auto intro!: exI [of _ 0])
next
  case (Cons k ks)
  obtain n r' where n: "rd (replicate k 0) r = Ret (Ok (n, take n (rest r) @ drop n (replicate k 0)), r')" "n \<le> length (rest r)"
      "rest r' = drop n (rest r)" "ok r'"
    using read_some [OF Cons.prems(1), of "replicate k 0"] Cons.prems(2) by auto
  obtain m r'' where m: "reads rd ks r' = Ret (Ok (take m (rest r')), r'')" "m \<le> length (rest r')" "rest r'' = drop m (rest r')" "ok r''"
    using Cons.IH [OF n(4)] Cons.prems(2) by auto
  have "take n (take n (rest r) @ drop n (replicate k 0)) @ take m (rest r') = take (n + m) (rest r)" using n(2,3) by (simp add: take_add)
  then have "reads rd (k # ks) r = Ret (Ok (take (n + m) (rest r)), r'')" using n(1) m(1) by (simp add: vthen_def)
  moreover have "n + m \<le> length (rest r)" "rest r'' = drop (n + m) (rest r)" using n(2,3) m(2,3) by (simp_all add: add.commute)
  ultimately show ?case using m(4) by blast
qed

end

context buffered_reader
begin

lemma buf_read_to_end_all:
  assumes "buf_ok ok self"
  shows "\<exists>self'. buf_read_to_end rd acc self = Some (Ret ((Ok (length (buf_rest rest self)), acc @ buf_rest rest self), self')) \<and>
      buf_ok ok self' \<and> buf_rest rest self' = []"
proof -
  have "ok (br_inner self)" using assms by (simp add: buf_ok_def)
  then obtain r' where "read_to_end rd (acc @ buffered self) (br_inner self) =
      Some (Ret ((Ok (length (rest (br_inner self))), (acc @ buffered self) @ rest (br_inner self)), r'))" "ok r'" "rest r' = []"
    using read_to_end_all by blast
  then show ?thesis using buffer_ret [OF assms] assms
    by (auto simp: buf_read_to_end_def buf_rest_def buf_ok_def buffered_def discard_buffer_def)
qed

text \<open>A line, or what is left when there is no delimiter.\<close>

lemma read_until_loop_spec:
  assumes "buf_ok ok self"
  shows "\<exists>self'. read_until_loop (fill_buf rd) consume byte k acc self =
      Some (Ret ((Ok (k + line_len byte (buf_rest rest self)), acc @ take (line_len byte (buf_rest rest self)) (buf_rest rest self)), self')) \<and>
      buf_ok ok self' \<and> buf_rest rest self' = drop (line_len byte (buf_rest rest self)) (buf_rest rest self)"
  using assms
proof (induction "length (buf_rest rest self)" arbitrary: k acc self rule: less_induct)
  case less
  obtain s where s: "fill_buf rd self = Ret (Ok (buffered s), s)" "buf_ok ok s" "buf_rest rest s = buf_rest rest self"
      "buffered s = [] \<longrightarrow> buf_rest rest self = []"
    using fill_buf_spec [OF less.prems(1)] by blast
  let ?b = "buffered s"
  have R: "buf_rest rest self = ?b @ rest (br_inner s)" using s(3) by (simp add: buf_rest_def)
  show ?case
  proof (cases "position (\<lambda>x. x = byte) ?b")
    case (Some i)
    have i: "i < length ?b" using position_less [OF Some] .
    have p: "position (\<lambda>x. x = byte) (buf_rest rest self) = Some i" using Some R by (simp add: position_append)
    have "read_until_loop (fill_buf rd) consume byte k acc self = Some (Ret ((Ok (k + (i + 1)), acc @ take (i + 1) ?b), consume (i + 1) s))"
      using s(1) Some by (simp add: read_until_loop.simps [of _ _ _ _ _ self])
    then show ?thesis using consume_rest [OF s(2), of "i + 1"] i p R s(3) by (simp add: line_len_def)
  next
    case None
    have p: "position (\<lambda>x. x = byte) (buf_rest rest self) = map_option (\<lambda>i. length ?b + i) (position (\<lambda>x. x = byte) (rest (br_inner s)))"
      using None R by (simp add: position_append)
    show ?thesis
    proof (cases "?b = []")
      case True
      then have "buf_rest rest self = []" using s(4) by simp
      moreover have "read_until_loop (fill_buf rd) consume byte k acc self = Some (Ret ((Ok k, acc), consume 0 s))"
        using s(1) True by (simp add: read_until_loop.simps [of _ _ _ _ _ self])
      ultimately show ?thesis using consume_rest [OF s(2), of 0] s(3) by (simp add: line_len_def)
    next
      case False
      let ?s = "consume (length ?b) s"
      have c: "buf_ok ok ?s" "buf_rest rest ?s = rest (br_inner s)" using consume_rest [OF s(2), of "length ?b"] s(3) R by simp_all
      have "read_until_loop (fill_buf rd) consume byte k acc self = read_until_loop (fill_buf rd) consume byte (k + length ?b) (acc @ ?b) ?s"
        using s(1) None False by (simp add: read_until_loop.simps [of _ _ _ _ _ self] Let_def)
      moreover have "length (buf_rest rest ?s) < length (buf_rest rest self)" using c(2) R False by simp
      note less.hyps [OF this c(1), of "k + length ?b" "acc @ ?b"]
      ultimately show ?thesis using c(2) p R
        by (cases "position (\<lambda>x. x = byte) (rest (br_inner s))") (auto simp: line_len_def add.assoc)
    qed
  qed
qed

end

lemma stream_buffered: "stream_reader rd rest ok \<Longrightarrow> buffered_reader rd rest ok"
  by (simp add: buffered_reader_def)

section \<open>Properties\<close>

text \<open>
  C35: A \<open>BufReader\<close> around any source of bytes gives the bytes of the source, none lost, none twice, in order: after reads with buffers of any
  sizes, \<open>read_to_end\<close> gives exactly the bytes that the reads have left and ends, as it does on the source itself, and \<open>read_until\<close> ends with
  the bytes up to the delimiter.
\<close>

theorem buf_reader_stream:
  assumes "stream_reader rd rest ok" "ok r" "\<forall>k \<in> set ks. k < 2 ^ 63"
  shows "\<exists>m b. reads (buf_read rd) ks (buf_reader_new r) = Ret (Ok (take m (rest r)), b) \<and> m \<le> length (rest r) \<and>
      (\<exists>b'. buf_read_to_end rd acc b = Some (Ret ((Ok (length (drop m (rest r))), acc @ drop m (rest r)), b'))) \<and>
      (\<exists>b'. read_to_end (buf_read rd) acc b = Some (Ret ((Ok (length (drop m (rest r))), acc @ drop m (rest r)), b'))) \<and>
      (\<exists>b'. read_until (fill_buf rd) consume byte acc b =
        (let l = line_len byte (drop m (rest r)) in Some (Ret ((Ok l, acc @ take l (drop m (rest r))), b')))) \<and>
      (\<exists>r'. read_to_end rd acc r = Some (Ret ((Ok (length (rest r)), acc @ rest r), r')))"
proof -
  have B: "buffered_reader rd rest ok" by (rule stream_buffered [OF assms(1)])
  have S: "stream_reader (buf_read rd) (buf_rest rest) (buf_ok ok)"
    by (rule stream_reader.intro) (rule buffered_reader.buf_read_some [OF B])
  obtain m b where m: "reads (buf_read rd) ks (buf_reader_new r) = Ret (Ok (take m (rest r)), b)" "m \<le> length (rest r)"
      "buf_rest rest b = drop m (rest r)" "buf_ok ok b"
    using stream_reader.reads_prefix [OF S _ assms(3), of "buf_reader_new r"] assms(2) by (auto simp: new_reader)
  show ?thesis
    using m buffered_reader.buf_read_to_end_all [OF B m(4), of acc] stream_reader.read_to_end_all [OF S m(4), of acc]
      buffered_reader.read_until_loop_spec [OF B m(4), of byte 0 acc] stream_reader.read_to_end_all [OF assms(1,2), of acc]
    unfolding read_until_def Let_def m(3) by (intro exI [of _ m] exI [of _ b]) auto
qed

theorem buf_reader_stream_witness:
  "\<exists>m b b'. reads (buf_read slice_read) [1, 2] (buf_reader_new [1, 2, 3, 4 :: u8]) = Ret (Ok (take m [1, 2, 3, 4]), b) \<and>
      buf_read_to_end slice_read [9] b = Some (Ret ((Ok (length (drop m [1, 2, 3, 4 :: u8])), [9] @ drop m [1, 2, 3, 4]), b'))"
  using buf_reader_stream [OF slice.stream_reader_axioms, where r = "[1, 2, 3, 4]" and ks = "[1, 2]" and acc = "[9]" and byte = 0] by auto

text \<open>
  C36: \<open>BufReader::read_exact\<close> does not keep the order of the bytes. If some bytes are buffered, but fewer than asked for, and the inner reader has
  enough, it succeeds with the bytes behind the buffered ones, and the buffered ones come after them.
\<close>

theorem buf_read_exact_skips:
  assumes S: "stream_reader rd rest ok" and b: "buf_ok ok self" and few: "length (buffered self) < length buf"
    and enough: "length buf \<le> length (rest (br_inner self))" "length buf < 2 ^ 63"
  shows "\<exists>self'. buf_read_exact rd buf self = Some (Ret ((Ok (), take (length buf) (drop (length (buffered self)) (buf_rest rest self))), self')) \<and>
      buf_rest rest self' = buffered self @ drop (length buf) (rest (br_inner self))"
proof -
  have "ok (br_inner self)" using b by (simp add: buf_ok_def)
  then obtain r' where "read_exact rd buf (br_inner self) = Some (Ret ((Ok (), take (length buf) (rest (br_inner self))), r'))"
      "rest r' = drop (length buf) (rest (br_inner self))"
    using stream_reader.read_exact_loop_spec [OF S _ enough(2), of "br_inner self" "[]"] enough(1) by (auto simp: read_exact_def)
  then show ?thesis using buffer_ret [OF b] few by (auto simp: buf_read_exact_def Let_def buf_rest_def buffered_def)
qed

theorem buf_read_exact_skips_witness:
  "\<exists>self'. buf_read_exact slice_read [0, 0] \<lparr>br_inner = [2, 3, 4 :: u8], br_pos = 0, br_filled = 1, br_buf = 1 # replicate 1023 0\<rparr> =
      Some (Ret ((Ok (), [2, 3]), self')) \<and> buf_rest (\<lambda>s. s) self' = [1, 4]"
proof -
  let ?b = "\<lparr>br_inner = [2, 3, 4 :: u8], br_pos = 0, br_filled = 1, br_buf = 1 # replicate 1023 0\<rparr>"
  have b: "buffered ?b = [1]" by (simp add: buffered_def)
  have "buf_ok (\<lambda>s. True) ?b" by (simp add: buf_ok_def DEFAULT_BUF_SIZE_def)
  from buf_read_exact_skips [OF slice.stream_reader_axioms this, of "[0, 0]"] show ?thesis using b by (simp add: buf_rest_def)
qed

end
