(* ===== verification/RamFs.thy ===== *)
theory RamFs
  imports Vfs BTreeMap "HOL-Library.List_Lexorder" "HOL-Library.Char_ord"
begin

text \<open>
  Model of the crate \<open>axfs_ramfs\<close> (src/crates/axfs_ramfs/src: lib.rs, dir.rs, file.rs), a file system in memory, and its
  specification as a map from paths to files and directories, which RamFsRefine and RamFsRuns relate to it.

  The nodes are objects in a list; an \<open>Arc\<close> of a node is its index, and a node counts the strong references to it, so that a \<open>Weak\<close>
  reference to a parent can be upgraded exactly while the count is not zero. The references that a caller gets are not given back in
  the model. A node of another file system (\<open>Outer\<close>) can only be the parent of the root, after a mount; its operations are a
  parameter. Every call holds the locks of the nodes it visits one at a time and is one step here.
\<close>

section \<open>Nodes\<close>

datatype 'x vref = Ram nat | Outer 'x

datatype 'x node = DirNode "'x vref option" "(string \<times> nat) list" | FileNode "u8 list"

record 'x RamNode =
  rn_strong :: nat
  rn_node :: "'x node"

record ('x, 'o) RamState =
  rs_nodes :: "'x RamNode list"
  rs_parent :: "'x vref option"
  rs_outer :: 'o

definition ram_node :: "nat \<Rightarrow> ('x, 'o) RamState \<Rightarrow> 'x node" where
  "ram_node i s = rn_node (rs_nodes s ! i)"

definition set_node :: "nat \<Rightarrow> 'x node \<Rightarrow> ('x, 'o) RamState \<Rightarrow> ('x, 'o) RamState" where
  "set_node i n s = s\<lparr>rs_nodes := (rs_nodes s)[i := (rs_nodes s ! i)\<lparr>rn_node := n\<rparr>]\<rparr>"

definition node_alive :: "nat \<Rightarrow> ('x, 'o) RamState \<Rightarrow> bool" where
  "node_alive i s \<longleftrightarrow> rn_strong (rs_nodes s ! i) > 0"

definition vref_clone :: "'x vref \<Rightarrow> ('x, 'o) RamState \<Rightarrow> ('x, 'o) RamState" where
  "vref_clone r s =
     (case r of
        Ram i \<Rightarrow> s\<lparr>rs_nodes := (rs_nodes s)[i := (rs_nodes s ! i)\<lparr>rn_strong := Suc (rn_strong (rs_nodes s ! i))\<rparr>]\<rparr>
      | Outer x \<Rightarrow> s)"

text \<open>The reference of a directory entry is dropped; what it refers to is a file or an empty directory.\<close>

definition entry_drop :: "nat \<Rightarrow> ('x, 'o) RamState \<Rightarrow> ('x, 'o) RamState" where
  "entry_drop i s = s\<lparr>rs_nodes := (rs_nodes s)[i := (rs_nodes s ! i)\<lparr>rn_strong := rn_strong (rs_nodes s ! i) - 1\<rparr>]\<rparr>"

text \<open>\<open>Weak::upgrade\<close>; the mounted file system keeps the outer parent alive.\<close>

definition upgrade :: "'x vref option \<Rightarrow> ('x, 'o) RamState \<Rightarrow> 'x vref option" where
  "upgrade w s =
     (case w of
        None \<Rightarrow> None
      | Some (Ram i) \<Rightarrow> if node_alive i s then Some (Ram i) else None
      | Some (Outer x) \<Rightarrow> Some (Outer x))"

section \<open>Files\<close>

text \<open>\<open>Vec::resize\<close> panics when the length is out of range.\<close>

definition vec_resize :: "nat \<Rightarrow> 'a \<Rightarrow> 'a list \<Rightarrow> 'a list outcome" where
  "vec_resize n x xs =
     (if n \<ge> 2 ^ 63 then Panic
      else Ret (if n \<le> length xs then take n xs else xs @ replicate (n - length xs) x))"

definition file_new :: "'x node" where
  "file_new = FileNode []"

definition file_truncate :: "u64 \<Rightarrow> u8 list \<Rightarrow> u8 list outcome" where
  "file_truncate sz content =
     (if unat sz < length content then Ret (take (unat sz) content) else vec_resize (unat sz) 0 content)"

definition file_read_at :: "u64 \<Rightarrow> u8 list \<Rightarrow> u8 list \<Rightarrow> (nat \<times> u8 list) outcome" where
  "file_read_at offset buf content =
     (let start = min (length content) (unat offset);
          stop = min (length content) (unat (offset + of_nat (length buf)))
      in if start > stop then Panic
         else let src = take (stop - start) (drop start content)
              in Ret (length src, src @ drop (length src) buf))"

definition file_write_at :: "u64 \<Rightarrow> u8 list \<Rightarrow> u8 list \<Rightarrow> (nat \<times> u8 list) outcome" where
  "file_write_at offset buf content =
     (let stop = unat (offset + of_nat (length buf))
      in out_then (if stop > length content then vec_resize stop 0 content else Ret content) (\<lambda>content.
           if unat offset > stop then Panic
           else Ret (length buf, take (unat offset) content @ take (stop - unat offset) buf @ drop stop content)))"

section \<open>Directories\<close>

definition split_path :: "string \<Rightarrow> string \<times> string option" where
  "split_path path =
     (let trimmed_path = dropWhile (\<lambda>c. c = SLASH) path
      in case position (\<lambda>c. c = SLASH) trimmed_path of
           None \<Rightarrow> (trimmed_path, None)
         | Some n \<Rightarrow> (take n trimmed_path, Some (drop (n + 1) trimmed_path)))"

lemma split_path_shorter: "split_path path = (name, Some rest) \<Longrightarrow> length rest < length path"
proof -
  assume a: "split_path path = (name, Some rest)"
  let ?t = "dropWhile (\<lambda>c. c = SLASH) path"
  obtain n where n: "position (\<lambda>c. c = SLASH) ?t = Some n" "rest = drop (n + 1) ?t"
    using a by (auto simp: split_path_def Let_def split: option.splits)
  have "length ?t \<le> length path" by (rule length_dropWhile_le)
  then show ?thesis using n position_less [OF n(1)] by simp
qed

definition dir_new :: "'x vref option \<Rightarrow> 'x node" where
  "dir_new parent = DirNode parent []"

definition dir_children :: "nat \<Rightarrow> ('x, 'o) RamState \<Rightarrow> (string \<times> nat) list" where
  "dir_children i s = (case ram_node i s of DirNode p children \<Rightarrow> children | FileNode c \<Rightarrow> [])"

definition dir_set_parent :: "nat \<Rightarrow> 'x vref option \<Rightarrow> ('x, 'o) RamState \<Rightarrow> ('x, 'o) RamState" where
  "dir_set_parent i parent s = set_node i (DirNode parent (dir_children i s)) s"

definition dir_get_entries :: "nat \<Rightarrow> ('x, 'o) RamState \<Rightarrow> string list" where
  "dir_get_entries i s = map fst (dir_children i s)"

definition dir_exist :: "nat \<Rightarrow> string \<Rightarrow> ('x, 'o) RamState \<Rightarrow> bool" where
  "dir_exist i name s \<longleftrightarrow> map_of (dir_children i s) name \<noteq> None"

definition dir_parent :: "nat \<Rightarrow> ('x, 'o) RamState \<Rightarrow> 'x vref option" where
  "dir_parent i s = (case ram_node i s of DirNode p children \<Rightarrow> upgrade p s | FileNode c \<Rightarrow> None)"

definition dir_set_children :: "nat \<Rightarrow> (string \<times> nat) list \<Rightarrow> ('x, 'o) RamState \<Rightarrow> ('x, 'o) RamState" where
  "dir_set_children i children s =
     (case ram_node i s of DirNode p _ \<Rightarrow> set_node i (DirNode p children) s | FileNode c \<Rightarrow> s)"

definition create_node :: "nat \<Rightarrow> string \<Rightarrow> VfsNodeType \<Rightarrow> (('x, 'o) RamState, unit) vfs" where
  "create_node i name ty s =
     (if dir_exist i name s then verr AlreadyExists s
      else case (case ty of File \<Rightarrow> Some file_new | Dir \<Rightarrow> Some (dir_new (Some (Ram i))) | _ \<Rightarrow> None) of
             None \<Rightarrow> verr Unsupported s
           | Some node \<Rightarrow>
               (let j = length (rs_nodes s);
                    s = s\<lparr>rs_nodes := rs_nodes s @ [\<lparr>rn_strong = 1, rn_node = node\<rparr>]\<rparr>
                in vret () (dir_set_children i (bt_insert name j (dir_children i s)) s)))"

definition remove_node :: "nat \<Rightarrow> string \<Rightarrow> (('x, 'o) RamState, unit) vfs" where
  "remove_node i name s =
     (case map_of (dir_children i s) name of
        None \<Rightarrow> verr NotFound s
      | Some j \<Rightarrow>
          if (case ram_node j s of DirNode p children \<Rightarrow> children \<noteq> [] | FileNode c \<Rightarrow> False) then verr DirectoryNotEmpty s
          else vret () (entry_drop j (dir_set_children i (snd (bt_remove_entry name (dir_children i s))) s)))"

text \<open>The node that the first component of a path names.\<close>

definition step_to :: "nat \<Rightarrow> string \<Rightarrow> ('x, 'o) RamState \<Rightarrow> 'x vref option" where
  "step_to i name s =
     (if name = [] \<or> name = ''.'' then Some (Ram i)
      else if name = ''..'' then dir_parent i s
      else map_option Ram (map_of (dir_children i s) name))"

function ram_lookup :: "('x vref, ('x, 'o) RamState) VfsNodeOps \<Rightarrow> nat \<Rightarrow> string \<Rightarrow> (('x, 'o) RamState, 'x vref) vfs" where
  "ram_lookup O' i path s =
     (case ram_node i s of
        FileNode c \<Rightarrow> verr NotADirectory s
      | DirNode p children \<Rightarrow>
          (case split_path path of (name, rest) \<Rightarrow>
             (case step_to i name s of
                None \<Rightarrow> verr NotFound s
              | Some node \<Rightarrow>
                  (case rest of
                     Some rest \<Rightarrow> (case node of Ram j \<Rightarrow> ram_lookup O' j rest s | Outer x \<Rightarrow> vn_lookup O' node rest s)
                   | None \<Rightarrow> vret node (vref_clone node s)))))"
  by auto
termination
  by (relation "measure (\<lambda>(O', i, path, s). length path)") (auto dest: split_path_shorter [OF sym])

function ram_create :: "('x vref, ('x, 'o) RamState) VfsNodeOps \<Rightarrow> nat \<Rightarrow> string \<Rightarrow> VfsNodeType \<Rightarrow> (('x, 'o) RamState, unit) vfs" where
  "ram_create O' i path ty s =
     (case ram_node i s of
        FileNode c \<Rightarrow> verr NotADirectory s
      | DirNode p children \<Rightarrow>
          (case split_path path of (name, rest) \<Rightarrow>
             (case rest of
                Some rest \<Rightarrow>
                  (case step_to i name s of
                     None \<Rightarrow> verr NotFound s
                   | Some node \<Rightarrow> (case node of Ram j \<Rightarrow> ram_create O' j rest ty s | Outer x \<Rightarrow> vn_create O' node rest ty s))
              | None \<Rightarrow>
                  if name = [] \<or> name = ''.'' \<or> name = ''..'' then vret () s
                  else create_node i name ty s)))"
  by auto
termination
  by (relation "measure (\<lambda>(O', i, path, ty, s). length path)") (auto dest: split_path_shorter [OF sym])

function ram_remove :: "('x vref, ('x, 'o) RamState) VfsNodeOps \<Rightarrow> nat \<Rightarrow> string \<Rightarrow> (('x, 'o) RamState, unit) vfs" where
  "ram_remove O' i path s =
     (case ram_node i s of
        FileNode c \<Rightarrow> verr NotADirectory s
      | DirNode p children \<Rightarrow>
          (case split_path path of (name, rest) \<Rightarrow>
             (case rest of
                Some rest \<Rightarrow>
                  (case step_to i name s of
                     None \<Rightarrow> verr NotFound s
                   | Some node \<Rightarrow> (case node of Ram j \<Rightarrow> ram_remove O' j rest s | Outer x \<Rightarrow> vn_remove O' node rest s))
              | None \<Rightarrow>
                  if name = [] \<or> name = ''.'' \<or> name = ''..'' then verr InvalidInput s
                  else remove_node i name s)))"
  by auto
termination
  by (relation "measure (\<lambda>(O', i, path, s). length path)") (auto dest: split_path_shorter [OF sym])

declare ram_lookup.simps [simp del] ram_create.simps [simp del] ram_remove.simps [simp del]

definition ram_get_attr :: "VfsNodePerm bitflags \<Rightarrow> nat \<Rightarrow> (('x, 'o) RamState, VfsNodeAttr) vfs" where
  "ram_get_attr P i s =
     (case ram_node i s of
        DirNode p children \<Rightarrow> vret (attr_new_dir P 4096 0) s
      | FileNode content \<Rightarrow> vret (attr_new_file P (of_nat (length content)) 0) s)"

definition ram_file_type :: "nat \<Rightarrow> ('x, 'o) RamState \<Rightarrow> VfsNodeType" where
  "ram_file_type i s = (case ram_node i s of DirNode p children \<Rightarrow> Dir | FileNode content \<Rightarrow> File)"

text \<open>The loop of \<open>read_dir\<close> over the rest of \<open>dirents\<close>, from the index \<open>i\<close> on; it gives the number of entries and the rest, filled.\<close>

fun read_dir_loop :: "('x, 'o) RamState \<Rightarrow> nat \<Rightarrow> nat \<Rightarrow> (string \<times> nat) list \<Rightarrow> VfsDirEntry list \<Rightarrow> (nat \<times> VfsDirEntry list) outcome" where
  "read_dir_loop s start_idx i children [] = Ret (i, [])"
| "read_dir_loop s start_idx i children (ent # ents) =
     (if i + start_idx = 0 then
        out_then (dirent_new ''.'' Dir) (\<lambda>ent.
          out_then (read_dir_loop s start_idx (Suc i) children ents) (\<lambda>(n, ents). Ret (n, ent # ents)))
      else if i + start_idx = 1 then
        out_then (dirent_new ''..'' Dir) (\<lambda>ent.
          out_then (read_dir_loop s start_idx (Suc i) children ents) (\<lambda>(n, ents). Ret (n, ent # ents)))
      else (case children of
              [] \<Rightarrow> Ret (i, ent # ents)
            | (name, j) # children \<Rightarrow>
                out_then (dirent_new name (ram_file_type j s)) (\<lambda>ent.
                  out_then (read_dir_loop s start_idx (Suc i) children ents) (\<lambda>(n, ents). Ret (n, ent # ents)))))"

definition ram_read_dir :: "nat \<Rightarrow> nat \<Rightarrow> VfsDirEntry list \<Rightarrow> (('x, 'o) RamState, nat \<times> VfsDirEntry list) vfs" where
  "ram_read_dir i start_idx dirents s =
     (case ram_node i s of
        FileNode c \<Rightarrow> verr NotADirectory s
      | DirNode p children \<Rightarrow>
          out_then (read_dir_loop s start_idx 0 (drop (max start_idx 2 - 2) children) dirents) (\<lambda>r. vret r s))"

section \<open>The file system\<close>

text \<open>The operations of a node of the file system, directory or file, and of an outer node.\<close>

definition on_file :: "nat \<Rightarrow> (u8 list \<Rightarrow> ('a \<times> u8 list) outcome) \<Rightarrow> (('x, 'o) RamState, 'a) vfs" where
  "on_file i f s =
     (case ram_node i s of
        DirNode p children \<Rightarrow> verr IsADirectory s
      | FileNode content \<Rightarrow> out_then (f content) (\<lambda>(r, content). vret r (set_node i (FileNode content) s)))"

definition ram_ops :: "VfsNodePerm bitflags \<Rightarrow> ('x vref, ('x, 'o) RamState) VfsNodeOps \<Rightarrow> ('x vref, ('x, 'o) RamState) VfsNodeOps" where
  "ram_ops P O' =
     \<lparr>vn_open = (\<lambda>n. case n of Ram i \<Rightarrow> vret () | Outer x \<Rightarrow> vn_open O' n),
      vn_release = (\<lambda>n. case n of Ram i \<Rightarrow> vret () | Outer x \<Rightarrow> vn_release O' n),
      vn_get_attr = (\<lambda>n. case n of Ram i \<Rightarrow> ram_get_attr P i | Outer x \<Rightarrow> vn_get_attr O' n),
      vn_read_at = (\<lambda>n offset buf. case n of
          Ram i \<Rightarrow> on_file i (\<lambda>content. out_then (file_read_at offset buf content) (\<lambda>r. Ret (r, content)))
        | Outer x \<Rightarrow> vn_read_at O' n offset buf),
      vn_write_at = (\<lambda>n offset buf. case n of Ram i \<Rightarrow> on_file i (file_write_at offset buf) | Outer x \<Rightarrow> vn_write_at O' n offset buf),
      vn_fsync = (\<lambda>n s. case n of
          Ram i \<Rightarrow> (case ram_node i s of DirNode p children \<Rightarrow> verr IsADirectory s | FileNode c \<Rightarrow> verr InvalidInput s)
        | Outer x \<Rightarrow> vn_fsync O' n s),
      vn_truncate = (\<lambda>n sz. case n of
          Ram i \<Rightarrow> on_file i (\<lambda>content. out_then (file_truncate sz content) (\<lambda>content. Ret ((), content)))
        | Outer x \<Rightarrow> vn_truncate O' n sz),
      vn_parent = (\<lambda>n s. case n of Ram i \<Rightarrow> dir_parent i s | Outer x \<Rightarrow> vn_parent O' n s),
      vn_lookup = (\<lambda>n path. case n of Ram i \<Rightarrow> ram_lookup O' i path | Outer x \<Rightarrow> vn_lookup O' n path),
      vn_create = (\<lambda>n path ty. case n of Ram i \<Rightarrow> ram_create O' i path ty | Outer x \<Rightarrow> vn_create O' n path ty),
      vn_remove = (\<lambda>n path. case n of Ram i \<Rightarrow> ram_remove O' i path | Outer x \<Rightarrow> vn_remove O' n path),
      vn_read_dir = (\<lambda>n start_idx dirents. case n of Ram i \<Rightarrow> ram_read_dir i start_idx dirents | Outer x \<Rightarrow> vn_read_dir O' n start_idx dirents)\<rparr>"

definition ram_fs_new :: "'o \<Rightarrow> ('x, 'o) RamState" where
  "ram_fs_new out = \<lparr>rs_nodes = [\<lparr>rn_strong = 1, rn_node = dir_new None\<rparr>], rs_parent = None, rs_outer = out\<rparr>"

definition ram_fs_mount :: "('x vref, ('x, 'o) RamState) VfsNodeOps \<Rightarrow> string \<Rightarrow> 'x vref \<Rightarrow> (('x, 'o) RamState, unit) vfs" where
  "ram_fs_mount N path mount_point s =
     (case vn_parent N mount_point s of
        Some parent \<Rightarrow>
          (let s = (case rs_parent s of None \<Rightarrow> s\<lparr>rs_parent := Some parent\<rparr> | Some p \<Rightarrow> s)
           in vret () (dir_set_parent 0 (rs_parent s) s))
      | None \<Rightarrow> vret () (dir_set_parent 0 None s))"

definition ram_fs :: "('x vref, ('x, 'o) RamState) VfsNodeOps \<Rightarrow> ('x vref, ('x, 'o) RamState) VfsOps" where
  "ram_fs N = (fs_default (Ram 0))\<lparr>fs_mount := ram_fs_mount N\<rparr>"

section \<open>The specification\<close>

text \<open>
  What the file system promises: a map \<open>A\<close> from lists of names to entries. A path is resolved from a directory \<open>loc\<close> component by
  component.
\<close>

datatype entry = ADir | AFile "u8 list"

type_synonym fsmap = "string list \<Rightarrow> entry option"

fun spec_resolve :: "fsmap \<Rightarrow> string list \<Rightarrow> string list \<Rightarrow> (string list) AxResult" where
  "spec_resolve A loc [] = Ok loc"
| "spec_resolve A loc (c # cs) =
     (if A loc \<noteq> Some ADir then Err NotADirectory
      else if c = [] \<or> c = ''.'' then spec_resolve A loc cs
      else if c = ''..'' then (if loc = [] then Err NotFound else spec_resolve A (butlast loc) cs)
      else if A (loc @ [c]) = None then Err NotFound
      else spec_resolve A (loc @ [c]) cs)"

text \<open>All components but the last one are resolved, the last one is created or removed in the directory.\<close>

definition spec_at :: "(string list \<Rightarrow> string \<Rightarrow> fsmap \<Rightarrow> unit AxResult \<times> fsmap) \<Rightarrow> string list \<Rightarrow> string list \<Rightarrow> fsmap \<Rightarrow> unit AxResult \<times> fsmap" where
  "spec_at f loc cs A =
     (case spec_resolve A loc (butlast cs) of
        Inl e \<Rightarrow> (Err e, A)
      | Inr dir \<Rightarrow> if A dir \<noteq> Some ADir then (Err NotADirectory, A) else f dir (last cs) A)"

definition spec_create :: "VfsNodeType \<Rightarrow> string list \<Rightarrow> string \<Rightarrow> fsmap \<Rightarrow> unit AxResult \<times> fsmap" where
  "spec_create ty dir name A =
     (if name = [] \<or> name = ''.'' \<or> name = ''..'' then (Ok (), A)
      else if A (dir @ [name]) \<noteq> None then (Err AlreadyExists, A)
      else case ty of
             File \<Rightarrow> (Ok (), A(dir @ [name] \<mapsto> AFile []))
           | Dir \<Rightarrow> (Ok (), A(dir @ [name] \<mapsto> ADir))
           | _ \<Rightarrow> (Err Unsupported, A))"

definition spec_remove :: "string list \<Rightarrow> string \<Rightarrow> fsmap \<Rightarrow> unit AxResult \<times> fsmap" where
  "spec_remove dir name A =
     (if name = [] \<or> name = ''.'' \<or> name = ''..'' then (Err InvalidInput, A)
      else case A (dir @ [name]) of
             None \<Rightarrow> (Err NotFound, A)
           | Some e \<Rightarrow> if e = ADir \<and> (\<exists>n. A (dir @ [name, n]) \<noteq> None) then (Err DirectoryNotEmpty, A)
                       else (Ok (), A(dir @ [name] := None)))"

section \<open>The tree of nodes\<close>

fun node_walk :: "('x, 'o) RamState \<Rightarrow> nat \<Rightarrow> string list \<Rightarrow> nat option" where
  "node_walk s i [] = Some i"
| "node_walk s i (n # ns) = (case map_of (dir_children i s) n of None \<Rightarrow> None | Some j \<Rightarrow> node_walk s j ns)"

definition entry_of :: "'x node \<Rightarrow> entry" where
  "entry_of n = (case n of DirNode p children \<Rightarrow> ADir | FileNode c \<Rightarrow> AFile c)"

definition fs_map :: "('x, 'o) RamState \<Rightarrow> fsmap" where
  "fs_map s loc = map_option (\<lambda>i. entry_of (ram_node i s)) (node_walk s 0 loc)"

definition is_dir :: "nat \<Rightarrow> ('x, 'o) RamState \<Rightarrow> bool" where
  "is_dir i s \<longleftrightarrow> (case ram_node i s of DirNode p children \<Rightarrow> True | FileNode c \<Rightarrow> False)"

text \<open>
  Well-formed: a child comes after its directory, is alive and has one entry only; names are plain and in order; the parent of a directory is the one with the
  entry, the root has none.
\<close>

definition ram_wf :: "('x, 'o) RamState \<Rightarrow> bool" where
  "ram_wf s \<longleftrightarrow> 0 < length (rs_nodes s) \<and> node_alive 0 s \<and> (\<exists>children. ram_node 0 s = DirNode None children) \<and>
     (\<forall>i < length (rs_nodes s). sorted_wrt (<) (map fst (dir_children i s)) \<and>
        (\<forall>(n, j) \<in> set (dir_children i s). plain n \<and> n \<noteq> ''.'' \<and> n \<noteq> ''..'' \<and> i < j \<and> j < length (rs_nodes s) \<and> node_alive j s \<and>
           (\<forall>p children. ram_node j s = DirNode p children \<longrightarrow> p = Some (Ram i)))) \<and>
     (\<forall>i < length (rs_nodes s). \<forall>i' < length (rs_nodes s). \<forall>n n' j.
        (n, j) \<in> set (dir_children i s) \<and> (n', j) \<in> set (dir_children i' s) \<longrightarrow> i = i' \<and> n = n')"

end
