(* ===== verification/RamFsRefine.thy ===== *)
theory RamFsRefine
  imports RamFs
begin

text \<open>
  The file system in memory refines the map from paths to entries: the lemmas on the tree of nodes and, for \<open>lookup\<close>, \<open>create\<close> and
  \<open>remove\<close> with any path, that they do what the specification says and keep the tree well-formed.
\<close>

section \<open>Paths and components\<close>

lemma split_slash_slash: "split_slash (SLASH # cs) = [] # split_slash cs"
  by simp

lemma split_slash_trim: "\<exists>k. split_slash path = replicate k [] @ split_slash (dropWhile (\<lambda>c. c = SLASH) path)"
proof (induction path)
  case (Cons c cs)
  then obtain k where "split_slash cs = replicate k [] @ split_slash (dropWhile (\<lambda>c. c = SLASH) cs)" by blast
  then show ?case by (cases "c = SLASH") (rule exI [of _ "Suc k"], simp, rule exI [of _ 0], simp)
qed (simp add: exI [of _ 0])

lemma split_slash_first:
  "split_slash path = (case position (\<lambda>c. c = SLASH) path of None \<Rightarrow> [path] | Some n \<Rightarrow> take n path # split_slash (drop (n + 1) path))"
  by (induction path) (auto split: option.splits list.splits)

lemma split_path_split:
  assumes "split_path path = (name, rest)"
  shows "\<exists>k. split_slash path = replicate k [] @ name # (case rest of None \<Rightarrow> [] | Some r \<Rightarrow> split_slash r)"
proof -
  let ?t = "dropWhile (\<lambda>c. c = SLASH) path"
  obtain k where "split_slash path = replicate k [] @ split_slash ?t" using split_slash_trim by blast
  moreover have "split_slash ?t = name # (case rest of None \<Rightarrow> [] | Some r \<Rightarrow> split_slash r)"
    using assms split_slash_first [of ?t] by (auto simp: split_path_def Let_def split: option.splits)
  ultimately show ?thesis by auto
qed

lemma split_path_name: "split_path path = (name, rest) \<Longrightarrow> SLASH \<notin> set name"
  using split_path_split [of path name rest] split_slash_parts [of name path] by auto

lemma spec_resolve_skip: "A loc = Some ADir \<Longrightarrow> spec_resolve A loc (replicate k [] @ cs) = spec_resolve A loc cs"
  by (induction k) auto

lemma spec_resolve_not_dir: "A loc \<noteq> Some ADir \<Longrightarrow> cs \<noteq> [] \<Longrightarrow> spec_resolve A loc cs = Err NotADirectory"
  by (cases cs) auto

section \<open>Walks\<close>

lemma walk_append: "node_walk s i (p @ q) = Option.bind (node_walk s i p) (\<lambda>j. node_walk s j q)"
  by (induction p arbitrary: i) (auto split: option.splits)

lemma walk_snoc: "node_walk s i (p @ [n]) = Option.bind (node_walk s i p) (\<lambda>j. map_of (dir_children j s) n)"
  by (cases "node_walk s i p") (auto simp: walk_append split: option.splits)

lemma ram_child:
  assumes "ram_wf s" "i < length (rs_nodes s)" "map_of (dir_children i s) n = Some j"
  shows "plain n" "n \<noteq> ''.''" "n \<noteq> ''..''" "i < j" "j < length (rs_nodes s)" "node_alive j s"
    "ram_node j s = DirNode p children \<Longrightarrow> p = Some (Ram i)"
  using assms map_of_SomeD [OF assms(3)] unfolding ram_wf_def by fast+

lemma wf_sorted: "ram_wf s \<Longrightarrow> i < length (rs_nodes s) \<Longrightarrow> sorted_wrt (<) (map fst (dir_children i s))"
  by (simp add: ram_wf_def)

lemma ram_wfI:
  assumes "0 < length (rs_nodes s)" "node_alive 0 s" "\<exists>children. ram_node 0 s = DirNode None children"
    and "\<And>i. i < length (rs_nodes s) \<Longrightarrow> sorted_wrt (<) (map fst (dir_children i s))"
    and "\<And>i n j. i < length (rs_nodes s) \<Longrightarrow> (n, j) \<in> set (dir_children i s) \<Longrightarrow>
      plain n \<and> n \<noteq> ''.'' \<and> n \<noteq> ''..'' \<and> i < j \<and> j < length (rs_nodes s) \<and> node_alive j s \<and>
      (\<forall>p children. ram_node j s = DirNode p children \<longrightarrow> p = Some (Ram i))"
    and "\<And>i i' n n' j. i < length (rs_nodes s) \<Longrightarrow> i' < length (rs_nodes s) \<Longrightarrow> (n, j) \<in> set (dir_children i s) \<Longrightarrow>
      (n', j) \<in> set (dir_children i' s) \<Longrightarrow> i = i' \<and> n = n'"
  shows "ram_wf s"
proof -
  have e: "\<forall>(n, j) \<in> set (dir_children i s). plain n \<and> n \<noteq> ''.'' \<and> n \<noteq> ''..'' \<and> i < j \<and> j < length (rs_nodes s) \<and> node_alive j s \<and>
      (\<forall>p children. ram_node j s = DirNode p children \<longrightarrow> p = Some (Ram i))" if "i < length (rs_nodes s)" for i
  proof (rule ballI, unfold split_paired_all prod.case)
    fix n j
    assume "(n, j) \<in> set (dir_children i s)"
    then show "plain n \<and> n \<noteq> ''.'' \<and> n \<noteq> ''..'' \<and> i < j \<and> j < length (rs_nodes s) \<and> node_alive j s \<and>
      (\<forall>p children. ram_node j s = DirNode p children \<longrightarrow> p = Some (Ram i))" by (rule assms(5) [OF that])
  qed
  show ?thesis unfolding ram_wf_def using assms(1-4) e assms(6) by blast
qed

lemma wf_entry:
  assumes "ram_wf s" "i < length (rs_nodes s)" "(n, j) \<in> set (dir_children i s)"
  shows "plain n" "n \<noteq> ''.''" "n \<noteq> ''..''" "i < j" "j < length (rs_nodes s)" "node_alive j s" "ram_node j s = DirNode p ch \<Longrightarrow> p = Some (Ram i)"
  using assms unfolding ram_wf_def by fast+

lemma wf_entry_unique:
  assumes "ram_wf s" "i < length (rs_nodes s)" "i' < length (rs_nodes s)" "(n, j) \<in> set (dir_children i s)" "(n', j) \<in> set (dir_children i' s)"
  shows "i = i'" "n = n'"
  using assms unfolding ram_wf_def by fast+

lemma ram_unique:
  assumes "ram_wf s" "i < length (rs_nodes s)" "i' < length (rs_nodes s)" "map_of (dir_children i s) n = Some j" "map_of (dir_children i' s) n' = Some j"
  shows "i = i' \<and> n = n'"
  using assms map_of_SomeD [OF assms(4)] map_of_SomeD [OF assms(5)] unfolding ram_wf_def by fast

lemma walk_valid: "ram_wf s \<Longrightarrow> node_walk s 0 p = Some i \<Longrightarrow> i < length (rs_nodes s) \<and> node_alive i s"
proof (induction p arbitrary: i rule: rev_induct)
  case (snoc n p)
  then obtain j where j: "node_walk s 0 p = Some j" "map_of (dir_children j s) n = Some i" by (auto simp: walk_snoc bind_eq_Some_conv)
  then show ?case using ram_child(5,6) [OF snoc.prems(1) _ j(2)] snoc.IH [OF snoc.prems(1) j(1)] by blast
qed (simp add: ram_wf_def)

lemma walk_root: "ram_wf s \<Longrightarrow> node_walk s 0 p = Some 0 \<Longrightarrow> p = []"
proof (cases p rule: rev_cases)
  case (snoc q n)
  assume a: "ram_wf s" "node_walk s 0 p = Some 0"
  then obtain j where j: "node_walk s 0 q = Some j" "map_of (dir_children j s) n = Some 0" using snoc by (auto simp: walk_snoc bind_eq_Some_conv)
  then show ?thesis using ram_child(4) [OF a(1) _ j(2)] walk_valid [OF a(1) j(1)] by simp
qed simp

lemma walk_inj: "ram_wf s \<Longrightarrow> node_walk s 0 p = Some i \<Longrightarrow> node_walk s 0 q = Some i \<Longrightarrow> p = q"
proof (induction p arbitrary: i q rule: rev_induct)
  case Nil
  then show ?case using walk_root by auto
next
  case (snoc n p)
  obtain j where j: "node_walk s 0 p = Some j" "map_of (dir_children j s) n = Some i" using snoc.prems by (auto simp: walk_snoc bind_eq_Some_conv)
  show ?case
  proof (cases q rule: rev_cases)
    case Nil
    then show ?thesis using snoc.prems walk_root by fastforce
  next
    case (snoc q' n')
    obtain k where k: "node_walk s 0 q' = Some k" "map_of (dir_children k s) n' = Some i"
      using snoc snoc.prems by (auto simp: walk_snoc bind_eq_Some_conv)
    have "j = k \<and> n = n'" using ram_unique [OF snoc.prems(1) _ _ j(2) k(2)] walk_valid [OF snoc.prems(1)] j(1) k(1) by blast
    then show ?thesis using snoc.IH [OF snoc.prems(1) j(1), of q'] k(1) snoc by simp
  qed
qed

lemma walk_same: "ram_wf s \<Longrightarrow> node_walk s 0 p = Some i \<Longrightarrow> node_walk s 0 q = Some k \<Longrightarrow> (k = i \<longleftrightarrow> q = p)"
  using walk_inj [of s p i q] by auto

lemma fs_map_dir: "fs_map s p = Some ADir \<longleftrightarrow> (\<exists>i. node_walk s 0 p = Some i \<and> is_dir i s)"
  by (auto simp: fs_map_def entry_of_def is_dir_def split: node.splits)

lemma fs_map_walk: "node_walk s 0 p = Some i \<Longrightarrow> fs_map s p = Some (entry_of (ram_node i s))"
  by (simp add: fs_map_def)

lemma fs_map_none: "fs_map s p = None \<longleftrightarrow> node_walk s 0 p = None"
  by (simp add: fs_map_def)

text \<open>A component leads where the specification says.\<close>

lemma step_to_spec:
  assumes w: "ram_wf s" and i: "node_walk s 0 loc = Some i" "is_dir i s"
  shows "case step_to i name s of
      None \<Rightarrow> spec_resolve (fs_map s) loc (name # cs) = Err NotFound
    | Some node \<Rightarrow> \<exists>j loc'. node = Ram j \<and> node_walk s 0 loc' = Some j \<and> spec_resolve (fs_map s) loc (name # cs) = spec_resolve (fs_map s) loc' cs"
proof -
  have d: "fs_map s loc = Some ADir" using i fs_map_dir by blast
  consider (self) "name = [] \<or> name = ''.''" | (up) "name = ''..''" | (down) "name \<noteq> []" "name \<noteq> ''.''" "name \<noteq> ''..''" by blast
  then show ?thesis
  proof cases
    case self
    then show ?thesis using d i by (auto simp: step_to_def)
  next
    case up
    obtain p ch where n: "ram_node i s = DirNode p ch" using i(2) by (auto simp: is_dir_def split: node.splits)
    show ?thesis
    proof (cases loc rule: rev_cases)
      case Nil
      then have "dir_parent i s = None" using i(1) w by (auto simp: ram_wf_def dir_parent_def upgrade_def)
      then show ?thesis using up Nil d by (simp add: step_to_def)
    next
      case (snoc q m)
      then obtain k where k: "node_walk s 0 q = Some k" "map_of (dir_children k s) m = Some i" using i(1) by (auto simp: walk_snoc bind_eq_Some_conv)
      have "p = Some (Ram k)" "node_alive k s" using ram_child(7) [OF w _ k(2) n] walk_valid [OF w k(1)] by simp_all
      then have "dir_parent i s = Some (Ram k)" using n by (simp add: dir_parent_def upgrade_def)
      then show ?thesis using up snoc d k(1) by (auto simp: step_to_def)
    qed
  next
    case down
    show ?thesis
    proof (cases "map_of (dir_children i s) name")
      case None
      then have "fs_map s (loc @ [name]) = None" using i(1) by (simp add: fs_map_none walk_snoc)
      then show ?thesis using down None d by (simp add: step_to_def)
    next
      case (Some j)
      then have "node_walk s 0 (loc @ [name]) = Some j" using i(1) by (simp add: walk_snoc)
      then show ?thesis using down Some d by (auto simp: step_to_def fs_map_walk)
    qed
  qed
qed

section \<open>Lookup\<close>

definition lookup_as :: "('x, 'o) RamState \<Rightarrow> (string list) AxResult \<Rightarrow> ('x vref AxResult \<times> ('x, 'o) RamState) outcome \<Rightarrow> bool" where
  "lookup_as s spec res \<longleftrightarrow>
     (case spec of
        Inl e \<Rightarrow> res = Ret (Err e, s)
      | Inr loc \<Rightarrow> \<exists>j. node_walk s 0 loc = Some j \<and> res = Ret (Ok (Ram j), vref_clone (Ram j) s))"

lemma lookup_refines:
  assumes w: "ram_wf s" and i: "node_walk s 0 loc = Some i"
  shows "lookup_as s (spec_resolve (fs_map s) loc (split_slash path)) (ram_lookup O' i path s)"
  using i
proof (induction "length path" arbitrary: loc i path rule: less_induct)
  case less
  show ?case
  proof (cases "is_dir i s")
    case False
    then have "fs_map s loc \<noteq> Some ADir" using less.prems fs_map_dir [of s loc] by auto
    then have "spec_resolve (fs_map s) loc (split_slash path) = Err NotADirectory" by (rule spec_resolve_not_dir) simp
    moreover obtain c where "ram_node i s = FileNode c" using False by (auto simp: is_dir_def split: node.splits)
    ultimately show ?thesis by (simp add: lookup_as_def ram_lookup.simps [of O' i path])
  next
    case True
    obtain p ch where n: "ram_node i s = DirNode p ch" using True by (auto simp: is_dir_def split: node.splits)
    have d: "fs_map s loc = Some ADir" using True less.prems fs_map_dir by blast
    obtain name rest where sp: "split_path path = (name, rest)" by (cases "split_path path")
    let ?cs = "case rest of None \<Rightarrow> [] | Some r \<Rightarrow> split_slash r"
    have e: "spec_resolve (fs_map s) loc (split_slash path) = spec_resolve (fs_map s) loc (name # ?cs)"
      using split_path_split [OF sp] spec_resolve_skip [where A = "fs_map s", OF d] by metis
    note step = step_to_spec [OF w less.prems True, of name ?cs]
    show ?thesis
    proof (cases "step_to i name s")
      case None
      then show ?thesis using step e n sp by (simp add: lookup_as_def ram_lookup.simps [of O' i path])
    next
      case (Some node)
      then obtain j loc' where j: "node = Ram j" "node_walk s 0 loc' = Some j" "spec_resolve (fs_map s) loc (name # ?cs) = spec_resolve (fs_map s) loc' ?cs"
        using step by auto
      show ?thesis
      proof (cases rest)
        case None
        then have "spec_resolve (fs_map s) loc (split_slash path) = Ok loc'" using j(3) e by simp
        moreover have "ram_lookup O' i path s = Ret (Ok (Ram j), vref_clone (Ram j) s)"
          using Some j(1) n sp None by (simp add: ram_lookup.simps [of O' i path])
        ultimately show ?thesis using j(2) by (simp add: lookup_as_def)
      next
        case (Some r)
        have "ram_lookup O' i path s = ram_lookup O' j r s" using \<open>step_to i name s = Some node\<close> j(1) n sp Some by (simp add: ram_lookup.simps [of O' i path])
        moreover have "spec_resolve (fs_map s) loc (split_slash path) = spec_resolve (fs_map s) loc' (split_slash r)" using j(3) e Some by simp
        ultimately show ?thesis using less.hyps [OF split_path_shorter [OF sp [unfolded Some]] j(2)] by simp
      qed
    qed
  qed
qed

section \<open>Changes of the tree\<close>

lemma set_node_simps [simp]:
  "length (rs_nodes (set_node i n s)) = length (rs_nodes s)" "node_alive k (set_node i n s) = node_alive k s"
  by (cases "i < length (rs_nodes s)"; auto simp: set_node_def node_alive_def nth_list_update list_update_beyond)+

lemma ram_node_set: "i < length (rs_nodes s) \<Longrightarrow> ram_node k (set_node i n s) = (if k = i then n else ram_node k s)"
  by (simp add: ram_node_def set_node_def nth_list_update)

text \<open>A directory gets an entry for a new node.\<close>

definition add_child :: "nat \<Rightarrow> string \<Rightarrow> 'x node \<Rightarrow> ('x, 'o) RamState \<Rightarrow> ('x, 'o) RamState" where
  "add_child i name node s =
     (let t = s\<lparr>rs_nodes := rs_nodes s @ [\<lparr>rn_strong = 1, rn_node = node\<rparr>]\<rparr>
      in dir_set_children i (bt_insert name (length (rs_nodes s)) (dir_children i t)) t)"

lemma add_child_nodes:
  fixes s :: "('x, 'o) RamState" and node :: "'x node" and name :: string
  assumes i: "i < length (rs_nodes s)" "is_dir i s"
  defines "s' \<equiv> add_child i name node s"
  shows "length (rs_nodes s') = Suc (length (rs_nodes s))"
    "k < length (rs_nodes s) \<Longrightarrow> node_alive k s' = node_alive k s" "node_alive (length (rs_nodes s)) s'"
    "k < length (rs_nodes s) \<Longrightarrow> k \<noteq> i \<Longrightarrow> ram_node k s' = ram_node k s"
    "ram_node (length (rs_nodes s)) s' = node"
    "ram_node i s = DirNode p ch \<Longrightarrow> ram_node i s' = DirNode p (bt_insert name (length (rs_nodes s)) ch)"
proof -
  let ?t = "s\<lparr>rs_nodes := rs_nodes s @ [\<lparr>rn_strong = 1, rn_node = node\<rparr>]\<rparr>"
  obtain p ch where n: "ram_node i s = DirNode p ch" using i(2) by (auto simp: is_dir_def split: node.splits)
  then have t: "ram_node i ?t = DirNode p ch" using i(1) by (simp add: ram_node_def nth_append)
  have s': "s' = set_node i (DirNode p (bt_insert name (length (rs_nodes s)) ch)) ?t"
    using t by (simp add: s'_def add_child_def dir_set_children_def dir_children_def Let_def)
  show "length (rs_nodes s') = Suc (length (rs_nodes s))" "node_alive (length (rs_nodes s)) s'"
    "k < length (rs_nodes s) \<Longrightarrow> node_alive k s' = node_alive k s" by (simp_all add: s') (simp_all add: node_alive_def nth_append)
  have il: "i < length (rs_nodes ?t)" using i(1) by simp
  show "k < length (rs_nodes s) \<Longrightarrow> k \<noteq> i \<Longrightarrow> ram_node k s' = ram_node k s" "ram_node (length (rs_nodes s)) s' = node"
    unfolding s' ram_node_set [OF il] using i(1) by (simp_all add: ram_node_def nth_append)
  show "ram_node i s = DirNode p ch \<Longrightarrow> ram_node i s' = DirNode p (bt_insert name (length (rs_nodes s)) ch)" for p ch
    unfolding s' ram_node_set [OF il] using n by simp
qed

lemma add_child_children:
  fixes s :: "('x, 'o) RamState" and node :: "'x node" and name :: string
  assumes i: "i < length (rs_nodes s)" "is_dir i s" and n: "node = DirNode p [] \<or> node = FileNode c"
  defines "s' \<equiv> add_child i name node s"
  shows "k < length (rs_nodes s) \<Longrightarrow> dir_children k s' = (if k = i then bt_insert name (length (rs_nodes s)) (dir_children i s) else dir_children k s)"
    "dir_children (length (rs_nodes s)) s' = []"
proof -
  obtain p ch where d: "ram_node i s = DirNode p ch" using i(2) by (auto simp: is_dir_def split: node.splits)
  show "dir_children (length (rs_nodes s)) s' = []" using n add_child_nodes(5) [OF i, of name node] by (auto simp: dir_children_def s'_def)
  show "dir_children k s' = (if k = i then bt_insert name (length (rs_nodes s)) (dir_children i s) else dir_children k s)" if "k < length (rs_nodes s)"
    using add_child_nodes(4) [OF i that, of name node] add_child_nodes(6) [OF i d, of name node] d by (simp add: dir_children_def s'_def)
qed

lemma add_child_walk:
  fixes s :: "('x, 'o) RamState" and node :: "'x node" and name :: string
  assumes w: "ram_wf s" and i: "node_walk s 0 loc = Some i" "is_dir i s" and n: "node = DirNode p [] \<or> node = FileNode c"
    and new: "map_of (dir_children i s) name = None"
  defines "s' \<equiv> add_child i name node s"
  shows "node_walk s' 0 q = (if q = loc @ [name] then Some (length (rs_nodes s)) else node_walk s 0 q)"
proof (induction q rule: rev_induct)
  case (snoc m q)
  have il: "i < length (rs_nodes s)" using walk_valid [OF w i(1)] by simp
  note ch = add_child_children [where name = name, OF il i(2) n, folded s'_def]
  have none: "node_walk s 0 (loc @ [name]) = None" using i(1) new by (simp add: walk_snoc)
  show ?case
  proof (cases "node_walk s' 0 q")
    case None
    then have "node_walk s 0 q = None" "q \<noteq> loc @ [name]" using snoc by (auto split: if_splits)
    then show ?thesis using None i(1) by (auto simp: walk_snoc)
  next
    case (Some k)
    show ?thesis
    proof (cases "q = loc @ [name]")
      case True
      then have "node_walk s 0 (q @ [m]) = None" unfolding walk_snoc [of s 0 q m] using none by simp
      moreover have "node_walk s' 0 (q @ [m]) = None" unfolding walk_snoc [of s' 0 q m] using True Some snoc ch(2) by simp
      ultimately show ?thesis using True by simp
    next
      case False
      then have k: "node_walk s 0 q = Some k" using snoc Some by simp
      then have kl: "k < length (rs_nodes s)" using walk_valid [OF w] by blast
      have ki: "k = i \<longleftrightarrow> q = loc" using walk_same [OF w i(1) k] .
      show ?thesis unfolding walk_snoc [of s' 0 q m] walk_snoc [of s 0 q m]
        using Some k ch(1) [OF kl] ki by (cases "q = loc") (simp_all add: bt_insert_map_of)
    qed
  qed
qed simp

lemma add_child_map:
  assumes w: "ram_wf s" and i: "node_walk s 0 loc = Some i" "is_dir i s" and n: "node = DirNode p [] \<or> node = FileNode c"
    and new: "map_of (dir_children i s) name = None"
  shows "fs_map (add_child i name node s) = (fs_map s)(loc @ [name] \<mapsto> entry_of node)"
proof
  fix q
  let ?s = "add_child i name node s"
  have il: "i < length (rs_nodes s)" using walk_valid [OF w i(1)] by simp
  note wk = add_child_walk [OF w i n new, of q]
  show "fs_map ?s q = ((fs_map s)(loc @ [name] \<mapsto> entry_of node)) q"
  proof (cases "q = loc @ [name]")
    case True
    then show ?thesis using wk add_child_nodes(5) [OF il i(2)] by (simp add: fs_map_def)
  next
    case False
    have "entry_of (ram_node k ?s) = entry_of (ram_node k s)" if "node_walk s 0 q = Some k" for k
    proof (cases "k = i")
      case True
      obtain p ch where "ram_node i s = DirNode p ch" using i(2) by (auto simp: is_dir_def split: node.splits)
      then show ?thesis using True add_child_nodes(6) [OF il i(2)] by (simp add: entry_of_def)
    next
      case False
      then show ?thesis using add_child_nodes(4) [OF il i(2)] walk_valid [OF w that] by simp
    qed
    then show ?thesis using False wk by (cases "node_walk s 0 q") (simp_all add: fs_map_def)
  qed
qed

lemma add_child_wf:
  fixes s :: "('x, 'o) RamState"
  assumes w: "ram_wf s" and i: "node_walk s 0 loc = Some i" "is_dir i s" and n: "node = DirNode (Some (Ram i)) [] \<or> node = FileNode c"
    and new: "map_of (dir_children i s) name = None" and pl: "plain name" "name \<noteq> ''.''" "name \<noteq> ''..''"
  shows "ram_wf (add_child i name node s)"
proof -
  let ?s = "add_child i name node s" let ?L = "length (rs_nodes s)"
  have il: "i < ?L" using walk_valid [OF w i(1)] by simp
  note nd = add_child_nodes [where name = name and node = node, OF il i(2)]
  have n': "node = DirNode (Some (Ram i)) [] \<or> node = FileNode c" by (rule n)
  note ch = add_child_children [where name = name, OF il i(2) n']
  have notin: "name \<notin> fst ` set (dir_children i s)" using new by (simp add: map_of_eq_None_iff)
  have kids: "set (dir_children k ?s) = (if k = i then insert (name, ?L) (set (dir_children i s)) else if k = ?L then {} else set (dir_children k s))"
    if "k < length (rs_nodes ?s)" for k
  proof (cases "k = ?L")
    case True
    then show ?thesis using ch(2) il by simp
  next
    case False
    then have "k < ?L" using that nd(1) by simp
    then show ?thesis using ch(1) False bt_insert_set [OF notin] by simp
  qed
  have old: "\<forall>(n, j) \<in> set (dir_children k s). plain n \<and> n \<noteq> ''.'' \<and> n \<noteq> ''..'' \<and> k < j \<and> j < ?L \<and> node_alive j s \<and>
      (\<forall>p children. ram_node j s = DirNode p children \<longrightarrow> p = Some (Ram k))" if "k < ?L" for k
    using w that by (simp add: ram_wf_def)
  have par: "p = Some (Ram k)" if "ram_node j ?s = DirNode p children" "(n, j) \<in> set (dir_children k s)" "k < ?L" for n j k p children
  proof -
    have jl: "j < ?L" "\<forall>p children. ram_node j s = DirNode p children \<longrightarrow> p = Some (Ram k)" using old [OF that(3)] that(2) by fast+
    show ?thesis
    proof (cases "j = i")
      case True
      obtain p' ch' where "ram_node i s = DirNode p' ch'" using i(2) by (auto simp: is_dir_def split: node.splits)
      then show ?thesis using nd(6) that(1) True jl(2) by auto
    next
      case False
      then show ?thesis using nd(4) [OF jl(1)] that(1) jl(2) by metis
    qed
  qed
  have entries: "plain n \<and> n \<noteq> ''.'' \<and> n \<noteq> ''..'' \<and> k < j \<and> j < length (rs_nodes ?s) \<and> node_alive j ?s \<and>
      (\<forall>p children. ram_node j ?s = DirNode p children \<longrightarrow> p = Some (Ram k))"
    if k: "k < length (rs_nodes ?s)" and nj: "(n, j) \<in> set (dir_children k ?s)" for k n j
  proof (cases "k = i \<and> (n, j) = (name, ?L)")
    case True
    then show ?thesis using pl il nd(1,3,5) n by auto
  next
    case False
    have kL: "k < ?L" "(n, j) \<in> set (dir_children k s)" using kids [OF k] nj k nd(1) False il by (auto split: if_splits)
    then have "plain n \<and> n \<noteq> ''.'' \<and> n \<noteq> ''..'' \<and> k < j \<and> j < ?L \<and> node_alive j s" using old [OF kL(1)] by fast
    then show ?thesis using nd(1,2) par [OF _ kL(2,1)] by auto
  qed
  have sorted: "sorted_wrt (<) (map fst (dir_children k ?s))" if "k < length (rs_nodes ?s)" for k
  proof (cases "k = ?L")
    case True
    then show ?thesis using ch(2) by simp
  next
    case False
    then have kL: "k < ?L" using that nd(1) by simp
    then have "sorted_wrt (<) (map fst (dir_children k s))" using w by (simp add: ram_wf_def)
    then show ?thesis using ch(1) [OF kL] bt_insert_sorted by (simp split: if_splits)
  qed
  have uniq: "k = k' \<and> n = n'" if "k < length (rs_nodes ?s)" "k' < length (rs_nodes ?s)" "(n, j) \<in> set (dir_children k ?s)" "(n', j) \<in> set (dir_children k' ?s)"
    for k k' n n' j
  proof -
    have lt: "j < ?L" if "(m, j) \<in> set (dir_children l s)" "l < ?L" for m l using old [OF that(2)] that(1) by fast
    have u: "l = l' \<and> m = m'" if "l < ?L" "l' < ?L" "(m, j) \<in> set (dir_children l s)" "(m', j) \<in> set (dir_children l' s)" for l l' m m'
      using w that unfolding ram_wf_def by blast
    have a: "(k = i \<and> n = name \<and> j = ?L) \<or> (k < ?L \<and> (n, j) \<in> set (dir_children k s))" using kids [OF that(1)] that(1,3) nd(1) il by (auto split: if_splits)
    have b: "(k' = i \<and> n' = name \<and> j = ?L) \<or> (k' < ?L \<and> (n', j) \<in> set (dir_children k' s))" using kids [OF that(2)] that(2,4) nd(1) il by (auto split: if_splits)
    show ?thesis using a b lt u by (meson less_irrefl)
  qed
  have root: "\<exists>children. ram_node 0 ?s = DirNode None children" "node_alive 0 ?s"
  proof -
    obtain ch0 where r: "ram_node 0 s = DirNode None ch0" "0 < ?L" "node_alive 0 s" using w by (auto simp: ram_wf_def)
    show "\<exists>children. ram_node 0 ?s = DirNode None children" using nd(4) [of 0] nd(6) r by (cases "i = 0") auto
    show "node_alive 0 ?s" using nd(2) r by simp
  qed
  show ?thesis using root by (intro ram_wfI sorted entries uniq) (simp_all add: nd(1))
qed

text \<open>An entry of a directory is removed.\<close>

definition cut_child :: "nat \<Rightarrow> string \<Rightarrow> nat \<Rightarrow> ('x, 'o) RamState \<Rightarrow> ('x, 'o) RamState" where
  "cut_child i name j s = entry_drop j (dir_set_children i (snd (bt_remove_entry name (dir_children i s))) s)"

lemma cut_child_nodes:
  fixes s :: "('x, 'o) RamState" and name :: string
  assumes w: "ram_wf s" and i: "i < length (rs_nodes s)" "is_dir i s" and j: "map_of (dir_children i s) name = Some j"
  defines "s' \<equiv> cut_child i name j s"
  shows "length (rs_nodes s') = length (rs_nodes s)" "k \<noteq> j \<Longrightarrow> node_alive k s' = node_alive k s"
    "k \<noteq> i \<Longrightarrow> ram_node k s' = ram_node k s"
    "ram_node i s = DirNode p ch \<Longrightarrow> ram_node i s' = DirNode p (filter (\<lambda>e. fst e \<noteq> name) ch)"
proof -
  obtain p ch where n: "ram_node i s = DirNode p ch" using i(2) by (auto simp: is_dir_def split: node.splits)
  have "sorted_wrt (<) (map fst ch)" using wf_sorted [OF w i(1)] n by (simp add: dir_children_def)
  then have f: "snd (bt_remove_entry name ch) = filter (\<lambda>e. fst e \<noteq> name) ch" by (intro bt_remove_entry_filter sorted_keys_distinct)
  have s': "s' = entry_drop j (set_node i (DirNode p (filter (\<lambda>e. fst e \<noteq> name) ch)) s)"
    using n f by (simp add: s'_def cut_child_def dir_set_children_def dir_children_def)
  have jl: "j < length (rs_nodes s)" using ram_child(5) [OF w i(1) j] .
  show "length (rs_nodes s') = length (rs_nodes s)" by (simp add: s' entry_drop_def)
  show "k \<noteq> j \<Longrightarrow> node_alive k s' = node_alive k s"
    using i(1) by (simp add: s' entry_drop_def node_alive_def set_node_def nth_list_update)
  have rn: "ram_node k s' = ram_node k (set_node i (DirNode p (filter (\<lambda>e. fst e \<noteq> name) ch)) s)" for k
    using jl by (simp add: s' entry_drop_def ram_node_def nth_list_update)
  show "k \<noteq> i \<Longrightarrow> ram_node k s' = ram_node k s" unfolding rn ram_node_set [OF i(1)] by simp
  show "ram_node i s = DirNode p ch \<Longrightarrow> ram_node i s' = DirNode p (filter (\<lambda>e. fst e \<noteq> name) ch)" for p ch
    unfolding rn ram_node_set [OF i(1)] using n by simp
qed

lemma cut_child_children:
  fixes s :: "('x, 'o) RamState" and name :: string
  assumes w: "ram_wf s" and i: "i < length (rs_nodes s)" "is_dir i s" and j: "map_of (dir_children i s) name = Some j"
  shows "dir_children k (cut_child i name j s) = (if k = i then filter (\<lambda>e. fst e \<noteq> name) (dir_children i s) else dir_children k s)"
proof -
  obtain p ch where n: "ram_node i s = DirNode p ch" using i(2) by (auto simp: is_dir_def split: node.splits)
  show ?thesis using cut_child_nodes(3) [OF w i j, of k] cut_child_nodes(4) [OF w i j n] n by (simp add: dir_children_def)
qed

lemma cut_child_walk:
  fixes s :: "('x, 'o) RamState" and name :: string
  assumes w: "ram_wf s" and i: "node_walk s 0 loc = Some i" "is_dir i s" and j: "map_of (dir_children i s) name = Some j" "dir_children j s = []"
  defines "s' \<equiv> cut_child i name j s"
  shows "node_walk s' 0 q = (if q = loc @ [name] then None else node_walk s 0 q)"
proof (induction q rule: rev_induct)
  case (snoc m q)
  have il: "i < length (rs_nodes s)" using walk_valid [OF w i(1)] by simp
  note ch = cut_child_children [OF w il i(2) j(1), folded s'_def]
  show ?case
  proof (cases "q = loc @ [name]")
    case True
    have "node_walk s 0 q = Some j" using True i(1) j(1) by (simp add: walk_snoc)
    then have "node_walk s 0 (q @ [m]) = None" unfolding walk_snoc [of s 0 q m] using j(2) by simp
    moreover have "node_walk s' 0 (q @ [m]) = None" unfolding walk_snoc [of s' 0 q m] using snoc True by simp
    ultimately show ?thesis using True by simp
  next
    case False
    then have wq: "node_walk s' 0 q = node_walk s 0 q" using snoc by simp
    show ?thesis
    proof (cases "node_walk s 0 q")
      case None
      then show ?thesis using wq i(1) by (auto simp: walk_snoc)
    next
      case (Some k)
      have ki: "k = i \<longleftrightarrow> q = loc" using walk_same [OF w i(1) Some] .
      show ?thesis unfolding walk_snoc [of s' 0 q m] walk_snoc [of s 0 q m]
        using wq Some ch [of k] ki by (cases "q = loc") (simp_all add: map_of_filter_key)
    qed
  qed
qed simp

lemma cut_child_map:
  assumes w: "ram_wf s" and i: "node_walk s 0 loc = Some i" "is_dir i s" and j: "map_of (dir_children i s) name = Some j" "dir_children j s = []"
  shows "fs_map (cut_child i name j s) = (fs_map s)(loc @ [name] := None)"
proof
  fix q
  let ?s = "cut_child i name j s"
  have il: "i < length (rs_nodes s)" using walk_valid [OF w i(1)] by simp
  note wk = cut_child_walk [OF w i j, of q]
  have "entry_of (ram_node k ?s) = entry_of (ram_node k s)" for k
  proof (cases "k = i")
    case True
    obtain p ch where "ram_node i s = DirNode p ch" using i(2) by (auto simp: is_dir_def split: node.splits)
    then show ?thesis using True cut_child_nodes(4) [OF w il i(2) j(1)] by (simp add: entry_of_def)
  next
    case False
    then show ?thesis using cut_child_nodes(3) [OF w il i(2) j(1)] by simp
  qed
  then show "fs_map ?s q = ((fs_map s)(loc @ [name] := None)) q" using wk by (simp add: fs_map_def)
qed

lemma cut_child_wf:
  fixes s :: "('x, 'o) RamState"
  assumes w: "ram_wf s" and i: "node_walk s 0 loc = Some i" "is_dir i s" and j: "map_of (dir_children i s) name = Some j"
  shows "ram_wf (cut_child i name j s)"
proof -
  let ?s = "cut_child i name j s"
  have il: "i < length (rs_nodes s)" using walk_valid [OF w i(1)] by simp
  note nd = cut_child_nodes [OF w il i(2) j] and ch = cut_child_children [OF w il i(2) j]
  have sub: "set (dir_children k ?s) \<subseteq> set (dir_children k s)" for k using ch by auto
  have keep: "n \<noteq> name \<or> k \<noteq> i" if "(n, l) \<in> set (dir_children k ?s)" for n l k using that ch by (auto split: if_splits)
  have sorted: "sorted_wrt (<) (map fst (dir_children k ?s))" if "k < length (rs_nodes s)" for k
    unfolding ch using wf_sorted [OF w that] filter_key_sorted [OF wf_sorted [OF w that]] by (cases "k = i") auto
  have alive: "node_alive l ?s" if "(n, l) \<in> set (dir_children k ?s)" "k < length (rs_nodes s)" for n l k
  proof -
    have nl: "(n, l) \<in> set (dir_children k s)" using sub that(1) by blast
    have "l \<noteq> j" using wf_entry_unique [OF w that(2) il nl] map_of_SomeD [OF j] keep [OF that(1)] by blast
    then show ?thesis using nd(2) wf_entry(6) [OF w that(2) nl] by simp
  qed
  have par: "p = Some (Ram k)" if "ram_node l ?s = DirNode p children" "(n, l) \<in> set (dir_children k s)" "k < length (rs_nodes s)" for n l k p children
  proof -
    have "\<exists>ch. ram_node l s = DirNode p ch"
    proof (cases "l = i")
      case True
      obtain p' ch' where "ram_node i s = DirNode p' ch'" using i(2) by (auto simp: is_dir_def split: node.splits)
      then show ?thesis using nd(4) that(1) True by auto
    next
      case False
      then show ?thesis using nd(3) [of l] that(1) by metis
    qed
    then show ?thesis using wf_entry(7) [OF w that(3,2)] by blast
  qed
  have entries: "plain n \<and> n \<noteq> ''.'' \<and> n \<noteq> ''..'' \<and> k < l \<and> l < length (rs_nodes ?s) \<and> node_alive l ?s \<and>
      (\<forall>p children. ram_node l ?s = DirNode p children \<longrightarrow> p = Some (Ram k))"
    if k: "k < length (rs_nodes s)" and nl: "(n, l) \<in> set (dir_children k ?s)" for k n l
  proof -
    have o: "(n, l) \<in> set (dir_children k s)" using sub nl by blast
    show ?thesis unfolding nd(1) using wf_entry(1-5) [OF w k o] alive [OF nl k] par [OF _ o k] by simp
  qed
  have uniq: "k = k' \<and> n = n'" if "k < length (rs_nodes s)" "k' < length (rs_nodes s)" "(n, l) \<in> set (dir_children k ?s)" "(n', l) \<in> set (dir_children k' ?s)"
    for k k' n n' l
    using wf_entry_unique [OF w that(1,2)] that(3,4) sub by blast
  have root: "\<exists>children. ram_node 0 ?s = DirNode None children" "node_alive 0 ?s" "0 < length (rs_nodes s)"
  proof -
    obtain ch0 where r: "ram_node 0 s = DirNode None ch0" "0 < length (rs_nodes s)" "node_alive 0 s" using w by (auto simp: ram_wf_def)
    show "\<exists>children. ram_node 0 ?s = DirNode None children" using nd(3) [of 0] nd(4) r by (cases "i = 0") auto
    show "node_alive 0 ?s" using nd(2) [of 0] r ram_child(4) [OF w il j] by simp
    show "0 < length (rs_nodes s)" by (rule r(2))
  qed
  show ?thesis using root by (intro ram_wfI sorted entries uniq) (simp_all add: nd(1))
qed

section \<open>Creation and removal\<close>

definition at_as :: "unit AxResult \<times> fsmap \<Rightarrow> (unit AxResult \<times> ('x, 'o) RamState) outcome \<Rightarrow> bool" where
  "at_as spec res \<longleftrightarrow> (\<exists>s'. res = Ret (fst spec, s') \<and> ram_wf s' \<and> fs_map s' = snd spec)"

lemma spec_at_not_dir: "A loc \<noteq> Some ADir \<Longrightarrow> spec_at f loc cs A = (Err NotADirectory, A)"
  by (cases "butlast cs") (simp_all add: spec_at_def)

lemma spec_at_skip: "A loc = Some ADir \<Longrightarrow> cs \<noteq> [] \<Longrightarrow> spec_at f loc (replicate k [] @ cs) A = spec_at f loc cs A"
  unfolding spec_at_def last_append butlast_append by (simp add: spec_resolve_skip)

lemma spec_at_step:
  assumes w: "ram_wf s" and i: "node_walk s 0 loc = Some i" "is_dir i s" and cs: "cs \<noteq> []"
  shows "case step_to i name s of
      None \<Rightarrow> spec_at f loc (name # cs) (fs_map s) = (Err NotFound, fs_map s)
    | Some node \<Rightarrow> \<exists>j loc'. node = Ram j \<and> node_walk s 0 loc' = Some j \<and> spec_at f loc (name # cs) (fs_map s) = spec_at f loc' cs (fs_map s)"
proof (cases "step_to i name s")
  case None
  then show ?thesis using step_to_spec [OF w i, of name "butlast cs"] cs by (simp add: spec_at_def)
next
  case (Some node)
  then obtain j loc' where j: "node = Ram j" "node_walk s 0 loc' = Some j"
      "spec_resolve (fs_map s) loc (name # butlast cs) = spec_resolve (fs_map s) loc' (butlast cs)"
    using step_to_spec [OF w i, of name "butlast cs"] by (simp del: spec_resolve.simps) blast
  have "spec_at f loc (name # cs) (fs_map s) = spec_at f loc' cs (fs_map s)" 
    unfolding spec_at_def last_ConsR [OF cs] butlast.simps if_not_P [OF cs] j(3) by (rule refl)
  then show ?thesis using Some j(1,2) by auto
qed

text \<open>
  A walk over the path that creates or removes the last component does what the specification says, when its last step does.
\<close>

lemma at_refines:
  fixes s :: "('x, 'o) RamState"
  assumes w: "ram_wf s"
    and F: "\<And>i path. F i path =
      (case ram_node i s of
         FileNode c \<Rightarrow> verr NotADirectory s
       | DirNode p children \<Rightarrow>
           (case split_path path of (name, rest) \<Rightarrow>
              (case rest of
                 Some rest \<Rightarrow>
                   (case step_to i name s of
                      None \<Rightarrow> verr NotFound s
                    | Some node \<Rightarrow> (case node of Ram j \<Rightarrow> F j rest | Outer x \<Rightarrow> G node rest))
               | None \<Rightarrow> leaf i name)))"
    and leaf: "\<And>i loc name. node_walk s 0 loc = Some i \<Longrightarrow> is_dir i s \<Longrightarrow> SLASH \<notin> set name \<Longrightarrow> at_as (f loc name (fs_map s)) (leaf i name)"
    and i: "node_walk s 0 loc = Some i"
  shows "at_as (spec_at f loc (split_slash path) (fs_map s)) (F i path)"
  using i
proof (induction "length path" arbitrary: loc i path rule: less_induct)
  case less
  show ?case
  proof (cases "is_dir i s")
    case False
    then have "fs_map s loc \<noteq> Some ADir" using less.prems fs_map_dir [of s loc] by auto
    moreover obtain c where "ram_node i s = FileNode c" using False by (auto simp: is_dir_def split: node.splits)
    ultimately show ?thesis using w spec_at_not_dir [of "fs_map s" loc f] by (simp add: at_as_def F [of i path])
  next
    case True
    obtain p ch where n: "ram_node i s = DirNode p ch" using True by (auto simp: is_dir_def split: node.splits)
    have d: "fs_map s loc = Some ADir" using True less.prems fs_map_dir by blast
    obtain name rest where sp: "split_path path = (name, rest)" by (cases "split_path path")
    let ?cs = "case rest of None \<Rightarrow> [] | Some r \<Rightarrow> split_slash r"
    have e: "spec_at f loc (split_slash path) (fs_map s) = spec_at f loc (name # ?cs) (fs_map s)"
      using split_path_split [OF sp] spec_at_skip [where A = "fs_map s" and f = f and cs = "name # ?cs", OF d] by (metis list.discI)
    show ?thesis
    proof (cases rest)
      case None
      then have "spec_at f loc (split_slash path) (fs_map s) = f loc name (fs_map s)" using e d by (simp add: spec_at_def)
      then show ?thesis using leaf [OF less.prems True split_path_name [OF sp]] n sp None by (simp add: F [of i path])
    next
      case (Some r)
      have ne: "split_slash r \<noteq> []" by simp
      note step = spec_at_step [where f = f and name = name, OF w less.prems True ne]
      show ?thesis
      proof (cases "step_to i name s")
        case None
        then show ?thesis using step e n sp Some w by (simp add: F [of i path] at_as_def)
      next
        case st: (Some node)
        then obtain j loc' where j: "node = Ram j" "node_walk s 0 loc' = Some j"
            "spec_at f loc (name # split_slash r) (fs_map s) = spec_at f loc' (split_slash r) (fs_map s)" using step by auto
        have "F i path = F j r" using st j(1) n sp Some by (simp add: F [of i path])
        then show ?thesis using less.hyps [OF split_path_shorter [OF sp [unfolded Some]] j(2)] j(3) e Some by simp
      qed
    qed
  qed
qed

lemma create_node_as:
  assumes w: "ram_wf s" and i: "node_walk s 0 loc = Some i" "is_dir i s" and nm: "SLASH \<notin> set name" "name \<noteq> []" "name \<noteq> ''.''" "name \<noteq> ''..''"
  shows "at_as (spec_create ty loc name (fs_map s)) (create_node i name ty s)"
proof (cases "map_of (dir_children i s) name")
  case None
  then have none: "fs_map s (loc @ [name]) = None" using i(1) by (simp add: fs_map_none walk_snoc)
  have pl: "plain name" using nm by (simp add: plain_def)
  have mk: "at_as (Ok (), (fs_map s)(loc @ [name] \<mapsto> entry_of node)) (vret () (add_child i name node s))"
    if "node = DirNode (Some (Ram i)) [] \<or> node = FileNode c" for node c
    using add_child_map [OF w i that None] add_child_wf [OF w i that None pl nm(3,4)] by (simp add: at_as_def)
  show ?thesis
    using mk [of "dir_new (Some (Ram i))" "[]"] mk [of file_new "[]"] none nm None w
    by (cases ty) (simp_all add: spec_create_def create_node_def dir_exist_def add_child_def Let_def entry_of_def dir_new_def file_new_def at_as_def [of "(Err Unsupported, fs_map s)"])
next
  case (Some j)
  then have "fs_map s (loc @ [name]) \<noteq> None" using i(1) by (simp add: fs_map_none walk_snoc)
  then show ?thesis using Some nm w by (simp add: spec_create_def create_node_def dir_exist_def at_as_def)
qed

lemma remove_node_as:
  assumes w: "ram_wf s" and i: "node_walk s 0 loc = Some i" "is_dir i s" and nm: "name \<noteq> []" "name \<noteq> ''.''" "name \<noteq> ''..''"
  shows "at_as (spec_remove loc name (fs_map s)) (remove_node i name s)"
proof (cases "map_of (dir_children i s) name")
  case None
  then have "fs_map s (loc @ [name]) = None" using i(1) by (simp add: fs_map_none walk_snoc)
  then show ?thesis using None nm w by (simp add: spec_remove_def remove_node_def at_as_def)
next
  case (Some j)
  then have wj: "node_walk s 0 (loc @ [name]) = Some j" using i(1) by (simp add: walk_snoc)
  have kids: "fs_map s ((loc @ [name]) @ [n]) \<noteq> None \<longleftrightarrow> n \<in> fst ` set (dir_children j s)" for n
    unfolding fs_map_none walk_snoc [of s 0 "loc @ [name]" n] using wj by (simp add: map_of_eq_None_iff)
  then have full: "(\<exists>n. fs_map s (loc @ [name, n]) \<noteq> None) \<longleftrightarrow> dir_children j s \<noteq> []" by (auto simp: neq_Nil_conv)
  show ?thesis
  proof (cases "dir_children j s = []")
    case True
    have "remove_node i name s = vret () (cut_child i name j s)"
      using Some True by (auto simp: remove_node_def cut_child_def dir_children_def split: node.splits)
    moreover have "spec_remove loc name (fs_map s) = (Ok (), (fs_map s)(loc @ [name] := None))"
      using nm fs_map_walk [OF wj] full True by (simp add: spec_remove_def)
    ultimately show ?thesis using cut_child_map [OF w i Some True] cut_child_wf [OF w i Some] by (simp add: at_as_def)
  next
    case False
    then have "is_dir j s" "remove_node i name s = verr DirectoryNotEmpty s"
      using Some by (auto simp: remove_node_def dir_children_def is_dir_def split: node.splits)
    then have "fs_map s (loc @ [name]) = Some ADir" using wj fs_map_dir by blast
    then have "spec_remove loc name (fs_map s) = (Err DirectoryNotEmpty, fs_map s)" using nm full False by (simp add: spec_remove_def)
    then show ?thesis using \<open>remove_node i name s = verr DirectoryNotEmpty s\<close> w by (simp add: at_as_def)
  qed
qed

lemma create_refines:
  assumes w: "ram_wf s" and i: "node_walk s 0 loc = Some i"
  shows "at_as (spec_at (spec_create ty) loc (split_slash path) (fs_map s)) (ram_create O' i path ty s)"
proof (rule at_refines [where F = "\<lambda>i path. ram_create O' i path ty s" and G = "\<lambda>n rest. vn_create O' n rest ty s", OF w ram_create.simps _ i])
  fix i loc name
  assume "node_walk s 0 loc = Some i" "is_dir i s" "SLASH \<notin> set name"
  then show "at_as (spec_create ty loc name (fs_map s)) (if name = [] \<or> name = ''.'' \<or> name = ''..'' then vret () s else create_node i name ty s)"
    using create_node_as [OF w] w by (auto simp: spec_create_def at_as_def)
qed

lemma remove_refines:
  assumes w: "ram_wf s" and i: "node_walk s 0 loc = Some i"
  shows "at_as (spec_at spec_remove loc (split_slash path) (fs_map s)) (ram_remove O' i path s)"
proof (rule at_refines [where F = "\<lambda>i path. ram_remove O' i path s" and G = "\<lambda>n rest. vn_remove O' n rest s", OF w ram_remove.simps _ i])
  fix i loc name
  assume "node_walk s 0 loc = Some i" "is_dir i s" "SLASH \<notin> set name"
  then show "at_as (spec_remove loc name (fs_map s)) (if name = [] \<or> name = ''.'' \<or> name = ''..'' then verr InvalidInput s else remove_node i name s)"
    using remove_node_as [OF w] w by (auto simp: spec_remove_def at_as_def)
qed

end
