(* ===== verification/RamFsRuns.thy ===== *)
theory RamFsRuns
  imports RamFsRefine
begin

text \<open>
  Sequences of calls of the file system in memory (src/crates/axfs_ramfs/src), against the map from paths to entries.
\<close>

section \<open>Sequences of calls\<close>

text \<open>
  The calls of a client that knows paths only: it looks a path up from the root and calls the node. The specification makes the same
  call on the map.
\<close>

datatype fs_op = OpGetAttr string | OpCreate string VfsNodeType | OpRemove string | OpReadAt string u64 "u8 list" | OpWriteAt string u64 "u8 list"
  | OpTruncate string u64

datatype fs_reply = RAttr "VfsNodeAttr AxResult" | RUnit "unit AxResult" | RLen "nat AxResult" | RBuf "(nat \<times> u8 list) AxResult"

definition reply :: "('a \<Rightarrow> fs_reply) \<Rightarrow> ('a \<times> 's) outcome \<Rightarrow> (fs_reply \<times> 's) outcome" where
  "reply c m = out_then m (\<lambda>(r, s). Ret (c r, s))"

fun do_op :: "('x vref, ('x, 'o) RamState) VfsNodeOps \<Rightarrow> fs_op \<Rightarrow> ('x, 'o) RamState \<Rightarrow> (fs_reply \<times> ('x, 'o) RamState) outcome" where
  "do_op N (OpGetAttr path) s = reply RAttr (vthen (vn_lookup N (Ram 0) path) (vn_get_attr N) s)"
| "do_op N (OpCreate path ty) s = reply RUnit (vn_create N (Ram 0) path ty s)"
| "do_op N (OpRemove path) s = reply RUnit (vn_remove N (Ram 0) path s)"
| "do_op N (OpReadAt path offset buf) s = reply RBuf (vthen (vn_lookup N (Ram 0) path) (\<lambda>n. vn_read_at N n offset buf) s)"
| "do_op N (OpWriteAt path offset buf) s = reply RLen (vthen (vn_lookup N (Ram 0) path) (\<lambda>n. vn_write_at N n offset buf) s)"
| "do_op N (OpTruncate path sz) s = reply RUnit (vthen (vn_lookup N (Ram 0) path) (\<lambda>n. vn_truncate N n sz) s)"

fun run_ops :: "('s \<Rightarrow> fs_op \<Rightarrow> (fs_reply \<times> 's) outcome) \<Rightarrow> fs_op list \<Rightarrow> 's \<Rightarrow> (fs_reply list \<times> 's) outcome" where
  "run_ops f [] s = Ret ([], s)"
| "run_ops f (x # xs) s = out_then (f s x) (\<lambda>(r, s). out_then (run_ops f xs s) (\<lambda>(rs, s). Ret (r # rs, s)))"

definition spec_node :: "string \<Rightarrow> (string list \<Rightarrow> fsmap \<Rightarrow> ('a AxResult \<times> fsmap) outcome) \<Rightarrow> fsmap \<Rightarrow> ('a AxResult \<times> fsmap) outcome" where
  "spec_node path k A = (case spec_resolve A [] (split_slash path) of Inl e \<Rightarrow> Ret (Err e, A) | Inr loc \<Rightarrow> k loc A)"

definition spec_attr :: "VfsNodePerm bitflags \<Rightarrow> string list \<Rightarrow> fsmap \<Rightarrow> (VfsNodeAttr AxResult \<times> fsmap) outcome" where
  "spec_attr P loc A =
     (case A loc of
        Some (AFile c) \<Rightarrow> Ret (Ok (attr_new_file P (of_nat (length c)) 0), A)
      | _ \<Rightarrow> Ret (Ok (attr_new_dir P 4096 0), A))"

definition spec_file :: "(u8 list \<Rightarrow> ('a \<times> u8 list) outcome) \<Rightarrow> string list \<Rightarrow> fsmap \<Rightarrow> ('a AxResult \<times> fsmap) outcome" where
  "spec_file f loc A =
     (case A loc of
        Some (AFile c) \<Rightarrow> out_then (f c) (\<lambda>(r, c). Ret (Ok r, A(loc \<mapsto> AFile c)))
      | _ \<Rightarrow> Ret (Err IsADirectory, A))"

fun spec_op :: "VfsNodePerm bitflags \<Rightarrow> fs_op \<Rightarrow> fsmap \<Rightarrow> (fs_reply \<times> fsmap) outcome" where
  "spec_op P (OpGetAttr path) A = reply RAttr (spec_node path (spec_attr P) A)"
| "spec_op P (OpCreate path ty) A = reply RUnit (Ret (spec_at (spec_create ty) [] (split_slash path) A))"
| "spec_op P (OpRemove path) A = reply RUnit (Ret (spec_at spec_remove [] (split_slash path) A))"
| "spec_op P (OpReadAt path offset buf) A =
     reply RBuf (spec_node path (spec_file (\<lambda>c. out_then (file_read_at offset buf c) (\<lambda>r. Ret (r, c)))) A)"
| "spec_op P (OpWriteAt path offset buf) A = reply RLen (spec_node path (spec_file (file_write_at offset buf)) A)"
| "spec_op P (OpTruncate path sz) A =
     reply RUnit (spec_node path (spec_file (\<lambda>c. out_then (file_truncate sz c) (\<lambda>c. Ret ((), c)))) A)"

definition sim :: "('a \<times> fsmap) outcome \<Rightarrow> ('a \<times> ('x, 'o) RamState) outcome \<Rightarrow> bool" where
  "sim spec res \<longleftrightarrow>
     (case spec of
        Panic \<Rightarrow> res = Panic
      | Ret (r, A) \<Rightarrow> \<exists>s'. res = Ret (r, s') \<and> ram_wf s' \<and> fs_map s' = A)"

lemma sim_reply: "sim a b \<Longrightarrow> sim (reply c a) (reply c b)"
  by (cases a) (auto simp: sim_def reply_def)

lemma at_as_sim: "at_as spec res \<longleftrightarrow> sim (Ret spec) res"
  by (cases spec) (simp add: at_as_def sim_def)

text \<open>Neither a new reference to a node nor other bytes in a file change the tree.\<close>

lemma same_tree:
  assumes w: "ram_wf s" and len: "length (rs_nodes s') = length (rs_nodes s)"
    and alive: "\<And>i. node_alive i s \<Longrightarrow> node_alive i s'"
    and nodes: "\<And>i. ram_node i s' = ram_node i s \<or> (\<exists>c c'. ram_node i s = FileNode c \<and> ram_node i s' = FileNode c')"
  shows "node_walk s' i p = node_walk s i p" "ram_wf s'"
proof -
  have ch: "dir_children i s' = dir_children i s" for i using nodes [of i] by (auto simp: dir_children_def)
  show "node_walk s' i p = node_walk s i p" by (induction p arbitrary: i) (simp_all add: ch split: option.splits)
  have dirs: "ram_node i s' = DirNode p c \<longleftrightarrow> ram_node i s = DirNode p c" for i p c using nodes [of i] by auto
  show "ram_wf s'"
  proof (rule ram_wfI; (unfold len ch)?)
    show "0 < length (rs_nodes s)" "node_alive 0 s'" "\<exists>children. ram_node 0 s' = DirNode None children"
      using w alive dirs by (auto simp: ram_wf_def)
    show "sorted_wrt (<) (map fst (dir_children i s))" if "i < length (rs_nodes s)" for i by (rule wf_sorted [OF w that])
    show "plain n \<and> n \<noteq> ''.'' \<and> n \<noteq> ''..'' \<and> i < j \<and> j < length (rs_nodes s) \<and> node_alive j s' \<and>
        (\<forall>p children. ram_node j s' = DirNode p children \<longrightarrow> p = Some (Ram i))"
      if "i < length (rs_nodes s)" "(n, j) \<in> set (dir_children i s)" for i n j
      using wf_entry [OF w that] alive dirs by blast
    show "i = i' \<and> n = n'" if "i < length (rs_nodes s)" "i' < length (rs_nodes s)" "(n, j) \<in> set (dir_children i s)" "(n', j) \<in> set (dir_children i' s)"
      for i i' n n' j using wf_entry_unique [OF w that] by simp
  qed
qed

lemma clone_tree:
  assumes w: "ram_wf s" and j: "j < length (rs_nodes s)"
  defines "s' \<equiv> vref_clone (Ram j) s"
  shows "node_walk s' i p = node_walk s i p" "ram_wf s'" "ram_node i s' = ram_node i s" "fs_map s' = fs_map s" "length (rs_nodes s') = length (rs_nodes s)"
proof -
  show n: "ram_node i s' = ram_node i s" for i using j by (simp add: s'_def vref_clone_def ram_node_def nth_list_update)
  show l: "length (rs_nodes s') = length (rs_nodes s)" by (simp add: s'_def vref_clone_def)
  have "node_alive i s \<Longrightarrow> node_alive i s'" for i using j by (simp add: s'_def vref_clone_def node_alive_def nth_list_update)
  note t = same_tree [OF w l this]
  show k: "node_walk s' i p = node_walk s i p" "ram_wf s'" for i p using t n by blast+
  show "fs_map s' = fs_map s" by (simp add: fs_map_def fun_eq_iff k n)
qed

lemma file_set_tree:
  fixes s :: "('x, 'o) RamState" and c' :: "u8 list"
  assumes w: "ram_wf s" and j: "node_walk s 0 loc = Some j" and c: "ram_node j s = FileNode c"
  defines "s' \<equiv> set_node j (FileNode c') s"
  shows "ram_wf s'" "fs_map s' = (fs_map s)(loc \<mapsto> AFile c')" "node_walk s' i q = node_walk s i q" "ram_node j s' = FileNode c'"
proof -
  have jl: "j < length (rs_nodes s)" using walk_valid [OF w j] by simp
  have n: "ram_node i s' = (if i = j then FileNode c' else ram_node i s)" for i by (simp add: s'_def ram_node_set [OF jl])
  have "length (rs_nodes s') = length (rs_nodes s)" "\<And>i. node_alive i s \<Longrightarrow> node_alive i s'"
    using jl by (simp_all add: s'_def set_node_def node_alive_def nth_list_update)
  note t = same_tree [OF w this]
  show "ram_wf s'" using t(2) n c by auto
  show k: "node_walk s' i p = node_walk s i p" for i p using t(1) n c by auto
  show "ram_node j s' = FileNode c'" using n by simp
  show "fs_map s' = (fs_map s)(loc \<mapsto> AFile c')"
  proof
    fix p
    show "fs_map s' p = ((fs_map s)(loc \<mapsto> AFile c')) p"
    proof (cases "node_walk s 0 p")
      case None
      then show ?thesis using j by (auto simp: fs_map_def k)
    next
      case (Some i)
      then show ?thesis using walk_same [OF w j Some] by (simp add: fs_map_def k n entry_of_def)
    qed
  qed
qed

text \<open>A call on the node of a path.\<close>

lemma node_sim:
  assumes w: "ram_wf s"
    and k: "\<And>loc j s'. ram_wf s' \<Longrightarrow> fs_map s' = fs_map s \<Longrightarrow> node_walk s' 0 loc = Some j \<Longrightarrow> sim (g loc (fs_map s)) (f (Ram j) s')"
  shows "sim (spec_node path g (fs_map s)) (vthen (vn_lookup (ram_ops P O') (Ram 0) path) f s)"
proof (cases "spec_resolve (fs_map s) [] (split_slash path)")
  case (Inl e)
  have "ram_lookup O' 0 path s = Ret (Err e, s)" using lookup_refines [OF w, of "[]" 0 path O'] Inl by (simp add: lookup_as_def)
  then show ?thesis using w Inl by (simp add: spec_node_def vthen_def ram_ops_def sim_def)
next
  case (Inr loc)
  then obtain j where j: "node_walk s 0 loc = Some j" "ram_lookup O' 0 path s = Ret (Ok (Ram j), vref_clone (Ram j) s)"
    using lookup_refines [OF w, of "[]" 0 path O'] by (auto simp: lookup_as_def)
  have jl: "j < length (rs_nodes s)" using walk_valid [OF w j(1)] by simp
  have "sim (g loc (fs_map s)) (f (Ram j) (vref_clone (Ram j) s))"
    using clone_tree [OF w jl] j(1) by (intro k) simp_all
  then show ?thesis using Inr j(2) by (simp add: spec_node_def vthen_def ram_ops_def)
qed

lemma attr_sim:
  assumes "ram_wf s" "node_walk s 0 loc = Some j"
  shows "sim (spec_attr P loc (fs_map s)) (ram_get_attr P j s)"
  using assms fs_map_walk [OF assms(2)] by (cases "ram_node j s") (simp_all add: spec_attr_def ram_get_attr_def entry_of_def sim_def)

lemma file_sim:
  assumes w: "ram_wf s" and j: "node_walk s 0 loc = Some j"
  shows "sim (spec_file f loc (fs_map s)) (on_file j f s)"
proof (cases "ram_node j s")
  case (DirNode p ch)
  then show ?thesis using w fs_map_walk [OF j] by (simp add: spec_file_def on_file_def entry_of_def sim_def)
next
  case (FileNode c)
  then have "spec_file f loc (fs_map s) = out_then (f c) (\<lambda>(r, c). Ret (Ok r, (fs_map s)(loc \<mapsto> AFile c)))"
    using fs_map_walk [OF j] by (simp add: spec_file_def entry_of_def)
  moreover have "on_file j f s = out_then (f c) (\<lambda>(r, content). Ret (Ok r, set_node j (FileNode content) s))" using FileNode by (simp add: on_file_def)
  ultimately show ?thesis using file_set_tree [OF w j FileNode] by (cases "f c") (auto simp: sim_def)
qed

lemma node_file_sim:
  fixes s :: "('x, 'o) RamState"
  assumes w: "ram_wf s" and f: "\<And>j. f (Ram j) = on_file j g"
  shows "sim (spec_node path (spec_file g) (fs_map s)) (vthen (vn_lookup (ram_ops P O') (Ram 0) path) f s)"
proof (rule node_sim [OF w])
  fix loc j and s' :: "('x, 'o) RamState"
  assume a: "ram_wf s'" "fs_map s' = fs_map s" "node_walk s' 0 loc = Some j"
  show "sim (spec_file g loc (fs_map s)) (f (Ram j) s')" using file_sim [OF a(1,3), of g] unfolding f a(2) .
qed

lemma op_sim:
  fixes s :: "('x, 'o) RamState"
  assumes w: "ram_wf s"
  shows "sim (spec_op P x (fs_map s)) (do_op (ram_ops P O') x s)"
proof (cases x)
  case (OpGetAttr path)
  have "vn_get_attr (ram_ops P O') (Ram j) = ram_get_attr P j" for j by (simp add: ram_ops_def)
  then show ?thesis unfolding OpGetAttr do_op.simps spec_op.simps by (intro sim_reply node_sim [OF w]) (metis attr_sim)
next
  case (OpCreate path ty)
  have "vn_create (ram_ops P O') (Ram 0) path ty s = ram_create O' 0 path ty s" by (simp add: ram_ops_def)
  then show ?thesis unfolding OpCreate do_op.simps spec_op.simps
    using create_refines [OF w, of "[]" 0 ty path O'] by (intro sim_reply) (simp add: at_as_sim)
next
  case (OpRemove path)
  have "vn_remove (ram_ops P O') (Ram 0) path s = ram_remove O' 0 path s" by (simp add: ram_ops_def)
  then show ?thesis unfolding OpRemove do_op.simps spec_op.simps
    using remove_refines [OF w, of "[]" 0 path O'] by (intro sim_reply) (simp add: at_as_sim)
next
  case (OpReadAt path offset buf)
  show ?thesis unfolding OpReadAt do_op.simps spec_op.simps by (intro sim_reply node_file_sim [OF w]) (simp add: ram_ops_def)
next
  case (OpWriteAt path offset buf)
  show ?thesis unfolding OpWriteAt do_op.simps spec_op.simps by (intro sim_reply node_file_sim [OF w]) (simp add: ram_ops_def)
next
  case (OpTruncate path sz)
  show ?thesis unfolding OpTruncate do_op.simps spec_op.simps by (intro sim_reply node_file_sim [OF w]) (simp add: ram_ops_def)
qed

lemma run_sim:
  fixes s :: "('x, 'o) RamState"
  assumes "ram_wf s"
  shows "sim (run_ops (\<lambda>A x. spec_op P x A) xs (fs_map s)) (run_ops (\<lambda>s x. do_op (ram_ops P O') x s) xs s)"
  using assms
proof (induction xs arbitrary: s)
  case (Cons x xs)
  note one = op_sim [OF Cons.prems, of P x O']
  show ?case
  proof (cases "spec_op P x (fs_map s)")
    case Panic
    then show ?thesis using one by (simp add: sim_def)
  next
    case (Ret rA)
    then obtain r A s' where a: "rA = (r, A)" "do_op (ram_ops P O') x s = Ret (r, s')" "ram_wf s'" "fs_map s' = A"
      using one by (cases rA) (auto simp: sim_def)
    show ?thesis using Cons.IH [OF a(3)] Ret a
      by (cases "run_ops (\<lambda>A x. spec_op P x A) xs A") (auto simp: sim_def)
  qed
qed (simp add: sim_def)

lemma new_wf: "ram_wf (ram_fs_new out)" "fs_map (ram_fs_new out) = [[] \<mapsto> ADir]"
proof -
  have c: "dir_children 0 (ram_fs_new out) = []" by (simp add: dir_children_def ram_node_def ram_fs_new_def dir_new_def)
  show "ram_wf (ram_fs_new out)"
    by (rule ram_wfI) (simp_all add: ram_fs_new_def node_alive_def ram_node_def dir_new_def dir_children_def)
  show "fs_map (ram_fs_new out) = [[] \<mapsto> ADir]"
  proof
    fix p :: "string list"
    show "fs_map (ram_fs_new out) p = [[] \<mapsto> ADir] p"
    proof (cases p)
      case Nil
      then show ?thesis by (simp add: fs_map_def entry_of_def ram_node_def ram_fs_new_def dir_new_def)
    qed (simp add: fs_map_def c)
  qed
qed


end
