(* ===== verification/AxFsApi.thy ===== *)
theory AxFsApi
  imports AxFsFops AxioBuf RamFsRuns
begin

text \<open>
  Model of the interface of the module \<open>axfs\<close> (src/modules/axfs/src/api: mod.rs, file.rs, dir.rs), on top of the open files and directories of
  \<open>fops\<close> and the readers and writers of \<open>axio\<close>. A call that owns its file drops it at the end. Reading to the end of a file may go on
  forever (a device that always gives bytes), so such a call is partial.
\<close>

section \<open>Files\<close>

definition api_file_open :: "Cap bitflags \<Rightarrow> VfsNodePerm bitflags \<Rightarrow> ('n, 's) VfsNodeOps \<Rightarrow> ('n, 's) RootDirectory \<Rightarrow> string \<Rightarrow> (('n, 's) FsState, 'n fsnode File) vfs" where
  "api_file_open C P N R path = file_open C P N R path (set_read True open_options_new)"

definition api_file_create :: "Cap bitflags \<Rightarrow> VfsNodePerm bitflags \<Rightarrow> ('n, 's) VfsNodeOps \<Rightarrow> ('n, 's) RootDirectory \<Rightarrow> string \<Rightarrow> (('n, 's) FsState, 'n fsnode File) vfs" where
  "api_file_create C P N R path = file_open C P N R path (set_truncate True (set_create True (set_write True open_options_new)))"

definition api_file_create_new :: "Cap bitflags \<Rightarrow> VfsNodePerm bitflags \<Rightarrow> ('n, 's) VfsNodeOps \<Rightarrow> ('n, 's) RootDirectory \<Rightarrow> string \<Rightarrow> (('n, 's) FsState, 'n fsnode File) vfs" where
  "api_file_create_new C P N R path = file_open C P N R path (set_create_new True (set_write True (set_read True open_options_new)))"

text \<open>A call that opens a file, uses it and drops it.\<close>

definition drop_file :: "('n fsnode, 's) VfsNodeOps \<Rightarrow> ('n, 's) FsState \<Rightarrow> ('r \<times> ('n fsnode File \<times> 's)) outcome \<Rightarrow> ('r \<times> ('n, 's) FsState) outcome" where
  "drop_file M st m = out_then m (\<lambda>(r, (f, s)). out_then (file_drop M f s) (\<lambda>s. Ret (r, st\<lparr>fs_world := s\<rparr>)))"

definition with_file :: "('n fsnode, 's) VfsNodeOps \<Rightarrow> ('n fsnode File AxResult \<times> ('n, 's) FsState) outcome \<Rightarrow>
    ('n fsnode File \<times> 's \<Rightarrow> ('a AxResult \<times> ('n fsnode File \<times> 's)) outcome option) \<Rightarrow> ('a AxResult \<times> ('n, 's) FsState) outcome option" where
  "with_file M opened f =
     (case opened of
        Panic \<Rightarrow> Some Panic
      | Ret (Inl e, st) \<Rightarrow> Some (Ret (Err e, st))
      | Ret (Inr file, st) \<Rightarrow> map_option (drop_file M st) (f (file, fs_world st)))"

text \<open>\<open>Vec::with_capacity\<close> panics above \<open>isize::MAX\<close>; the capacity that the metadata gives is a hint otherwise.\<close>

definition with_capacity :: "Cap bitflags \<Rightarrow> ('n, 's) VfsNodeOps \<Rightarrow> 'n File \<times> 's \<Rightarrow> ('n File \<times> 's) outcome" where
  "with_capacity C M fs =
     out_then (file_get_attr C M fs) (\<lambda>(r, fs).
       let sz = (case r of Inl e \<Rightarrow> 0 | Inr attr \<Rightarrow> attr_size attr)
       in if unat sz \<ge> 2 ^ 63 then Panic else Ret fs)"

definition read_whole :: "('r \<Rightarrow> ((nat AxResult \<times> u8 list) \<times> 'r) outcome option) \<Rightarrow> 'r outcome \<Rightarrow> (u8 list AxResult \<times> 'r) outcome option" where
  "read_whole rd fs =
     (case fs of
        Panic \<Rightarrow> Some Panic
      | Ret fs \<Rightarrow>
          map_option (\<lambda>x. out_then x (\<lambda>((res, bytes), fs). Ret (case res of Inl e \<Rightarrow> Err e | Inr n \<Rightarrow> Ok bytes, fs))) (rd fs))"

definition api_read :: "Cap bitflags \<Rightarrow> VfsNodePerm bitflags \<Rightarrow> ('n, 's) VfsNodeOps \<Rightarrow> ('n, 's) RootDirectory \<Rightarrow> string \<Rightarrow> ('n, 's) FsState \<Rightarrow>
    (u8 list AxResult \<times> ('n, 's) FsState) outcome option" where
  "api_read C P N R path st =
     (let M = node_ops N R
      in with_file M (api_file_open C P N R path st) (\<lambda>fs. read_whole (read_to_end (file_read C M) []) (with_capacity C M fs)))"

definition api_read_to_string :: "Cap bitflags \<Rightarrow> VfsNodePerm bitflags \<Rightarrow> ('n, 's) VfsNodeOps \<Rightarrow> ('n, 's) RootDirectory \<Rightarrow> string \<Rightarrow> ('n, 's) FsState \<Rightarrow>
    (u8 list AxResult \<times> ('n, 's) FsState) outcome option" where
  "api_read_to_string C P N R path st =
     (let M = node_ops N R
      in with_file M (api_file_open C P N R path st) (\<lambda>fs. read_whole (read_to_string (file_read C M) []) (with_capacity C M fs)))"

definition api_write :: "Cap bitflags \<Rightarrow> VfsNodePerm bitflags \<Rightarrow> ('n, 's) VfsNodeOps \<Rightarrow> ('n, 's) RootDirectory \<Rightarrow> string \<Rightarrow> u8 list \<Rightarrow> (('n, 's) FsState, unit) vfs" where
  "api_write C P N R path contents =
     vthen (api_file_create C P N R path) (\<lambda>file st.
       drop_file (node_ops N R) st (write_all (file_write C (node_ops N R)) contents (file, fs_world st)))"

definition api_metadata :: "Cap bitflags \<Rightarrow> VfsNodePerm bitflags \<Rightarrow> ('n, 's) VfsNodeOps \<Rightarrow> ('n, 's) RootDirectory \<Rightarrow> string \<Rightarrow> (('n, 's) FsState, VfsNodeAttr) vfs" where
  "api_metadata C P N R path =
     vthen (api_file_open C P N R path) (\<lambda>file st. drop_file (node_ops N R) st (file_get_attr C (node_ops N R) (file, fs_world st)))"

section \<open>Directories\<close>

record 'n ReadDir =
  rdir_path :: string
  rdir_inner :: "'n Directory"
  buf_pos :: nat
  buf_end :: nat
  end_of_stream :: bool
  dirent_buf :: "VfsDirEntry list"

record DirEntry =
  de_dir_path :: string
  entry_name :: string
  de_entry_type :: VfsNodeType

definition read_dir_new :: "Cap bitflags \<Rightarrow> VfsNodePerm bitflags \<Rightarrow> ('n, 's) VfsNodeOps \<Rightarrow> ('n, 's) RootDirectory \<Rightarrow> string \<Rightarrow> (('n, 's) FsState, 'n fsnode ReadDir) vfs" where
  "read_dir_new C P N R path =
     vthen (open_dir C P N R path (set_read True open_options_new)) (\<lambda>inner.
       vret \<lparr>rdir_path = path, rdir_inner = inner, buf_pos = 0, buf_end = 0, end_of_stream = False, dirent_buf = replicate 31 dirent_default\<rparr>)"

text \<open>\<open>ReadDir::next\<close>: the entry at the position of the buffer, which panics out of range; the directory is asked for more entries when the buffer is used up.\<close>

definition next_entry :: "'n ReadDir \<Rightarrow> (VfsDirEntry \<times> 'n ReadDir) outcome" where
  "next_entry self =
     (if buf_pos self < length (dirent_buf self) then Ret (dirent_buf self ! buf_pos self, self\<lparr>buf_pos := buf_pos self + 1\<rparr>) else Panic)"

definition refill :: "Cap bitflags \<Rightarrow> ('n, 's) VfsNodeOps \<Rightarrow> 'n ReadDir \<Rightarrow> 's \<Rightarrow> (nat AxResult \<times> ('n ReadDir \<times> 's)) outcome" where
  "refill C M self s =
     out_then (directory_read_dir C M (dirent_buf self) (rdir_inner self, s)) (\<lambda>(r, (inner, s)).
       case r of
         Inr (n, dirents) \<Rightarrow> Ret (Ok n, (self\<lparr>rdir_inner := inner, dirent_buf := dirents\<rparr>, s))
       | Inl e \<Rightarrow> Ret (Err e, (self\<lparr>rdir_inner := inner\<rparr>, s)))"

partial_function (option) read_dir_next_loop :: "Cap bitflags \<Rightarrow> ('n, 's) VfsNodeOps \<Rightarrow> 'n ReadDir \<Rightarrow> 's \<Rightarrow> (DirEntry AxResult option \<times> ('n ReadDir \<times> 's)) outcome option" where
  "read_dir_next_loop C M self s =
     (case (if buf_pos self \<ge> buf_end self
            then out_then (refill C M self s) (\<lambda>(r, (self, s)).
                case r of
                  Inr n \<Rightarrow> if n = 0 then Ret (Some None, (self\<lparr>end_of_stream := True\<rparr>, s)) else Ret (None, (self\<lparr>buf_pos := 0, buf_end := n\<rparr>, s))
                | Inl e \<Rightarrow> Ret (Some (Some (Err e)), (self\<lparr>end_of_stream := True\<rparr>, s)))
            else Ret (None, (self, s))) of
        Panic \<Rightarrow> Some Panic
      | Ret (Some res, st) \<Rightarrow> Some (Ret (res, st))
      | Ret (None, (self, s)) \<Rightarrow>
          (case next_entry self of
             Panic \<Rightarrow> Some Panic
           | Ret (entry, self) \<Rightarrow>
               let name_bytes = name_as_bytes entry
               in if name_bytes = ''.'' \<or> name_bytes = ''..'' then read_dir_next_loop C M self s
                  else Some (Ret (Some (Ok \<lparr>de_dir_path = rdir_path self, entry_name = name_bytes, de_entry_type = d_type entry\<rparr>), (self, s)))))"

definition read_dir_next :: "Cap bitflags \<Rightarrow> ('n, 's) VfsNodeOps \<Rightarrow> 'n ReadDir \<Rightarrow> 's \<Rightarrow> (DirEntry AxResult option \<times> ('n ReadDir \<times> 's)) outcome option" where
  "read_dir_next C M self s = (if end_of_stream self then Some (Ret (None, (self, s))) else read_dir_next_loop C M self s)"

definition dir_entry_path :: "DirEntry \<Rightarrow> string" where
  "dir_entry_path self = rev (dropWhile (\<lambda>c. c = SLASH) (rev (de_dir_path self))) @ ''/'' @ entry_name self"

definition dir_builder_create :: "bool \<Rightarrow> ('n, 's) VfsNodeOps \<Rightarrow> ('n, 's) RootDirectory \<Rightarrow> string \<Rightarrow> (('n, 's) FsState, unit) vfs" where
  "dir_builder_create recursive N R path = (if recursive then verr Unsupported else create_dir N R None path)"

end
