(* ===== verification/AxFsRam.thy ===== *)
theory AxFsRam
  imports AxFsApi
begin

text \<open>
  The module \<open>axfs\<close> over the file system in memory: the calls on paths, open files and the interface of the module, together with
  \<open>axfs_ramfs\<close>, against the map from paths to entries.
\<close>

section \<open>Paths of the main file system\<close>

definition perm_all :: VfsNodePerm where
  "perm_all = 0x1FF"

text \<open>The path leads from the root to the main file system, where it is \<open>p\<close>.\<close>

definition main_path :: "('n, 's) RootDirectory \<Rightarrow> string \<Rightarrow> string \<Rightarrow> bool" where
  "main_path R path p \<longleftrightarrow> starts_with path ''/'' \<and> \<not> ends_with path ''/'' \<and> trim_slashes path = p \<and> \<not> starts_with p ''./'' \<and>
     (\<forall>mp \<in> set (rd_mounts R). \<not> starts_with p (drop 1 (mp_path mp)))"

lemma match_none:
  "\<forall>mp \<in> set mps. \<not> starts_with p (drop 1 (mp_path mp)) \<Longrightarrow> match_mounts p mps i (idx, k) = (idx, k)"
  by (induction mps arbitrary: i) auto

lemma lookup_main: "main_path R path p \<Longrightarrow> lookup_mounted_fs R path f = f (rd_main_fs R) p"
  by (simp add: main_path_def lookup_mounted_fs.simps [of R path] Let_def match_none)

lemma main_path_ne: "main_path R path p \<Longrightarrow> path \<noteq> []"
  by (auto simp: main_path_def starts_with_def)

text \<open>The last component \<open>name\<close> of the path is in the directory \<open>d\<close>.\<close>

definition names :: "fsmap \<Rightarrow> string \<Rightarrow> string list \<Rightarrow> string \<Rightarrow> bool" where
  "names A p d name \<longleftrightarrow> spec_resolve A [] (butlast (split_slash p)) = Ok d \<and> A d = Some ADir \<and> last (split_slash p) = name \<and>
     name \<noteq> [] \<and> name \<noteq> ''.'' \<and> name \<noteq> ''..''"

lemma spec_resolve_append:
  "spec_resolve A loc (xs @ ys) = (case spec_resolve A loc xs of Inl e \<Rightarrow> Err e | Inr l \<Rightarrow> spec_resolve A l ys)"
proof (induction xs arbitrary: loc)
  case (Cons c xs)
  show ?case unfolding append_Cons spec_resolve.simps using Cons.IH by (auto split del: if_split split: if_splits)
qed simp

lemma names_resolve:
  assumes "names A p d name"
  shows "spec_resolve A [] (split_slash p) = (if A (d @ [name]) = None then Err NotFound else Ok (d @ [name]))"
proof -
  have "split_slash p = butlast (split_slash p) @ [name]" using assms by (metis append_butlast_last_id names_def split_slash_ne)
  then show ?thesis using assms spec_resolve_append [of A "[]" "butlast (split_slash p)" "[name]"] by (simp add: names_def)
qed

lemma names_create:
  assumes "names A p d name"
  shows "spec_at (spec_create File) [] (split_slash p) A =
      (if A (d @ [name]) = None then (Ok (), A(d @ [name] \<mapsto> AFile [])) else (Err AlreadyExists, A))"
  using assms by (simp add: names_def spec_at_def spec_create_def)

lemma names_ne: "names A p d name \<Longrightarrow> p \<noteq> []"
  by (auto simp: names_def)

text \<open>A file that is written does not change where the directories are.\<close>

lemma resolve_upd:
  assumes f: "A f \<noteq> Some ADir" and l: "A l = Some ADir"
  shows "spec_resolve A loc xs = Ok l \<Longrightarrow> spec_resolve (A(f \<mapsto> AFile c)) loc xs = Ok l"
proof (induction xs arbitrary: loc)
  case (Cons x xs)
  have d: "A loc = Some ADir" using Cons.prems by (auto split: if_splits)
  then have d': "(A(f \<mapsto> AFile c)) loc = Some ADir" using f by auto
  consider (self) "x = [] \<or> x = ''.''" | (up) "x = ''..''" | (down) "x \<noteq> []" "x \<noteq> ''.''" "x \<noteq> ''..''" by blast
  then show ?case
  proof cases
    case self
    then have "spec_resolve A loc xs = Ok l" using Cons.prems d by auto
    then show ?thesis using Cons.IH self d' by auto
  next
    case up
    then have "loc \<noteq> []" "spec_resolve A (butlast loc) xs = Ok l" using Cons.prems d by (auto split: if_splits)
    then show ?thesis using Cons.IH up d' by auto
  next
    case down
    then have n: "A (loc @ [x]) \<noteq> None" "spec_resolve A (loc @ [x]) xs = Ok l" using Cons.prems d by (auto split: if_splits)
    then have "(A(f \<mapsto> AFile c)) (loc @ [x]) \<noteq> None" by auto
    then show ?thesis using Cons.IH [OF n(2)] down d' by simp
  qed
qed simp

lemma names_upd:
  assumes n: "names A p d name" and f: "A (d @ [name]) \<noteq> Some ADir"
  shows "names (A(d @ [name] \<mapsto> AFile c)) p d name"
  using n resolve_upd [where A = A and f = "d @ [name]" and l = d and loc = "[]" and c = c, OF f] by (simp add: names_def)

section \<open>Opening a file\<close>

lemma perm_default:
  assumes "bitflags_ok perm_all P"
  shows "owner_readable P (default_file P)" "owner_writable P (default_file P)"
  using assms by (simp_all add: bitflags_ok_def owner_readable_def owner_writable_def default_file_def OWNER_READ_def OWNER_WRITE_def perm_all_def)

lemma default_grants:
  assumes C: "bitflags_ok cap_all C" and P: "bitflags_ok perm_all P"
  shows "bf_contains C (perm_to_cap C P (default_file P)) (cap_from_opts C opts)"
proof -
  have "perm_to_cap C P (default_file P) AND CAP_READ = CAP_READ" "perm_to_cap C P (default_file P) AND CAP_WRITE = CAP_WRITE"
    by (cases "owner_executable P (default_file P)"; simp add: perm_to_cap_def perm_default [OF P] cap_bits [OF C] cap_empty_def CAP_READ_def CAP_WRITE_def
        CAP_EXECUTE_def)+
  then show ?thesis unfolding cap_from_opts_bits [OF C] using C by (auto simp: bitflags_ok_def bit.conj_disj_distrib)
qed

lemma st_world [simp]: "st\<lparr>fs_world := fs_world st\<rparr> = st"
  by simp

lemma lookup_ram:
  fixes st :: "('x vref, ('x, 'o) RamState) FsState" and R :: "('x vref, ('x, 'o) RamState) RootDirectory"
  assumes w: "ram_wf (fs_world st)" and m: "main_path R path p" and r: "fs_root_dir (rd_main_fs R) = Ram 0"
  shows "spec_resolve (fs_map (fs_world st)) [] (split_slash p) = Err e \<Longrightarrow> lookup (ram_ops P O') R dir path st = Ret (Err e, st)"
    "spec_resolve (fs_map (fs_world st)) [] (split_slash p) = Ok loc \<Longrightarrow>
      \<exists>j. node_walk (fs_world st) 0 loc = Some j \<and> lookup (ram_ops P O') R dir path st = Ret (Ok (Node (Ram j)), st\<lparr>fs_world := vref_clone (Ram j) (fs_world st)\<rparr>)"
proof -
  have pn: "parent_node_of dir path st = RootDir" "path \<noteq> []" "\<not> ends_with path ''/''" using m main_path_ne [OF m] by (simp_all add: parent_node_of_def main_path_def)
  have v: "vn_lookup (node_ops (ram_ops P O') R) RootDir path = vmap Node (ram_lookup O' 0 p)"
    by (simp add: node_ops_def Let_def root_ops_def root_lookup_def lookup_main [OF m] r ram_ops_def)
  have L: "lookup (ram_ops P O') R dir path st = out_then (vmap Node (ram_lookup O' 0 p) (fs_world st)) (\<lambda>(x, s). Ret (x, st\<lparr>fs_world := s\<rparr>))"
    using pn by (cases "vmap Node (ram_lookup O' 0 p) (fs_world st)") (auto simp: lookup_def v vthen_def on_world_def split: sum.splits)
  note l = lookup_refines [OF w, of "[]" 0 p O', simplified]
  show "lookup (ram_ops P O') R dir path st = Ret (Err e, st)" if "spec_resolve (fs_map (fs_world st)) [] (split_slash p) = Err e"
    using l that by (simp add: L lookup_as_def vmap_def vthen_def)
  show "\<exists>j. node_walk (fs_world st) 0 loc = Some j \<and> lookup (ram_ops P O') R dir path st = Ret (Ok (Node (Ram j)), st\<lparr>fs_world := vref_clone (Ram j) (fs_world st)\<rparr>)"
    if "spec_resolve (fs_map (fs_world st)) [] (split_slash p) = Ok loc"
    using l that by (auto simp: L lookup_as_def vmap_def vthen_def)
qed

definition opened :: "Cap bitflags \<Rightarrow> OpenOptions \<Rightarrow> nat \<Rightarrow> 'x vref fsnode File" where
  "opened C opts j = \<lparr>fl_node = with_cap_new (Node (Ram j)) (cap_from_opts C opts), is_append = opt_append opts, offset = 0\<rparr>"

lemma open_node_ram:
  assumes C: "bitflags_ok cap_all C" and P: "bitflags_ok perm_all P" and c: "ram_node j (fs_world st) = FileNode c"
  shows "file_open_node C P (ram_ops P O') R opts (Node (Ram j)) st =
    Ret (Ok (opened C opts j), st\<lparr>fs_world := (if opt_truncate opts then set_node j (FileNode []) (fs_world st) else fs_world st)\<rparr>)"
proof -
  let ?M = "node_ops (ram_ops P O') R"
  have attr: "vn_get_attr ?M (Node (Ram j)) (fs_world st) = Ret (Ok (attr_new_file P (of_nat (length c)) 0), fs_world st)"
    using c by (simp add: node_ops_def Let_def ram_ops_def ram_get_attr_def)
  have op: "vn_open ?M (Node (Ram j)) s = Ret (Ok (), s)" for s by (simp add: node_ops_def Let_def ram_ops_def)
  have tr: "vn_truncate ?M (Node (Ram j)) 0 (fs_world st) = Ret (Ok (), set_node j (FileNode []) (fs_world st))"
    using c by (simp add: node_ops_def Let_def ram_ops_def on_file_def file_truncate_def vec_resize_def)
  show ?thesis using default_grants [OF C P, of opts]
    by (simp add: file_open_node_def vthen_def on_world_def attr op tr attr_is_dir_def attr_new_file_def opened_def Let_def)
qed

lemma open_existing:
  fixes st :: "('x vref, ('x, 'o) RamState) FsState"
  assumes C: "bitflags_ok cap_all C" and P: "bitflags_ok perm_all P" and w: "ram_wf (fs_world st)" and m: "main_path R path p"
    and r: "fs_root_dir (rd_main_fs R) = Ram 0" and n: "names (fs_map (fs_world st)) p d name"
    and f: "fs_map (fs_world st) (d @ [name]) = Some (AFile c)" and o: "is_valid opts" "\<not> opt_create_new opts"
  shows "\<exists>j s. file_open C P (ram_ops P O') R path opts st = Ret (Ok (opened C opts j), st\<lparr>fs_world := s\<rparr>) \<and> ram_wf s \<and>
      node_walk s 0 (d @ [name]) = Some j \<and> ram_node j s = FileNode (if opt_truncate opts then [] else c) \<and>
      fs_map s = (fs_map (fs_world st))(d @ [name] \<mapsto> AFile (if opt_truncate opts then [] else c))"
proof -
  have "spec_resolve (fs_map (fs_world st)) [] (split_slash p) = Ok (d @ [name])" using names_resolve [OF n] f by simp
  then obtain j where j: "node_walk (fs_world st) 0 (d @ [name]) = Some j"
      "lookup (ram_ops P O') R None path st = Ret (Ok (Node (Ram j)), st\<lparr>fs_world := vref_clone (Ram j) (fs_world st)\<rparr>)"
    using lookup_ram(2) [OF w m r] by blast
  let ?s = "vref_clone (Ram j) (fs_world st)"
  have jl: "j < length (rs_nodes (fs_world st))" using walk_valid [OF w j(1)] by simp
  note t = clone_tree [OF w jl]
  have "ram_node j (fs_world st) = FileNode c" using f fs_map_walk [OF j(1)] by (auto simp: entry_of_def split: node.splits)
  then have c: "ram_node j ?s = FileNode c" using t(3) by simp
  have op: "file_open C P (ram_ops P O') R path opts st =
      Ret (Ok (opened C opts j), st\<lparr>fs_world := (if opt_truncate opts then set_node j (FileNode []) ?s else ?s)\<rparr>)"
    using open_node_ram [OF C P, of j "st\<lparr>fs_world := ?s\<rparr>" c] c o j(2) by (simp add: file_open_def file_open_at_def vthen_def)
  have k: "node_walk ?s 0 (d @ [name]) = Some j" using t(1) j(1) by simp
  show ?thesis
  proof (cases "opt_truncate opts")
    case True
    then show ?thesis using op t(4) k file_set_tree [OF t(2) k c, of "[]"]
      by (intro exI [of _ j] exI [of _ "set_node j (FileNode []) ?s"]) simp
  next
    case False
    then show ?thesis using op t(2,4) k c f by (intro exI [of _ j] exI [of _ ?s]) (simp add: fun_upd_idem)
  qed
qed

lemma open_create:
  fixes st :: "('x vref, ('x, 'o) RamState) FsState"
  assumes C: "bitflags_ok cap_all C" and P: "bitflags_ok perm_all P" and w: "ram_wf (fs_world st)" and m: "main_path R path p"
    and r: "fs_root_dir (rd_main_fs R) = Ram 0" and n: "names (fs_map (fs_world st)) p d name"
    and f: "fs_map (fs_world st) (d @ [name]) = None" and o: "is_valid opts" "opt_create opts \<or> opt_create_new opts"
  shows "\<exists>j s. file_open C P (ram_ops P O') R path opts st = Ret (Ok (opened C opts j), st\<lparr>fs_world := s\<rparr>) \<and> ram_wf s \<and>
      node_walk s 0 (d @ [name]) = Some j \<and> ram_node j s = FileNode [] \<and> fs_map s = (fs_map (fs_world st))(d @ [name] \<mapsto> AFile [])"
proof -
  let ?N = "ram_ops P O'"
  have "spec_resolve (fs_map (fs_world st)) [] (split_slash p) = Err NotFound" using names_resolve [OF n] f by simp
  then have l: "lookup ?N R None path st = Ret (Err NotFound, st)" by (rule lookup_ram(1) [OF w m r])
  obtain s1 where s1: "ram_create O' 0 p File (fs_world st) = Ret (Ok (), s1)" "ram_wf s1" "fs_map s1 = (fs_map (fs_world st))(d @ [name] \<mapsto> AFile [])"
    using create_refines [OF w, of "[]" 0 File p O'] names_create [OF n] f by (auto simp: at_as_def)
  have n1: "names (fs_map s1) p d name" unfolding s1(3) by (rule names_upd [OF n]) (simp add: f)
  have "spec_resolve (fs_map s1) [] (split_slash p) = Ok (d @ [name])" using names_resolve [OF n1] s1(3) by simp
  then obtain j where j: "node_walk s1 0 (d @ [name]) = Some j" "ram_lookup O' 0 p s1 = Ret (Ok (Ram j), vref_clone (Ram j) s1)"
    using lookup_refines [OF s1(2), of "[]" 0 p O'] by (auto simp: lookup_as_def)
  let ?s = "vref_clone (Ram j) s1"
  have pn: "parent_node_of None path st = RootDir" "path \<noteq> []" "\<not> ends_with path ''/''" using m main_path_ne [OF m] by (simp_all add: parent_node_of_def main_path_def)
  have v: "vn_lookup (node_ops ?N R) RootDir path = vmap Node (ram_lookup O' 0 p)" "vn_create (node_ops ?N R) RootDir path File = ram_create O' 0 p File"
    using names_ne [OF n] by (simp_all add: node_ops_def Let_def root_ops_def root_lookup_def root_create_def lookup_main [OF m] r ram_ops_def)
  have cr: "create_file ?N R None path st = Ret (Ok (Node (Ram j)), st\<lparr>fs_world := ?s\<rparr>)"
    using pn s1(1) j(2) by (simp add: create_file_def v Let_def vthen_def on_world_def vmap_def)
  have jl: "j < length (rs_nodes s1)" using walk_valid [OF s1(2) j(1)] by simp
  note t = clone_tree [OF s1(2) jl]
  have k: "node_walk ?s 0 (d @ [name]) = Some j" using t(1) j(1) by simp
  have "ram_node j s1 = FileNode []" using s1(3) fs_map_walk [OF j(1)] by (auto simp: entry_of_def split: node.splits)
  then have c: "ram_node j ?s = FileNode []" using t(3) by simp
  have op: "file_open C P ?N R path opts st = Ret (Ok (opened C opts j), st\<lparr>fs_world := (if opt_truncate opts then set_node j (FileNode []) ?s else ?s)\<rparr>)"
    using open_node_ram [OF C P, of j "st\<lparr>fs_world := ?s\<rparr>" "[]"] c o l cr by (auto simp: file_open_def file_open_at_def vthen_def)
  show ?thesis
  proof (cases "opt_truncate opts")
    case True
    then show ?thesis using op t(4) k s1(3) file_set_tree [OF t(2) k c, of "[]"]
      by (intro exI [of _ j] exI [of _ "set_node j (FileNode []) ?s"]) simp
  next
    case False
    then show ?thesis using op t(2,4) k c s1(3) by (intro exI [of _ j] exI [of _ ?s]) simp
  qed
qed

section \<open>Reading and writing\<close>

lemma set_node_same: "i < length (rs_nodes s) \<Longrightarrow> ram_node i s = n \<Longrightarrow> set_node i n s = s"
  by (auto simp: set_node_def ram_node_def)

text \<open>An open file of the file system in memory is a source of the bytes from its offset on.\<close>

definition file_ok :: "Cap bitflags \<Rightarrow> nat \<Rightarrow> u8 list \<Rightarrow> ('x, 'o) RamState \<Rightarrow> 'x vref fsnode File \<times> ('x, 'o) RamState \<Rightarrow> bool" where
  "file_ok C i c s0 fs \<longleftrightarrow> snd fs = s0 \<and> wc_inner (fl_node (fst fs)) = Node (Ram i) \<and> can_access C CAP_READ (fl_node (fst fs)) \<and>
     ram_node i s0 = FileNode c \<and> i < length (rs_nodes s0) \<and> length c < 2 ^ 63 \<and> unat (offset (fst fs)) \<le> length c"

definition file_rest :: "u8 list \<Rightarrow> 'x vref fsnode File \<times> ('x, 'o) RamState \<Rightarrow> u8 list" where
  "file_rest c fs = drop (unat (offset (fst fs))) c"

lemma file_read_ram:
  assumes "file_ok C i c s0 (f, s0)" "length buf < 2 ^ 63"
  defines "n \<equiv> min (length buf) (length c - unat (offset f))"
  shows "file_read C (node_ops (ram_ops P O') R) buf (f, s0) =
    Ret (Ok (n, take n (drop (unat (offset f)) c) @ drop n buf), (f\<lparr>offset := offset f + of_nat n\<rparr>, s0))"
    "unat (offset f + of_nat n) = unat (offset f) + n"
proof -
  let ?o = "unat (offset f)"
  have a: "?o \<le> length c" "length c < 2 ^ 63" using assms(1) by (simp_all add: file_ok_def)
  have small: "?o + k < 2 ^ 64" if "k < 2 ^ 63" for k using a that by simp
  have u: "unat (offset f + of_nat k) = ?o + k" if "k < 2 ^ 63" for k
    using small [OF that] that by (simp add: unat_word_ariths unat_of_nat take_bit_eq_mod)
  show "unat (offset f + of_nat n) = ?o + n" using assms(2) by (intro u) (simp add: n_def)
  have "file_read_at (offset f) buf c = Ret (n, take n (drop ?o c) @ drop n buf)"
    using a u [OF assms(2)] by (auto simp: file_read_at_def Let_def n_def min_def)
  then show "file_read C (node_ops (ram_ops P O') R) buf (f, s0) =
    Ret (Ok (n, take n (drop ?o c) @ drop n buf), (f\<lparr>offset := offset f + of_nat n\<rparr>, s0))"
    using assms(1) by (simp add: file_read_def file_ok_def vthen_def on_obj_def acc_simps node_ops_def Let_def ram_ops_def on_file_def set_node_same)
qed

lemma ram_file_stream: "stream_reader (file_read C (node_ops (ram_ops P O') R)) (file_rest c) (file_ok C i c s0)"
proof
  fix fs :: "'a vref fsnode File \<times> ('a, 'b) RamState" and buf :: "u8 list"
  assume ok: "file_ok C i c s0 fs" and b: "length buf < 2 ^ 63"
  obtain f where f: "fs = (f, s0)" using ok by (cases fs) (simp add: file_ok_def)
  let ?n = "min (length buf) (length c - unat (offset f))"
  note r = file_read_ram [OF ok [unfolded f] b]
  have "?n = 0 \<longrightarrow> buf = [] \<or> file_rest c fs = []" using f by (auto simp: file_rest_def min_def split: if_splits)
  moreover have "file_ok C i c s0 (f\<lparr>offset := offset f + of_nat ?n\<rparr>, s0)" using ok r(2) f by (auto simp: file_ok_def min_def)
  moreover have "file_rest c (f\<lparr>offset := offset f + of_nat ?n\<rparr>, s0) = drop ?n (file_rest c fs)" using r(2) f by (simp add: file_rest_def add.commute)
  ultimately show "\<exists>n r'. file_read C (node_ops (ram_ops P O') R) buf fs = Ret (Ok (n, take n (file_rest c fs) @ drop n buf), r') \<and> n \<le> length buf \<and>
      n \<le> length (file_rest c fs) \<and> (n = 0 \<longrightarrow> buf = [] \<or> file_rest c fs = []) \<and> file_rest c r' = drop n (file_rest c fs) \<and> file_ok C i c s0 r'"
    using r(1) f by (intro exI [of _ ?n] exI [of _ "(f\<lparr>offset := offset f + of_nat ?n\<rparr>, s0)"]) (simp add: file_rest_def)
qed

lemma opened_rights:
  assumes "bitflags_ok cap_all C"
  shows "can_access C CAP_READ (fl_node (opened C opts j)) = opt_read opts" "can_access C CAP_WRITE (fl_node (opened C opts j)) = (opt_write opts \<or> opt_append opts)"
    "wc_inner (fl_node (opened C opts j)) = Node (Ram j)" "offset (opened C opts j) = 0" "is_append (opened C opts j) = opt_append opts"
  using opts_rights(1,2) [OF assms] by (simp_all add: opened_def with_cap_new_def)

lemma drop_file_ram:
  "wc_inner (fl_node f) = Node (Ram j) \<Longrightarrow> drop_file (node_ops (ram_ops P O') R) st (Ret (r, (f, s))) = Ret (r, st\<lparr>fs_world := s\<rparr>)"
  by (simp add: drop_file_def file_drop_def access_unchecked_def node_ops_def Let_def ram_ops_def)

text \<open>A new file gets the whole buffer with one call of \<open>write\<close>.\<close>

lemma write_all_ram:
  fixes s :: "('x, 'o) RamState" and R :: "('x vref, ('x, 'o) RamState) RootDirectory"
  assumes C: "bitflags_ok cap_all C" and f: "wc_inner (fl_node f) = Node (Ram j)" "can_access C CAP_WRITE (fl_node f)" "\<not> is_append f" "offset f = 0"
    and c: "ram_node j s = FileNode []" "j < length (rs_nodes s)" and len: "length buf < 2 ^ 63"
  shows "\<exists>f'. write_all (file_write C (node_ops (ram_ops P O') R)) buf (f, s) = Ret (Ok (), (f', set_node j (FileNode buf) s)) \<and> fl_node f' = fl_node f"
proof (cases "buf = []")
  case True
  then show ?thesis using set_node_same [OF c(2,1)] by (auto simp: write_all.simps [of _ "[]"])
next
  case False
  have u: "unat (of_nat (length buf) :: u64) = length buf" using len by (simp add: unat_of_nat take_bit_eq_mod)
  have w: "file_write_at 0 buf [] = Ret (length buf, buf)" using False len by (simp add: file_write_at_def Let_def u vec_resize_def)
  have "file_write C (node_ops (ram_ops P O') R) buf (f, s) = Ret (Ok (length buf), (f\<lparr>offset := of_nat (length buf)\<rparr>, set_node j (FileNode buf) s))"
    using f c w by (simp add: file_write_def vthen_def on_obj_def acc_simps node_ops_def Let_def ram_ops_def on_file_def)
  moreover have "write_all wr [] fs = Ret (Ok (), fs)" for wr :: "('x vref fsnode File \<times> ('x, 'o) RamState) Write" and fs
    by (simp add: write_all.simps [of _ "[]"])
  ultimately show ?thesis using False by (auto simp: write_all.simps [of _ buf])
qed

lemma api_write_ram:
  fixes st :: "('x vref, ('x, 'o) RamState) FsState"
  assumes C: "bitflags_ok cap_all C" and P: "bitflags_ok perm_all P" and w: "ram_wf (fs_world st)" and m: "main_path R path p"
    and r: "fs_root_dir (rd_main_fs R) = Ram 0" and n: "names (fs_map (fs_world st)) p d name"
    and f: "fs_map (fs_world st) (d @ [name]) \<noteq> Some ADir" and len: "length contents < 2 ^ 63"
  shows "\<exists>s. api_write C P (ram_ops P O') R path contents st = Ret (Ok (), st\<lparr>fs_world := s\<rparr>) \<and> ram_wf s \<and>
      fs_map s = (fs_map (fs_world st))(d @ [name] \<mapsto> AFile contents)"
proof -
  define opts where "opts = set_truncate True (set_create True (set_write True open_options_new))"
  have o: "is_valid opts" "\<not> opt_create_new opts" "opt_create opts" "opt_truncate opts" "opt_write opts" "\<not> opt_append opts"
    by (simp_all add: opts_def set_truncate_def set_create_def set_write_def open_options_new_def is_valid_def)
  have "\<exists>j s. file_open C P (ram_ops P O') R path opts st = Ret (Ok (opened C opts j), st\<lparr>fs_world := s\<rparr>) \<and> ram_wf s \<and>
      node_walk s 0 (d @ [name]) = Some j \<and> ram_node j s = FileNode [] \<and> fs_map s = (fs_map (fs_world st))(d @ [name] \<mapsto> AFile [])"
  proof (cases "fs_map (fs_world st) (d @ [name])")
    case None
    then show ?thesis using open_create [OF C P w m r n None o(1)] o(3) by blast
  next
    case (Some e)
    then obtain c where "fs_map (fs_world st) (d @ [name]) = Some (AFile c)" using f by (cases e) auto
    then show ?thesis using open_existing [OF C P w m r n _ o(1,2), of c O'] o(4) by simp
  qed
  then obtain j s where j: "file_open C P (ram_ops P O') R path opts st = Ret (Ok (opened C opts j), st\<lparr>fs_world := s\<rparr>)" "ram_wf s"
      "node_walk s 0 (d @ [name]) = Some j" "ram_node j s = FileNode []" "fs_map s = (fs_map (fs_world st))(d @ [name] \<mapsto> AFile [])" by blast
  have jl: "j < length (rs_nodes s)" using walk_valid [OF j(2,3)] by simp
  obtain f' where f': "write_all (file_write C (node_ops (ram_ops P O') R)) contents (opened C opts j, s) = Ret (Ok (), (f', set_node j (FileNode contents) s))"
      "fl_node f' = fl_node (opened C opts j)"
    using write_all_ram [OF C, of "opened C opts j" j s contents P O' R] opened_rights [OF C, of opts j] o j(4) jl len by auto
  have "api_write C P (ram_ops P O') R path contents st = Ret (Ok (), st\<lparr>fs_world := set_node j (FileNode contents) s\<rparr>)"
    using j(1) f'
    by (simp add: opened_rights [OF C] api_write_def api_file_create_def vthen_def drop_file_ram opts_def [symmetric])
  then show ?thesis using file_set_tree [OF j(2,3,4), of contents] j(5) by auto
qed

lemma api_read_ram:
  fixes st :: "('x vref, ('x, 'o) RamState) FsState"
  assumes C: "bitflags_ok cap_all C" and P: "bitflags_ok perm_all P" and w: "ram_wf (fs_world st)" and m: "main_path R path p"
    and r: "fs_root_dir (rd_main_fs R) = Ram 0" and n: "names (fs_map (fs_world st)) p d name"
    and f: "fs_map (fs_world st) (d @ [name]) = Some (AFile c)" and len: "length c < 2 ^ 63"
  shows "\<exists>s. api_read C P (ram_ops P O') R path st = Some (Ret (Ok c, st\<lparr>fs_world := s\<rparr>)) \<and> ram_wf s \<and> fs_map s = fs_map (fs_world st)"
proof -
  let ?M = "node_ops (ram_ops P O') R"
  define opts where "opts = set_read True open_options_new"
  have o: "is_valid opts" "\<not> opt_create_new opts" "\<not> opt_truncate opts" "opt_read opts"
    by (simp_all add: opts_def set_read_def open_options_new_def is_valid_def)
  obtain j s where j: "file_open C P (ram_ops P O') R path opts st = Ret (Ok (opened C opts j), st\<lparr>fs_world := s\<rparr>)" "ram_wf s"
      "node_walk s 0 (d @ [name]) = Some j" "ram_node j s = FileNode c" "fs_map s = fs_map (fs_world st)"
    using open_existing [OF C P w m r n f o(1,2), of O'] o(3) f by (auto simp: fun_upd_idem)
  let ?f = "opened C opts j"
  have jl: "j < length (rs_nodes s)" using walk_valid [OF j(2,3)] by simp
  have u: "unat (of_nat (length c) :: u64) = length c" using len by (simp add: unat_of_nat take_bit_eq_mod)
  have cap: "with_capacity C ?M (?f, s) = Ret (?f, s)"
    using len j(4) u
    by (simp add: opened_rights [OF C] cap_empty_access [OF C] with_capacity_def file_get_attr_def vthen_def on_obj_def acc_simps node_ops_def Let_def ram_ops_def ram_get_attr_def attr_new_file_def)
  have ok: "file_ok C j c s (?f, s)" using o j(4) jl len by (simp add: file_ok_def opened_rights [OF C])
  obtain fs where fs: "read_to_end (file_read C ?M) [] (?f, s) = Some (Ret ((Ok (length c), c), fs))" "file_ok C j c s fs"
    using stream_reader.read_to_end_all [OF ram_file_stream [of C P O' R c j s] ok, where buf = "[]"] by (auto simp: file_rest_def opened_rights [OF C])
  obtain f' where f': "fs = (f', s)" "wc_inner (fl_node f') = Node (Ram j)" using fs(2) by (cases fs) (simp add: file_ok_def)
  have "api_read C P (ram_ops P O') R path st = Some (Ret (Ok c, st\<lparr>fs_world := s\<rparr>))"
    using j(1) cap fs(1) f' by (simp add: api_read_def api_file_open_def opts_def [symmetric] with_file_def read_whole_def drop_file_ram)
  then show ?thesis using j(2,5) by blast
qed

section \<open>Properties\<close>


definition unit_fs :: "('x vref, ('x, 'o) RamState) VfsNodeOps \<Rightarrow> ('x vref, ('x, 'o) RamState) RootDirectory" where
  "unit_fs N = root_dir_new (ram_fs N)"

definition unit_state :: "(unit vref, (unit, unit) RamState) FsState" where
  "unit_state = \<lparr>current_dir_path = ''/'', current_dir_node = RootDir, fs_world = ram_fs_new ()\<rparr>"

lemma unit_facts:
  "fs_root_dir (rd_main_fs (unit_fs N)) = Ram 0" "ram_wf (fs_world unit_state)" "fs_map (fs_world unit_state) = [[] \<mapsto> ADir]"
  "main_path (unit_fs N) ''/a'' ''a''" "names [[] \<mapsto> ADir] ''a'' [] ''a''"
  by (simp_all add: unit_fs_def unit_state_def root_dir_new_def ram_fs_def fs_default_def new_wf main_path_def starts_with_def ends_with_def trim_slashes_def
      SLASH_def names_def suffix_def)


text \<open>
  C13: An open file gives no more rights than it was opened with and than its node grants. After any successful open, a file that was not opened
  for reading refuses \<open>read\<close>, one that was opened neither for writing nor for appending refuses \<open>write\<close>, \<open>truncate\<close> and \<open>flush\<close>,
  without any effect, wherever its offset is; the options are valid, the owner of the node has the rights that were asked for, and a directory is
  only ever opened for reading.
\<close>

theorem file_rights:
  assumes "bitflags_ok cap_all C" "file_open_at C P N R dir path opts st = Ret (Ok f, st')" "fl_node f' = fl_node f"
  shows "(\<not> opt_read opts \<longrightarrow> file_read C M buf (f', s) = Ret (Err PermissionDenied, (f', s))) \<and>
      (\<not> opt_write opts \<and> \<not> opt_append opts \<longrightarrow>
        file_write C M buf (f', s) = Ret (Err PermissionDenied, (f', s)) \<and> fops_truncate C M sz (f', s) = Ret (Err PermissionDenied, (f', s)) \<and>
        file_flush C M (f', s) = Ret (Err PermissionDenied, (f', s))) \<and>
      is_valid opts \<and>
      (\<exists>attr w w'. vn_get_attr (node_ops N R) (wc_inner (fl_node f)) w = Ret (Ok attr, w') \<and> (opt_read opts \<longrightarrow> owner_readable P (attr_mode attr)) \<and>
        (opt_write opts \<or> opt_append opts \<longrightarrow> owner_writable P (attr_mode attr)) \<and>
        (attr_is_dir attr \<longrightarrow> \<not> opt_write opts \<and> \<not> opt_append opts \<and> \<not> opt_truncate opts \<and> \<not> opt_create opts \<and> \<not> opt_create_new opts))"
proof -
  obtain node st1 where n: "file_open_node C P N R opts node st1 = Ret (Ok f, st')" using file_open_at_Ok(2) [OF assms(2)] by blast
  obtain attr w w' where a: "f = \<lparr>fl_node = with_cap_new node (cap_from_opts C opts), is_append = opt_append opts, offset = 0\<rparr>"
      "vn_get_attr (node_ops N R) node w = Ret (Ok attr, w')"
      "\<not> (attr_is_dir attr \<and> (opt_create opts \<or> opt_create_new opts \<or> opt_write opts \<or> opt_append opts \<or> opt_truncate opts))"
      "bf_contains C (perm_to_cap C P (attr_mode attr)) (cap_from_opts C opts)"
    using file_open_node_Ok [OF n] .
  have fn: "fl_node f' = with_cap_new node (cap_from_opts C opts)" using assms(3) a(1) by simp
  note r = opts_rights [OF assms(1), of node opts, folded fn]
  have "\<not> opt_read opts \<longrightarrow> file_read C M buf (f', s) = Ret (Err PermissionDenied, (f', s))"
    using r(1) by (simp add: file_read_def vthen_def on_obj_def acc_simps(2))
  moreover have "\<not> opt_write opts \<and> \<not> opt_append opts \<longrightarrow>
      file_write C M buf (f', s) = Ret (Err PermissionDenied, (f', s)) \<and> fops_truncate C M sz (f', s) = Ret (Err PermissionDenied, (f', s)) \<and>
      file_flush C M (f', s) = Ret (Err PermissionDenied, (f', s))"
    using r(2) by (simp add: file_write_def fops_truncate_def file_flush_def vthen_def on_obj_def acc_simps(2))
  moreover have "wc_inner (fl_node f) = node" using a(1) by (simp add: with_cap_new_def)
  ultimately show ?thesis using file_open_at_Ok(1) [OF assms(2)] a(2,3) perm_rights [OF assms(1) a(4)] by blast
qed

theorem file_rights_witness:
  "\<exists>f st'. file_open_at (word_bitflags cap_all) (word_bitflags perm_all) (ram_ops (word_bitflags perm_all) node_default) (unit_fs node_default) None ''/a''
      (set_create True (set_write True open_options_new)) unit_state = Ret (Ok f, st') \<and>
      file_read (word_bitflags cap_all) (node_ops (ram_ops (word_bitflags perm_all) node_default) (unit_fs node_default)) [0, 0] (f, fs_world st') =
        Ret (Err PermissionDenied, (f, fs_world st'))"
proof -
  let ?C = "word_bitflags cap_all" and ?P = "word_bitflags perm_all" and ?o = "set_create True (set_write True open_options_new)"
  have o: "is_valid ?o" "opt_create ?o \<or> opt_create_new ?o" "\<not> opt_read ?o" by (simp_all add: set_create_def set_write_def open_options_new_def is_valid_def)
  have n: "names (fs_map (fs_world unit_state)) ''a'' [] ''a''" "fs_map (fs_world unit_state) ([] @ [''a'']) = None" using unit_facts(3,5) by simp_all
  obtain f st' where f: "file_open_at ?C ?P (ram_ops ?P node_default) (unit_fs node_default) None ''/a'' ?o unit_state = Ret (Ok f, st')"
    using open_create [OF word_bitflags_ok word_bitflags_ok unit_facts(2) unit_facts(4) [of node_default] unit_facts(1) n o(1,2), of node_default]
    unfolding file_open_def by blast
  from f o(3) file_rights [where M = "node_ops (ram_ops ?P node_default) (unit_fs node_default)" and buf = "[0, 0]" and s = "fs_world st'" and sz = 0,
      OF word_bitflags_ok f refl]
  show ?thesis by (intro exI [of _ f] exI [of _ st']) simp
qed

text \<open>
  C37: An open directory is of no use for relative paths. \<open>access_at\<close> asks for the right to execute, which \<open>open_dir\<close> never gives, as the
  options have no such flag: on every directory that was opened, opening, creating and removing by any relative path is refused.
\<close>

theorem directory_relative_denied:
  assumes "bitflags_ok cap_all C" "directory_open_at C P N R dir path opts st = Ret (Ok d, st')" "dr_node d' = dr_node d" "\<not> starts_with rel ''/''"
  shows "open_file_at C P N R d' rel opts' s = Ret (Err PermissionDenied, s) \<and> open_dir_at C P N R d' rel opts' s = Ret (Err PermissionDenied, s) \<and>
      directory_create_file C N R d' rel s = Ret (Err PermissionDenied, s) \<and> directory_create_dir C N R d' rel s = Ret (Err PermissionDenied, s) \<and>
      directory_remove_file C P N R d' rel s = Ret (Err PermissionDenied, s) \<and> directory_remove_dir C P N R d' rel s = Ret (Err PermissionDenied, s)"
proof -
  obtain node where d: "dr_node d = with_cap_new node (cap_from_opts C opts)"
    using assms(2) by (auto simp: directory_open_at_def vthen_Ok Let_def split: if_splits)
  have "\<not> can_access C CAP_EXECUTE (dr_node d')" using opts_rights(3) [OF assms(1), of node opts] d assms(3) by simp
  then have a: "access_at C d' rel s = Ret (Err PermissionDenied, s)" using assms(4) by (simp add: access_at_def vthen_def acc_simps(2))
  then show ?thesis
    by (simp add: open_file_at_def open_dir_at_def directory_create_file_def directory_create_dir_def directory_remove_file_def directory_remove_dir_def vthen_def)
qed

theorem directory_relative_denied_witness:
  "\<exists>d st'. open_dir (word_bitflags cap_all) (word_bitflags perm_all) (ram_ops (word_bitflags perm_all) node_default) (unit_fs node_default) ''/.''
      (set_read True open_options_new) unit_state = Ret (Ok d, st') \<and>
      open_file_at (word_bitflags cap_all) (word_bitflags perm_all) (ram_ops (word_bitflags perm_all) node_default) (unit_fs node_default) d ''a''
        (set_read True open_options_new) st' = Ret (Err PermissionDenied, st')"
proof -
  let ?C = "word_bitflags cap_all" and ?P = "word_bitflags perm_all" and ?o = "set_read True open_options_new"
  have m: "main_path (unit_fs node_default) ''/.'' ''.''"
    by (simp add: unit_fs_def root_dir_new_def main_path_def starts_with_def ends_with_def trim_slashes_def SLASH_def suffix_def)
  have "spec_resolve (fs_map (fs_world unit_state)) [] (split_slash ''.'') = Ok []" by (simp add: unit_facts(3) SLASH_def)
  then obtain j where j: "node_walk (fs_world unit_state) 0 [] = Some j" "lookup (ram_ops ?P node_default) (unit_fs node_default) None ''/.'' unit_state =
      Ret (Ok (Node (Ram j)), unit_state\<lparr>fs_world := vref_clone (Ram j) (fs_world unit_state)\<rparr>)"
    using lookup_ram(2) [where P = ?P and O' = node_default and dir = None, OF unit_facts(2) m unit_facts(1)] by blast
  have l: "lookup (ram_ops ?P node_default) (unit_fs node_default) None ''/.'' unit_state =
      Ret (Ok (Node (Ram 0)), unit_state\<lparr>fs_world := vref_clone (Ram 0) (fs_world unit_state)\<rparr>)" using j by simp
  obtain d st' where d: "directory_open_at ?C ?P (ram_ops ?P node_default) (unit_fs node_default) None ''/.'' ?o unit_state = Ret (Ok d, st')"
    using l
    by (simp add: directory_open_at_def vthen_def on_world_def set_read_def open_options_new_def node_ops_def Let_def ram_ops_def ram_get_attr_def ram_node_def
        vref_clone_def unit_state_def ram_fs_new_def dir_new_def attr_new_dir_def attr_is_dir_def perm_to_cap_def cap_from_opts_def flag_simps
        owner_readable_def owner_writable_def owner_executable_def default_dir_def OWNER_READ_def OWNER_WRITE_def OWNER_EXEC_def perm_all_def
        CAP_READ_def CAP_WRITE_def CAP_EXECUTE_def cap_empty_def)
  have "\<not> starts_with ''a'' ''/''" by (simp add: starts_with_def)
  then show ?thesis using directory_relative_denied [OF word_bitflags_ok d refl, of "''a''" ?o st'] d unfolding open_dir_def by blast
qed

text \<open>
  Seeking stays in range. The new offset is the mathematical sum of the base (zero, the offset or the size of the file) and the signed
  distance; it is returned and set exactly if it fits into 64 bits without a sign, and otherwise the call fails with \<open>InvalidInput\<close> and the
  offset stays. No sum wraps around.
\<close>

lemma file_seek_bounds:
  assumes "bitflags_ok cap_all C" "vn_get_attr M (wc_inner (fl_node f)) s = Ret (Ok attr, s')"
  shows "let x = (case pos of Start p \<Rightarrow> uint p | Current off \<Rightarrow> uint (offset f) + sint off | End off \<Rightarrow> uint (attr_size attr) + sint off)
      in if 0 \<le> x \<and> x < 2 ^ 64
         then \<exists>o'. uint o' = x \<and> file_seek C M pos (f, s) = Ret (Ok o', (f\<lparr>offset := o'\<rparr>, s'))
         else file_seek C M pos (f, s) = Ret (Err InvalidInput, (f, s'))"
proof -
  have a: "file_get_attr C M (f, s) = Ret (Ok attr, (f, s'))"
    using assms(2) cap_empty_access [OF assms(1), of "fl_node f"] by (simp add: file_get_attr_def vthen_def on_obj_def acc_simps(1))
  have add: "uint (b + off) = uint b + sint off" if "0 \<le> uint b + sint off" "uint b + sint off < 2 ^ 64" for b off :: u64
  proof -
    have "uint (b + off) = (uint b + sint off) mod 2 ^ 64" using uint_word_of_int [of "uint b + sint off", where 'a = 64] by simp
    then show ?thesis using that by simp
  qed
  have "0 \<le> uint p" "uint p < 2 ^ 64" for p :: u64 using uint_lt2p [of p] by simp_all
  then show ?thesis
    using add by (cases pos) (auto simp: file_seek_def vthen_def a checked_add_signed_def Let_def)
qed

end
