(* ===== verification/FlattenObjects.thy ===== *)
theory FlattenObjects
  imports Prelude
begin

text \<open>
  Model of the crate \<open>flatten_objects\<close> (src/crates/flatten_objects/src/lib.rs), the container of numbered objects that
  holds the file descriptors. Its bitmap is the third-party crate \<open>bitmaps\<close>: a record of the operations that are used,
  with their documented behaviour as the locale \<open>bitmap\<close>. The container is shown to behave as an array of optional
  objects, in which a new object takes the first free place.
\<close>

section \<open>Model\<close>

text \<open>The operations of \<open>Bitmap<1024>\<close>; \<open>bits_zeroed\<close> is the bitmap whose memory is all zero.\<close>

record 'b BitmapOps =
  bits_zeroed :: 'b
  bits_get :: "usize \<Rightarrow> 'b \<Rightarrow> bool"
  bits_set :: "usize \<Rightarrow> bool \<Rightarrow> 'b \<Rightarrow> 'b"
  bits_first_false_index :: "'b \<Rightarrow> usize option"

text \<open>
  A place of \<open>objects\<close> that was never written is \<open>None\<close>. To read such a place is undefined behaviour; it is \<open>Panic\<close>
  here, so that what is proved of the results also shows that it does not happen. A place that was read out by
  \<open>remove\<close> keeps its bytes.
\<close>

record ('t, 'b) FlattenObjects =
  fo_objects :: "'t option list"
  fo_id_bitmap :: 'b
  fo_count :: usize

definition fo_new :: "'b BitmapOps \<Rightarrow> usize \<Rightarrow> ('t, 'b) FlattenObjects outcome" where
  "fo_new B CAP =
     (if CAP \<le> 1024
      then Ret \<lparr>fo_objects = replicate (unat CAP) None, fo_id_bitmap = bits_zeroed B, fo_count = 0\<rparr>
      else Panic)"

definition is_assigned :: "'b BitmapOps \<Rightarrow> usize \<Rightarrow> usize \<Rightarrow> ('t, 'b) FlattenObjects \<Rightarrow> bool" where
  "is_assigned B CAP i s \<longleftrightarrow> i < CAP \<and> bits_get B i (fo_id_bitmap s)"

definition fo_get :: "'b BitmapOps \<Rightarrow> usize \<Rightarrow> usize \<Rightarrow> ('t, 'b) FlattenObjects \<Rightarrow> 't option outcome" where
  "fo_get B CAP i s =
     (if is_assigned B CAP i s
      then case fo_objects s ! unat i of None \<Rightarrow> Panic | Some x \<Rightarrow> Ret (Some x)
      else Ret None)"

text \<open>\<open>get_mut\<close>: the function \<open>f\<close> is what the caller does to the object through the reference.\<close>

definition fo_get_mut :: "'b BitmapOps \<Rightarrow> usize \<Rightarrow> usize \<Rightarrow> ('t \<Rightarrow> 't) \<Rightarrow> ('t, 'b) FlattenObjects
    \<Rightarrow> ('t option \<times> ('t, 'b) FlattenObjects) outcome" where
  "fo_get_mut B CAP i f s =
     (if is_assigned B CAP i s
      then case fo_objects s ! unat i of
             None \<Rightarrow> Panic
           | Some x \<Rightarrow> Ret (Some x, s\<lparr>fo_objects := (fo_objects s)[unat i := Some (f x)]\<rparr>)
      else Ret (None, s))"

definition fo_add :: "'b BitmapOps \<Rightarrow> usize \<Rightarrow> 't \<Rightarrow> ('t, 'b) FlattenObjects
    \<Rightarrow> (usize option \<times> ('t, 'b) FlattenObjects) outcome" where
  "fo_add B CAP value s =
     (case bits_first_false_index B (fo_id_bitmap s) of
        None \<Rightarrow> Ret (None, s)
      | Some i \<Rightarrow>
          if i < CAP
          then Ret (Some i, s\<lparr>fo_objects := (fo_objects s)[unat i := Some value],
                              fo_id_bitmap := bits_set B i True (fo_id_bitmap s), fo_count := fo_count s + 1\<rparr>)
          else Ret (None, s))"

text \<open>The write to \<open>objects[id]\<close> panics when the id is not below \<open>CAP\<close>.\<close>

definition fo_add_at :: "'b BitmapOps \<Rightarrow> usize \<Rightarrow> usize \<Rightarrow> 't \<Rightarrow> ('t, 'b) FlattenObjects
    \<Rightarrow> (usize option \<times> ('t, 'b) FlattenObjects) outcome" where
  "fo_add_at B CAP i value s =
     (if is_assigned B CAP i s then Ret (None, s)
      else if i < CAP
      then Ret (Some i, s\<lparr>fo_objects := (fo_objects s)[unat i := Some value],
                          fo_id_bitmap := bits_set B i True (fo_id_bitmap s), fo_count := fo_count s + 1\<rparr>)
      else Panic)"

definition fo_remove :: "'b BitmapOps \<Rightarrow> usize \<Rightarrow> usize \<Rightarrow> ('t, 'b) FlattenObjects
    \<Rightarrow> ('t option \<times> ('t, 'b) FlattenObjects) outcome" where
  "fo_remove B CAP i s =
     (if is_assigned B CAP i s
      then case fo_objects s ! unat i of
             None \<Rightarrow> Panic
           | Some x \<Rightarrow> Ret (Some x, s\<lparr>fo_id_bitmap := bits_set B i False (fo_id_bitmap s), fo_count := fo_count s - 1\<rparr>)
      else Ret (None, s))"

section \<open>Specification\<close>

text \<open>
  The container as an array of \<open>CAP\<close> places: a new object takes the first free one, \<open>add_at\<close> of a number that is not
  below \<open>CAP\<close> panics.
\<close>

datatype 't fo_call = FoGet usize | FoGetMut usize "'t \<Rightarrow> 't" | FoAdd 't | FoAddAt usize 't | FoRemove usize | FoCount

datatype 't fo_ret = FoId "usize option" | FoObject "'t option" | FoNumber usize

fun spec_fo :: "'t fo_call \<Rightarrow> 't option list \<Rightarrow> ('t fo_ret \<times> 't option list) outcome" where
  "spec_fo (FoGet i) xs = Ret (FoObject (if unat i < length xs then xs ! unat i else None), xs)"
| "spec_fo (FoGetMut i f) xs =
     Ret (if unat i < length xs then (FoObject (xs ! unat i), xs[unat i := map_option f (xs ! unat i)]) else (FoObject None, xs))"
| "spec_fo (FoAdd x) xs =
     (case position (\<lambda>y. y = None) xs of
        None \<Rightarrow> Ret (FoId None, xs)
      | Some i \<Rightarrow> Ret (FoId (Some (of_nat i)), xs[i := Some x]))"
| "spec_fo (FoAddAt i x) xs =
     (if length xs \<le> unat i then Panic
      else if xs ! unat i \<noteq> None then Ret (FoId None, xs)
      else Ret (FoId (Some i), xs[unat i := Some x]))"
| "spec_fo (FoRemove i) xs =
     Ret (if unat i < length xs then (FoObject (xs ! unat i), xs[unat i := None]) else (FoObject None, xs))"
| "spec_fo FoCount xs = Ret (FoNumber (of_nat (length (filter (\<lambda>y. y \<noteq> None) xs))), xs)"

fun run_fo :: "'b BitmapOps \<Rightarrow> usize \<Rightarrow> 't fo_call \<Rightarrow> ('t, 'b) FlattenObjects \<Rightarrow> ('t fo_ret \<times> ('t, 'b) FlattenObjects) outcome" where
  "run_fo B CAP (FoGet i) s = out_then (fo_get B CAP i s) (\<lambda>r. Ret (FoObject r, s))"
| "run_fo B CAP (FoGetMut i f) s = out_then (fo_get_mut B CAP i f s) (\<lambda>(r, s). Ret (FoObject r, s))"
| "run_fo B CAP (FoAdd x) s = out_then (fo_add B CAP x s) (\<lambda>(r, s). Ret (FoId r, s))"
| "run_fo B CAP (FoAddAt i x) s = out_then (fo_add_at B CAP i x s) (\<lambda>(r, s). Ret (FoId r, s))"
| "run_fo B CAP (FoRemove i) s = out_then (fo_remove B CAP i s) (\<lambda>(r, s). Ret (FoObject r, s))"
| "run_fo B CAP FoCount s = Ret (FoNumber (fo_count s), s)"

text \<open>The results of a sequence of calls, up to the first panic.\<close>

fun fo_results :: "('c \<Rightarrow> 's \<Rightarrow> ('r \<times> 's) outcome) \<Rightarrow> 'c list \<Rightarrow> 's \<Rightarrow> 'r outcome list" where
  "fo_results f [] s = []"
| "fo_results f (c # cs) s = (case f c s of Panic \<Rightarrow> [Panic] | Ret (r, s) \<Rightarrow> Ret r # fo_results f cs s)"

section \<open>The contract of the bitmap\<close>

locale bitmap =
  fixes B :: "'b BitmapOps"
  assumes zeroed: "i < 1024 \<Longrightarrow> \<not> bits_get B i (bits_zeroed B)"
    and get_set: "i < 1024 \<Longrightarrow> j < 1024 \<Longrightarrow> bits_get B j (bits_set B i v b) = (if j = i then v else bits_get B j b)"
    and first_some: "bits_first_false_index B b = Some i \<Longrightarrow> i < 1024 \<and> \<not> bits_get B i b \<and> (\<forall>j<i. bits_get B j b)"
    and first_none: "bits_first_false_index B b = None \<Longrightarrow> i < 1024 \<Longrightarrow> bits_get B i b"

text \<open>The array of places that a container stands for, and what holds of every container that is made by its operations.\<close>

definition fo_abs :: "'b BitmapOps \<Rightarrow> ('t, 'b) FlattenObjects \<Rightarrow> 't option list" where
  "fo_abs B s = map (\<lambda>i. if bits_get B (of_nat i) (fo_id_bitmap s) then fo_objects s ! i else None) [0..<length (fo_objects s)]"

definition fo_inv :: "'b BitmapOps \<Rightarrow> usize \<Rightarrow> ('t, 'b) FlattenObjects \<Rightarrow> bool" where
  "fo_inv B CAP s \<longleftrightarrow> CAP \<le> 1024 \<and> length (fo_objects s) = unat CAP \<and>
     (\<forall>i<CAP. bits_get B i (fo_id_bitmap s) \<longrightarrow> fo_objects s ! unat i \<noteq> None) \<and>
     fo_count s = of_nat (length (filter (\<lambda>y. y \<noteq> None) (fo_abs B s)))"

lemma fo_abs_length [simp]: "length (fo_abs B s) = length (fo_objects s)"
  by (simp add: fo_abs_def)

lemma fo_abs_nth:
  "unat i < length (fo_objects s) \<Longrightarrow> fo_abs B s ! unat i = (if bits_get B i (fo_id_bitmap s) then fo_objects s ! unat i else None)"
  by (simp add: fo_abs_def)

lemma position_first:
  assumes "i < length xs" "p (xs ! i)" "\<And>j. j < i \<Longrightarrow> \<not> p (xs ! j)"
  shows "position p xs = Some i"
  using assms
proof (induction xs arbitrary: i)
  case (Cons x xs)
  show ?case
  proof (cases i)
    case (Suc k)
    have "\<not> p x" using Cons.prems(3) [of 0] Suc by simp
    moreover have "position p xs = Some k"
      using Cons.prems Suc Cons.prems(3) [of "Suc j" for j] by (intro Cons.IH) auto
    ultimately show ?thesis by (simp add: Suc)
  qed (use Cons.prems in simp)
qed simp

lemma position_none: "position p xs = None \<longleftrightarrow> (\<forall>x\<in>set xs. \<not> p x)"
  by (induction xs) auto

lemma filter_update_some:
  "i < length xs \<Longrightarrow> xs ! i = None \<Longrightarrow>
    length (filter (\<lambda>y. y \<noteq> None) (xs[i := Some x])) = Suc (length (filter (\<lambda>y. y \<noteq> None) xs))"
  by (induction xs arbitrary: i) (auto simp: nth_Cons split: nat.splits)

lemma filter_update_none:
  "i < length xs \<Longrightarrow> xs ! i \<noteq> None \<Longrightarrow>
    Suc (length (filter (\<lambda>y. y \<noteq> None) (xs[i := None]))) = length (filter (\<lambda>y. y \<noteq> None) xs)"
  by (induction xs arbitrary: i) (auto simp: nth_Cons split: nat.splits)

lemma filter_update_keep:
  "i < length xs \<Longrightarrow> (v = None) = (xs ! i = None) \<Longrightarrow>
    length (filter (\<lambda>y. y \<noteq> None) (xs[i := v])) = length (filter (\<lambda>y. y \<noteq> None) xs)"
  by (induction xs arbitrary: i) (auto simp: nth_Cons split: nat.splits)

lemma small_index: "CAP \<le> (1024 :: usize) \<Longrightarrow> j < unat CAP \<Longrightarrow> of_nat j < (1024 :: usize) \<and> unat (of_nat j :: usize) = j"
  by (simp add: word_le_nat_alt word_less_nat_alt unat_of_nat)

lemma assigned_iff: "fo_inv B CAP s \<Longrightarrow> is_assigned B CAP i s \<longleftrightarrow> unat i < length (fo_abs B s) \<and> fo_abs B s ! unat i \<noteq> None"
  by (auto simp: is_assigned_def fo_inv_def fo_abs_nth word_less_nat_alt split: if_splits)

lemma assigned_object:
  "fo_inv B CAP s \<Longrightarrow> is_assigned B CAP i s \<Longrightarrow> fo_objects s ! unat i = fo_abs B s ! unat i"
  by (auto simp: is_assigned_def fo_inv_def fo_abs_nth word_less_nat_alt)

lemma fo_less_iff: "fo_inv B CAP s \<Longrightarrow> i < CAP \<longleftrightarrow> unat i < length (fo_abs B s)"
  by (simp add: fo_inv_def word_less_nat_alt)

lemma fo_add_returns: "\<exists>r s'. fo_add B CAP x s = Ret (r, s')"
  by (simp add: fo_add_def split: option.splits)

context bitmap
begin

lemma new_inv: "fo_new B CAP = Ret s \<Longrightarrow> fo_inv B CAP s \<and> fo_abs B s = replicate (unat CAP) None"
  by (auto simp: fo_new_def fo_inv_def fo_abs_def zeroed small_index filter_empty_conv split: if_splits intro!: nth_equalityI)

text \<open>What the updates of the bitmap and of the places do to the array.\<close>

lemma abs_set:
  assumes "fo_inv B CAP s" "i < CAP" "v \<Longrightarrow> x \<noteq> None"
    and s'_def: "s' = s\<lparr>fo_objects := (fo_objects s)[unat i := x], fo_id_bitmap := bits_set B i v (fo_id_bitmap s), fo_count := n\<rparr>"
  shows "fo_abs B s' = (fo_abs B s)[unat i := (if v then x else None)]"
    and "n = of_nat (length (filter (\<lambda>y. y \<noteq> None) ((fo_abs B s)[unat i := (if v then x else None)]))) \<Longrightarrow> fo_inv B CAP s'"
proof -
  have c: "CAP \<le> 1024" "length (fo_objects s) = unat CAP" using assms(1) by (simp_all add: fo_inv_def)
  have i: "i < 1024" using assms(2) c(1) by simp
  have bit: "bits_get B j (bits_set B i v (fo_id_bitmap s)) = (if j = i then v else bits_get B j (fo_id_bitmap s))" if "j < CAP" for j
    using get_set [OF i] that c(1) by simp
  show abs: "fo_abs B s' = (fo_abs B s)[unat i := (if v then x else None)]"
  proof (rule nth_equalityI)
    fix j assume "j < length (fo_abs B s')"
    then have j: "j < unat CAP" by (simp add: s'_def c)
    then have "of_nat j < CAP" and ij: "of_nat j = i \<longleftrightarrow> unat i = j"
      using small_index [OF c(1) j] by (auto simp: word_less_nat_alt)
    then have "bits_get B (of_nat j) (bits_set B i v (fo_id_bitmap s)) = (if unat i = j then v else bits_get B (of_nat j) (fo_id_bitmap s))"
      using bit [of "of_nat j"] by simp
    then show "fo_abs B s' ! j = (fo_abs B s)[unat i := (if v then x else None)] ! j"
      using j assms(2) by (cases "unat i = j") (simp_all add: fo_abs_def s'_def c word_less_nat_alt)
  qed (simp add: s'_def)
  assume "n = of_nat (length (filter (\<lambda>y. y \<noteq> None) ((fo_abs B s)[unat i := (if v then x else None)])))"
  then have "fo_count s' = of_nat (length (filter (\<lambda>y. y \<noteq> None) (fo_abs B s')))" by (simp only: abs) (simp add: s'_def)
  moreover have "fo_objects s' ! unat j \<noteq> None" if "j < CAP" "bits_get B j (fo_id_bitmap s')" for j
    using that assms bit [OF that(1)] by (cases "j = i") (auto simp: fo_inv_def s'_def word_less_nat_alt nth_list_update word_unat_eq_iff)
  ultimately show "fo_inv B CAP s'" using c by (simp add: fo_inv_def) (simp add: s'_def)
qed

lemma abs_put:
  assumes "fo_inv B CAP s" "i < CAP" "fo_abs B s ! unat i = None"
    and "s' = s\<lparr>fo_objects := (fo_objects s)[unat i := Some x], fo_id_bitmap := bits_set B i True (fo_id_bitmap s), fo_count := fo_count s + 1\<rparr>"
  shows "fo_abs B s' = (fo_abs B s)[unat i := Some x] \<and> fo_inv B CAP s'"
proof -
  have "unat i < length (fo_abs B s)" using assms(1,2) by (simp add: fo_less_iff)
  then have "fo_count s + 1 = of_nat (length (filter (\<lambda>y. y \<noteq> None) ((fo_abs B s)[unat i := Some x])))"
    using assms(1,3) filter_update_some [of "unat i" "fo_abs B s" x] by (simp add: fo_inv_def)
  then show ?thesis using abs_set [OF assms(1,2) _ assms(4)] by simp
qed

lemma abs_take:
  assumes "fo_inv B CAP s" "is_assigned B CAP i s"
    and "s' = s\<lparr>fo_id_bitmap := bits_set B i False (fo_id_bitmap s), fo_count := fo_count s - 1\<rparr>"
  shows "fo_abs B s' = (fo_abs B s)[unat i := None] \<and> fo_inv B CAP s'"
proof -
  have i: "i < CAP" "unat i < length (fo_abs B s)" "fo_abs B s ! unat i \<noteq> None"
    using assms(1,2) assigned_iff [OF assms(1), of i] fo_less_iff [OF assms(1), of i] by simp_all
  have "fo_count s = of_nat (Suc (length (filter (\<lambda>y. y \<noteq> None) ((fo_abs B s)[unat i := None]))))"
    unfolding filter_update_none [OF i(2,3)] using assms(1) by (simp add: fo_inv_def)
  then have "fo_count s - 1 = of_nat (length (filter (\<lambda>y. y \<noteq> None) ((fo_abs B s)[unat i := None])))" by simp
  moreover have "s' = s\<lparr>fo_objects := (fo_objects s)[unat i := fo_objects s ! unat i],
      fo_id_bitmap := bits_set B i False (fo_id_bitmap s), fo_count := fo_count s - 1\<rparr>" by (simp add: assms(3))
  ultimately show ?thesis
    using abs_set [OF assms(1) i(1), of False "fo_objects s ! unat i" s' "fo_count s - 1"] by simp
qed

lemma abs_change:
  assumes "fo_inv B CAP s" "is_assigned B CAP i s" "s' = s\<lparr>fo_objects := (fo_objects s)[unat i := Some x]\<rparr>"
  shows "fo_abs B s' = (fo_abs B s)[unat i := Some x] \<and> fo_inv B CAP s'"
proof -
  have i: "unat i < length (fo_abs B s)" "fo_abs B s ! unat i \<noteq> None"
    using assms(2) assigned_iff [OF assms(1)] by simp_all
  have bit: "bits_get B i (fo_id_bitmap s)" using assms(2) by (simp add: is_assigned_def)
  have c: "CAP \<le> 1024" "length (fo_objects s) = unat CAP" using assms(1) by (simp_all add: fo_inv_def)
  have abs: "fo_abs B s' = (fo_abs B s)[unat i := Some x]"
  proof (rule nth_equalityI)
    fix j assume "j < length (fo_abs B s')"
    then have j: "j < unat CAP" by (simp add: assms(3) c)
    show "fo_abs B s' ! j = (fo_abs B s)[unat i := Some x] ! j"
      using bit i(1) j c by (cases "unat i = j") (auto simp: fo_abs_def assms(3))
  qed (simp add: assms(3))
  have "fo_count s' = of_nat (length (filter (\<lambda>y. y \<noteq> None) (fo_abs B s')))"
    unfolding abs using filter_update_keep [of "unat i" "fo_abs B s" "Some x"] i assms(1,3) by (simp add: fo_inv_def)
  moreover have "fo_objects s' ! unat j \<noteq> None" if "j < CAP" "bits_get B j (fo_id_bitmap s')" for j
    using that assms i by (cases "j = i") (auto simp: fo_inv_def nth_list_update word_unat_eq_iff)
  ultimately show ?thesis using abs c by (simp add: fo_inv_def) (simp add: assms(3))
qed

text \<open>The first free bit is the first free place, if it is below \<open>CAP\<close>; otherwise there is none.\<close>

lemma first_free:
  assumes "fo_inv B CAP s" "bits_first_false_index B (fo_id_bitmap s) = Some i" "i < CAP"
  shows "position (\<lambda>y. y = None) (fo_abs B s) = Some (unat i) \<and> fo_abs B s ! unat i = None"
proof -
  note f = first_some [OF assms(2)]
  have i: "unat i < length (fo_abs B s)" using assms(1,3) by (simp add: fo_less_iff)
  have "fo_abs B s ! unat i = None" using f i by (simp add: fo_abs_nth)
  moreover have "fo_abs B s ! j \<noteq> None" if "j < unat i" for j
  proof -
    have "j < unat CAP" using that assms(3) by (simp add: word_less_nat_alt)
    then have j: "unat (of_nat j :: usize) = j" using small_index [of CAP j] assms(1) by (simp add: fo_inv_def)
    then have "of_nat j < i" using that by (simp add: word_less_nat_alt)
    then have "is_assigned B CAP (of_nat j) s" using f assms(3) by (auto simp: is_assigned_def)
    then show ?thesis using assigned_iff [OF assms(1)] j by auto
  qed
  ultimately show ?thesis using i by (auto intro!: position_first)
qed

lemma no_free:
  assumes "fo_inv B CAP s" "\<And>i. i < CAP \<Longrightarrow> bits_get B i (fo_id_bitmap s)"
  shows "position (\<lambda>y. y = None) (fo_abs B s) = None"
proof -
  have "fo_abs B s ! j \<noteq> None" if "j < unat CAP" for j
  proof -
    have "of_nat j < CAP" "unat (of_nat j :: usize) = j"
      using small_index [of CAP j] that assms(1) by (simp_all add: fo_inv_def word_less_nat_alt)
    then show ?thesis using assigned_iff [OF assms(1), of "of_nat j"] assms(2) [of "of_nat j"] by (simp add: is_assigned_def)
  qed
  then show ?thesis using assms(1) by (auto simp: in_set_conv_nth fo_inv_def position_none)
qed

lemma add_spec:
  assumes "fo_inv B CAP s" "fo_add B CAP x s = Ret (r, s')"
  shows "spec_fo (FoAdd x) (fo_abs B s) = Ret (FoId r, fo_abs B s') \<and> fo_inv B CAP s'"
proof (cases "bits_first_false_index B (fo_id_bitmap s)")
  case None
  then have "bits_get B i (fo_id_bitmap s)" if "i < CAP" for i
    using that assms(1) first_none [OF None, of i] by (auto simp: fo_inv_def)
  then show ?thesis using no_free [OF assms(1)] None assms by (simp add: fo_add_def)
next
  case (Some i)
  note f = first_some [OF Some]
  show ?thesis
  proof (cases "i < CAP")
    case True
    note p = first_free [OF assms(1) Some True]
    show ?thesis using p assms(2) Some True abs_put [OF assms(1) True conjunct2 [OF p] refl, of x] by (auto simp: fo_add_def)
  next
    case False
    then have "bits_get B j (fo_id_bitmap s)" if "j < CAP" for j using f that by auto
    then show ?thesis using no_free [OF assms(1)] Some False assms by (simp add: fo_add_def)
  qed
qed

lemma run_spec:
  assumes "fo_inv B CAP s"
  shows "case run_fo B CAP c s of
      Panic \<Rightarrow> spec_fo c (fo_abs B s) = Panic
    | Ret (r, s') \<Rightarrow> spec_fo c (fo_abs B s) = Ret (r, fo_abs B s') \<and> fo_inv B CAP s'"
proof (cases c)
  case (FoAdd x)
  show ?thesis using fo_add_returns [of B CAP x s] add_spec [OF assms, of x] by (auto simp: FoAdd)
next
  case (FoAddAt i x)
  show ?thesis
  proof (cases "i < CAP \<and> \<not> is_assigned B CAP i s")
    case True
    then have n: "fo_abs B s ! unat i = None" "\<not> length (fo_abs B s) \<le> unat i"
      using assigned_iff [OF assms] fo_less_iff [OF assms] by auto
    then show ?thesis using True abs_put [OF assms _ n(1) refl, of x] by (simp add: FoAddAt fo_add_at_def)
  next
    case False
    then show ?thesis using assigned_iff [OF assms, of i] fo_less_iff [OF assms, of i] assms
      by (auto simp: FoAddAt fo_add_at_def)
  qed
next
  case (FoRemove i)
  show ?thesis
    using assigned_iff [OF assms, of i] assigned_object [OF assms, of i] abs_take [OF assms _ refl, of i] assms
    by (cases "is_assigned B CAP i s") (auto simp: FoRemove fo_remove_def list_update_same_conv)
next
  case (FoGetMut i f)
  show ?thesis
    using assigned_iff [OF assms, of i] assigned_object [OF assms, of i] abs_change [OF assms _ refl, of i] assms
    by (cases "is_assigned B CAP i s") (auto simp: FoGetMut fo_get_mut_def list_update_same_conv)
next
  case (FoGet i)
  show ?thesis
    using assigned_iff [OF assms, of i] assigned_object [OF assms, of i] assms
    by (cases "is_assigned B CAP i s") (auto simp: FoGet fo_get_def)
qed (use assms in \<open>simp add: fo_inv_def\<close>)

lemma results_spec: "fo_inv B CAP s \<Longrightarrow> fo_results (run_fo B CAP) cs s = fo_results spec_fo cs (fo_abs B s)"
proof (induction cs arbitrary: s)
  case (Cons c cs)
  then show ?case using run_spec [OF Cons.prems, of c] by (auto split: outcome.splits)
qed simp

end

text \<open>
  C38: The container behaves as an array of \<open>CAP\<close> optional objects: \<open>add\<close> takes the first free number and fails only if
  there is none, \<open>add_at\<close> fails if the number is taken and panics if it is not below \<open>CAP\<close>, \<open>get\<close> and \<open>remove\<close> give the
  object that was put in last, and \<open>count\<close> is the number of objects. This holds of every sequence of calls on a new
  container, over every lawful bitmap.
\<close>

theorem flatten_objects_refines:
  assumes "bitmap B" "fo_new B CAP = Ret s"
  shows "fo_results (run_fo B CAP) calls s = fo_results spec_fo calls (replicate (unat CAP) None)"
  using bitmap.results_spec [OF assms(1), of CAP s calls] bitmap.new_inv [OF assms] by simp

text \<open>A bitmap as a list of its true bits.\<close>

definition set_bitmap :: "usize list BitmapOps" where
  "set_bitmap = \<lparr>bits_zeroed = [], bits_get = (\<lambda>i b. i \<in> set b),
     bits_set = (\<lambda>i v b. if v then i # b else removeAll i b),
     bits_first_false_index = (\<lambda>b. map_option of_nat (position (\<lambda>j. of_nat j \<notin> set b) [0..<1024]))\<rparr>"

lemma position_some: "position p xs = Some i \<Longrightarrow> i < length xs \<and> p (xs ! i) \<and> (\<forall>j<i. \<not> p (xs ! j))"
  by (induction xs arbitrary: i) (auto simp: nth_Cons split: if_splits nat.splits)

interpretation listed: bitmap set_bitmap
proof (unfold_locales, goal_cases)
  case (3 b i)
  then obtain k where k: "position (\<lambda>j. (of_nat j :: usize) \<notin> set b) [0..<1024] = Some k" "i = of_nat k"
    by (auto simp: set_bitmap_def)
  note p = position_some [OF k(1)]
  have i: "unat i = k" using p k(2) by (simp add: unat_of_nat)
  have "j \<in> set b" if "j < i" for j
    using p that i by (auto simp: word_less_nat_alt dest!: spec [of _ "unat j"])
  then show ?case using p i k(2) by (auto simp: set_bitmap_def word_less_nat_alt)
next
  case (4 b i)
  then have "\<forall>k\<in>{0..<1024}. (of_nat k :: usize) \<in> set b" by (simp add: set_bitmap_def position_none)
  then have "unat i < 1024 \<longrightarrow> (of_nat (unat i) :: usize) \<in> set b" by (metis atLeastLessThan_iff le0)
  then show ?case using 4(2) by (simp add: set_bitmap_def word_less_nat_alt)
qed (auto simp: set_bitmap_def)

theorem flatten_objects_refines_witness:
  "\<exists>s. fo_new set_bitmap 2 = Ret s \<and>
     fo_results (run_fo set_bitmap 2) [FoAdd CHR ''a'', FoAdd CHR ''b'', FoAdd CHR ''c'', FoRemove 0, FoAdd CHR ''d'', FoGet 0, FoCount, FoAddAt 2 CHR ''e''] s
     = [Ret (FoId (Some 0)), Ret (FoId (Some 1)), Ret (FoId None), Ret (FoObject (Some CHR ''a'')), Ret (FoId (Some 0)),
        Ret (FoObject (Some CHR ''d'')), Ret (FoNumber 2), Panic]"
proof -
  obtain s :: "(char, usize list) FlattenObjects" where s: "fo_new set_bitmap 2 = Ret s" by (simp add: fo_new_def)
  have two: "replicate 2 x = [x, x]" for x :: "char option" by (simp add: numeral_2_eq_2)
  show ?thesis
    by (rule exI [of _ s], rule conjI [OF s], unfold flatten_objects_refines [OF listed.bitmap_axioms s]) (simp add: two)
qed

end
