(* ===== verification/Pipe.thy ===== *)
theory Pipe
  imports AxErrno
begin

text \<open>
  Model of the pipes of the C interface (src/ulib/libax/src/cbindings/pipe.rs): the ring buffer, the two ends and the loops of
  \<open>read\<close> and \<open>write\<close>. The mutex around the buffer makes every round of these loops one step (its mutual exclusion is proved
  in AxSync); between two rounds the other tasks run, in any order. The theorems are that bytes come out in the order in
  which they were put in, under every interleaving, and that a read of just the bytes there are does not come back.
\<close>

section \<open>The ring buffer\<close>

datatype RingBufferStatus = Full | Empty | Normal

definition RING_BUFFER_SIZE :: usize where
  "RING_BUFFER_SIZE = 256"

record PipeRingBuffer =
  rb_arr :: "u8 list"
  rb_head :: usize
  rb_tail :: usize
  rb_status :: RingBufferStatus

definition ring_buffer_new :: PipeRingBuffer where
  "ring_buffer_new = \<lparr>rb_arr = replicate (unat RING_BUFFER_SIZE) 0, rb_head = 0, rb_tail = 0, rb_status = Empty\<rparr>"

definition write_byte :: "u8 \<Rightarrow> PipeRingBuffer \<Rightarrow> PipeRingBuffer outcome" where
  "write_byte byte b =
     (let b = b\<lparr>rb_status := Normal\<rparr>
      in if unat (rb_tail b) < length (rb_arr b)
         then let b = b\<lparr>rb_arr := (rb_arr b)[unat (rb_tail b) := byte], rb_tail := (rb_tail b + 1) mod RING_BUFFER_SIZE\<rparr>
              in Ret (if rb_tail b = rb_head b then b\<lparr>rb_status := Full\<rparr> else b)
         else Panic)"

definition read_byte :: "PipeRingBuffer \<Rightarrow> (u8 \<times> PipeRingBuffer) outcome" where
  "read_byte b =
     (let b = b\<lparr>rb_status := Normal\<rparr>
      in if unat (rb_head b) < length (rb_arr b)
         then let c = rb_arr b ! unat (rb_head b);
                  b = b\<lparr>rb_head := (rb_head b + 1) mod RING_BUFFER_SIZE\<rparr>
              in Ret (c, if rb_head b = rb_tail b then b\<lparr>rb_status := Empty\<rparr> else b)
         else Panic)"

definition available_read :: "PipeRingBuffer \<Rightarrow> usize" where
  "available_read b =
     (if rb_status b = Empty then 0
      else if rb_head b < rb_tail b then rb_tail b - rb_head b
      else rb_tail b + RING_BUFFER_SIZE - rb_head b)"

definition available_write :: "PipeRingBuffer \<Rightarrow> usize" where
  "available_write b = (if rb_status b = Full then 0 else RING_BUFFER_SIZE - available_read b)"

section \<open>The two ends\<close>

text \<open>
  The buffer behind its \<open>Arc\<close>, with the number of the ends that hold it. An end is its flag \<open>readable\<close>; the operations
  below are those of the two ends of one pipe.
\<close>

record PipeShared =
  ps_buffer :: PipeRingBuffer
  ps_strong :: nat

record Pipe =
  pp_readable :: bool

definition pipe_new :: "Pipe \<times> Pipe \<times> PipeShared" where
  "pipe_new = (\<lparr>pp_readable = True\<rparr>, \<lparr>pp_readable = False\<rparr>, \<lparr>ps_buffer = ring_buffer_new, ps_strong = 2\<rparr>)"

definition pipe_writable :: "Pipe \<Rightarrow> bool" where
  "pipe_writable p \<longleftrightarrow> \<not> pp_readable p"

definition write_end_close :: "PipeShared \<Rightarrow> bool" where
  "write_end_close sh \<longleftrightarrow> ps_strong sh = 1"

text \<open>Dropping an end drops its reference to the buffer.\<close>

definition pipe_drop :: "PipeShared \<Rightarrow> PipeShared" where
  "pipe_drop sh = sh\<lparr>ps_strong := ps_strong sh - 1\<rparr>"

text \<open>
  The inner loop of \<open>read\<close>: at most \<open>k\<close> bytes into \<open>buf\<close> from \<open>read_size\<close> on. The flag is True when the function returns from
  inside the loop.
\<close>

fun read_bytes :: "nat \<Rightarrow> u8 list \<Rightarrow> nat \<Rightarrow> PipeRingBuffer \<Rightarrow> ((bool \<times> u8 list \<times> nat) \<times> PipeRingBuffer) outcome" where
  "read_bytes 0 buf read_size b = Ret ((False, buf, read_size), b)"
| "read_bytes (Suc k) buf read_size b =
     (if read_size = length buf then Ret ((True, buf, read_size), b)
      else out_then (read_byte b) (\<lambda>(c, b). read_bytes k (buf[read_size := c]) (Suc read_size) b))"

text \<open>One round of the loop of \<open>read\<close>, under the lock. The flag is True when the function returns \<open>Ok(read_size)\<close>.\<close>

definition pipe_read_round :: "u8 list \<Rightarrow> nat \<Rightarrow> PipeShared \<Rightarrow> ((bool \<times> u8 list \<times> nat) \<times> PipeShared) outcome" where
  "pipe_read_round buf read_size sh =
     (let loop_read = available_read (ps_buffer sh)
      in if loop_read = 0
         then if write_end_close sh then Ret ((True, buf, read_size), sh) else Ret ((False, buf, read_size), sh)
         else out_then (read_bytes (unat loop_read) buf read_size (ps_buffer sh)) (\<lambda>(r, b). Ret (r, sh\<lparr>ps_buffer := b\<rparr>)))"

fun write_bytes :: "nat \<Rightarrow> u8 list \<Rightarrow> nat \<Rightarrow> PipeRingBuffer \<Rightarrow> ((bool \<times> nat) \<times> PipeRingBuffer) outcome" where
  "write_bytes 0 buf write_size b = Ret ((False, write_size), b)"
| "write_bytes (Suc k) buf write_size b =
     (if write_size = length buf then Ret ((True, write_size), b)
      else out_then (write_byte (buf ! write_size) b) (\<lambda>b. write_bytes k buf (Suc write_size) b))"

definition pipe_write_round :: "u8 list \<Rightarrow> nat \<Rightarrow> PipeShared \<Rightarrow> ((bool \<times> nat) \<times> PipeShared) outcome" where
  "pipe_write_round buf write_size sh =
     (let loop_write = available_write (ps_buffer sh)
      in if loop_write = 0 then Ret ((False, write_size), sh)
         else out_then (write_bytes (unat loop_write) buf write_size (ps_buffer sh)) (\<lambda>(r, b). Ret (r, sh\<lparr>ps_buffer := b\<rparr>)))"

text \<open>The entries of \<open>read\<close> and \<open>write\<close>: the wrong end gives \<open>EPERM\<close>, otherwise the loop starts with nothing transferred.\<close>

definition pipe_read_start :: "Pipe \<Rightarrow> u8 list \<Rightarrow> (LinuxError, u8 list \<times> nat) result" where
  "pipe_read_start p buf = (if \<not> pp_readable p then Err (LinuxError 1) else Ok (buf, 0))"

definition pipe_write_start :: "Pipe \<Rightarrow> u8 list \<Rightarrow> (LinuxError, u8 list \<times> nat) result" where
  "pipe_write_start p buf = (if \<not> pipe_writable p then Err (LinuxError 1) else Ok (buf, 0))"

definition pipe_poll :: "Pipe \<Rightarrow> PipeShared \<Rightarrow> bool \<times> bool" where
  "pipe_poll p sh = (pp_readable p \<and> 0 < available_read (ps_buffer sh), pipe_writable p \<and> 0 < available_write (ps_buffer sh))"

section \<open>A reader and a writer\<close>

text \<open>
  A pipe that one task reads and another one writes. The calls in progress hold their buffer and how far they are;
  \<open>sys_sent\<close> and \<open>sys_received\<close> are the bytes of the calls that have returned. A step that is not enabled changes nothing,
  so that a list of steps is any interleaving of the two tasks. A task closes its end between two calls.
\<close>

record PipeSys =
  sys_ends :: "Pipe \<times> Pipe"
  sys_pipe :: PipeShared
  sys_reading :: "(u8 list \<times> nat) option"
  sys_writing :: "(u8 list \<times> nat) option"
  sys_received :: "u8 list"
  sys_sent :: "u8 list"
  sys_open :: "bool \<times> bool"

datatype PipeStep = StartRead "u8 list" | ReadRound | StartWrite "u8 list" | WriteRound | CloseReader | CloseWriter

definition pipe_start :: PipeSys where
  "pipe_start = (let (r, w, sh) = pipe_new in
     \<lparr>sys_ends = (r, w), sys_pipe = sh, sys_reading = None, sys_writing = None, sys_received = [], sys_sent = [], sys_open = (True, True)\<rparr>)"

fun pipe_step :: "PipeStep \<Rightarrow> PipeSys \<Rightarrow> PipeSys outcome" where
  "pipe_step (StartRead buf) s =
     Ret (if fst (sys_open s) \<and> sys_reading s = None
          then (case pipe_read_start (fst (sys_ends s)) buf of Inl _ \<Rightarrow> s | Inr r \<Rightarrow> s\<lparr>sys_reading := Some r\<rparr>) else s)"
| "pipe_step ReadRound s =
     (case sys_reading s of
        None \<Rightarrow> Ret s
      | Some (buf, n) \<Rightarrow>
          out_then (pipe_read_round buf n (sys_pipe s)) (\<lambda>((ret, buf, n), sh).
            Ret (if ret then s\<lparr>sys_pipe := sh, sys_reading := None, sys_received := sys_received s @ take n buf\<rparr>
                 else s\<lparr>sys_pipe := sh, sys_reading := Some (buf, n)\<rparr>)))"
| "pipe_step (StartWrite buf) s =
     Ret (if snd (sys_open s) \<and> sys_writing s = None
          then (case pipe_write_start (snd (sys_ends s)) buf of Inl _ \<Rightarrow> s | Inr r \<Rightarrow> s\<lparr>sys_writing := Some r\<rparr>) else s)"
| "pipe_step WriteRound s =
     (case sys_writing s of
        None \<Rightarrow> Ret s
      | Some (buf, n) \<Rightarrow>
          out_then (pipe_write_round buf n (sys_pipe s)) (\<lambda>((ret, n), sh).
            Ret (if ret then s\<lparr>sys_pipe := sh, sys_writing := None, sys_sent := sys_sent s @ take n buf\<rparr>
                 else s\<lparr>sys_pipe := sh, sys_writing := Some (buf, n)\<rparr>)))"
| "pipe_step CloseReader s =
     Ret (if fst (sys_open s) \<and> sys_reading s = None
          then s\<lparr>sys_pipe := pipe_drop (sys_pipe s), sys_open := (False, snd (sys_open s))\<rparr> else s)"
| "pipe_step CloseWriter s =
     Ret (if snd (sys_open s) \<and> sys_writing s = None
          then s\<lparr>sys_pipe := pipe_drop (sys_pipe s), sys_open := (fst (sys_open s), False)\<rparr> else s)"

fun pipe_steps :: "PipeStep list \<Rightarrow> PipeSys \<Rightarrow> PipeSys outcome" where
  "pipe_steps [] s = Ret s"
| "pipe_steps (e # es) s = out_then (pipe_step e s) (pipe_steps es)"

section \<open>The ring buffer is a queue\<close>

text \<open>The bytes in the buffer, in order, and the relation between a buffer and the queue that it stands for.\<close>

definition rb_content :: "PipeRingBuffer \<Rightarrow> u8 list" where
  "rb_content b = map (\<lambda>k. rb_arr b ! ((unat (rb_head b) + k) mod 256)) [0..<unat (available_read b)]"

definition rb_holds :: "PipeRingBuffer \<Rightarrow> u8 list \<Rightarrow> bool" where
  "rb_holds b xs \<longleftrightarrow> length (rb_arr b) = 256 \<and> unat (rb_head b) < 256 \<and> length xs \<le> 256 \<and>
     unat (rb_tail b) = (unat (rb_head b) + length xs) mod 256 \<and>
     rb_status b = (if length xs = 0 then Empty else if length xs = 256 then Full else Normal) \<and>
     (\<forall>k<length xs. rb_arr b ! ((unat (rb_head b) + k) mod 256) = xs ! k)"

lemma mod_slots_distinct: "k < n \<Longrightarrow> n < m \<Longrightarrow> (h + k) mod m \<noteq> (h + n) mod (m::nat)"
proof
  assume "k < n" "n < m" "(h + k) mod m = (h + n) mod m"
  then have "m dvd (h + n) - (h + k)" using mod_eq_dvd_iff_nat [of "h + k" "h + n" m] by simp
  then show False using \<open>k < n\<close> \<open>n < m\<close> by (simp add: nat_dvd_not_less)
qed

lemma mod_wraps_once: "h < (m::nat) \<Longrightarrow> n \<le> m \<Longrightarrow> (h + n) mod m = (if h + n < m then h + n else h + n - m)"
  by (simp add: le_mod_geq mod_if)

lemma unat_next: "unat i < 256 \<Longrightarrow> unat ((i + 1) mod RING_BUFFER_SIZE) = (unat i + 1) mod 256"
  by (simp add: RING_BUFFER_SIZE_def unat_mod unat_add_nowrap)

lemma ring_new_holds: "rb_holds ring_buffer_new []"
  by (simp add: rb_holds_def ring_buffer_new_def RING_BUFFER_SIZE_def)

lemma available_read_holds:
  assumes "rb_holds b xs"
  shows "unat (available_read b) = length xs"
proof -
  let ?h = "unat (rb_head b)" and ?t = "unat (rb_tail b)"
  have h: "?h < 256" "?t = (if ?h + length xs < 256 then ?h + length xs else ?h + length xs - 256)" "length xs \<le> 256"
    using assms mod_wraps_once [of ?h 256 "length xs"] by (auto simp: rb_holds_def)
  show ?thesis
  proof (cases "?h < ?t")
    case True
    then show ?thesis using assms h by (auto simp: available_read_def rb_holds_def word_less_nat_alt unat_sub word_le_nat_alt split: if_splits)
  next
    case False
    have "unat (rb_tail b + RING_BUFFER_SIZE) = ?t + 256" using h by (subst unat_add_nowrap) (auto simp: RING_BUFFER_SIZE_def split: if_splits)
    moreover have "unat (rb_tail b + RING_BUFFER_SIZE - rb_head b) = ?t + 256 - ?h"
      using calculation h by (subst unat_sub) (auto simp: word_le_nat_alt)
    ultimately show ?thesis using assms h False by (auto simp: available_read_def rb_holds_def word_less_nat_alt split: if_splits)
  qed
qed

lemma available_write_holds: "rb_holds b xs \<Longrightarrow> unat (available_write b) = 256 - length xs"
  using available_read_holds [of b xs]
  by (auto simp: available_write_def RING_BUFFER_SIZE_def unat_sub word_le_nat_alt rb_holds_def split: if_splits)

lemma content_holds: "rb_holds b xs \<Longrightarrow> rb_content b = xs"
  using available_read_holds [of b xs] by (auto simp: rb_content_def rb_holds_def intro!: nth_equalityI)

text \<open>After \<open>n\<close> bytes from \<open>h\<close> on the buffer is back at \<open>h\<close> only if it has gone round.\<close>

lemma back_at_start: "h < 256 \<Longrightarrow> n \<le> 256 \<Longrightarrow> (h + n) mod 256 = h \<longleftrightarrow> n = 0 \<or> n = (256::nat)"
  by (subst mod_wraps_once) auto

lemma write_byte_holds:
  assumes "rb_holds b xs" "length xs < 256"
  shows "\<exists>b'. write_byte x b = Ret b' \<and> rb_holds b' (xs @ [x])"
proof -
  let ?h = "unat (rb_head b)" and ?t = "unat (rb_tail b)" and ?n = "length xs"
  let ?tail = "(rb_tail b + 1) mod RING_BUFFER_SIZE"
  have h: "?h < 256" "?t = (?h + ?n) mod 256" "length (rb_arr b) = 256" "\<And>k. k < ?n \<Longrightarrow> rb_arr b ! ((?h + k) mod 256) = xs ! k"
    using assms(1) by (auto simp: rb_holds_def)
  have t: "?t < 256" by (simp add: h(2))
  have tail: "unat ?tail = (?h + Suc ?n) mod 256" using unat_next [OF t] by (simp add: h(2) mod_Suc_eq)
  have full: "?tail = rb_head b \<longleftrightarrow> Suc ?n = 256"
    using back_at_start [OF h(1), of "Suc ?n"] assms(2) tail by (auto simp: word_unat_eq_iff)
  have "(rb_arr b)[?t := x] ! ((?h + k) mod 256) = (xs @ [x]) ! k" if "k < Suc ?n" for k
    using that h mod_slots_distinct [of k ?n 256 ?h] assms(2) t by (cases "k = ?n") (auto simp: nth_append)
  then show ?thesis using h t tail full assms(2)
    by (auto simp: write_byte_def Let_def rb_holds_def)
qed

lemma read_byte_holds:
  assumes "rb_holds b (x # xs)"
  shows "\<exists>b'. read_byte b = Ret (x, b') \<and> rb_holds b' xs"
proof -
  let ?h = "unat (rb_head b)" and ?t = "unat (rb_tail b)" and ?n = "length xs"
  let ?head = "(rb_head b + 1) mod RING_BUFFER_SIZE"
  have h: "?h < 256" "?t = (?h + Suc ?n) mod 256" "length (rb_arr b) = 256" "Suc ?n \<le> 256"
    "\<And>k. k < Suc ?n \<Longrightarrow> rb_arr b ! ((?h + k) mod 256) = (x # xs) ! k"
    using assms by (auto simp: rb_holds_def)
  have head: "unat ?head = (?h + 1) mod 256" by (rule unat_next [OF h(1)])
  have t: "?t = (unat ?head + ?n) mod 256" by (simp add: head h(2) mod_add_left_eq)
  have empty: "?head = rb_tail b \<longleftrightarrow> ?n = 0"
    using back_at_start [of "unat ?head" ?n] h(4) t head by (auto simp: word_unat_eq_iff)
  have "rb_arr b ! ((unat ?head + k) mod 256) = xs ! k" if "k < ?n" for k
    using h(5) [of "Suc k"] that by (simp add: head mod_add_left_eq)
  moreover have "rb_arr b ! ?h = x" using h(1) h(5) [of 0] by simp
  ultimately show ?thesis using h(1,3,4) t empty head
    by (auto simp: read_byte_def Let_def rb_holds_def)
qed

section \<open>The loops\<close>

lemma write_bytes_holds:
  assumes "rb_holds b xs" "k \<le> 256 - length xs" "n \<le> length buf"
  shows "\<exists>n' b'. write_bytes k buf n b = Ret ((length buf < n + k, n'), b') \<and> n' = min (n + k) (length buf) \<and>
    rb_holds b' (xs @ take (n' - n) (drop n buf))"
  using assms
proof (induction k arbitrary: b xs n)
  case (Suc k)
  show ?case
  proof (cases "n = length buf")
    case False
    have "length xs < 256" using Suc.prems(2) by simp
    then obtain b1 where b1: "write_byte (buf ! n) b = Ret b1" "rb_holds b1 (xs @ [buf ! n])"
      using write_byte_holds [OF Suc.prems(1)] by blast
    obtain n' b' where r: "write_bytes k buf (Suc n) b1 = Ret ((length buf < Suc n + k, n'), b')"
      "n' = min (Suc n + k) (length buf)" "rb_holds b' ((xs @ [buf ! n]) @ take (n' - Suc n) (drop (Suc n) buf))"
      using Suc.IH [OF b1(2), of "Suc n"] Suc.prems(2,3) False by fastforce
    have "n < length buf" "n < n'" using r(2) False Suc.prems(3) by auto
    then have "take (n' - n) (drop n buf) = buf ! n # take (n' - Suc n) (drop (Suc n) buf)"
      by (simp add: Cons_nth_drop_Suc [symmetric] take_Cons')
    then show ?thesis using r b1(1) False by auto
  qed (use Suc.prems in auto)
qed auto

lemma read_bytes_holds:
  assumes "rb_holds b xs" "k \<le> length xs" "n \<le> length buf"
  shows "\<exists>buf' n' b'. read_bytes k buf n b = Ret ((length buf < n + k, buf', n'), b') \<and>
    n' = min (n + k) (length buf) \<and> length buf' = length buf \<and>
    take n' buf' = take n buf @ take (n' - n) xs \<and> rb_holds b' (drop (n' - n) xs)"
  using assms
proof (induction k arbitrary: b xs n buf)
  case (Suc k)
  show ?case
  proof (cases "n = length buf")
    case False
    obtain x ys where xs: "xs = x # ys" using Suc.prems(2) by (cases xs) auto
    obtain b1 where b1: "read_byte b = Ret (x, b1)" "rb_holds b1 ys"
      using read_byte_holds Suc.prems(1) xs by blast
    obtain buf' n' b' where r: "read_bytes k (buf[n := x]) (Suc n) b1 = Ret ((length buf < Suc n + k, buf', n'), b')"
      "n' = min (Suc n + k) (length buf)" "length buf' = length buf"
      "take n' buf' = take (Suc n) (buf[n := x]) @ take (n' - Suc n) ys" "rb_holds b' (drop (n' - Suc n) ys)"
      using Suc.IH [OF b1(2), of "Suc n" "buf[n := x]"] Suc.prems False xs by auto
    have "take (Suc n) (buf[n := x]) = take n buf @ [x]" "n' - n = Suc (n' - Suc n)"
      using False Suc.prems(3) r(2) by (auto simp: take_Suc_conv_app_nth)
    then show ?thesis using r b1(1) False xs by auto
  qed (use Suc.prems in auto)
qed auto

text \<open>
  A round of \<open>write\<close> puts in as much as fits, a round of \<open>read\<close> takes out as much as the caller wants. Either call returns
  when it finds, with bytes or space still left, that it is done; a read also when nothing is left and the other end is
  closed.
\<close>

lemma write_round_holds:
  assumes "rb_holds (ps_buffer sh) xs" "n \<le> length buf"
  defines "n' \<equiv> min (n + (256 - length xs)) (length buf)"
  shows "\<exists>b'. pipe_write_round buf n sh = Ret ((length buf < n + (256 - length xs), n'), sh\<lparr>ps_buffer := b'\<rparr>) \<and>
    rb_holds b' (xs @ take (n' - n) (drop n buf))"
proof (cases "available_write (ps_buffer sh) = 0")
  case True
  then have "256 - length xs = 0" using available_write_holds [OF assms(1)] by simp
  then show ?thesis using True assms by (auto simp: pipe_write_round_def n'_def intro!: exI [of _ "ps_buffer sh"])
next
  case False
  then show ?thesis using write_bytes_holds [OF assms(1) order_refl assms(2)] available_write_holds [OF assms(1)]
    by (auto simp: pipe_write_round_def n'_def)
qed

lemma read_round_holds:
  assumes "rb_holds (ps_buffer sh) xs" "n \<le> length buf"
  defines "n' \<equiv> min (n + length xs) (length buf)"
  shows "\<exists>buf' b'. pipe_read_round buf n sh =
      Ret ((length buf < n + length xs \<or> xs = [] \<and> write_end_close sh, buf', n'), sh\<lparr>ps_buffer := b'\<rparr>) \<and>
    length buf' = length buf \<and> take n' buf' = take n buf @ take (n' - n) xs \<and> rb_holds b' (drop (n' - n) xs)"
proof (cases "available_read (ps_buffer sh) = 0")
  case True
  then have "xs = []" using available_read_holds [OF assms(1)] by simp
  then show ?thesis using True assms
    by (auto simp: pipe_read_round_def n'_def intro!: exI [of _ buf] exI [of _ "ps_buffer sh"])
next
  case False
  then have "xs \<noteq> []" using available_read_holds [OF assms(1)] by (auto simp: unat_eq_0)
  then show ?thesis using False read_bytes_holds [OF assms(1) order_refl assms(2)] available_read_holds [OF assms(1)]
    by (auto simp: pipe_read_round_def n'_def)
qed

section \<open>Every interleaving\<close>

text \<open>All the bytes that have gone in and that have come out, those of a call in progress included.\<close>

definition bytes_sent :: "PipeSys \<Rightarrow> u8 list" where
  "bytes_sent s = sys_sent s @ (case sys_writing s of None \<Rightarrow> [] | Some (buf, n) \<Rightarrow> take n buf)"

definition bytes_received :: "PipeSys \<Rightarrow> u8 list" where
  "bytes_received s = sys_received s @ (case sys_reading s of None \<Rightarrow> [] | Some (buf, n) \<Rightarrow> take n buf)"

definition pipe_inv :: "PipeSys \<Rightarrow> bool" where
  "pipe_inv s \<longleftrightarrow> rb_holds (ps_buffer (sys_pipe s)) (rb_content (ps_buffer (sys_pipe s))) \<and>
     bytes_sent s = bytes_received s @ rb_content (ps_buffer (sys_pipe s)) \<and>
     pred_option (\<lambda>(buf, n). n \<le> length buf) (sys_reading s) \<and> pred_option (\<lambda>(buf, n). n \<le> length buf) (sys_writing s)"

lemma read_step_inv:
  assumes "pipe_inv s" "sys_reading s = Some (buf, n)"
  shows "\<exists>s'. pipe_step ReadRound s = Ret s' \<and> pipe_inv s'"
proof -
  let ?xs = "rb_content (ps_buffer (sys_pipe s))"
  have a: "rb_holds (ps_buffer (sys_pipe s)) ?xs" "n \<le> length buf" "bytes_sent s = bytes_received s @ ?xs"
    "pred_option (\<lambda>(buf, n). n \<le> length buf) (sys_writing s)"
    using assms by (auto simp: pipe_inv_def)
  obtain ret buf' n' b' where r: "pipe_read_round buf n (sys_pipe s) = Ret ((ret, buf', n'), (sys_pipe s)\<lparr>ps_buffer := b'\<rparr>)"
    "n' \<le> length buf'" "take n' buf' = take n buf @ take (n' - n) ?xs" "rb_holds b' (drop (n' - n) ?xs)"
    using read_round_holds [OF a(1,2)] by (metis min.cobounded2)
  have "bytes_sent s = sys_received s @ take n' buf' @ rb_content b'"
    using a(3) assms(2) by (simp add: bytes_received_def r(3) content_holds [OF r(4)])
  then show ?thesis using assms(2) r a(4) content_holds [OF r(4)]
    by (cases ret) (simp_all add: pipe_inv_def bytes_received_def bytes_sent_def)
qed

lemma write_step_inv:
  assumes "pipe_inv s" "sys_writing s = Some (buf, n)"
  shows "\<exists>s'. pipe_step WriteRound s = Ret s' \<and> pipe_inv s'"
proof -
  let ?xs = "rb_content (ps_buffer (sys_pipe s))"
  have a: "rb_holds (ps_buffer (sys_pipe s)) ?xs" "n \<le> length buf" "bytes_sent s = bytes_received s @ ?xs"
    "pred_option (\<lambda>(buf, n). n \<le> length buf) (sys_reading s)"
    using assms by (auto simp: pipe_inv_def)
  obtain ret n' b' where r: "pipe_write_round buf n (sys_pipe s) = Ret ((ret, n'), (sys_pipe s)\<lparr>ps_buffer := b'\<rparr>)"
    "n \<le> n'" "n' \<le> length buf" "rb_holds b' (?xs @ take (n' - n) (drop n buf))"
    using write_round_holds [OF a(1,2)] a(2) by (metis le_add1 min.boundedI min.cobounded2)
  have "take n' buf = take n buf @ take (n' - n) (drop n buf)" using r(2) by (simp add: take_add [symmetric])
  then have "sys_sent s @ take n' buf = bytes_received s @ rb_content b'"
    using a(3) assms(2) by (simp add: bytes_sent_def content_holds [OF r(4)])
  then show ?thesis using assms(2) r a(4) content_holds [OF r(4)]
    by (cases ret) (simp_all add: pipe_inv_def bytes_received_def bytes_sent_def)
qed

lemma pipe_step_inv:
  assumes "pipe_inv s"
  shows "\<exists>s'. pipe_step e s = Ret s' \<and> pipe_inv s'"
proof (cases e)
  case ReadRound
  then show ?thesis using read_step_inv [OF assms] assms by (cases "sys_reading s") auto
next
  case WriteRound
  then show ?thesis using write_step_inv [OF assms] assms by (cases "sys_writing s") auto
qed (use assms in \<open>auto simp: pipe_inv_def bytes_sent_def bytes_received_def pipe_read_start_def pipe_write_start_def pipe_drop_def\<close>)

lemma pipe_steps_inv: "pipe_inv s \<Longrightarrow> \<exists>s'. pipe_steps es s = Ret s' \<and> pipe_inv s'"
proof (induction es arbitrary: s)
  case (Cons e es)
  then show ?case using pipe_step_inv [OF Cons.prems, of e] by fastforce
qed simp

lemma pipe_start_inv: "pipe_inv pipe_start"
  using ring_new_holds content_holds [OF ring_new_holds]
  by (simp add: pipe_inv_def pipe_start_def pipe_new_def bytes_sent_def bytes_received_def)

text \<open>
  C7: Whatever the order in which a writer and a reader of a pipe take their steps, nothing panics, and the bytes that were
  written are the bytes that were read followed by those in the buffer, at most 256 of them: no byte is lost, doubled or
  out of order.
\<close>

theorem pipe_fifo:
  "\<exists>s. pipe_steps steps pipe_start = Ret s \<and> bytes_sent s = bytes_received s @ rb_content (ps_buffer (sys_pipe s)) \<and>
    length (rb_content (ps_buffer (sys_pipe s))) \<le> 256"
  using pipe_steps_inv [OF pipe_start_inv, of steps] by (auto simp: pipe_inv_def rb_holds_def)

section \<open>A read of just the bytes there are\<close>

text \<open>The system after a write of \<open>data\<close> has returned, and then after the first round of a read of as many bytes.\<close>

lemma write_returns:
  assumes "length data < 256"
  shows "\<exists>b. pipe_steps [StartWrite data, WriteRound] pipe_start =
    Ret (pipe_start\<lparr>sys_pipe := \<lparr>ps_buffer = b, ps_strong = 2\<rparr>, sys_sent := data\<rparr>) \<and> rb_holds b data"
proof -
  let ?sh = "\<lparr>ps_buffer = ring_buffer_new, ps_strong = 2\<rparr>"
  obtain b where "pipe_write_round data 0 ?sh = Ret ((True, length data), ?sh\<lparr>ps_buffer := b\<rparr>)" "rb_holds b data"
    using write_round_holds [of ?sh "[]" 0 data] ring_new_holds assms by auto
  then show ?thesis by (auto simp: pipe_start_def pipe_new_def pipe_write_start_def pipe_writable_def)
qed

lemma exact_read_first:
  assumes "rb_holds b data" "length buf = length data" "data \<noteq> []"
  defines "s \<equiv> pipe_start\<lparr>sys_pipe := \<lparr>ps_buffer = b, ps_strong = 2\<rparr>, sys_sent := data\<rparr>"
  shows "\<exists>b'. pipe_steps [StartRead buf, ReadRound] s =
    Ret (s\<lparr>sys_pipe := \<lparr>ps_buffer = b', ps_strong = 2\<rparr>, sys_reading := Some (data, length data)\<rparr>) \<and> rb_holds b' []"
proof -
  let ?sh = "\<lparr>ps_buffer = b, ps_strong = 2\<rparr>"
  obtain b' where "pipe_read_round buf 0 ?sh = Ret ((False, data, length data), ?sh\<lparr>ps_buffer := b'\<rparr>)" "rb_holds b' []"
    using read_round_holds [of ?sh data 0 buf] assms(1,2,3) by auto
  then show ?thesis by (auto simp: s_def pipe_start_def pipe_new_def pipe_read_start_def)
qed

lemma empty_read_round:
  "rb_holds b [] \<Longrightarrow> pipe_read_round buf n \<lparr>ps_buffer = b, ps_strong = k\<rparr> = Ret ((k = 1, buf, n), \<lparr>ps_buffer = b, ps_strong = k\<rparr>)"
  by (simp add: pipe_read_round_def write_end_close_def available_read_def rb_holds_def)

lemma pipe_steps_append: "pipe_steps (es @ fs) s = out_then (pipe_steps es s) (pipe_steps fs)"
proof (induction es arbitrary: s)
  case (Cons e es)
  then show ?case by (cases "pipe_step e s") simp_all
qed simp

lemma read_rounds_wait:
  assumes "rb_holds b []" "sys_pipe s = \<lparr>ps_buffer = b, ps_strong = 2\<rparr>" "sys_reading s = Some (buf, n)"
  shows "pipe_steps (replicate k ReadRound) s = Ret s"
proof (induction k)
  case (Suc k)
  have "pipe_step ReadRound s = Ret s" using assms by (simp add: empty_read_round)
  then show ?case using Suc by simp
qed simp

text \<open>
  C39: A read of just as many bytes as were written does not return, however often its task runs, while the writer
  neither writes more nor closes its end: the caller's buffer is full, but the loop waits for another byte before it looks
  at that. It returns once the writer closes its end.
\<close>

theorem pipe_exact_read_blocks:
  assumes "0 < length data" "length data < 256" "length buf = length data"
  shows "\<exists>s. pipe_steps ([StartWrite data, WriteRound] @ [StartRead buf, ReadRound] @ replicate k ReadRound) pipe_start = Ret s \<and>
    sys_sent s = data \<and> sys_reading s = Some (data, length data) \<and> sys_received s = [] \<and>
    (\<exists>s'. pipe_steps [CloseWriter, ReadRound] s = Ret s' \<and> sys_reading s' = None \<and> sys_received s' = data)"
proof -
  obtain b where b: "pipe_steps [StartWrite data, WriteRound] pipe_start =
      Ret (pipe_start\<lparr>sys_pipe := \<lparr>ps_buffer = b, ps_strong = 2\<rparr>, sys_sent := data\<rparr>)" "rb_holds b data"
    using write_returns [OF assms(2)] by blast
  let ?s = "pipe_start\<lparr>sys_pipe := \<lparr>ps_buffer = b, ps_strong = 2\<rparr>, sys_sent := data\<rparr>"
  obtain b' where b': "pipe_steps [StartRead buf, ReadRound] ?s =
      Ret (?s\<lparr>sys_pipe := \<lparr>ps_buffer = b', ps_strong = 2\<rparr>, sys_reading := Some (data, length data)\<rparr>)" "rb_holds b' []"
    using exact_read_first [OF b(2) assms(3)] assms(1) by auto
  let ?r = "?s\<lparr>sys_pipe := \<lparr>ps_buffer = b', ps_strong = 2\<rparr>, sys_reading := Some (data, length data)\<rparr>"
  have "pipe_steps ([StartWrite data, WriteRound] @ [StartRead buf, ReadRound] @ replicate k ReadRound) pipe_start = Ret ?r"
    using read_rounds_wait [OF b'(2), of ?r data "length data" k] unfolding pipe_steps_append b(1) by (simp add: b'(1) del: pipe_steps.simps)
  moreover have "\<exists>s'. pipe_steps [CloseWriter, ReadRound] ?r = Ret s' \<and> sys_reading s' = None \<and> sys_received s' = data"
    by (simp add: pipe_start_def pipe_new_def pipe_drop_def empty_read_round [OF b'(2)])
  ultimately show ?thesis by (simp add: pipe_start_def pipe_new_def del: pipe_steps.simps)
qed

theorem pipe_exact_read_blocks_witness:
  "\<exists>s. pipe_steps ([StartWrite [7], WriteRound] @ [StartRead [0], ReadRound] @ replicate 3 ReadRound) pipe_start = Ret s \<and>
    sys_reading s = Some ([7], 1)"
  using pipe_exact_read_blocks [of "[7]" "[0]" 3] by (auto simp del: pipe_steps.simps)

end
