(* ===== verification/FdOps.thy ===== *)
theory FdOps
  imports FlattenObjects Pipe
begin

text \<open>
  Model of the file descriptors of the C interface (src/ulib/libax/src/cbindings/fd_ops.rs, and \<open>ax_pipe\<close> of pipe.rs) over the
  container of FlattenObjects. The objects behind the descriptors are what implements the trait \<open>FileLike\<close>: a record of
  functions on the rest of the system, with the reference counting of their \<open>Arc\<close> as two of them. The constants of the C
  headers are generated by the build and are parameters. The lemmas give the contents of the table after every call, on
  the error paths too.
\<close>

section \<open>Model\<close>

type_synonym c_int = "32 word"

text \<open>\<open>None\<close> is a call that does not return. A read gives the caller's buffer back.\<close>

record ('f, 'w, 'st) FileLike =
  fl_read :: "'f \<Rightarrow> u8 list \<Rightarrow> 'w \<Rightarrow> (((LinuxError, nat) result \<times> u8 list) \<times> 'w) outcome option"
  fl_write :: "'f \<Rightarrow> u8 list \<Rightarrow> 'w \<Rightarrow> ((LinuxError, nat) result \<times> 'w) outcome option"
  fl_stat :: "'f \<Rightarrow> 'w \<Rightarrow> (LinuxError, 'st) result \<times> 'w"
  fl_set_nonblocking :: "'f \<Rightarrow> bool \<Rightarrow> 'w \<Rightarrow> (LinuxError, unit) result \<times> 'w"
  fl_clone :: "'f \<Rightarrow> 'w \<Rightarrow> 'w"
  fl_drop :: "'f \<Rightarrow> 'w \<Rightarrow> 'w"

text \<open>The table, the variable \<open>errno\<close> and the rest of the system.\<close>

record ('f, 'b, 'w) FdState =
  FD_TABLE :: "('f, 'b) FlattenObjects"
  errno :: c_int
  fd_world :: 'w

abbreviation AX_FILE_LIMIT :: usize where "AX_FILE_LIMIT \<equiv> 1024"

abbreviation EBADF :: LinuxError where "EBADF \<equiv> LinuxError 9"
abbreviation EFAULT :: LinuxError where "EFAULT \<equiv> LinuxError 14"
abbreviation EINVAL :: LinuxError where "EINVAL \<equiv> LinuxError 22"
abbreviation EMFILE :: LinuxError where "EMFILE \<equiv> LinuxError 24"

definition on_files :: "('w \<Rightarrow> 'w) \<Rightarrow> ('f, 'b, 'w) FdState \<Rightarrow> ('f, 'b, 'w) FdState" where
  "on_files f w = w\<lparr>fd_world := f (fd_world w)\<rparr>"

text \<open>The first use of the table puts stdin and two times stdout into it; the \<open>unwrap\<close> of each \<open>add_at\<close> may panic.\<close>

definition fd_table_init :: "'b BitmapOps \<Rightarrow> 'f \<Rightarrow> 'f \<Rightarrow> 'f \<Rightarrow> ('f, 'b) FlattenObjects outcome" where
  "fd_table_init B stdin stdout stderr =
     (let add = (\<lambda>i f t. out_then (fo_add_at B AX_FILE_LIMIT i f t) (\<lambda>(r, t). case r of None \<Rightarrow> Panic | Some _ \<Rightarrow> Ret t))
      in out_then (fo_new B AX_FILE_LIMIT) (\<lambda>t. out_then (add 0 stdin t) (\<lambda>t. out_then (add 1 stdout t) (add 2 stderr))))"

definition get_file_like :: "'b BitmapOps \<Rightarrow> ('f, 'w, 'st) FileLike \<Rightarrow> c_int \<Rightarrow> ('f, 'b, 'w) FdState
    \<Rightarrow> ((LinuxError, 'f) result \<times> ('f, 'b, 'w) FdState) outcome" where
  "get_file_like B FL fd w =
     out_then (fo_get B AX_FILE_LIMIT (scast fd) (FD_TABLE w)) (\<lambda>r.
       case r of None \<Rightarrow> Ret (Err EBADF, w) | Some f \<Rightarrow> Ret (Ok f, on_files (fl_clone FL f) w))"

text \<open>An object that is not taken into the table is dropped.\<close>

definition add_file_like :: "'b BitmapOps \<Rightarrow> ('f, 'w, 'st) FileLike \<Rightarrow> 'f \<Rightarrow> ('f, 'b, 'w) FdState
    \<Rightarrow> ((LinuxError, c_int) result \<times> ('f, 'b, 'w) FdState) outcome" where
  "add_file_like B FL f w =
     out_then (fo_add B AX_FILE_LIMIT f (FD_TABLE w)) (\<lambda>(r, t).
       let w = w\<lparr>FD_TABLE := t\<rparr>
       in case r of None \<Rightarrow> Ret (Err EMFILE, on_files (fl_drop FL f) w) | Some i \<Rightarrow> Ret (Ok (ucast i), w))"

definition close_file_like :: "'b BitmapOps \<Rightarrow> ('f, 'w, 'st) FileLike \<Rightarrow> c_int \<Rightarrow> ('f, 'b, 'w) FdState
    \<Rightarrow> ((LinuxError, unit) result \<times> ('f, 'b, 'w) FdState) outcome" where
  "close_file_like B FL fd w =
     out_then (fo_remove B AX_FILE_LIMIT (scast fd) (FD_TABLE w)) (\<lambda>(r, t).
       let w = w\<lparr>FD_TABLE := t\<rparr>
       in case r of None \<Rightarrow> Ret (Err EBADF, w) | Some f \<Rightarrow> Ret (Ok (), on_files (fl_drop FL f) w))"

text \<open>The macro \<open>ax_call_body\<close>: an error sets \<open>errno\<close> and the call gives -1.\<close>

fun ax_call_body :: "(LinuxError, 'n::len word) result \<times> ('f, 'b, 'w) FdState \<Rightarrow> 'n word \<times> ('f, 'b, 'w) FdState" where
  "ax_call_body (Inr v, w) = (v, w)"
| "ax_call_body (Inl e, w) = (- 1, w\<lparr>errno := of_int (code e)\<rparr>)"

definition call_body :: "((LinuxError, 'n::len word) result \<times> ('f, 'b, 'w) FdState) outcome \<Rightarrow> ('n word \<times> ('f, 'b, 'w) FdState) outcome" where
  "call_body r = out_then r (\<lambda>x. Ret (ax_call_body x))"

text \<open>The operator \<open>?\<close> in a call that may panic.\<close>

definition fd_try :: "((LinuxError, 'a) result \<times> 's) outcome \<Rightarrow> ('a \<Rightarrow> 's \<Rightarrow> ((LinuxError, 'c) result \<times> 's) outcome)
    \<Rightarrow> ((LinuxError, 'c) result \<times> 's) outcome" where
  "fd_try r f = out_then r (\<lambda>(x, w). case x of Inl e \<Rightarrow> Ret (Err e, w) | Inr a \<Rightarrow> f a w)"

definition ax_close :: "'b BitmapOps \<Rightarrow> ('f, 'w, 'st) FileLike \<Rightarrow> c_int \<Rightarrow> ('f, 'b, 'w) FdState \<Rightarrow> (c_int \<times> ('f, 'b, 'w) FdState) outcome" where
  "ax_close B FL fd w =
     (if 0 \<le> sint fd \<and> sint fd < 2 then Ret (0, w)
      else call_body (fd_try (close_file_like B FL fd w) (\<lambda>_ w. Ret (Ok 0, w))))"

text \<open>
  \<open>ax_read\<close> and \<open>ax_write\<close>: a null pointer is \<open>None\<close>. The object is dropped after its method has returned.
\<close>

definition ax_read :: "'b BitmapOps \<Rightarrow> ('f, 'w, 'st) FileLike \<Rightarrow> c_int \<Rightarrow> u8 list option \<Rightarrow> ('f, 'b, 'w) FdState
    \<Rightarrow> ((64 word \<times> ('f, 'b, 'w) FdState) \<times> u8 list) outcome option" where
  "ax_read B FL fd buf w =
     (case buf of
        None \<Rightarrow> Some (Ret (ax_call_body (Err EFAULT, w), []))
      | Some dst \<Rightarrow>
          (case get_file_like B FL fd w of
             Panic \<Rightarrow> Some Panic
           | Ret (Inl e, w) \<Rightarrow> Some (Ret (ax_call_body (Err e, w), dst))
           | Ret (Inr f, w) \<Rightarrow>
               Option.bind (fl_read FL f dst (fd_world w)) (\<lambda>out. Some (out_then out (\<lambda>((r, dst), v).
                 Ret (ax_call_body (map_sum (\<lambda>e. e) of_nat r, on_files (fl_drop FL f) (w\<lparr>fd_world := v\<rparr>)), dst))))))"

definition ax_write :: "'b BitmapOps \<Rightarrow> ('f, 'w, 'st) FileLike \<Rightarrow> c_int \<Rightarrow> u8 list option \<Rightarrow> ('f, 'b, 'w) FdState
    \<Rightarrow> (64 word \<times> ('f, 'b, 'w) FdState) outcome option" where
  "ax_write B FL fd buf w =
     (case buf of
        None \<Rightarrow> Some (Ret (ax_call_body (Err EFAULT, w)))
      | Some src \<Rightarrow>
          (case get_file_like B FL fd w of
             Panic \<Rightarrow> Some Panic
           | Ret (Inl e, w) \<Rightarrow> Some (Ret (ax_call_body (Err e, w)))
           | Ret (Inr f, w) \<Rightarrow>
               Option.bind (fl_write FL f src (fd_world w)) (\<lambda>out. Some (out_then out (\<lambda>(r, v).
                 Ret (ax_call_body (map_sum (\<lambda>e. e) of_nat r, on_files (fl_drop FL f) (w\<lparr>fd_world := v\<rparr>))))))))"

text \<open>\<open>ax_fstat\<close>: \<open>buf\<close> tells whether the pointer is valid; what is written to it is the second result.\<close>

definition ax_fstat :: "'b BitmapOps \<Rightarrow> ('f, 'w, 'st) FileLike \<Rightarrow> c_int \<Rightarrow> bool \<Rightarrow> ('f, 'b, 'w) FdState
    \<Rightarrow> ((64 word \<times> ('f, 'b, 'w) FdState) \<times> 'st option) outcome" where
  "ax_fstat B FL fd buf w =
     (if \<not> buf then Ret (ax_call_body (Err EFAULT, w), None)
      else out_then (get_file_like B FL fd w) (\<lambda>(r, w).
        case r of
          Inl e \<Rightarrow> Ret (ax_call_body (Err e, w), None)
        | Inr f \<Rightarrow>
            let (st, v) = fl_stat FL f (fd_world w); w = on_files (fl_drop FL f) (w\<lparr>fd_world := v\<rparr>)
            in case st of
                 Inl e \<Rightarrow> Ret (ax_call_body (Err e, w), None)
               | Inr st \<Rightarrow> Ret (ax_call_body (Ok 0, w), Some st)))"

definition dup_fd :: "'b BitmapOps \<Rightarrow> ('f, 'w, 'st) FileLike \<Rightarrow> c_int \<Rightarrow> ('f, 'b, 'w) FdState
    \<Rightarrow> ((LinuxError, c_int) result \<times> ('f, 'b, 'w) FdState) outcome" where
  "dup_fd B FL old_fd w = fd_try (get_file_like B FL old_fd w) (add_file_like B FL)"

definition ax_dup :: "'b BitmapOps \<Rightarrow> ('f, 'w, 'st) FileLike \<Rightarrow> c_int \<Rightarrow> ('f, 'b, 'w) FdState \<Rightarrow> (c_int \<times> ('f, 'b, 'w) FdState) outcome" where
  "ax_dup B FL old_fd w = call_body (dup_fd B FL old_fd w)"

text \<open>The constants of the C headers.\<close>

record FcntlConsts =
  F_DUPFD :: u32
  F_DUPFD_CLOEXEC :: u32
  F_SETFL :: u32
  F_SETFD :: u32
  FD_CLOEXEC :: u32
  O_NONBLOCK :: u32
  O_CLOEXEC :: u32

definition ax_fcntl :: "FcntlConsts \<Rightarrow> 'b BitmapOps \<Rightarrow> ('f, 'w, 'st) FileLike \<Rightarrow> c_int \<Rightarrow> c_int \<Rightarrow> usize \<Rightarrow> ('f, 'b, 'w) FdState
    \<Rightarrow> (c_int \<times> ('f, 'b, 'w) FdState) outcome" where
  "ax_fcntl K B FL fd cmd arg w =
     call_body
       (if cmd = F_DUPFD K then dup_fd B FL fd w
        else if cmd = F_DUPFD_CLOEXEC K then dup_fd B FL fd w
        else if cmd = F_SETFL K
        then fd_try (get_file_like B FL fd w) (\<lambda>f w.
               let (r, v) = fl_set_nonblocking FL f (0 < (arg AND ucast (O_NONBLOCK K))) (fd_world w);
                   w = on_files (fl_drop FL f) (w\<lparr>fd_world := v\<rparr>)
               in case r of Inl e \<Rightarrow> Ret (Err e, w) | Inr _ \<Rightarrow> Ret (Ok 0, w))
        else Ret (Ok 0, w))"

definition ax_dup3 :: "FcntlConsts \<Rightarrow> 'b BitmapOps \<Rightarrow> ('f, 'w, 'st) FileLike \<Rightarrow> c_int \<Rightarrow> c_int \<Rightarrow> c_int \<Rightarrow> ('f, 'b, 'w) FdState
    \<Rightarrow> (c_int \<times> ('f, 'b, 'w) FdState) outcome" where
  "ax_dup3 K B FL old_fd new_fd flags w =
     call_body
       (if old_fd = new_fd then Ret (Err EINVAL, w)
        else if AX_FILE_LIMIT \<le> (scast new_fd :: usize) then Ret (Err EBADF, w)
        else fd_try (get_file_like B FL old_fd w) (\<lambda>f w.
          out_then (fo_add_at B AX_FILE_LIMIT (scast new_fd) f (FD_TABLE w)) (\<lambda>(r, t).
            let w = w\<lparr>FD_TABLE := t\<rparr>
            in case r of
                 None \<Rightarrow> Ret (Err EMFILE, on_files (fl_drop FL f) w)
               | Some _ \<Rightarrow>
                   if flags AND O_CLOEXEC K \<noteq> 0
                   then out_then (ax_fcntl K B FL new_fd (F_SETFD K) (ucast (FD_CLOEXEC K)) w) (\<lambda>(_, w). Ret (Ok new_fd, w))
                   else Ret (Ok new_fd, w))))"

text \<open>\<open>ax_pipe\<close>: \<open>pipe_arcs\<close> makes the two ends; the two descriptors are written to the pointers when the call succeeds.\<close>

definition ax_pipe :: "'b BitmapOps \<Rightarrow> ('f, 'w, 'st) FileLike \<Rightarrow> ('w \<Rightarrow> 'f \<times> 'f \<times> 'w) \<Rightarrow> ('f, 'b, 'w) FdState
    \<Rightarrow> ((c_int \<times> ('f, 'b, 'w) FdState) \<times> (c_int \<times> c_int) option) outcome" where
  "ax_pipe B FL pipe_arcs w =
     (let (read_end, write_end, v) = pipe_arcs (fd_world w)
      in out_then (add_file_like B FL read_end (w\<lparr>fd_world := v\<rparr>)) (\<lambda>(r, w).
        case r of
          Inl e \<Rightarrow> Ret (ax_call_body (Err e, on_files (fl_drop FL write_end) w), None)
        | Inr read_fd \<Rightarrow>
            out_then (add_file_like B FL write_end w) (\<lambda>(r, w).
              case r of
                Inl e \<Rightarrow> out_then (close_file_like B FL read_fd w) (\<lambda>(_, w). Ret (ax_call_body (Err e, w), None))
              | Inr write_fd \<Rightarrow> Ret (ax_call_body (Ok 0, w), Some (read_fd, write_fd)))))"

section \<open>The table after each call\<close>

text \<open>A descriptor of the table as a C integer and back.\<close>

lemma fd_small: "i < 1024 \<Longrightarrow> (ucast (of_nat i :: usize) :: c_int) = of_nat i \<and> (scast (of_nat i :: c_int) :: usize) = of_nat i"
  by (simp add: unsigned_of_nat signed_of_nat take_bit_nat_eq_self signed_take_bit_int_eq_self)

text \<open>The least free descriptor of a table.\<close>

abbreviation free_fd :: "'f option list \<Rightarrow> nat option" where
  "free_fd xs \<equiv> position (\<lambda>y. y = None) xs"

lemma one_free:
  assumes "i < length xs" "xs ! i = None" "free_fd (xs[i := Some x]) = None"
  shows "length (filter (\<lambda>y. y = None) xs) < 2"
proof -
  have "filter (\<lambda>y. y = None) (xs[i := Some x]) = []" using assms(3) by (simp add: position_none filter_empty_conv)
  then have "filter (\<lambda>y. y = None) (take i xs) = [] \<and> filter (\<lambda>y. y = None) (drop (Suc i) xs) = []"
    by (simp add: upd_conv_take_nth_drop assms(1))
  then have "filter (\<lambda>y. y = None) (take i xs @ xs ! i # drop (Suc i) xs) = [None]" using assms(2) by simp
  then show ?thesis using id_take_nth_drop [OF assms(1)] by simp
qed

context bitmap
begin

lemma add_file_like_spec:
  assumes "fo_inv B AX_FILE_LIMIT (FD_TABLE w)"
  shows "\<exists>r w'. add_file_like B FL f w = Ret (r, w') \<and> fo_inv B AX_FILE_LIMIT (FD_TABLE w') \<and> errno w' = errno w \<and>
    (case free_fd (fo_abs B (FD_TABLE w)) of
       None \<Rightarrow> r = Err EMFILE \<and> fo_abs B (FD_TABLE w') = fo_abs B (FD_TABLE w) \<and> fd_world w' = fl_drop FL f (fd_world w)
     | Some i \<Rightarrow> r = Ok (of_nat i) \<and> fo_abs B (FD_TABLE w') = (fo_abs B (FD_TABLE w))[i := Some f] \<and> fd_world w' = fd_world w)"
proof -
  obtain r t where a: "fo_add B AX_FILE_LIMIT f (FD_TABLE w) = Ret (r, t)"
    using fo_add_returns [of B AX_FILE_LIMIT f "FD_TABLE w"] by blast
  note sp = add_spec [OF assms a]
  show ?thesis
  proof (cases "free_fd (fo_abs B (FD_TABLE w))")
    case None
    then show ?thesis using a sp by (auto simp: add_file_like_def on_files_def)
  next
    case (Some i)
    then have "i < 1024" using position_some [OF Some] assms by (simp add: fo_inv_def)
    then show ?thesis using Some a sp fd_small [of i] by (auto simp: add_file_like_def on_files_def)
  qed
qed

lemma close_file_like_spec:
  assumes "fo_inv B AX_FILE_LIMIT (FD_TABLE w)" "i < 1024" "fo_abs B (FD_TABLE w) ! i = Some f"
  shows "\<exists>w'. close_file_like B FL (of_nat i) w = Ret (Ok (), w') \<and> fo_inv B AX_FILE_LIMIT (FD_TABLE w') \<and> errno w' = errno w \<and>
    fo_abs B (FD_TABLE w') = (fo_abs B (FD_TABLE w))[i := None] \<and> fd_world w' = fl_drop FL f (fd_world w)"
proof -
  have i: "unat (of_nat i :: usize) = i" "i < length (fo_abs B (FD_TABLE w))" using assms(1,2) by (simp_all add: unat_of_nat fo_inv_def)
  have "case fo_remove B AX_FILE_LIMIT (of_nat i) (FD_TABLE w) of
      Panic \<Rightarrow> False
    | Ret (r, t) \<Rightarrow> r = Some f \<and> fo_abs B t = (fo_abs B (FD_TABLE w))[i := None] \<and> fo_inv B AX_FILE_LIMIT t"
    using run_spec [OF assms(1), of "FoRemove (of_nat i)"] i assms(3) by (auto split: outcome.splits)
  then show ?thesis using fd_small [OF assms(2)] by (auto simp: close_file_like_def on_files_def split: outcome.splits)
qed

lemma get_file_like_spec:
  assumes "fo_inv B AX_FILE_LIMIT (FD_TABLE w)" "i < 1024"
  shows "get_file_like B FL (of_nat i) w = Ret (case fo_abs B (FD_TABLE w) ! i of
      None \<Rightarrow> (Err EBADF, w) | Some f \<Rightarrow> (Ok f, on_files (fl_clone FL f) w))"
proof -
  have i: "unat (of_nat i :: usize) = i" "i < length (fo_abs B (FD_TABLE w))" using assms by (simp_all add: unat_of_nat fo_inv_def)
  have "fo_get B AX_FILE_LIMIT (of_nat i) (FD_TABLE w) = Ret (fo_abs B (FD_TABLE w) ! i)"
    using run_spec [OF assms(1), of "FoGet (of_nat i)"] i by (cases "fo_get B AX_FILE_LIMIT (of_nat i) (FD_TABLE w)") auto
  then show ?thesis using fd_small [OF assms(2)] by (auto simp: get_file_like_def split: option.splits)
qed

text \<open>\<open>ax_dup\<close> gives the least free descriptor for the same object.\<close>

lemma ax_dup_spec:
  assumes "fo_inv B AX_FILE_LIMIT (FD_TABLE w)" "i < 1024" "fo_abs B (FD_TABLE w) ! i = Some f" "free_fd (fo_abs B (FD_TABLE w)) = Some j"
  shows "\<exists>w'. ax_dup B FL (of_nat i) w = Ret (of_nat j, w') \<and> fo_inv B AX_FILE_LIMIT (FD_TABLE w') \<and>
    fo_abs B (FD_TABLE w') = (fo_abs B (FD_TABLE w))[j := Some f] \<and> fd_world w' = fl_clone FL f (fd_world w)"
proof -
  let ?w = "on_files (fl_clone FL f) w"
  have "FD_TABLE ?w = FD_TABLE w" by (simp add: on_files_def)
  then show ?thesis
    using add_file_like_spec [of ?w FL f] assms get_file_like_spec [OF assms(1,2), of FL]
    by (auto simp: ax_dup_def dup_fd_def fd_try_def call_body_def) (auto simp: on_files_def)
qed

text \<open>\<open>ax_dup3\<close> onto a descriptor that is in use fails and changes nothing but \<open>errno\<close>.\<close>

lemma ax_dup3_in_use:
  assumes "fo_inv B AX_FILE_LIMIT (FD_TABLE w)" "i < 1024" "j < 1024" "i \<noteq> j"
    and "fo_abs B (FD_TABLE w) ! i = Some f" "fo_abs B (FD_TABLE w) ! j \<noteq> None"
  shows "\<exists>w'. ax_dup3 K B FL (of_nat i) (of_nat j) flags w = Ret (- 1, w') \<and> errno w' = 24 \<and>
    fo_abs B (FD_TABLE w') = fo_abs B (FD_TABLE w) \<and> fd_world w' = fl_drop FL f (fl_clone FL f (fd_world w))"
proof -
  let ?w = "on_files (fl_clone FL f) w"
  have t: "FD_TABLE ?w = FD_TABLE w" by (simp add: on_files_def)
  have j: "unat (of_nat j :: usize) = j" "j < length (fo_abs B (FD_TABLE w))" "(of_nat i :: c_int) \<noteq> of_nat j" "(of_nat j :: usize) < 1024"
    using assms(1-4) by (auto simp: unat_of_nat fo_inv_def word_unat_eq_iff word_less_nat_alt)
  have "fo_add_at B AX_FILE_LIMIT (of_nat j) f (FD_TABLE w) = Ret (None, FD_TABLE w)"
    using assigned_iff [OF assms(1), of "of_nat j"] j assms(6) by (simp add: fo_add_at_def)
  then show ?thesis
    using get_file_like_spec [OF assms(1,2), of FL] fd_small [OF assms(3)] j t assms(5)
    by (auto simp: ax_dup3_def fd_try_def call_body_def on_files_def not_le [symmetric])
qed

text \<open>Two objects are added one after the other: there is no room for either, for one of them only, which is then closed again, or for both.\<close>

lemma add_two_files:
  assumes "fo_inv B AX_FILE_LIMIT (FD_TABLE w)"
  obtains
    (none) w1 where "add_file_like B FL f w = Ret (Err EMFILE, w1)" "fo_inv B AX_FILE_LIMIT (FD_TABLE w1)"
      "fo_abs B (FD_TABLE w1) = fo_abs B (FD_TABLE w)" "length (filter (\<lambda>y. y = None) (fo_abs B (FD_TABLE w))) < 2"
      "fd_world w1 = fl_drop FL f (fd_world w)"
  | (one) i w1 w2 w3 where "add_file_like B FL f w = Ret (Ok (of_nat i), w1)" "add_file_like B FL g w1 = Ret (Err EMFILE, w2)"
      "close_file_like B FL (of_nat i) w2 = Ret (Ok (), w3)" "fo_inv B AX_FILE_LIMIT (FD_TABLE w3)"
      "fo_abs B (FD_TABLE w3) = fo_abs B (FD_TABLE w)" "length (filter (\<lambda>y. y = None) (fo_abs B (FD_TABLE w))) < 2"
      "fd_world w3 = fl_drop FL f (fl_drop FL g (fd_world w))"
  | (two) i j w1 w2 where "add_file_like B FL f w = Ret (Ok (of_nat i), w1)" "add_file_like B FL g w1 = Ret (Ok (of_nat j), w2)"
      "i < 1024" "j < 1024" "i \<noteq> j" "fo_abs B (FD_TABLE w) ! i = None" "fo_abs B (FD_TABLE w) ! j = None" "fo_inv B AX_FILE_LIMIT (FD_TABLE w2)"
      "fo_abs B (FD_TABLE w2) = (fo_abs B (FD_TABLE w))[i := Some f, j := Some g]" "fd_world w2 = fd_world w"
proof (cases "free_fd (fo_abs B (FD_TABLE w))")
  case None
  then have "filter (\<lambda>y. y = None) (fo_abs B (FD_TABLE w)) = []" by (simp add: position_none filter_empty_conv)
  then show thesis using none add_file_like_spec [OF assms, of FL f] None by auto
next
  case (Some i)
  let ?xs = "fo_abs B (FD_TABLE w)" let ?ys = "?xs[i := Some f]"
  have i: "i < length ?xs" "?xs ! i = None" "i < 1024" using position_some [OF Some] assms by (auto simp: fo_inv_def)
  obtain w1 where w1: "add_file_like B FL f w = Ret (Ok (of_nat i), w1)" "fo_inv B AX_FILE_LIMIT (FD_TABLE w1)"
    "fo_abs B (FD_TABLE w1) = ?ys" "fd_world w1 = fd_world w"
    using add_file_like_spec [OF assms, of FL f] Some by auto
  note second = add_file_like_spec [OF w1(2), of FL g, unfolded w1(3,4)]
  show thesis
  proof (cases "free_fd ?ys")
    case None
    then obtain w2 where w2: "add_file_like B FL g w1 = Ret (Err EMFILE, w2)" "fo_inv B AX_FILE_LIMIT (FD_TABLE w2)"
      "fo_abs B (FD_TABLE w2) = ?ys" "fd_world w2 = fl_drop FL g (fd_world w)" using second by auto
    have "?ys[i := None] = ?xs" using i by (simp add: list_update_same_conv)
    then show thesis
      using one [OF w1(1) w2(1)] close_file_like_spec [OF w2(2) i(3), of f FL] w2(3,4) i(1) one_free [OF i(1,2) None] by auto
  next
    case (Some j)
    then have j: "j < length ?xs" "?ys ! j = None" using position_some [OF Some] by auto
    then have "j \<noteq> i" "?xs ! j = None" "j < 1024" using i assms by (auto simp: nth_list_update fo_inv_def split: if_splits)
    then show thesis using two [OF w1(1)] second Some i by auto
  qed
qed

end

text \<open>
  C40: \<open>ax_pipe\<close> never panics. It gives two different descriptors that were free, for the read and the write end; or, when
  there are not two free descriptors, it gives -1 with \<open>EMFILE\<close>, has dropped both ends and leaves the table as it was.
  Every other descriptor keeps its object.
\<close>

theorem ax_pipe_spec:
  assumes "bitmap B" "fo_inv B AX_FILE_LIMIT (FD_TABLE w)" "pipe_arcs (fd_world w) = (read_end, write_end, v)"
  defines "xs \<equiv> fo_abs B (FD_TABLE w)"
  shows "\<exists>ret w' fds. ax_pipe B FL pipe_arcs w = Ret ((ret, w'), fds) \<and> fo_inv B AX_FILE_LIMIT (FD_TABLE w') \<and>
    (case fds of
       Some (r, s) \<Rightarrow> ret = 0 \<and> fd_world w' = v \<and> (\<exists>i<1024. \<exists>j<1024. r = of_nat i \<and> s = of_nat j \<and> i \<noteq> j \<and> xs ! i = None \<and> xs ! j = None \<and>
         fo_abs B (FD_TABLE w') = xs[i := Some read_end, j := Some write_end])
     | None \<Rightarrow> ret = - 1 \<and> errno w' = 24 \<and> fo_abs B (FD_TABLE w') = xs \<and> length (filter (\<lambda>y. y = None) xs) < 2 \<and>
         (fd_world w' = fl_drop FL write_end (fl_drop FL read_end v) \<or> fd_world w' = fl_drop FL read_end (fl_drop FL write_end v)))"
proof -
  let ?w = "w\<lparr>fd_world := v\<rparr>"
  have inv: "fo_inv B AX_FILE_LIMIT (FD_TABLE ?w)" using assms(2) by simp
  have w: "fo_abs B (FD_TABLE ?w) = xs" "fd_world ?w = v" by (simp_all add: xs_def)
  from assms(1) inv show ?thesis
  proof (cases rule: bitmap.add_two_files [where FL = FL and f = read_end and g = write_end, consumes 2, case_names none one two])
    case (none w1)
    then show ?thesis using assms(3) unfolding w by (simp add: ax_pipe_def on_files_def)
  next
    case (one i w1 w2 w3)
    then show ?thesis using assms(3) unfolding w by (auto simp: ax_pipe_def)
  next
    case (two i j w1 w2)
    then show ?thesis using assms(3) unfolding w by (auto simp: ax_pipe_def)
  qed
qed

text \<open>Files that nothing can be read from, whose references are not counted.\<close>

definition null_file :: "(char, unit, unit) FileLike" where
  "null_file = \<lparr>fl_read = (\<lambda>f buf w. Some (Ret ((Ok 0, buf), w))), fl_write = (\<lambda>f buf w. Some (Ret (Ok (length buf), w))),
     fl_stat = (\<lambda>f w. (Ok (), w)), fl_set_nonblocking = (\<lambda>f b w. (Ok (), w)), fl_clone = (\<lambda>f w. w), fl_drop = (\<lambda>f w. w)\<rparr>"

theorem ax_pipe_spec_witness:
  "\<exists>w' fds. ax_pipe set_bitmap null_file (\<lambda>v. (CHR ''r'', CHR ''w'', v))
     \<lparr>FD_TABLE = \<lparr>fo_objects = replicate 1024 None, fo_id_bitmap = [], fo_count = 0\<rparr>, errno = 0, fd_world = ()\<rparr> = Ret ((0, w'), Some fds)"
proof -
  let ?t = "\<lparr>fo_objects = replicate 1024 None, fo_id_bitmap = [], fo_count = 0\<rparr> :: (char, usize list) FlattenObjects"
  let ?w = "\<lparr>FD_TABLE = ?t, errno = 0, fd_world = ()\<rparr>"
  have "fo_new set_bitmap AX_FILE_LIMIT = Ret ?t" by (simp add: fo_new_def set_bitmap_def)
  then have inv: "fo_inv set_bitmap AX_FILE_LIMIT (FD_TABLE ?w)" and abs: "fo_abs set_bitmap (FD_TABLE ?w) = replicate 1024 None"
    using listed.new_inv [of AX_FILE_LIMIT ?t] by simp_all
  show ?thesis
    using ax_pipe_spec [OF listed.bitmap_axioms inv, of "\<lambda>v. (CHR ''r'', CHR ''w'', v)" "CHR ''r''" "CHR ''w''" "()" null_file]
    unfolding abs by (fastforce split: option.splits)
qed

end
