(* ===== verification/Spec2Isabelle.thy ===== *)
theory Spec2Isabelle
  imports KernelMem AxSync AxFsRam FdOps
begin

text \<open>
  A verification of the core of ArceOS, a modular unikernel in Rust (src/). The crates under src/crates are libraries that know
  nothing of the kernel, the modules under src/modules are the kernel, and src/ulib is what programs see of it. The development
  models the memory management, the multi-tasking, the file system and the file descriptors of the C interface, from the data
  structures up to the calls, each over the parts below it as the code composes them.

  \<^bold>\<open>Conventions.\<close> \<open>usize\<close> is a 64-bit word and arithmetic on it wraps around, as in a release build for a 64-bit target
  (Prelude). A function that returns a \<open>Result\<close> gives \<open>Err\<close> or \<open>Ok\<close>; one that can panic gives an \<open>outcome\<close>, \<open>Ret\<close> or
  \<open>Panic\<close>, and what is undefined behaviour in unsafe code is \<open>Panic\<close> as well. State is passed explicitly. A trait is a record of
  its functions, an implementation is a value of that record, and what the users of a trait rely on is a locale that is
  interpreted for the implementations. An \<open>Arc\<close> is an index of an object that holds its count of references. Third-party
  code (the flag sets of \<open>bitflags\<close>, the bitmaps, the buddy heap, the constants that the build generates) is a parameter,
  with its documented behaviour as a locale or a predicate and a concrete instance for the witnesses.

  \<^bold>\<open>Memory.\<close>
  \<^item> MemoryAddr (crates/memory_addr): \<open>align_down\<close>, \<open>align_up\<close> and the address types. They give the greatest and the least
    aligned address, where that does not overflow.
  \<^item> Bitflags, PageTableEntry (crates/page_table_entry): the entries of AArch64, RISC-V and x86-64 with their flags (\<open>A64\<close>,
    \<open>Rv64\<close>, \<open>X64\<close>). Frame, flags and kind are read back from an entry as they were put in; the contract is \<open>generic_pte\<close>.
  \<^item> PageTable64, PageTableRegion (crates/page_table): \<open>map_page\<close>, \<open>unmap\<close>, \<open>query\<close>, \<open>map_region\<close>, \<open>unmap_region\<close> and \<open>drop_table\<close>
    over any entry, three or four levels and any interface to the system. The locale \<open>page_table\<close> relates the tables to a map
    from addresses to pages; on it rest what \<open>query\<close> gives after each operation, the error paths, the round trip of regions and
    that dropping a table gives back all its frames.
  \<^item> PageAlloc (crates/allocator: lib.rs, bitmap.rs), SlabAlloc (crates/slab_allocator), GlobalAlloc (allocator: slab.rs,
    buddy.rs; modules/axalloc): the page allocator, the slabs with their lists threaded through the free blocks, and the global
    allocator over both. Blocks that are handed out were free and do not overlap; an allocation always returns.
  \<^item> KernelMem (modules/axhal: mem.rs, paging.rs, platform; modules/axruntime: init_allocator, remap_kernel_memory): the
    regions of each platform, page tables whose frames come from the global allocator, and the page table of the kernel.

  \<^bold>\<open>Tasks.\<close>
  \<^item> LinkedList (crates/linked_list): the intrusive list at the level of its pointers, shown to be a sequence (\<open>dlist\<close>).
  \<^item> BTreeMap (standard library), Scheduler (crates/scheduler): FIFO, round robin and CFS with the contract \<open>base_scheduler\<close>.
  \<^item> TimerList (crates/timer_list): the heap of timed events.
  \<^item> AxTask (modules/axtask): task objects, run queue, wait queues, timers and the calls of the interface, for any scheduler and
    any number of CPUs; the state is \<open>Kernel\<close>. AxTaskInv states the invariant \<open>rq_inv\<close> and shows that the operations keep it,
    AxTaskOps and AxTaskNew do the same for the calls. AxTaskCalls has the step relation \<open>reached\<close>, in which the CPUs make calls in
    any order: every state that is reached satisfies the invariant and no call panics. It also shows which tasks an exit and a
    timer interrupt wake up.
  \<^item> AxSync (modules/axsync): the mutex over axtask, with its atomic operations as steps (\<open>mutex_run\<close>) and mutual exclusion.

  \<^bold>\<open>Files.\<close>
  \<^item> AxErrno (crates/axerrno): the errors. Capability (crates/capability): an object with access rights.
  \<^item> Vfs (crates/axfs_vfs): paths, attributes, directory entries and the traits of file systems and nodes.
  \<^item> RamFs, RamFsRefine, RamFsRuns (crates/axfs_ramfs): the file system in memory. It refines a map from paths to entries
    (\<open>spec_resolve\<close>, \<open>spec_create\<close>, \<open>spec_remove\<close>) under all sequences of calls.
  \<^item> Axio, AxioBuf (crates/axio): the provided methods of the traits for reading and writing, and \<open>BufReader\<close>, which is a
    source of the same bytes as what it wraps (\<open>stream_reader\<close>, \<open>buffered_reader\<close>).
  \<^item> AxFsRoot, AxFsFops, AxFsApi (modules/axfs: root.rs, fops.rs, api): mounts and paths, open files with their rights, and the
    interface, over any file system. AxFsRam puts them on top of the file system in memory: a file that is written is read
    back, and rights are respected.

  \<^bold>\<open>The C interface.\<close>
  \<^item> FlattenObjects (crates/flatten_objects): the numbered objects behind the file descriptors refine an array of places.
  \<^item> Pipe, FdOps (ulib/libax/src/cbindings: pipe.rs, fd_ops.rs): pipes under every interleaving of a reader and a writer, and the
    calls on descriptors.

  \<^bold>\<open>Loops and bounds.\<close> A loop whose end is not evident is a \<open>partial_function\<close> with \<open>None\<close> for not returning, and its theorems
  state that it returns: \<open>map_region_loop\<close>, \<open>unmap_region\<close>, \<open>ga_alloc\<close>, \<open>guard_release\<close>, \<open>check_events\<close>, \<open>list_drop\<close>,
  \<open>read_to_end_loop\<close> and others. Only two observers take fuel, \<open>iterate\<close> (LinkedList) and \<open>drain\<close> (Scheduler); more than the
  number of entries is enough. A loop that waits for other tasks (\<open>wait_until_once\<close>, \<open>mutex_lock_once\<close>, \<open>pipe_read_round\<close>) is given
  round by round, with the steps of the others in between. The bitmap of the
  page allocator has 1048576 bits in the witnesses, as the type that the code uses, and that of FlattenObjects has 1024.

  \<^bold>\<open>Not modelled.\<close>
  \<^item> Registers, assembly, traps and interrupt controllers (axhal: arch, platform), device drivers (driver_*, arm_*, axdriver) and
    what only passes on their data (axdisplay, axlog, modules/axfs/src/dev.rs): their effect is I/O.
  \<^item> Spin locks, \<open>kernel_guard\<close>, \<open>percpu\<close>: what they protect is one step in the models, and weak memory orderings do not occur.
  \<^item> axnet and the adapter of fatfs: the state is inside third-party libraries.
  \<^item> The hypervisor feature (axtask: hv, axruntime: gpm.rs, apps/hv): it is built on the submodule hypercraft, which is not in
    the tree.
  \<^item> axfs_devfs, lazy_init, handler_table, ratio, the procedural macros, and the C bindings other than pipes and descriptors, which
    pass their arguments on through generated types.
  \<^item> Logging, formatting and debug output everywhere.
\<close>

end
